(* ===== verification/Prelude.thy ===== *)
theory Prelude imports "HOL-Library.Word" "HOL-Library.AList" begin

text \<open>
  What the components share: the machine types, the Linux error numbers the code
  compares against, byte strings and their little-endian words, the Lua values the
  native module builds, the answers of a blocking system call, and the interface a
  fixed-width byte codec promises (locale \<open>codec\<close>).
\<close>

unbundle bit_operations_syntax

named_theorems le_simps "little-endian words at the front of a byte string"

section \<open>Machine types and error numbers\<close>

type_synonym byte = "8 word"
type_synonym u16 = "16 word"
type_synonym u32 = "32 word"
type_synonym u64 = "64 word"
type_synonym errno = int

abbreviation (input) EPERM :: errno where "EPERM \<equiv> 1"
abbreviation (input) ENOENT :: errno where "ENOENT \<equiv> 2"
abbreviation (input) ESRCH :: errno where "ESRCH \<equiv> 3"
abbreviation (input) EINTR :: errno where "EINTR \<equiv> 4"
abbreviation (input) EIO :: errno where "EIO \<equiv> 5"
abbreviation (input) E2BIG :: errno where "E2BIG \<equiv> 7"
abbreviation (input) ECHILD :: errno where "ECHILD \<equiv> 10"
abbreviation (input) EAGAIN :: errno where "EAGAIN \<equiv> 11"
abbreviation (input) EWOULDBLOCK :: errno where "EWOULDBLOCK \<equiv> 11"
abbreviation (input) ENOMEM :: errno where "ENOMEM \<equiv> 12"
abbreviation (input) EACCES :: errno where "EACCES \<equiv> 13"
abbreviation (input) EBUSY :: errno where "EBUSY \<equiv> 16"
abbreviation (input) EINVAL :: errno where "EINVAL \<equiv> 22"
abbreviation (input) ENOTTY :: errno where "ENOTTY \<equiv> 25"
abbreviation (input) EFBIG :: errno where "EFBIG \<equiv> 27"
abbreviation (input) EPIPE :: errno where "EPIPE \<equiv> 32"
abbreviation (input) ERANGE :: errno where "ERANGE \<equiv> 34"
abbreviation (input) ENOSYS :: errno where "ENOSYS \<equiv> 38"
abbreviation (input) EPROTO :: errno where "EPROTO \<equiv> 71"
abbreviation (input) EOVERFLOW :: errno where "EOVERFLOW \<equiv> 75"
abbreviation (input) EMSGSIZE :: errno where "EMSGSIZE \<equiv> 90"
abbreviation (input) EOPNOTSUPP :: errno where "EOPNOTSUPP \<equiv> 95"
abbreviation (input) ENOBUFS :: errno where "ENOBUFS \<equiv> 105"
abbreviation (input) ETIMEDOUT :: errno where "ETIMEDOUT \<equiv> 110"
abbreviation (input) ESTALE :: errno where "ESTALE \<equiv> 116"
abbreviation (input) ECANCELED :: errno where "ECANCELED \<equiv> 125"

abbreviation (input) LUA_MAXINTEGER :: int where "LUA_MAXINTEGER \<equiv> 9223372036854775807"
abbreviation (input) LUA_MININTEGER :: int where "LUA_MININTEGER \<equiv> - 9223372036854775808"
abbreviation (input) INT_MAX :: int where "INT_MAX \<equiv> 2147483647"

section \<open>Characters and bytes\<close>

definition code :: "char \<Rightarrow> nat" where
  "code c = of_char c"

definition is_digit :: "char \<Rightarrow> bool" where
  "is_digit c \<longleftrightarrow> code CHR ''0'' \<le> code c \<and> code c \<le> code CHR ''9''"

definition digit_val :: "char \<Rightarrow> int" where
  "digit_val c = int (code c) - 48"

text \<open>The six bytes the C parsers skip: space, tab, line feed, carriage return, VT, FF.\<close>

definition is_space :: "char \<Rightarrow> bool" where
  "is_space c \<longleftrightarrow> code c = 32 \<or> (9 \<le> code c \<and> code c \<le> 13)"

definition byte_of :: "char \<Rightarrow> byte" where
  "byte_of c = word_of_nat (code c)"

definition char_of_byte :: "byte \<Rightarrow> char" where
  "char_of_byte b = char_of (unat b)"

abbreviation bytes_of :: "string \<Rightarrow> byte list" where
  "bytes_of s \<equiv> map byte_of s"

abbreviation text_of :: "byte list \<Rightarrow> string" where
  "text_of bs \<equiv> map char_of_byte bs"

lemma code_less [simp]: "code c < 256"
  by (simp add: code_def)

lemma char_of_byte_of [simp]: "char_of_byte (byte_of c) = c"
  by (simp add: char_of_byte_def byte_of_def unat_of_nat code_def)

lemma byte_of_char_of [simp]: "byte_of (char_of_byte b) = b"
proof -
  have "unat b < 256" using unsigned_less [of b, where ?'a = nat] by simp
  then show ?thesis by (simp add: byte_of_def char_of_byte_def code_def)
qed

lemma text_of_bytes_of [simp]: "text_of (bytes_of s) = s"
  by (induction s) auto

lemma bytes_of_text_of [simp]: "bytes_of (text_of bs) = bs"
  by (induction bs) auto

lemma text_bytes_comp [simp]: "char_of_byte \<circ> byte_of = id" "byte_of \<circ> char_of_byte = id"
  by (simp_all add: fun_eq_iff)

lemma byte_of_inj [simp]: "byte_of c = byte_of d \<longleftrightarrow> c = d"
  by (metis char_of_byte_of)

lemma is_digit_val: "is_digit c \<Longrightarrow> 0 \<le> digit_val c \<and> digit_val c \<le> 9"
  by (simp add: is_digit_def digit_val_def code_def)

lemma is_digit_not_space: "is_digit c \<Longrightarrow> \<not> is_space c"
  by (auto simp: is_digit_def is_space_def code_def)

section \<open>Decimal numerals\<close>

definition digit_char :: "nat \<Rightarrow> char" where
  "digit_char d = char_of (48 + d)"

text \<open>What \<open>%d\<close> prints for a natural number.\<close>

fun decimal :: "nat \<Rightarrow> string" where
  "decimal n = (if n < 10 then [digit_char n] else decimal (n div 10) @ [digit_char (n mod 10)])"

declare decimal.simps [simp del]

definition digit :: "char \<Rightarrow> nat" where
  "digit c = code c - 48"

lemma code_digit_char: "d < 10 \<Longrightarrow> code (digit_char d) = 48 + d"
  by (simp add: code_def digit_char_def)

lemma is_digit_char [simp]: "d < 10 \<Longrightarrow> is_digit (digit_char d)"
  by (simp add: is_digit_def code_digit_char) (simp add: code_def)

lemma digit_digit_char [simp]: "d < 10 \<Longrightarrow> digit (digit_char d) = d"
  by (simp add: digit_def code_digit_char)

lemma digit_less: "is_digit c \<Longrightarrow> digit c < 10"
  by (auto simp: is_digit_def digit_def code_def)

lemma decimal_not_Nil [simp]: "decimal n \<noteq> []"
  by (subst decimal.simps) simp

lemma decimal_length: "n < 10 ^ Suc k \<Longrightarrow> length (decimal n) \<le> Suc k"
proof (induction k arbitrary: n)
  case (Suc k)
  have "length (decimal (n div 10)) \<le> Suc k" using Suc.prems by (intro Suc.IH) (simp add: less_mult_imp_div_less)
  then show ?case by (subst decimal.simps) simp
qed (subst decimal.simps, simp)

text \<open>A digit of \<open>%x\<close>, and \<open>n\<close> of them with leading zeros, as \<open>%0nx\<close> prints a number that fits.\<close>

definition hex_digit :: "nat \<Rightarrow> char" where
  "hex_digit d = (if d < 10 then digit_char d else char_of (87 + d))"

definition hex_fixed :: "nat \<Rightarrow> nat \<Rightarrow> string" where
  "hex_fixed n v = map (\<lambda>i. hex_digit (v div 16 ^ i mod 16)) (rev [0..<n])"

lemma code_hex_digit: "d < 16 \<Longrightarrow> code (hex_digit d) = (if d < 10 then 48 + d else 87 + d)"
  by (cases "d < 10") (simp_all add: code_def hex_digit_def digit_char_def)

lemma hex_fixed_length [simp]: "length (hex_fixed n v) = n"
  by (simp add: hex_fixed_def)

lemma hex_fixed_digits: "c \<in> set (hex_fixed n v) \<Longrightarrow> \<exists>d < 16. c = hex_digit d"
  unfolding hex_fixed_def by clarsimp (metis mod_less_divisor zero_less_numeral)

text \<open>
  A digit loop with a guard: every parser of the code that reads a decimal numeral runs
  one of these. \<open>decimal_parse\<close> is the round trip: a guard that holds below the number and
  for each of its leading parts lets the whole numeral through.
\<close>

fun digit_loop :: "(nat \<Rightarrow> nat \<Rightarrow> bool) \<Rightarrow> nat \<Rightarrow> string \<Rightarrow> nat option" where
  "digit_loop ok n [] = Some n"
| "digit_loop ok n (c # cs) =
     (if is_digit c \<and> ok n (digit c) then digit_loop ok (n * 10 + digit c) cs else None)"

lemma digit_loop_append:
  "digit_loop ok n (xs @ ys) = Option.bind (digit_loop ok n xs) (\<lambda>m. digit_loop ok m ys)"
  by (induction xs arbitrary: n) auto

lemma decimal_parse:
  assumes "\<And>m d. d < 10 \<Longrightarrow> m * 10 + d \<le> n \<Longrightarrow> ok m d"
  shows "digit_loop ok 0 (decimal n) = Some n"
  using assms
proof (induction n rule: decimal.induct)
  case (1 n)
  show ?case
  proof (cases "n < 10")
    case True
    then show ?thesis using "1.prems" [of n 0] by (simp add: decimal.simps [of n])
  next
    case False
    have "digit_loop ok 0 (decimal (n div 10)) = Some (n div 10)"
      by (rule "1.IH" [OF False]) (rule "1.prems", auto)
    moreover have "ok (n div 10) (n mod 10)" by (rule "1.prems") auto
    ultimately show ?thesis using False
      by (simp add: decimal.simps [of n] digit_loop_append)
  qed
qed

section \<open>Little-endian words\<close>

definition put_le :: "nat \<Rightarrow> 'a::len word \<Rightarrow> byte list" where
  "put_le n v = map (\<lambda>i. ucast (drop_bit (8 * i) v)) [0..<n]"

fun get_le :: "byte list \<Rightarrow> 'a::len word" where
  "get_le [] = 0"
| "get_le (b # bs) = ucast b OR push_bit 8 (get_le bs)"

lemma length_put_le [simp]: "length (put_le n v) = n"
  by (simp add: put_le_def)

lemma put_le_0 [simp]: "put_le 0 v = []"
  by (simp add: put_le_def)

lemma put_le_Suc: "put_le (Suc n) v = ucast v # put_le n (drop_bit 8 v)"
proof -
  have "put_le (Suc n) v = map (\<lambda>i. ucast (drop_bit (8 * i) v)) (0 # map Suc [0..<n])"
    by (simp only: put_le_def map_Suc_upt upt_conv_Cons zero_less_Suc)
  then show ?thesis by (simp add: put_le_def o_def add.commute)
qed

lemma bit_get_le_put_le:
  "bit (get_le (put_le n v) :: 'a::len word) k \<longleftrightarrow> k < 8 * n \<and> bit (v :: 'a word) k"
proof (induction n arbitrary: v k)
  case 0
  then show ?case by simp
next
  case (Suc n)
  show ?case
  proof (cases "k < 8")
    case True
    then show ?thesis
      by (auto simp: put_le_Suc bit_or_iff bit_push_bit_iff bit_ucast_iff dest: bit_imp_le_length)
  next
    case False
    then show ?thesis
      using Suc.IH [of "drop_bit 8 v" "k - 8"]
      by (auto simp: put_le_Suc bit_or_iff bit_push_bit_iff bit_ucast_iff bit_drop_bit_eq
          dest: bit_imp_le_length)
  qed
qed

lemma get_le_put_le:
  fixes v :: "'a::len word"
  assumes "LENGTH('a) \<le> 8 * n"
  shows "get_le (put_le n v) = v"
proof (rule bit_word_eqI)
  fix k assume "k < LENGTH('a)"
  then show "bit (get_le (put_le n v) :: 'a word) k = bit v k"
    using assms by (simp add: bit_get_le_put_le)
qed

text \<open>
  A fixed-width codec: what a reader of a wire format relies on. The writer produces
  exactly \<open>width\<close> bytes, and reading at the front of a buffer gives the value back
  whatever follows.
\<close>

locale codec =
  fixes put :: "'v \<Rightarrow> byte list" and get :: "byte list \<Rightarrow> 'v" and width :: nat
  assumes put_width: "length (put v) = width"
    and get_put: "get (put v @ rest) = v"
begin

lemma put_inj: "put v = put w \<Longrightarrow> v = w"
  by (metis get_put)

lemma put_append_inj: "put v @ xs = put w @ ys \<Longrightarrow> v = w \<and> xs = ys"
  by (metis append_eq_append_conv get_put put_width)

lemma drop_put: "drop width (put v @ rest) = rest"
  by (simp add: put_width)

lemma get_at: "length xs = n \<Longrightarrow> get (drop n (xs @ put v @ rest)) = v"
  by (simp add: get_put)

end

section \<open>Lua values\<close>

text \<open>
  The values the native module hands to Lua. A table is an association list over its
  keys; a double is its 64-bit pattern, since the code only moves doubles.
\<close>

datatype lkey = KInt int | KStr string

datatype lua = LNil | LBool bool | LInt int | LNum u64 | LStr string | LTab "(lkey \<times> lua) list"

definition tab_set :: "lkey \<Rightarrow> lua \<Rightarrow> (lkey \<times> lua) list \<Rightarrow> (lkey \<times> lua) list" where
  "tab_set k v t = (if v = LNil then AList.delete k t else AList.update k v t)"

definition tab_get :: "(lkey \<times> lua) list \<Rightarrow> lkey \<Rightarrow> lua" where
  "tab_get t k = (case map_of t k of None \<Rightarrow> LNil | Some v \<Rightarrow> v)"

lemma tab_get_set: "tab_get (tab_set k v t) k' = (if k' = k then v else tab_get t k')"
  by (auto simp: tab_get_def tab_set_def update_conv' delete_conv' map_upd_Some_unfold restrict_map_def
      split: option.splits)

lemma tab_get_Nil [simp]: "tab_get [] k = LNil"
  by (simp add: tab_get_def)

fun field :: "lua \<Rightarrow> string \<Rightarrow> lua" where
  "field (LTab t) k = tab_get t (KStr k)"
| "field _ k = LNil"

text \<open>Tables built by a sequence of \<open>lua_setfield\<close>.\<close>

definition mk_tab :: "(string \<times> lua) list \<Rightarrow> lua" where
  "mk_tab kvs = LTab (fold (\<lambda>(k, v). tab_set (KStr k) v) kvs [])"

text \<open>An array table built by \<open>lua_rawseti\<close> at 1, 2, ...\<close>

definition mk_array :: "lua list \<Rightarrow> lua" where
  "mk_array vs = LTab (fold (\<lambda>(i, v). tab_set (KInt (int i + 1)) v) (enumerate 0 vs) [])"

section \<open>Answers of system calls\<close>

text \<open>
  A blocking call either returns a value or fails with an error number. A loop that
  calls it is modelled over the list of the answers the kernel gives to its successive
  calls; a loop that has used up the list has not returned yet.
\<close>

datatype 'a answer = Got 'a | Failed errno

text \<open>How many items one call moves: the kernel has \<open>c\<close> ready, \<open>asked\<close> are wanted.\<close>

definition moved :: "nat \<Rightarrow> nat \<Rightarrow> 'a list \<Rightarrow> nat" where
  "moved c asked bytes = min c (min asked (length bytes))"

text \<open>
  A willing kernel: no error but an interruption, and every answer that moves data moves
  at least one byte. \<open>gots\<close> counts the answers that move data.
\<close>

fun willing :: "nat answer \<Rightarrow> bool" where
  "willing (Got c) = (0 < c)"
| "willing (Failed e) = (e = EINTR)"

fun gots :: "nat answer list \<Rightarrow> nat" where
  "gots [] = 0"
| "gots (Got c # ans) = Suc (gots ans)"
| "gots (Failed e # ans) = gots ans"

lemma moved_le: "moved c asked bytes \<le> asked" "moved c asked bytes \<le> length bytes"
  by (simp_all add: moved_def)

lemma moved_pos: "0 < c \<Longrightarrow> 0 < asked \<Longrightarrow> bytes \<noteq> [] \<Longrightarrow> 0 < moved c asked bytes"
  by (simp add: moved_def)

end
