(* ===== verification/GpuProtocol.thy ===== *)
theory GpuProtocol imports Prelude begin

text \<open>
  The private GPU reader protocol: the little-endian accessors and the checksum of
  \<^verbatim>\<open>native/wtop_gpu_protocol.h\<close>, the output operations of
  \<^verbatim>\<open>native/wtop_gpu_output.h\<close>, the encoder \<open>wire_emit\<close> of
  \<^verbatim>\<open>native/wtop_gpu_worker.c\<close>, the validator \<open>gpu_wire_valid\<close>, the decoder
  \<open>decode_frame\<close> of \<^verbatim>\<open>native/wtop_worker_client.c\<close> and the in-process Lua sink of
  \<^verbatim>\<open>native/wtop_gpu_lua.h\<close>. A C pointer into a buffer is the list of the bytes from it on.
\<close>

section \<open>Accessors and checksum\<close>

abbreviation (input) GPU_WIRE_MAGIC :: u32 where "GPU_WIRE_MAGIC \<equiv> 0x4d4e5457"
abbreviation (input) GPU_WIRE_VERSION :: u32 where "GPU_WIRE_VERSION \<equiv> 2"
abbreviation (input) GPU_WIRE_COMMAND :: nat where "GPU_WIRE_COMMAND \<equiv> 24"
abbreviation (input) GPU_WIRE_HEADER :: nat where "GPU_WIRE_HEADER \<equiv> 64"
abbreviation (input) GPU_WIRE_LIMIT :: nat where "GPU_WIRE_LIMIT \<equiv> 16777216"
abbreviation (input) GPU_WIRE_OPERATIONS :: nat where "GPU_WIRE_OPERATIONS \<equiv> 600000"
abbreviation (input) GPU_WIRE_TABLES :: nat where "GPU_WIRE_TABLES \<equiv> 131072"

definition gpu_u32 :: "byte list \<Rightarrow> u32" where
  "gpu_u32 p = ucast (p ! 0) OR push_bit 8 (ucast (p ! 1))
     OR push_bit 16 (ucast (p ! 2)) OR push_bit 24 (ucast (p ! 3))"

definition gpu_u64 :: "byte list \<Rightarrow> u64" where
  "gpu_u64 p = ucast (gpu_u32 p) OR push_bit 32 (ucast (gpu_u32 (drop 4 p)))"

definition gpu_put32 :: "u32 \<Rightarrow> byte list" where
  "gpu_put32 value = map (\<lambda>i. ucast (drop_bit (i * 8) value)) [0..<4]"

definition gpu_put64 :: "u64 \<Rightarrow> byte list" where
  "gpu_put64 value = map (\<lambda>i. ucast (drop_bit (i * 8) value)) [0..<8]"

fun fnv_step :: "byte \<Rightarrow> u32 \<Rightarrow> u32" where
  "fnv_step b hash = (hash XOR ucast b) * 16777619"

definition gpu_checksum :: "byte list \<Rightarrow> u32" where
  "gpu_checksum p = fold fnv_step p 2166136261"

section \<open>Output operations\<close>

datatype gpu_operation = GPU_TABLE | GPU_INTEGER | GPU_NUMBER | GPU_STRING
  | GPU_BOOLEAN | GPU_FIELD | GPU_INDEX | GPU_DISCARD

fun op_code :: "gpu_operation \<Rightarrow> byte" where
  "op_code GPU_TABLE = 1"
| "op_code GPU_INTEGER = 2"
| "op_code GPU_NUMBER = 3"
| "op_code GPU_STRING = 4"
| "op_code GPU_BOOLEAN = 5"
| "op_code GPU_FIELD = 6"
| "op_code GPU_INDEX = 7"
| "op_code GPU_DISCARD = 8"

text \<open>One call of the output's \<open>emit\<close>: operation, key, integer, double (as bits), text.\<close>

record emit_call =
  cop :: gpu_operation
  ckey :: "string option"
  cinteger :: u64
  cnumber :: u64
  ctext :: "string option"

definition gpu_table :: "u32 \<Rightarrow> u32 \<Rightarrow> emit_call" where
  "gpu_table arr flds = \<lparr>cop = GPU_TABLE, ckey = None,
     cinteger = push_bit 32 (scast arr) OR ucast flds, cnumber = 0, ctext = None\<rparr>"

definition integer_field :: "string \<Rightarrow> u64 \<Rightarrow> emit_call" where
  "integer_field k v = \<lparr>cop = GPU_INTEGER, ckey = Some k, cinteger = v, cnumber = 0, ctext = None\<rparr>"

definition number_field :: "string \<Rightarrow> u64 \<Rightarrow> emit_call" where
  "number_field k v = \<lparr>cop = GPU_NUMBER, ckey = Some k, cinteger = 0, cnumber = v, ctext = None\<rparr>"

definition string_field :: "string \<Rightarrow> string \<Rightarrow> emit_call" where
  "string_field k v = \<lparr>cop = GPU_STRING, ckey = Some k, cinteger = 0, cnumber = 0, ctext = Some v\<rparr>"

definition boolean_field :: "string \<Rightarrow> u32 \<Rightarrow> emit_call" where
  "boolean_field k v = \<lparr>cop = GPU_BOOLEAN, ckey = Some k,
     cinteger = (if v \<noteq> 0 then 1 else 0), cnumber = 0, ctext = None\<rparr>"

definition gpu_field_attach :: "string \<Rightarrow> emit_call" where
  "gpu_field_attach k = \<lparr>cop = GPU_FIELD, ckey = Some k, cinteger = 0, cnumber = 0, ctext = None\<rparr>"

definition gpu_index :: "u32 \<Rightarrow> emit_call" where
  "gpu_index i = \<lparr>cop = GPU_INDEX, ckey = None, cinteger = scast i, cnumber = 0, ctext = None\<rparr>"

definition gpu_discard :: emit_call where
  "gpu_discard = \<lparr>cop = GPU_DISCARD, ckey = None, cinteger = 0, cnumber = 0, ctext = None\<rparr>"

lemmas emit_defs = gpu_table_def integer_field_def number_field_def string_field_def
  boolean_field_def gpu_field_attach_def gpu_index_def gpu_discard_def

section \<open>Encoder\<close>

text \<open>
  The worker's buffer and the output's \<open>failed\<close> flag. \<open>alloc\<close> says whether \<open>realloc\<close>
  to a wcapacity succeeds.
\<close>

record wire_buffer =
  wdata :: "byte list"
  wcapacity :: nat
  wfailed :: nat

text \<open>The guard \<open>0 < cap\<close> holds at every call: a capacity starts at 65536 and doubles.\<close>

function grow :: "nat \<Rightarrow> nat \<Rightarrow> nat" where
  "grow cap need = (if cap < need \<and> 0 < cap then grow (cap * 2) need else cap)"
  by pat_completeness auto
termination
  by (relation "measure (\<lambda>(cap, need). need - cap)") auto

declare grow.simps [simp del]

definition reserve :: "(nat \<Rightarrow> bool) \<Rightarrow> wire_buffer \<Rightarrow> nat \<Rightarrow> wire_buffer \<times> bool" where
  "reserve alloc w n =
     (if wfailed w \<noteq> 0 \<or> n > GPU_WIRE_LIMIT - length (wdata w) then (w\<lparr>wfailed := 1\<rparr>, False)
      else if length (wdata w) + n > wcapacity w then
        (let cap = grow (if wcapacity w \<noteq> 0 then wcapacity w else 65536) (length (wdata w) + n)
         in if alloc cap then (w\<lparr>wcapacity := cap\<rparr>, True) else (w\<lparr>wfailed := 2\<rparr>, False))
      else (w, True))"

definition wire_payload :: "emit_call \<Rightarrow> byte list" where
  "wire_payload c = (case cop c of
       GPU_TABLE \<Rightarrow> gpu_put64 (cinteger c)
     | GPU_INTEGER \<Rightarrow> gpu_put64 (cinteger c)
     | GPU_NUMBER \<Rightarrow> gpu_put64 (cnumber c)
     | GPU_INDEX \<Rightarrow> gpu_put32 (ucast (cinteger c))
     | GPU_BOOLEAN \<Rightarrow> [ucast (cinteger c)]
     | GPU_STRING \<Rightarrow>
         (let t = (case ctext c of None \<Rightarrow> [] | Some t \<Rightarrow> t); n = length t
          in word_of_nat n # word_of_nat (n div 256) # bytes_of t)
     | _ \<Rightarrow> [])"

definition wire_bytes :: "emit_call \<Rightarrow> byte list" where
  "wire_bytes c = op_code (cop c)
     # (case ckey c of None \<Rightarrow> [] | Some k \<Rightarrow> word_of_nat (length k) # bytes_of k)
     @ wire_payload c"

definition payload_size :: "emit_call \<Rightarrow> nat" where
  "payload_size c =
     (if cop c = GPU_TABLE \<or> cop c = GPU_INTEGER \<or> cop c = GPU_NUMBER then 8
      else if cop c = GPU_INDEX then 4
      else if cop c = GPU_BOOLEAN then 1
      else if cop c = GPU_STRING then (case ctext c of None \<Rightarrow> 0 | Some t \<Rightarrow> length t) + 2
      else 0)"

definition wire_emit :: "(nat \<Rightarrow> bool) \<Rightarrow> wire_buffer \<Rightarrow> emit_call \<Rightarrow> wire_buffer" where
  "wire_emit alloc w c =
     (let k = (case ckey c of None \<Rightarrow> 0 | Some s \<Rightarrow> length s);
          n = (case ctext c of None \<Rightarrow> 0 | Some s \<Rightarrow> length s)
      in if k > 63 \<or> n > 256 then w\<lparr>wfailed := 1\<rparr>
         else (case reserve alloc w (1 + (if ckey c \<noteq> None then k + 1 else 0) + payload_size c) of
                 (w', ok) \<Rightarrow> if ok then w'\<lparr>wdata := wdata w' @ wire_bytes c\<rparr> else w'))"

definition wire_emit_all :: "(nat \<Rightarrow> bool) \<Rightarrow> wire_buffer \<Rightarrow> emit_call list \<Rightarrow> wire_buffer" where
  "wire_emit_all alloc w cs = foldl (wire_emit alloc) w cs"

section \<open>Validator\<close>

definition key_byte :: "byte \<Rightarrow> bool" where
  "key_byte c \<longleftrightarrow> (97 \<le> c \<and> c \<le> 122) \<or> (48 \<le> c \<and> c \<le> 57) \<or> c = 95"

definition is_finite_bits :: "u64 \<Rightarrow> bool" where
  "is_finite_bits bits \<longleftrightarrow> drop_bit 52 bits AND 0x7ff \<noteq> 0x7ff"

text \<open>
  \<open>entries[0..depth-1]\<close> is the list \<open>es\<close>, innermost table first, so \<open>depth\<close> is its
  length; \<open>bump\<close> is \<open>++entries[depth-1]>4096\<close>.
\<close>

definition bump :: "nat list \<Rightarrow> nat list option" where
  "bump es = (case es of [] \<Rightarrow> None | e # r \<Rightarrow> if e + 1 > 4096 then None else Some ((e + 1) # r))"

definition valid_value :: "byte \<Rightarrow> byte list \<Rightarrow> byte list option" where
  "valid_value opc p =
     (if opc = op_code GPU_INTEGER \<or> opc = op_code GPU_NUMBER then
        (if length p < 8 then None
         else if opc = op_code GPU_NUMBER \<and> \<not> is_finite_bits (gpu_u64 p) then None
         else Some (drop 8 p))
      else if opc = op_code GPU_BOOLEAN then
        (if p = [] \<or> hd p > 1 then None else Some (tl p))
      else if opc = op_code GPU_STRING then
        (if length p < 2 then None
         else let n = unat (p ! 0) + 256 * unat (p ! 1); q = drop 2 p
              in if n > 256 \<or> n > length q \<or> 0 \<in> set (take n q) then None else Some (drop n q))
      else Some p)"

definition valid_keyed :: "byte \<Rightarrow> byte list \<Rightarrow> nat list \<Rightarrow> (byte list \<times> nat list) option" where
  "valid_keyed opc p es =
     (if opc < op_code GPU_INTEGER \<or> opc > op_code GPU_FIELD \<or> es = [] \<or> p = [] then None
      else let n = unat (hd p); q = tl p
           in if n = 0 \<or> n > 63 \<or> n > length q then None
              else if \<not> list_all key_byte (take n q) then None
              else if opc = op_code GPU_FIELD \<and> length es < 2 then None
              else (case bump (if opc = op_code GPU_FIELD then tl es else es) of
                      None \<Rightarrow> None
                    | Some es' \<Rightarrow> map_option (\<lambda>r. (r, es')) (valid_value opc (drop n q))))"

definition valid_step ::
    "byte list \<Rightarrow> nat list \<Rightarrow> nat \<Rightarrow> nat \<Rightarrow> (byte list \<times> nat list \<times> nat \<times> nat) option" where
  "valid_step d es operations tables =
     (let opc = hd d; p = tl d; operations = operations + 1
      in if operations > GPU_WIRE_OPERATIONS then None
         else if opc = op_code GPU_TABLE then
           (if length p < 8 \<or> length es = 64 \<or> tables + 1 > GPU_WIRE_TABLES then None
            else if gpu_u32 p > 128 \<or> gpu_u32 (drop 4 p) > 4096 then None
            else Some (drop 8 p, 0 # es, operations, tables + 1))
         else if opc = op_code GPU_INDEX then
           (if length es < 2 \<or> length p < 4 \<or> gpu_u32 p = 0 \<or> gpu_u32 p > 4096 then None
            else map_option (\<lambda>es'. (drop 4 p, es', operations, tables)) (bump (tl es)))
         else if opc = op_code GPU_DISCARD then
           (if length es < 2 then None else Some (p, tl es, operations, tables))
         else map_option (\<lambda>(r, es'). (r, es', operations, tables)) (valid_keyed opc p es))"

text \<open>Every step consumes the operation byte, so the loop ends.\<close>

lemma valid_value_shrinks: "valid_value opc p = Some r \<Longrightarrow> length r \<le> length p"
  by (auto simp: valid_value_def Let_def split: if_splits)

lemma valid_keyed_shrinks: "valid_keyed opc p es = Some (r, es') \<Longrightarrow> length r \<le> length p"
  by (fastforce simp: valid_keyed_def Let_def split: if_splits option.splits
      dest!: valid_value_shrinks)

lemma valid_step_shrinks:
  "valid_step d es k t = Some (d', rest) \<Longrightarrow> d \<noteq> [] \<Longrightarrow> length d' < length d"
  by (cases d) (auto simp: valid_step_def Let_def split: if_splits dest!: valid_keyed_shrinks)

function valid_loop :: "byte list \<Rightarrow> nat list \<Rightarrow> nat \<Rightarrow> nat \<Rightarrow> nat list option" where
  "valid_loop d es operations tables =
     (if d = [] then Some es
      else case valid_step d es operations tables of
             None \<Rightarrow> None
           | Some (d', es', operations', tables') \<Rightarrow> valid_loop d' es' operations' tables')"
  by pat_completeness auto
termination
  by (relation "measure (\<lambda>(d, _). length d)") (auto dest: valid_step_shrinks)

declare valid_loop.simps [simp del]

definition gpu_wire_valid :: "byte list \<Rightarrow> bool" where
  "gpu_wire_valid d \<longleftrightarrow> d \<noteq> [] \<and> length d \<le> GPU_WIRE_LIMIT
     \<and> (case valid_loop d [] 0 0 of None \<Rightarrow> False | Some es \<Rightarrow> length es = 1)"

section \<open>Lua sinks\<close>

text \<open>
  The Lua stack is a list, top first. \<open>slots\<close> is the number of stack slots the caller has;
  the decoder reserves 80 (\<open>luaL_checkstack\<close>). A push beyond them, a read past the end of
  the frame, a key longer than the \<open>key[64]\<close> buffer and a table operation on a value that is
  not a table have no defined result and are \<open>None\<close>.
\<close>

definition lua_push :: "nat \<Rightarrow> lua \<Rightarrow> lua list \<Rightarrow> lua list option" where
  "lua_push slots v st = (if length st < slots then Some (v # st) else None)"

fun lua_setfield :: "string \<Rightarrow> lua list \<Rightarrow> lua list option" where
  "lua_setfield k (v # LTab t # st) = Some (LTab (tab_set (KStr k) v t) # st)"
| "lua_setfield k _ = None"

fun lua_rawseti :: "int \<Rightarrow> lua list \<Rightarrow> lua list option" where
  "lua_rawseti i (v # LTab t # st) = Some (LTab (tab_set (KInt i) v t) # st)"
| "lua_rawseti i _ = None"

fun lua_pop :: "lua list \<Rightarrow> lua list option" where
  "lua_pop (v # st) = Some st"
| "lua_pop [] = None"

definition push_setfield :: "nat \<Rightarrow> string \<Rightarrow> lua \<Rightarrow> lua list \<Rightarrow> lua list option" where
  "push_setfield slots k v st = Option.bind (lua_push slots v st) (lua_setfield k)"

definition gpu_lua_emit :: "nat \<Rightarrow> emit_call \<Rightarrow> lua list \<Rightarrow> lua list option" where
  "gpu_lua_emit slots c st = (case cop c of
       GPU_TABLE \<Rightarrow> lua_push slots (LTab []) st
     | GPU_FIELD \<Rightarrow> Option.bind (ckey c) (\<lambda>k. lua_setfield k st)
     | GPU_INDEX \<Rightarrow> lua_rawseti (sint (cinteger c)) st
     | GPU_DISCARD \<Rightarrow> lua_pop st
     | GPU_INTEGER \<Rightarrow> Option.bind (ckey c) (\<lambda>k. push_setfield slots k (LInt (sint (cinteger c))) st)
     | GPU_NUMBER \<Rightarrow> Option.bind (ckey c) (\<lambda>k. push_setfield slots k (LNum (cnumber c)) st)
     | GPU_STRING \<Rightarrow> Option.bind (ckey c) (\<lambda>k. push_setfield slots k
         (case ctext c of None \<Rightarrow> LNil | Some t \<Rightarrow> LStr t) st)
     | GPU_BOOLEAN \<Rightarrow> Option.bind (ckey c) (\<lambda>k. push_setfield slots k (LBool (cinteger c \<noteq> 0)) st))"

fun gpu_lua_emit_all :: "nat \<Rightarrow> emit_call list \<Rightarrow> lua list \<Rightarrow> lua list option" where
  "gpu_lua_emit_all slots [] st = Some st"
| "gpu_lua_emit_all slots (c # cs) st = Option.bind (gpu_lua_emit slots c st) (gpu_lua_emit_all slots cs)"

section \<open>Decoder\<close>

definition decode_value :: "byte \<Rightarrow> byte list \<Rightarrow> (byte list \<times> lua) option" where
  "decode_value opc r =
     (if opc = op_code GPU_INTEGER then
        (if length r < 8 then None else Some (drop 8 r, LInt (sint (gpu_u64 r))))
      else if opc = op_code GPU_NUMBER then
        (if length r < 8 then None else Some (drop 8 r, LNum (gpu_u64 r)))
      else if opc = op_code GPU_BOOLEAN then
        (if r = [] then None else Some (tl r, LBool (hd r \<noteq> 0)))
      else if length r < 2 then None
      else let n = unat (r ! 0) + 256 * unat (r ! 1); q = drop 2 r
           in if n > length q then None else Some (drop n q, LStr (text_of (take n q))))"

definition decode_step :: "byte list \<Rightarrow> lua list \<Rightarrow> (byte list \<times> lua list) option" where
  "decode_step d st =
     (let opc = hd d; p = tl d
      in if opc = op_code GPU_TABLE then
           (if length p < 8 then None else map_option (Pair (drop 8 p)) (lua_push 80 (LTab []) st))
         else if opc = op_code GPU_INDEX then
           (if length p < 4 then None
            else map_option (Pair (drop 4 p)) (lua_rawseti (uint (gpu_u32 p)) st))
         else if opc = op_code GPU_DISCARD then map_option (Pair p) (lua_pop st)
         else if p = [] then None
         else let n = unat (hd p); q = tl p
              in if n > length q \<or> n > 63 then None
                 else let k = text_of (takeWhile (\<lambda>b. b \<noteq> 0) (take n q)); r = drop n q
                      in if opc = op_code GPU_FIELD then map_option (Pair r) (lua_setfield k st)
                         else Option.bind (decode_value opc r)
                                (\<lambda>(r', v). map_option (Pair r') (push_setfield 80 k v st)))"

lemma decode_value_shrinks: "decode_value opc r = Some (r', v) \<Longrightarrow> length r' \<le> length r"
  by (auto simp: decode_value_def Let_def split: if_splits)

lemma decode_step_shrinks:
  "decode_step d st = Some (d', st') \<Longrightarrow> d \<noteq> [] \<Longrightarrow> length d' < length d"
  by (cases d) (auto simp: decode_step_def Let_def bind_eq_Some_conv
      split: if_splits dest!: decode_value_shrinks)

function decode_loop :: "byte list \<Rightarrow> lua list \<Rightarrow> lua list option" where
  "decode_loop d st =
     (if d = [] then Some st
      else case decode_step d st of None \<Rightarrow> None | Some (d', st') \<Rightarrow> decode_loop d' st')"
  by pat_completeness auto
termination
  by (relation "measure (\<lambda>(d, _). length d)") (auto dest: decode_step_shrinks)

declare decode_loop.simps [simp del]

definition decode_frame :: "byte list \<Rightarrow> lua list option" where
  "decode_frame d = decode_loop d []"

section \<open>Round trip of the accessors\<close>

lemma gpu_put32_put_le: "gpu_put32 v = put_le 4 v"
  by (simp add: gpu_put32_def put_le_def mult.commute)

lemma gpu_put64_put_le: "gpu_put64 v = put_le 8 v"
  by (simp add: gpu_put64_def put_le_def mult.commute)

lemma four_bytes: "4 \<le> length p \<Longrightarrow> \<exists>a b c d r. p = a # b # c # d # r"
  by (cases p; cases "tl p"; cases "tl (tl p)"; cases "tl (tl (tl p))") auto

lemma gpu_u32_get_le:
  assumes "4 \<le> length p"
  shows "gpu_u32 p = get_le (take 4 p)"
proof -
  obtain a b c d r where p: "p = a # b # c # d # r" using four_bytes [OF assms] by blast
  show ?thesis
    unfolding p by (simp add: gpu_u32_def)
qed

interpretation le32: codec gpu_put32 gpu_u32 4
proof unfold_locales
  fix v :: u32 and rest :: "byte list"
  show "length (gpu_put32 v) = 4" by (simp add: gpu_put32_put_le)
  show "gpu_u32 (gpu_put32 v @ rest) = v"
    by (simp add: gpu_put32_put_le gpu_u32_get_le get_le_put_le)
qed

lemma gpu_put64_split: "gpu_put64 v = gpu_put32 (ucast v) @ gpu_put32 (ucast (drop_bit 32 v))"
proof -
  have upt: "[0..<8::nat] = [0..<4] @ map (\<lambda>i. i + 4) [0..<4]"
    by (simp add: upt_rec)
  have "ucast (drop_bit (i * 8) v) = (ucast (drop_bit (i * 8) (ucast v :: u32)) :: byte)"
    if "i < 4" for i
    by (rule bit_word_eqI) (use that in \<open>auto simp: bit_ucast_iff bit_drop_bit_eq dest: bit_imp_le_length\<close>)
  moreover have "ucast (drop_bit ((i + 4) * 8) v)
      = (ucast (drop_bit (i * 8) (ucast (drop_bit 32 v) :: u32)) :: byte)" if "i < 4" for i
    by (rule bit_word_eqI) (use that in \<open>auto simp: bit_ucast_iff bit_drop_bit_eq algebra_simps
        dest: bit_imp_le_length\<close>)
  ultimately show ?thesis
    by (simp add: gpu_put64_def gpu_put32_def upt o_def)
qed

interpretation le64: codec gpu_put64 gpu_u64 8
proof unfold_locales
  fix v :: u64 and rest :: "byte list"
  show "length (gpu_put64 v) = 8" by (simp add: gpu_put64_put_le)
  have "gpu_u64 (gpu_put64 v @ rest)
      = ucast (ucast v :: u32) OR push_bit 32 (ucast (ucast (drop_bit 32 v) :: u32))"
    by (simp add: gpu_u64_def gpu_put64_split le32.get_put le32.put_width)
  also have "\<dots> = v"
    by (rule bit_word_eqI) (auto simp: bit_or_iff bit_push_bit_iff bit_ucast_iff bit_drop_bit_eq
        dest: bit_imp_le_length)
  finally show "gpu_u64 (gpu_put64 v @ rest) = v" .
qed

lemmas le_width [simp] = le32.put_width le64.put_width

lemmas le_access [le_simps] = le32.get_put le32.drop_put le64.get_put le64.drop_put

section \<open>Validation makes decoding safe\<close>

lemmas opc_simps = op_code.simps

fun is_tab :: "lua \<Rightarrow> bool" where
  "is_tab (LTab _) = True"
| "is_tab _ = False"

lemma is_tabE: "is_tab v \<Longrightarrow> (\<And>t. v = LTab t \<Longrightarrow> P) \<Longrightarrow> P"
  by (cases v) auto

text \<open>The relation between the validator's depth and the decoder's stack.\<close>

definition tracks :: "nat list \<Rightarrow> lua list \<Rightarrow> bool" where
  "tracks es st \<longleftrightarrow> length st = length es \<and> length es \<le> 64 \<and> list_all is_tab st"

lemma bump_length: "bump es = Some es' \<Longrightarrow> length es' = length es \<and> es \<noteq> []"
  by (auto simp: bump_def split: list.splits if_splits)

lemma tracks_setfield:
  assumes "tracks es st" and "es \<noteq> []"
  obtains st' where "push_setfield 80 k v st = Some st'" and "tracks es st'"
proof -
  from assms obtain t r where st: "st = LTab t # r" and "length r < 64"
    by (cases st) (auto simp: tracks_def elim!: is_tabE)
  then show thesis
    using assms that [of "LTab (tab_set (KStr k) v t) # r"]
    by (simp add: push_setfield_def lua_push_def tracks_def)
qed

lemma tracks_two:
  assumes "tracks es st" and "2 \<le> length es"
  obtains v t r where "st = v # LTab t # r" and "tracks (tl es) (LTab t # r)"
proof -
  from assms obtain v u r where st: "st = v # u # r"
    by (cases st; cases "tl st") (auto simp: tracks_def)
  with assms obtain t where "u = LTab t" by (auto simp: tracks_def elim!: is_tabE)
  then show thesis using assms st by (intro that [of v t r]) (auto simp: tracks_def)
qed

lemma tracks_tab: "tracks es (LTab t # r) \<Longrightarrow> tracks es (LTab t' # r)"
  by (simp add: tracks_def)

lemma tracks_same_length: "tracks es st \<Longrightarrow> length es' = length es \<Longrightarrow> tracks es' st"
  by (simp add: tracks_def)

lemma opc_cases:
  assumes "\<not> opc < op_code GPU_INTEGER" and "\<not> op_code GPU_FIELD < opc"
  shows "opc = op_code GPU_INTEGER \<or> opc = op_code GPU_NUMBER \<or> opc = op_code GPU_STRING
     \<or> opc = op_code GPU_BOOLEAN \<or> opc = op_code GPU_FIELD"
proof -
  have "2 \<le> unat opc" "unat opc \<le> 6"
    using assms by (auto simp: word_le_nat_alt word_less_nat_alt)
  then have "unat opc = 2 \<or> unat opc = 3 \<or> unat opc = 4 \<or> unat opc = 5 \<or> unat opc = 6"
    by linarith
  then show ?thesis by (auto simp: word_unat_eq_iff)
qed

lemma valid_value_decode:
  assumes "valid_value opc p = Some r" and "\<not> opc < op_code GPU_INTEGER"
    and "\<not> op_code GPU_FIELD < opc" and "opc \<noteq> op_code GPU_FIELD"
  shows "\<exists>v. decode_value opc p = Some (r, v)"
  using opc_cases [OF assms(2,3)] assms(1,4)
  by (elim disjE) (auto simp: valid_value_def decode_value_def Let_def split: if_splits)

lemma valid_step_decode:
  assumes v: "valid_step d es k t = Some (d', es', k', t')" and tr: "tracks es st"
  shows "\<exists>st'. decode_step d st = Some (d', st') \<and> tracks es' st'"
proof -
  let ?opc = "hd d" and ?p = "tl d"
  consider (tab) "?opc = op_code GPU_TABLE"
    | (idx) "?opc = op_code GPU_INDEX"
    | (dis) "?opc = op_code GPU_DISCARD"
    | (keyed) "?opc \<noteq> op_code GPU_TABLE" "?opc \<noteq> op_code GPU_INDEX" "?opc \<noteq> op_code GPU_DISCARD"
    by blast
  then show ?thesis
  proof cases
    case tab
    then show ?thesis using v tr
      by (auto simp: valid_step_def decode_step_def Let_def lua_push_def tracks_def split: if_splits)
  next
    case idx
    with v have len: "2 \<le> length es" "\<not> length ?p < 4" and d': "d' = drop 4 ?p"
      and b: "bump (tl es) = Some es'"
      by (auto simp: valid_step_def Let_def split: if_splits)
    from tr len(1) obtain w u r where st: "st = w # LTab u # r" and tr': "tracks (tl es) (LTab u # r)"
      by (rule tracks_two)
    from tr' b have "tracks es' (LTab (tab_set (KInt (uint (gpu_u32 ?p))) w u) # r)"
      by (meson bump_length tracks_same_length tracks_tab)
    then show ?thesis using idx len(2) d' st by (simp add: decode_step_def Let_def)
  next
    case dis
    with v have "2 \<le> length es" and d': "d' = ?p" "es' = tl es"
      by (auto simp: valid_step_def Let_def split: if_splits)
    with tr obtain w u r where "st = w # LTab u # r" and "tracks (tl es) (LTab u # r)"
      by (blast elim: tracks_two)
    then show ?thesis using dis d' by (simp add: decode_step_def Let_def)
  next
    case keyed
    with v have kd: "valid_keyed ?opc ?p es = Some (d', es')"
      by (auto simp: valid_step_def Let_def split: if_splits)
    let ?n = "unat (hd ?p)" and ?q = "tl ?p"
    from kd have ne: "es \<noteq> []" "?p \<noteq> []" "?n \<le> 63" "?n \<le> length ?q"
      and rng: "\<not> ?opc < op_code GPU_INTEGER" "\<not> op_code GPU_FIELD < ?opc"
      and fld: "?opc = op_code GPU_FIELD \<Longrightarrow> 2 \<le> length es"
      and b: "bump (if ?opc = op_code GPU_FIELD then tl es else es) = Some es'"
      and val: "valid_value ?opc (drop ?n ?q) = Some d'"
      by (auto simp: valid_keyed_def Let_def split: if_splits option.splits)
    let ?k = "text_of (takeWhile (\<lambda>b. b \<noteq> 0) (take ?n ?q))"
    show ?thesis
    proof (cases "?opc = op_code GPU_FIELD")
      case True
      from tr fld [OF True] obtain w u r where st: "st = w # LTab u # r"
        and tr': "tracks (tl es) (LTab u # r)" by (rule tracks_two)
      from True val have "d' = drop ?n ?q" by (simp add: valid_value_def)
      moreover have "length es' = length (tl es)" using b True by (auto dest!: bump_length)
      with tr' have "tracks es' (LTab (tab_set (KStr ?k) w u) # r)"
        by (simp add: tracks_def)
      ultimately show ?thesis using True keyed ne st by (simp add: decode_step_def Let_def)
    next
      case False
      from valid_value_decode [OF val rng False]
      obtain v where dv: "decode_value ?opc (drop ?n ?q) = Some (d', v)" by blast
      from tr ne(1) obtain st' where ps: "push_setfield 80 ?k v st = Some st'" and "tracks es st'"
        by (rule tracks_setfield)
      moreover have "length es' = length es" using b False by (simp add: bump_length)
      ultimately have "tracks es' st'" by (blast intro: tracks_same_length)
      moreover have "decode_step d st = Some (d', st')"
        using False keyed ne dv ps by (simp add: decode_step_def Let_def)
      ultimately show ?thesis by blast
    qed
  qed
qed

lemma valid_loop_decode:
  "valid_loop d es k t = Some es' \<Longrightarrow> tracks es st
     \<Longrightarrow> \<exists>st'. decode_loop d st = Some st' \<and> tracks es' st'"
proof (induction d es k t arbitrary: st rule: valid_loop.induct)
  case (1 d es k t)
  show ?case
  proof (cases "d = []")
    case True
    with "1.prems" show ?thesis by (simp add: valid_loop.simps decode_loop.simps)
  next
    case False
    with "1.prems"(1) obtain d1 es1 k1 t1 where s: "valid_step d es k t = Some (d1, es1, k1, t1)"
      and l: "valid_loop d1 es1 k1 t1 = Some es'"
      by (auto simp: valid_loop.simps [of d] split: option.splits)
    from valid_step_decode [OF s "1.prems"(2)] obtain st1
      where "decode_step d st = Some (d1, st1)" and "tracks es1 st1" by blast
    then show ?thesis
      using "1.IH" [OF False s refl refl refl l] False by (simp add: decode_loop.simps [of d])
  qed
qed

lemma valid_frame_table:
  assumes "gpu_wire_valid d"
  shows "\<exists>t. decode_frame d = Some [LTab t]"
proof -
  from assms obtain es where l: "valid_loop d [] 0 0 = Some es" and one: "length es = 1"
    by (auto simp: gpu_wire_valid_def split: option.splits)
  have "tracks [] []" by (simp add: tracks_def)
  from valid_loop_decode [OF l this] obtain st where "decode_loop d [] = Some st" and "tracks es st"
    by blast
  then show ?thesis using one
    by (cases st) (auto simp: decode_frame_def tracks_def elim!: is_tabE)
qed

text \<open>
  C1. A frame that passes \<open>gpu_wire_valid\<close> decodes without reading past the end of the
  frame, overflowing the key buffer, exceeding the 80 reserved Lua stack slots or applying a
  table operation to a non-table, and leaves exactly one table on the Lua stack.
\<close>

theorem valid_frame_decodes:
  assumes "gpu_wire_valid d"
  shows "\<exists>t. decode_frame d = Some [LTab t]"
  by (rule valid_frame_table [OF assms])

section \<open>The transport is transparent\<close>

text \<open>The calls the wrappers of \<^verbatim>\<open>wtop_gpu_output.h\<close> make.\<close>

definition wf_call :: "emit_call \<Rightarrow> bool" where
  "wf_call c \<longleftrightarrow> (case cop c of
       GPU_TABLE \<Rightarrow> ckey c = None
     | GPU_INDEX \<Rightarrow> ckey c = None \<and> scast (ucast (cinteger c) :: u32) = cinteger c
     | GPU_DISCARD \<Rightarrow> ckey c = None
     | GPU_STRING \<Rightarrow> ckey c \<noteq> None \<and> ctext c \<noteq> None
     | GPU_BOOLEAN \<Rightarrow> ckey c \<noteq> None \<and> cinteger c \<in> {0, 1}
     | _ \<Rightarrow> ckey c \<noteq> None)"

lemma scast_ucast_scast: "scast (ucast (scast (i :: u32) :: u64) :: u32) = (scast i :: u64)"
proof -
  have "ucast (scast i :: u64) = i"
    by (rule bit_word_eqI) (auto simp: bit_ucast_iff bit_signed_iff)
  then show ?thesis by simp
qed

lemma wf_wrappers:
  "wf_call (gpu_table a f)" "wf_call (integer_field k v)" "wf_call (number_field k v)"
  "wf_call (string_field k t)" "wf_call (boolean_field k b)" "wf_call (gpu_field_attach k)"
  "wf_call (gpu_index i)" "wf_call gpu_discard"
  by (simp_all add: wf_call_def emit_defs scast_ucast_scast)

definition enc_ok :: "emit_call \<Rightarrow> bool" where
  "enc_ok c \<longleftrightarrow> (case ckey c of None \<Rightarrow> True | Some k \<Rightarrow> length k \<le> 63)
     \<and> (case ctext c of None \<Rightarrow> True | Some t \<Rightarrow> length t \<le> 256)"

lemma payload_length: "length (wire_payload c) = payload_size c"
  by (cases "cop c") (auto simp: wire_payload_def payload_size_def Let_def
      le32.put_width le64.put_width split: option.splits)

lemma wire_emit_data:
  "wfailed (wire_emit alloc w c) = 0 \<Longrightarrow>
     wfailed w = 0 \<and> enc_ok c \<and> wdata (wire_emit alloc w c) = wdata w @ wire_bytes c"
  by (auto simp: wire_emit_def reserve_def enc_ok_def Let_def split: if_splits option.splits)

lemma wire_emit_all_snoc:
  "wire_emit_all alloc w (cs @ [c]) = wire_emit alloc (wire_emit_all alloc w cs) c"
  by (simp add: wire_emit_all_def)

lemma wire_emit_all_data:
  "wfailed (wire_emit_all alloc w cs) = 0 \<Longrightarrow>
     list_all enc_ok cs \<and> wdata (wire_emit_all alloc w cs) = wdata w @ concat (map wire_bytes cs)"
proof (induction cs rule: rev_induct)
  case Nil
  then show ?case by (simp add: wire_emit_all_def)
next
  case (snoc c cs)
  then show ?case using wire_emit_data [of alloc "wire_emit_all alloc w cs" c]
    by (simp add: wire_emit_all_snoc)
qed

lemma unat_small: "n < 256 \<Longrightarrow> unat (word_of_nat n :: byte) = n"
  by (simp add: unat_of_nat)

lemma length_word:
  "n \<le> 256 \<Longrightarrow> unat (word_of_nat n :: byte) + 256 * unat (word_of_nat (n div 256) :: byte) = n"
  by (cases "n = 256") (auto simp: unat_of_nat)

lemma takeWhile_key: "list_all key_byte bs \<Longrightarrow> takeWhile (\<lambda>b. b \<noteq> 0) bs = bs"
  by (induction bs) (auto simp: key_byte_def word_le_nat_alt)

lemma sint_small:
  fixes x :: u32
  assumes "x \<le> 4096"
  shows "sint x = uint x"
proof -
  have u: "uint x \<le> 4096" using assms by (simp add: word_le_def)
  have l: "- 2147483648 \<le> uint x" by (rule order_trans [of _ 0]) simp_all
  show ?thesis
    unfolding sint_uint using u l by (intro signed_take_bit_int_eq_self) simp_all
qed

lemma index_word:
  fixes i :: u64
  assumes "scast (ucast i :: u32) = i" and "(ucast i :: u32) \<le> 4096"
  shows "sint i = uint (ucast i :: u32)"
proof -
  from sint_small [OF assms(2)] have "sint (ucast i :: u32) = uint (ucast i :: u32)" .
  moreover have "sint (scast (ucast i :: u32) :: u64) = sint (ucast i :: u32)"
    by (rule sint_up_scast) (simp add: is_up)
  ultimately show ?thesis using assms(1) by simp
qed

lemma valid_wire_keyed:
  assumes "valid_keyed opc (word_of_nat (length k) # bytes_of k @ r) es = Some (d', es')"
    and "length k \<le> 63"
  shows "valid_value opc r = Some d'" and "list_all key_byte (bytes_of k)"
  using assms by (auto simp: valid_keyed_def Let_def unat_small split: if_splits option.splits)

lemma decode_wire_keyed:
  assumes "list_all key_byte (bytes_of k)" and "length k \<le> 63"
    and "opc \<noteq> op_code GPU_TABLE" and "opc \<noteq> op_code GPU_INDEX" and "opc \<noteq> op_code GPU_DISCARD"
  shows "decode_step (opc # word_of_nat (length k) # bytes_of k @ r) st =
    (if opc = op_code GPU_FIELD then map_option (Pair r) (lua_setfield k st)
     else Option.bind (decode_value opc r)
            (\<lambda>(r', v). map_option (Pair r') (push_setfield 80 k v st)))"
  using assms by (simp add: decode_step_def Let_def unat_small takeWhile_key)

lemma value_integer:
  "valid_value (op_code GPU_INTEGER) (gpu_put64 i @ r) = Some d' \<Longrightarrow>
     d' = r \<and> decode_value (op_code GPU_INTEGER) (gpu_put64 i @ r) = Some (r, LInt (sint i))"
  by (auto simp: valid_value_def decode_value_def le_simps split: if_splits)

lemma value_number:
  "valid_value (op_code GPU_NUMBER) (gpu_put64 i @ r) = Some d' \<Longrightarrow>
     d' = r \<and> decode_value (op_code GPU_NUMBER) (gpu_put64 i @ r) = Some (r, LNum i)"
  by (auto simp: valid_value_def decode_value_def le_simps split: if_splits)

lemma value_boolean:
  "i \<in> {0, 1} \<Longrightarrow> valid_value (op_code GPU_BOOLEAN) (ucast (i :: u64) # r) = Some d' \<Longrightarrow>
     d' = r \<and> decode_value (op_code GPU_BOOLEAN) (ucast i # r) = Some (r, LBool (i \<noteq> 0))"
  by (auto simp: valid_value_def decode_value_def split: if_splits)

lemma value_string:
  assumes "length t \<le> 256"
    and "valid_value (op_code GPU_STRING)
      (word_of_nat (length t) # word_of_nat (length t div 256) # bytes_of t @ r) = Some d'"
  shows "d' = r" and "decode_value (op_code GPU_STRING)
      (word_of_nat (length t) # word_of_nat (length t div 256) # bytes_of t @ r) = Some (r, LStr t)"
  using assms(2) length_word [OF assms(1)]
  by (auto simp: valid_value_def decode_value_def Let_def split: if_splits)

text \<open>One call: what the validator accepts, the decoder turns into the call's own effect.\<close>

lemma wire_call:
  assumes wf: "wf_call c" and enc: "enc_ok c"
    and v: "valid_step (wire_bytes c @ r) es k t = Some (d', es', k', t')"
  shows "d' = r \<and> decode_step (wire_bytes c @ r) st = map_option (Pair r) (gpu_lua_emit 80 c st)"
proof (cases "cop c")
  case GPU_TABLE
  then show ?thesis using wf v
    by (auto simp: wf_call_def wire_bytes_def wire_payload_def valid_step_def decode_step_def
        gpu_lua_emit_def le_simps Let_def split: if_splits)
next
  case GPU_INDEX
  with wf have k: "ckey c = None" and i: "scast (ucast (cinteger c) :: u32) = cinteger c"
    by (auto simp: wf_call_def)
  from v GPU_INDEX k have b: "(ucast (cinteger c) :: u32) \<le> 4096" and d': "d' = r"
    by (auto simp: wire_bytes_def wire_payload_def valid_step_def le_simps Let_def split: if_splits)
  show ?thesis using GPU_INDEX k d' index_word [OF i b]
    by (simp add: wire_bytes_def wire_payload_def decode_step_def gpu_lua_emit_def le_simps)
next
  case GPU_DISCARD
  then show ?thesis using wf v
    by (auto simp: wf_call_def wire_bytes_def wire_payload_def valid_step_def decode_step_def
        gpu_lua_emit_def Let_def split: if_splits)
next
  case GPU_FIELD
  with wf enc obtain kk where k: "ckey c = Some kk" and l: "length kk \<le> 63"
    by (auto simp: wf_call_def enc_ok_def)
  from v GPU_FIELD k have kv: "valid_keyed (op_code GPU_FIELD) (word_of_nat (length kk) # bytes_of kk @ r) es
      = Some (d', es')"
    by (auto simp: wire_bytes_def wire_payload_def valid_step_def Let_def split: if_splits)
  from valid_wire_keyed [OF kv l] have "d' = r" and kb: "list_all key_byte (bytes_of kk)"
    by (auto simp: valid_value_def)
  then show ?thesis using GPU_FIELD k decode_wire_keyed [OF kb l, of "op_code GPU_FIELD" r st]
    by (simp add: wire_bytes_def wire_payload_def gpu_lua_emit_def)
next
  case GPU_INTEGER
  with wf enc obtain kk where k: "ckey c = Some kk" and l: "length kk \<le> 63"
    by (auto simp: wf_call_def enc_ok_def)
  from v GPU_INTEGER k have kv: "valid_keyed (op_code GPU_INTEGER)
      (word_of_nat (length kk) # bytes_of kk @ gpu_put64 (cinteger c) @ r) es = Some (d', es')"
    by (auto simp: wire_bytes_def wire_payload_def valid_step_def Let_def split: if_splits)
  from valid_wire_keyed [OF kv l] have vv: "valid_value (op_code GPU_INTEGER) (gpu_put64 (cinteger c) @ r) = Some d'"
    and kb: "list_all key_byte (bytes_of kk)" by auto
  from value_integer [OF vv] show ?thesis
    using GPU_INTEGER k decode_wire_keyed [OF kb l, of "op_code GPU_INTEGER"]
    by (simp add: wire_bytes_def wire_payload_def gpu_lua_emit_def)
next
  case GPU_NUMBER
  with wf enc obtain kk where k: "ckey c = Some kk" and l: "length kk \<le> 63"
    by (auto simp: wf_call_def enc_ok_def)
  from v GPU_NUMBER k have kv: "valid_keyed (op_code GPU_NUMBER)
      (word_of_nat (length kk) # bytes_of kk @ gpu_put64 (cnumber c) @ r) es = Some (d', es')"
    by (auto simp: wire_bytes_def wire_payload_def valid_step_def Let_def split: if_splits)
  from valid_wire_keyed [OF kv l] have vv: "valid_value (op_code GPU_NUMBER) (gpu_put64 (cnumber c) @ r) = Some d'"
    and kb: "list_all key_byte (bytes_of kk)" by auto
  from value_number [OF vv] show ?thesis
    using GPU_NUMBER k decode_wire_keyed [OF kb l, of "op_code GPU_NUMBER"]
    by (simp add: wire_bytes_def wire_payload_def gpu_lua_emit_def)
next
  case GPU_BOOLEAN
  with wf enc obtain kk where k: "ckey c = Some kk" and l: "length kk \<le> 63"
    and bv: "cinteger c \<in> {0, 1}"
    by (auto simp: wf_call_def enc_ok_def)
  from v GPU_BOOLEAN k have kv: "valid_keyed (op_code GPU_BOOLEAN)
      (word_of_nat (length kk) # bytes_of kk @ ucast (cinteger c) # r) es = Some (d', es')"
    by (auto simp: wire_bytes_def wire_payload_def valid_step_def Let_def split: if_splits)
  from valid_wire_keyed [OF kv l] have vv: "valid_value (op_code GPU_BOOLEAN) (ucast (cinteger c) # r) = Some d'"
    and kb: "list_all key_byte (bytes_of kk)" by auto
  from value_boolean [OF bv vv] show ?thesis
    using GPU_BOOLEAN k decode_wire_keyed [OF kb l, of "op_code GPU_BOOLEAN"]
    by (simp add: wire_bytes_def wire_payload_def gpu_lua_emit_def)
next
  case GPU_STRING
  with wf enc obtain kk tt where k: "ckey c = Some kk" and l: "length kk \<le> 63"
    and tt: "ctext c = Some tt" and tl: "length tt \<le> 256"
    by (auto simp: wf_call_def enc_ok_def)
  let ?p = "word_of_nat (length tt) # word_of_nat (length tt div 256) # bytes_of tt @ r"
  from v GPU_STRING k tt have kv: "valid_keyed (op_code GPU_STRING)
      (word_of_nat (length kk) # bytes_of kk @ ?p) es = Some (d', es')"
    by (auto simp: wire_bytes_def wire_payload_def valid_step_def Let_def split: if_splits)
  from valid_wire_keyed [OF kv l] have vv: "valid_value (op_code GPU_STRING) ?p = Some d'"
    and kb: "list_all key_byte (bytes_of kk)" by auto
  from value_string [OF tl vv] show ?thesis
    using GPU_STRING k tt decode_wire_keyed [OF kb l, of "op_code GPU_STRING"]
    by (simp add: wire_bytes_def wire_payload_def gpu_lua_emit_def Let_def)
qed

lemma valid_loop_Some:
  assumes "valid_loop d es k t = Some es'" and "d \<noteq> []"
  obtains d1 es1 k1 t1 where "valid_step d es k t = Some (d1, es1, k1, t1)"
    and "valid_loop d1 es1 k1 t1 = Some es'"
  using assms by (auto simp: valid_loop.simps [of d] split: option.splits)

lemma slots_enough:
  "length st < slots \<Longrightarrow> length st < 80 \<Longrightarrow> gpu_lua_emit 80 c st = gpu_lua_emit slots c st"
  by (simp add: gpu_lua_emit_def lua_push_def push_setfield_def split: gpu_operation.splits)

lemma wire_loop_calls:
  "list_all wf_call cs \<Longrightarrow> list_all enc_ok cs \<Longrightarrow> valid_loop (concat (map wire_bytes cs)) es k t = Some es'
     \<Longrightarrow> tracks es st \<Longrightarrow> 65 \<le> slots
     \<Longrightarrow> decode_loop (concat (map wire_bytes cs)) st = gpu_lua_emit_all slots cs st"
proof (induction cs arbitrary: es k t st)
  case Nil
  then show ?case by (simp add: decode_loop.simps)
next
  case (Cons c cs)
  let ?r = "concat (map wire_bytes cs)"
  have ne: "wire_bytes c @ ?r \<noteq> []" by (simp add: wire_bytes_def)
  from Cons.prems(3) have vl: "valid_loop (wire_bytes c @ ?r) es k t = Some es'" by simp
  from vl ne obtain d1 es1 k1 t1
    where s: "valid_step (wire_bytes c @ ?r) es k t = Some (d1, es1, k1, t1)"
      and l: "valid_loop d1 es1 k1 t1 = Some es'"
    by (rule valid_loop_Some)
  from wire_call [OF _ _ s, of st] Cons.prems(1,2) slots_enough [of st slots c] Cons.prems(4,5)
  have d1: "d1 = ?r"
    and dec: "decode_step (wire_bytes c @ ?r) st = map_option (Pair ?r) (gpu_lua_emit slots c st)"
    by (auto simp: tracks_def)
  from valid_step_decode [OF s Cons.prems(4)] dec d1 obtain st1
    where st1: "gpu_lua_emit slots c st = Some st1" and tr1: "tracks es1 st1" by auto
  have "decode_loop ?r st1 = gpu_lua_emit_all slots cs st1"
    using Cons.IH [OF _ _ _ tr1 Cons.prems(5)] Cons.prems(1,2) l d1 by simp
  then show ?case using ne dec st1 by (simp add: decode_loop.simps [of "wire_bytes c @ ?r"] del: append_is_Nil_conv)
qed

definition empty_buffer :: wire_buffer where
  "empty_buffer = \<lparr>wdata = [], wcapacity = 0, wfailed = 0\<rparr>"

text \<open>
  C2. The worker transport is transparent: when a sequence of output operations is encoded by
  \<open>wire_emit\<close> without failure and the frame validates, decoding the frame in the client builds
  exactly the Lua value the in-process sink \<open>gpu_lua_emit\<close> builds from the same operations
  (given at least 65 Lua stack slots), and that value is one table.
\<close>

theorem transport_transparent:
  assumes "list_all wf_call cs"
    and "wfailed (wire_emit_all alloc empty_buffer cs) = 0"
    and "gpu_wire_valid (wdata (wire_emit_all alloc empty_buffer cs))"
    and "65 \<le> slots"
  shows "decode_frame (wdata (wire_emit_all alloc empty_buffer cs)) = gpu_lua_emit_all slots cs []
     \<and> (\<exists>t. gpu_lua_emit_all slots cs [] = Some [LTab t])"
proof -
  let ?d = "wdata (wire_emit_all alloc empty_buffer cs)"
  from wire_emit_all_data [OF assms(2)] have enc: "list_all enc_ok cs"
    and d: "?d = concat (map wire_bytes cs)" by (simp_all add: empty_buffer_def)
  from assms(3) obtain es where "valid_loop (concat (map wire_bytes cs)) [] 0 0 = Some es"
    by (auto simp: gpu_wire_valid_def d split: option.splits)
  then have "decode_frame ?d = gpu_lua_emit_all slots cs []"
    using wire_loop_calls [OF assms(1) enc _ _ assms(4)] by (simp add: decode_frame_def d tracks_def)
  moreover obtain t where "decode_frame ?d = Some [LTab t]"
    using valid_frame_table [OF assms(3)] by blast
  ultimately show ?thesis by metis
qed

definition sample_calls :: "emit_call list" where
  "sample_calls = [gpu_table 0 5, integer_field ''index'' (- 3), gpu_table 1 0, gpu_table 0 2,
     string_field ''name'' ''GPU 0'', boolean_field ''ok'' 7, gpu_index 1,
     gpu_field_attach ''devices'']"

definition sample_frame :: "byte list" where
  "sample_frame = [1, 5, 0, 0, 0, 0, 0, 0, 0,
     2, 5, 105, 110, 100, 101, 120, 253, 255, 255, 255, 255, 255, 255, 255,
     1, 0, 0, 0, 0, 1, 0, 0, 0, 1, 2, 0, 0, 0, 0, 0, 0, 0,
     4, 4, 110, 97, 109, 101, 5, 0, 71, 80, 85, 32, 48, 5, 2, 111, 107, 1, 7, 1, 0, 0, 0,
     6, 7, 100, 101, 118, 105, 99, 101, 115]"

lemma sample_valid: "gpu_wire_valid sample_frame"
  by (simp add: gpu_wire_valid_def sample_frame_def valid_loop.simps valid_step_def valid_keyed_def
      valid_value_def gpu_u32_def bump_def Let_def key_byte_def)

lemma sample_encoded:
  "wire_emit_all (\<lambda>_. True) empty_buffer sample_calls
     = \<lparr>wdata = sample_frame, wcapacity = 65536, wfailed = 0\<rparr>"
  by (simp add: wire_emit_all_def sample_calls_def sample_frame_def empty_buffer_def wire_emit_def
      reserve_def grow.simps emit_defs Let_def wire_bytes_def wire_payload_def payload_size_def
      gpu_put64_def gpu_put32_def byte_of_def code_def upt_rec)

theorem valid_frame_decodes_witness: "\<exists>t. decode_frame sample_frame = Some [LTab t]"
  by (rule valid_frame_decodes [OF sample_valid])

theorem transport_transparent_witness:
  "decode_frame sample_frame = Some [LTab [(KStr ''index'', LInt (- 3)),
     (KStr ''devices'', LTab [(KInt 1, LTab [(KStr ''name'', LStr ''GPU 0''), (KStr ''ok'', LBool True)])])]]"
proof -
  have wf: "list_all wf_call sample_calls" by (simp add: sample_calls_def wf_wrappers)
  have ok: "wfailed (wire_emit_all (\<lambda>_. True) empty_buffer sample_calls) = 0"
    by (simp add: sample_encoded)
  have va: "gpu_wire_valid (wdata (wire_emit_all (\<lambda>_. True) empty_buffer sample_calls))"
    by (simp add: sample_encoded sample_valid)
  from transport_transparent [OF wf ok va, of 80]
  have "decode_frame sample_frame = gpu_lua_emit_all 80 sample_calls []" by (simp add: sample_encoded)
  then show ?thesis
    by (simp add: sample_calls_def emit_defs gpu_lua_emit_def lua_push_def push_setfield_def tab_set_def)
qed

section \<open>The checksum\<close>

text \<open>
  What a running digest over bytes promises: no step forgets its state and none confuses two
  bytes. Replacing one byte of a message then always changes the digest.
\<close>

locale byte_digest =
  fixes step :: "byte \<Rightarrow> 'h \<Rightarrow> 'h"
  assumes step_state: "step b h = step b h' \<Longrightarrow> h = h'"
    and step_byte: "step b h = step b' h \<Longrightarrow> b = b'"
begin

lemma fold_state: "fold step bs h = fold step bs h' \<Longrightarrow> h = h'"
  by (induction bs arbitrary: h h') (auto dest: step_state)

lemma one_byte:
  assumes "i < length d" and "fold step (d[i := b]) h = fold step d h"
  shows "b = d ! i"
proof -
  let ?l = "take i d" and ?r = "drop (Suc i) d"
  have "d[i := b] = ?l @ b # ?r" using assms(1) by (simp add: upd_conv_take_nth_drop)
  moreover have "fold step d h = fold step (?l @ d ! i # ?r) h"
    using assms(1) by (simp add: id_take_nth_drop [symmetric])
  ultimately have "fold step ?r (step b (fold step ?l h)) = fold step ?r (step (d ! i) (fold step ?l h))"
    using assms(2) by simp
  then show ?thesis by (intro step_byte) (rule fold_state)
qed

end

lemma fnv_prime_inverse: "(16777619 :: u32) * 899433627 = 1"
  by simp

lemma fnv_mult_inj: "(h :: u32) * 16777619 = h' * 16777619 \<Longrightarrow> h = h'"
proof -
  assume "h * 16777619 = h' * 16777619"
  then have "h * 16777619 * 899433627 = h' * 16777619 * 899433627" by (rule arg_cong)
  then show "h = h'" by (simp only: mult.assoc fnv_prime_inverse mult_1_right)
qed

lemma xor_cancel: "(a :: 'a::len word) XOR b = a XOR c \<Longrightarrow> b = c"
proof -
  assume "a XOR b = a XOR c"
  then have "a XOR (a XOR b) = a XOR (a XOR c)" by simp
  then show "b = c" by (simp only: xor.assoc [symmetric] xor_self_eq xor.left_neutral)
qed

interpretation fnv: byte_digest fnv_step
proof unfold_locales
  fix b :: byte and h h' :: u32
  assume "fnv_step b h = fnv_step b h'"
  then have "h XOR ucast b = h' XOR ucast b" by (auto dest: fnv_mult_inj)
  then have "ucast b XOR h = ucast b XOR h'" by (simp only: xor.commute)
  then show "h = h'" by (rule xor_cancel)
next
  fix b b' :: byte and h :: u32
  assume "fnv_step b h = fnv_step b' h"
  then have "h XOR ucast b = h XOR ucast b'" by (auto dest: fnv_mult_inj)
  then have "(ucast b :: u32) = ucast b'" by (rule xor_cancel)
  then have "(ucast (ucast b :: u32) :: byte) = ucast (ucast b' :: u32)" by simp
  then show "b = b'" by (simp add: ucast_up_ucast_id is_up)
qed

text \<open>
  C3. The response checksum detects every corruption of a single byte: replacing byte \<open>i\<close> of
  a message leaves its checksum unchanged only if the byte is unchanged.
\<close>

theorem checksum_detects_byte:
  assumes "i < length d"
  shows "gpu_checksum (d[i := b]) = gpu_checksum d \<longleftrightarrow> b = d ! i"
  using assms fnv.one_byte by (auto simp: gpu_checksum_def)

theorem checksum_detects_byte_witness:
  "gpu_checksum ([1, 2, 3][1 := 7]) \<noteq> gpu_checksum [1, 2, 3]"
  using checksum_detects_byte [of 1 "[1, 2, 3]" 7] by simp

end
