(* ===== verification/Doubles.thy ===== *)
theory Doubles imports Prelude "HOL-Library.Log_Nat" begin

text \<open>
  The double arithmetic of the vendor collectors. A double is its 64-bit pattern, as in the
  Lua values; the operations below are those of IEEE 754 on finite operands, rounding to the
  nearest double and ties to even: \<open>dbl_round p q\<close> is the pattern of the double nearest to
  \<open>p / q\<close>, infinity when that is out of range.
\<close>

section \<open>Reading a double\<close>

definition dbl_negative :: "u64 \<Rightarrow> bool" where
  "dbl_negative x = bit x 63"

definition dbl_exponent :: "u64 \<Rightarrow> nat" where
  "dbl_exponent x = unat (drop_bit 52 x AND 0x7ff)"

definition dbl_significand :: "u64 \<Rightarrow> nat" where
  "dbl_significand x = unat (x AND mask 52) + (if dbl_exponent x = 0 then 0 else 2 ^ 52)"

text \<open>The magnitude of a finite double as a fraction.\<close>

definition dbl_num :: "u64 \<Rightarrow> nat" where
  "dbl_num x = dbl_significand x * 2 ^ (max 1 (dbl_exponent x) - 1075)"

definition dbl_den :: "u64 \<Rightarrow> nat" where
  "dbl_den x = 2 ^ (1075 - max 1 (dbl_exponent x))"

definition dbl_finite :: "u64 \<Rightarrow> bool" where
  "dbl_finite x \<longleftrightarrow> dbl_exponent x \<noteq> 0x7ff"

text \<open>\<open>x < 0\<close> (minus zero is not), \<open>x < c\<close> and \<open>c < x\<close> for a whole number \<open>c\<close>.\<close>

definition dbl_below_zero :: "u64 \<Rightarrow> bool" where
  "dbl_below_zero x \<longleftrightarrow> dbl_negative x \<and> dbl_num x \<noteq> 0"

definition dbl_magnitude_less :: "u64 \<Rightarrow> nat \<Rightarrow> bool" where
  "dbl_magnitude_less x c \<longleftrightarrow> dbl_num x < c * dbl_den x"

text \<open>
  Comparisons of doubles with infinities and NaN: \<open>dbl_less\<close> is \<open>x < y\<close>, false when one is NaN.
\<close>

definition dbl_nan :: "u64 \<Rightarrow> bool" where
  "dbl_nan x \<longleftrightarrow> dbl_exponent x = 0x7ff \<and> x AND mask 52 \<noteq> 0"

definition dbl_signed_num :: "u64 \<Rightarrow> int" where
  "dbl_signed_num x = (if dbl_negative x then - int (dbl_num x) else int (dbl_num x))"

definition dbl_less :: "u64 \<Rightarrow> u64 \<Rightarrow> bool" where
  "dbl_less x y \<longleftrightarrow> \<not> dbl_nan x \<and> \<not> dbl_nan y
     \<and> dbl_signed_num x * int (dbl_den y) < dbl_signed_num y * int (dbl_den x)"

section \<open>Rounding\<close>

definition round_half_even :: "nat \<Rightarrow> nat \<Rightarrow> nat" where
  "round_half_even n d =
     (let m = n div d; r = n mod d in if d < 2 * r \<or> (2 * r = d \<and> odd m) then m + 1 else m)"

definition dbl_infinity :: nat where
  "dbl_infinity = 2047 * 2 ^ 52"

definition dbl_round :: "nat \<Rightarrow> nat \<Rightarrow> nat" where
  "dbl_round p q =
     (if p = 0 then 0
      else let k = int (floorlog 2 p) - int (floorlog 2 q);
               e0 = (if p * 2 ^ nat (- k) < q * 2 ^ nat k then k - 1 else k);
               e = max e0 (- 1022);
               s = 52 - e;
               m = round_half_even (p * 2 ^ nat s) (q * 2 ^ nat (- s))
           in min dbl_infinity (nat (e + 1022) * 2 ^ 52 + m))"

definition dbl_signed :: "bool \<Rightarrow> nat \<Rightarrow> u64" where
  "dbl_signed negative bits = word_of_nat ((if negative then 2 ^ 63 else 0) + bits)"

definition dbl_of_nat :: "nat \<Rightarrow> u64" where
  "dbl_of_nat n = dbl_signed False (dbl_round n 1)"

definition dbl_of_int :: "int \<Rightarrow> u64" where
  "dbl_of_int i = dbl_signed (i < 0) (dbl_round (nat \<bar>i\<bar>) 1)"

text \<open>Operands are finite and a divisor is not zero.\<close>

definition dbl_mul :: "u64 \<Rightarrow> u64 \<Rightarrow> u64" where
  "dbl_mul x y = dbl_signed (dbl_negative x \<noteq> dbl_negative y)
     (dbl_round (dbl_num x * dbl_num y) (dbl_den x * dbl_den y))"

definition dbl_div :: "u64 \<Rightarrow> u64 \<Rightarrow> u64" where
  "dbl_div x y = dbl_signed (dbl_negative x \<noteq> dbl_negative y)
     (dbl_round (dbl_num x * dbl_den y) (dbl_den x * dbl_num y))"

lemma floorlog_eq: "2 ^ (k - 1) \<le> x \<Longrightarrow> x < 2 ^ k \<Longrightarrow> floorlog 2 x = k"
  by (intro antisym floorlog_leI floorlog_geI) auto

section \<open>Results within range are finite\<close>

lemma dbl_den_positive [simp]: "0 < dbl_den x"
  by (simp add: dbl_den_def)

lemma round_half_even_le: "n < c * d \<Longrightarrow> round_half_even n d \<le> c"
proof -
  assume n: "n < c * d"
  then have "n div d < c" by (simp add: less_mult_imp_div_less)
  then show ?thesis by (simp add: round_half_even_def Let_def)
qed

lemma dbl_round_le:
  assumes q: "0 < q" and less: "p < q * 2 ^ n"
  shows "dbl_round p q \<le> (n + 1022) * 2 ^ 52 + 2 ^ 55"
proof (cases "p = 0")
  case True
  then show ?thesis by (simp add: dbl_round_def)
next
  case False
  define a b where "a = floorlog 2 p" and "b = floorlog 2 q"
  define k where "k = int a - int b"
  define e0 where "e0 = (if p * 2 ^ nat (- k) < q * 2 ^ nat k then k - 1 else k)"
  define e where "e = max e0 (- 1022)"
  define s where "s = 52 - e"
  have pa: "p < 2 ^ a" and qb: "2 ^ (b - 1) \<le> q" "q < 2 ^ b" and b1: "1 \<le> b"
    using floorlog_bounds [of p 2] floorlog_bounds [of q 2] False q
    by (auto simp: a_def b_def Suc_le_eq intro!: Nat.gr0I)
  have "p < 2 ^ (b + n)"
  proof -
    note less
    also have "q * 2 ^ n < 2 ^ b * 2 ^ n" using qb by simp
    finally show ?thesis by (simp only: power_add)
  qed
  then have "a \<le> b + n" unfolding a_def by (intro floorlog_leI) auto
  then have k: "k \<le> int n" by (simp add: k_def)
  have e0: "k - 1 \<le> e0" "e0 \<le> k" by (auto simp: e0_def)
  then have e: "e \<le> int n" using k by (auto simp: e_def)
  have s: "s \<le> 53 - k" using e0 by (auto simp: s_def e_def)
  have "p * 2 ^ nat s < 2 ^ 55 * (q * 2 ^ nat (- s))"
  proof -
    have "p * 2 ^ nat s < 2 ^ a * 2 ^ nat s" using pa by simp
    also have "\<dots> = 2 ^ (a + nat s)" by (simp add: power_add)
    also have "\<dots> \<le> 2 ^ (55 + (b - 1) + nat (- s))"
    proof (rule power_increasing)
      show "a + nat s \<le> 55 + (b - 1) + nat (- s)" using s b1 unfolding k_def by linarith
    qed simp
    also have "\<dots> = 2 ^ 55 * (2 ^ (b - 1) * 2 ^ nat (- s))" by (simp only: power_add mult.assoc)
    also have "\<dots> \<le> 2 ^ 55 * (q * 2 ^ nat (- s))" using qb by simp
    finally show ?thesis .
  qed
  then have m: "round_half_even (p * 2 ^ nat s) (q * 2 ^ nat (- s)) \<le> 2 ^ 55"
    by (rule round_half_even_le)
  have "nat (e + 1022) * 2 ^ 52 \<le> (n + 1022) * 2 ^ 52" using e by (intro mult_le_mono1) linarith
  with m have "nat (e + 1022) * 2 ^ 52 + round_half_even (p * 2 ^ nat s) (q * 2 ^ nat (- s))
      \<le> (n + 1022) * 2 ^ 52 + 2 ^ 55" by (rule add_mono [rotated])
  moreover have "dbl_round p q = min dbl_infinity
      (nat (e + 1022) * 2 ^ 52 + round_half_even (p * 2 ^ nat s) (q * 2 ^ nat (- s)))"
    using False by (simp add: dbl_round_def Let_def a_def b_def k_def e0_def e_def s_def)
  ultimately show ?thesis by (simp add: min.coboundedI2)
qed

lemma dbl_round_bound:
  assumes "0 < q" and "p < q * 2 ^ n" and "n \<le> 900"
  shows "dbl_round p q < dbl_infinity"
proof -
  have "(n + 1022) * 2 ^ 52 + 2 ^ 55 \<le> (900 + 1022) * 2 ^ 52 + (2 ^ 55 :: nat)"
    using assms(3) by (intro add_mono mult_le_mono1) auto
  with dbl_round_le [OF assms(1,2)] show ?thesis by (simp add: dbl_infinity_def)
qed

lemma dbl_exponent_div: "dbl_exponent x = unat x div 2 ^ 52 mod 2048"
proof -
  have m: "(0x7ff :: u64) = mask 11" by (simp add: mask_eq_exp_minus_1)
  show ?thesis
    unfolding dbl_exponent_def m take_bit_eq_mask [symmetric] unsigned_take_bit_eq unat_drop_bit_eq
    by (simp add: take_bit_eq_mod drop_bit_eq_div)
qed

lemma dbl_signed_unat:
  assumes b: "bits < dbl_infinity"
  shows "unat (dbl_signed negative bits) div 2 ^ 52 mod 2048 = bits div 2 ^ 52"
proof -
  have b: "bits < 2047 * 2 ^ 52" using assms by (simp add: dbl_infinity_def)
  have u: "unat (dbl_signed negative bits) = (if negative then 2 ^ 63 else 0) + bits"
    unfolding dbl_signed_def by (subst unat_of_nat, rule mod_less) (use b in simp)
  have small: "bits div 2 ^ 52 < 2047" using b by (simp add: less_mult_imp_div_less)
  have "(2048 * 2 ^ 52 + bits) div 2 ^ 52 = 2048 + bits div 2 ^ 52" by (rule div_mult_self3) simp
  then show ?thesis using small by (simp add: u)
qed

lemma dbl_signed_finite: "bits < dbl_infinity \<Longrightarrow> dbl_finite (dbl_signed negative bits)"
proof -
  assume b: "bits < dbl_infinity"
  then have "bits div 2 ^ 52 < 2047" by (simp add: less_mult_imp_div_less dbl_infinity_def)
  then show ?thesis using dbl_signed_unat [OF b] by (simp add: dbl_finite_def dbl_exponent_div)
qed

lemma dbl_div_finite:
  assumes "dbl_num y \<noteq> 0" and "dbl_num x * dbl_den y < dbl_den x * dbl_num y * 2 ^ n" and "n \<le> 900"
  shows "dbl_finite (dbl_div x y)"
  unfolding dbl_div_def
  by (rule dbl_signed_finite, rule dbl_round_bound [OF _ assms(2,3)]) (use assms(1) in simp)

lemma dbl_mul_finite:
  assumes "dbl_num x * dbl_num y < dbl_den x * dbl_den y * 2 ^ n" and "n \<le> 900"
  shows "dbl_finite (dbl_mul x y)"
  unfolding dbl_mul_def
  by (rule dbl_signed_finite, rule dbl_round_bound [OF _ assms]) simp

lemma dbl_of_nat_finite: "n < 2 ^ 64 \<Longrightarrow> dbl_finite (dbl_of_nat n)"
  unfolding dbl_of_nat_def by (rule dbl_signed_finite, rule dbl_round_bound [where n = 64]) auto

section \<open>The magnitude of a result\<close>

lemma dbl_num_bound:
  assumes "dbl_exponent x \<le> n + 1022"
  shows "dbl_num x < dbl_den x * 2 ^ Suc n"
proof -
  have s: "dbl_significand x < 2 ^ 53"
  proof -
    have "unat (x AND mask 52) < 2 ^ 52"
      unfolding take_bit_eq_mask [symmetric] unsigned_take_bit_eq by (rule take_bit_nat_less_exp)
    then show ?thesis by (simp add: dbl_significand_def)
  qed
  let ?e = "max 1 (dbl_exponent x)"
  have "dbl_num x < 2 ^ 53 * 2 ^ (?e - 1075)" using s by (simp add: dbl_num_def)
  also have "\<dots> = 2 ^ (53 + (?e - 1075))" by (simp only: power_add)
  also have "\<dots> \<le> 2 ^ (1075 - ?e + Suc n)" using assms by (intro power_increasing) auto
  also have "\<dots> = dbl_den x * 2 ^ Suc n" by (simp only: dbl_den_def power_add)
  finally show ?thesis .
qed

lemma dbl_signed_exponent: "bits < dbl_infinity \<Longrightarrow> dbl_exponent (dbl_signed negative bits) = bits div 2 ^ 52"
  using dbl_signed_unat by (simp add: dbl_exponent_div)

lemma dbl_rounded_magnitude:
  assumes "0 < q" and "p < q * 2 ^ n" and "n \<le> 900"
  shows "dbl_num (dbl_signed s (dbl_round p q)) < dbl_den (dbl_signed s (dbl_round p q)) * 2 ^ (n + 9)"
proof -
  have "dbl_round p q div 2 ^ 52 \<le> ((n + 1022) * 2 ^ 52 + 2 ^ 55) div 2 ^ 52"
    by (rule div_le_mono) (rule dbl_round_le [OF assms(1,2)])
  also have "\<dots> = n + 1022 + 8" by simp
  finally have "dbl_exponent (dbl_signed s (dbl_round p q)) \<le> (n + 8) + 1022"
    by (simp add: dbl_signed_exponent dbl_round_bound [OF assms])
  from dbl_num_bound [OF this] show ?thesis by (simp add: add.commute)
qed

lemma dbl_of_nat_magnitude: "n < 2 ^ k \<Longrightarrow> k \<le> 900 \<Longrightarrow> dbl_num (dbl_of_nat n) < dbl_den (dbl_of_nat n) * 2 ^ (k + 9)"
  unfolding dbl_of_nat_def by (rule dbl_rounded_magnitude) simp_all

lemma dbl_div_within:
  assumes x: "dbl_num x < dbl_den x * 2 ^ n" and y: "dbl_den y \<le> dbl_num y" and n: "n \<le> 900"
  shows "dbl_finite (dbl_div x y)"
proof (rule dbl_div_finite [OF _ _ n])
  have "0 < dbl_num y" using y dbl_den_positive [of y] by linarith
  then show "dbl_num y \<noteq> 0" by simp
  have "dbl_num x * dbl_den y < dbl_den x * 2 ^ n * dbl_den y" using x by simp
  also have "\<dots> \<le> dbl_den x * 2 ^ n * dbl_num y" using y by simp
  finally show "dbl_num x * dbl_den y < dbl_den x * dbl_num y * 2 ^ n" by (simp add: mult.assoc mult.commute mult.left_commute)
qed

lemma magnitude_product:
  assumes x: "dbl_num x < dbl_den x * 2 ^ n" and y: "dbl_num y < dbl_den y * 2 ^ m"
  shows "dbl_num x * dbl_num y < dbl_den x * dbl_den y * 2 ^ (n + m)"
proof -
  have "dbl_num x * dbl_num y < (dbl_den x * 2 ^ n) * (dbl_den y * 2 ^ m)"
    by (rule mult_strict_mono) (use x y in auto)
  then show ?thesis by (simp add: power_add mult.assoc mult.left_commute)
qed

lemma dbl_mul_within:
  "dbl_num x < dbl_den x * 2 ^ n \<Longrightarrow> dbl_num y < dbl_den y * 2 ^ m \<Longrightarrow> n + m \<le> 900 \<Longrightarrow> dbl_finite (dbl_mul x y)"
  by (rule dbl_mul_finite, rule magnitude_product)

lemma dbl_mul_magnitude:
  "dbl_num x < dbl_den x * 2 ^ n \<Longrightarrow> dbl_num y < dbl_den y * 2 ^ m \<Longrightarrow> n + m \<le> 900
     \<Longrightarrow> dbl_num (dbl_mul x y) < dbl_den (dbl_mul x y) * 2 ^ (n + m + 9)"
  unfolding dbl_mul_def by (rule dbl_rounded_magnitude [OF _ magnitude_product]) simp_all

lemma dbl_of_int_magnitude: "nat \<bar>i\<bar> < 2 ^ k \<Longrightarrow> k \<le> 900 \<Longrightarrow> dbl_num (dbl_of_int i) < dbl_den (dbl_of_int i) * 2 ^ (k + 9)"
  unfolding dbl_of_int_def by (rule dbl_rounded_magnitude) simp_all

lemma dbl_of_int_finite: "nat \<bar>i\<bar> < 2 ^ 64 \<Longrightarrow> dbl_finite (dbl_of_int i)"
  unfolding dbl_of_int_def by (rule dbl_signed_finite, rule dbl_round_bound [where n = 64]) auto

text \<open>A whole number that is not zero stays at least one.\<close>

lemma round_half_even_ge: "c * d \<le> n \<Longrightarrow> 0 < d \<Longrightarrow> c \<le> round_half_even n d"
  by (auto simp: round_half_even_def Let_def intro: le_SucI less_eq_div_iff_mult_less_eq [THEN iffD2])

lemma dbl_round_ge_one:
  assumes p: "0 < p"
  shows "1023 * 2 ^ 52 \<le> dbl_round p 1"
proof -
  define k where "k = floorlog 2 p - 1"
  have f: "floorlog 2 p = Suc k" and low: "2 ^ k \<le> p"
    using floorlog_bounds [of p 2] p by (auto simp: k_def Suc_le_eq) (cases "floorlog 2 p"; simp)
  have one: "floorlog 2 (Suc 0) = Suc 0" by (rule floorlog_eq) simp_all
  let ?m = "round_half_even (p * 2 ^ (52 - k)) (2 ^ (k - 52))"
  have "(2 :: nat) ^ 52 * 2 ^ (k - 52) = 2 ^ k * 2 ^ (52 - k)"
    by (simp only: power_add [symmetric]) (rule arg_cong [of _ _ "power 2"], simp)
  also have "\<dots> \<le> p * 2 ^ (52 - k)" using low by simp
  finally have m: "2 ^ 52 \<le> ?m" by (rule round_half_even_ge) simp
  have s: "nat (52 - int k) = 52 - k" "nat (int k - 52) = k - 52" "nat (int k + 1022) = k + 1022" by linarith+
  have "dbl_round p 1 = min dbl_infinity ((k + 1022) * 2 ^ 52 + ?m)"
    using p low by (simp add: dbl_round_def Let_def f one s not_less)
  moreover have "1022 * 2 ^ 52 \<le> (k + 1022) * 2 ^ 52" by simp
  ultimately show ?thesis using m by (simp add: dbl_infinity_def)
qed

lemma dbl_of_nat_ge_one:
  assumes "0 < n" and "n < 2 ^ 64"
  shows "dbl_den (dbl_of_nat n) \<le> dbl_num (dbl_of_nat n)"
proof -
  let ?e = "dbl_exponent (dbl_of_nat n)"
  have "dbl_round n 1 < dbl_infinity" by (rule dbl_round_bound [where n = 64]) (use assms in auto)
  then have "?e = dbl_round n 1 div 2 ^ 52" unfolding dbl_of_nat_def by (rule dbl_signed_exponent)
  also have "\<dots> \<ge> 1023" using div_le_mono [OF dbl_round_ge_one [OF assms(1)], of "2 ^ 52"] by simp
  finally have e: "1023 \<le> ?e" .
  then have "(2 :: nat) ^ (1075 - max 1 ?e) \<le> 2 ^ 52" by (intro power_increasing) auto
  also have "\<dots> \<le> dbl_significand (dbl_of_nat n)" using e by (simp add: dbl_significand_def)
  also have "\<dots> \<le> dbl_num (dbl_of_nat n)" by (simp add: dbl_num_def)
  finally show ?thesis by (simp only: dbl_den_def)
qed

lemma thousand_magnitude: "dbl_den (dbl_of_nat 1000) \<le> dbl_num (dbl_of_nat 1000)"
  by (rule dbl_of_nat_ge_one) simp_all

end
