(* ===== verification/GpuOutput.thy ===== *)
theory GpuOutput imports GpuProtocol Doubles begin

text \<open>
  What a collector has to keep so that its output passes the validator. \<open>sendable\<close> says of
  one call of \<^verbatim>\<open>wtop_gpu_output.h\<close> that its arguments are within the limits of the frame,
  and \<open>call_effect\<close> what it does to the tables the validator counts. \<open>body d n k t cs\<close> is the
  contract of a part of a collector: the calls \<open>cs\<close> add at most \<open>n\<close> entries to the table on top,
  take at most \<open>k\<close> operations and \<open>t\<close> tables, and nest at most \<open>d\<close> tables below it. Its rules
  follow the way collectors are written, and \<open>frame_valid\<close> turns the contract of a whole
  collection into \<open>gpu_wire_valid\<close>.
\<close>

section \<open>One call\<close>

definition key_ok :: "string \<Rightarrow> bool" where
  "key_ok k \<longleftrightarrow> k \<noteq> [] \<and> length k \<le> 63 \<and> list_all key_byte (bytes_of k)"

definition text_ok :: "string \<Rightarrow> bool" where
  "text_ok t \<longleftrightarrow> length t \<le> 256 \<and> 0 \<notin> set (bytes_of t)"

definition sendable :: "emit_call \<Rightarrow> bool" where
  "sendable c \<longleftrightarrow> (case cop c of
       GPU_TABLE \<Rightarrow> ckey c = None \<and> ctext c = None \<and> gpu_u32 (gpu_put64 (cinteger c)) \<le> 128
         \<and> gpu_u32 (drop 4 (gpu_put64 (cinteger c))) \<le> 4096
     | GPU_INDEX \<Rightarrow> ckey c = None \<and> ctext c = None \<and> (ucast (cinteger c) :: u32) \<noteq> 0
         \<and> (ucast (cinteger c) :: u32) \<le> 4096
     | GPU_DISCARD \<Rightarrow> ckey c = None \<and> ctext c = None
     | GPU_STRING \<Rightarrow> (case (ckey c, ctext c) of (Some k, Some t) \<Rightarrow> key_ok k \<and> text_ok t | _ \<Rightarrow> False)
     | _ \<Rightarrow> ctext c = None \<and> (case ckey c of Some k \<Rightarrow> key_ok k | None \<Rightarrow> False)
         \<and> (cop c = GPU_NUMBER \<longrightarrow> is_finite_bits (cnumber c))
         \<and> (cop c = GPU_BOOLEAN \<longrightarrow> cinteger c \<in> {0, 1}))"

fun call_effect :: "emit_call \<Rightarrow> nat list \<times> nat \<times> nat \<Rightarrow> (nat list \<times> nat \<times> nat) option" where
  "call_effect c (es, k, t) =
     (if GPU_WIRE_OPERATIONS < k + 1 then None
      else case cop c of
        GPU_TABLE \<Rightarrow> if length es = 64 \<or> GPU_WIRE_TABLES < t + 1 then None else Some (0 # es, k + 1, t + 1)
      | GPU_INDEX \<Rightarrow> if length es < 2 then None else map_option (\<lambda>es. (es, k + 1, t)) (bump (tl es))
      | GPU_FIELD \<Rightarrow> if length es < 2 then None else map_option (\<lambda>es. (es, k + 1, t)) (bump (tl es))
      | GPU_DISCARD \<Rightarrow> if length es < 2 then None else Some (tl es, k + 1, t)
      | _ \<Rightarrow> map_option (\<lambda>es. (es, k + 1, t)) (bump es))"

declare call_effect.simps [simp del]

fun calls_effect :: "emit_call list \<Rightarrow> nat list \<times> nat \<times> nat \<Rightarrow> (nat list \<times> nat \<times> nat) option" where
  "calls_effect [] s = Some s"
| "calls_effect (c # cs) s = Option.bind (call_effect c s) (calls_effect cs)"

lemma calls_effect_append:
  "calls_effect (a @ b) s = Option.bind (calls_effect a s) (calls_effect b)"
proof (induction a arbitrary: s)
  case (Cons c a)
  then show ?case by (cases "call_effect c s") simp_all
qed simp

lemma valid_keyed_wire:
  assumes "key_ok k" and "es \<noteq> []" and "opc = 2 \<or> opc = 3 \<or> opc = 4 \<or> opc = 5"
  shows "valid_keyed opc (word_of_nat (length k) # bytes_of k @ r) es =
    (case bump es of None \<Rightarrow> None | Some es' \<Rightarrow> map_option (\<lambda>r. (r, es')) (valid_value opc r))"
  using assms by (auto simp: key_ok_def valid_keyed_def Let_def unat_small split: option.split)

lemma valid_keyed_field:
  assumes "key_ok k" and "2 \<le> length es"
  shows "valid_keyed 6 (word_of_nat (length k) # bytes_of k @ r) es =
    (case bump (tl es) of None \<Rightarrow> None | Some es' \<Rightarrow> Some (r, es'))"
  using assms by (auto simp: key_ok_def valid_keyed_def valid_value_def Let_def unat_small split: option.split)

lemma valid_value_text:
  "text_ok t \<Longrightarrow> valid_value 4
     (word_of_nat (length t) # word_of_nat (length t div 256) # bytes_of t @ r) = Some r"
  using length_word [of "length t"] by (simp add: text_ok_def valid_value_def Let_def)

lemma drop_put64: "gpu_u32 (drop 4 (gpu_put64 v @ r)) = gpu_u32 (drop 4 (gpu_put64 v))"
  using le32.get_put [of "ucast (drop_bit 32 v)" "[]"] by (simp add: gpu_put64_split le_simps)

lemma valid_step_wire:
  assumes s: "sendable c" and eff: "call_effect c (es, k, t) = Some (es', k', t')"
  shows "valid_step (wire_bytes c @ r) es k t = Some (r, es', k', t')"
proof (cases "cop c")
  case GPU_TABLE
  have "gpu_u32 (gpu_put64 (cinteger c) @ r) = gpu_u32 (gpu_put64 (cinteger c))"
    by (simp add: gpu_u32_def nth_append)
  then show ?thesis using GPU_TABLE s eff drop_put64 [of "cinteger c" r]
    by (auto simp: sendable_def wire_bytes_def wire_payload_def valid_step_def Let_def le_simps
        call_effect.simps split: if_splits)
next
  case GPU_STRING
  then show ?thesis using s eff
    by (auto simp: sendable_def wire_bytes_def wire_payload_def valid_step_def Let_def call_effect.simps
        valid_keyed_wire bump_def valid_value_text split: if_splits option.splits list.splits)
qed (use s eff in \<open>auto simp: sendable_def wire_bytes_def wire_payload_def valid_step_def Let_def
    call_effect.simps le_simps valid_keyed_wire valid_keyed_field bump_def valid_value_def
    split: if_splits option.splits list.splits prod.splits\<close>)

lemma valid_loop_wire:
  "list_all sendable cs \<Longrightarrow> calls_effect cs (es, k, t) = Some (es', k', t')
     \<Longrightarrow> valid_loop (concat (map wire_bytes cs)) es k t = Some es'"
proof (induction cs arbitrary: es k t)
  case Nil
  then show ?case by (simp add: valid_loop.simps)
next
  case (Cons c cs)
  from Cons.prems(2) obtain es1 k1 t1 where c: "call_effect c (es, k, t) = Some (es1, k1, t1)"
    and cs: "calls_effect cs (es1, k1, t1) = Some (es', k', t')"
    by (auto simp: bind_eq_Some_conv)
  have ne: "wire_bytes c @ concat (map wire_bytes cs) \<noteq> []" by (simp add: wire_bytes_def)
  show ?case using ne Cons.prems(1) valid_step_wire [OF _ c] Cons.IH [OF _ cs]
    by (simp add: valid_loop.simps [of "wire_bytes c @ concat (map wire_bytes cs)"] del: append_is_Nil_conv)
qed

section \<open>The contract of a part\<close>

named_theorems emit_intros "rules for the calls of a collector"

definition body :: "nat \<Rightarrow> nat \<Rightarrow> nat \<Rightarrow> nat \<Rightarrow> emit_call list \<Rightarrow> bool" where
  "body d n k t cs \<longleftrightarrow> list_all sendable cs \<and>
     (\<forall>es e ops tabs. length es + 1 + d \<le> 64 \<longrightarrow> e + n \<le> 4096 \<longrightarrow> ops + k \<le> GPU_WIRE_OPERATIONS
        \<longrightarrow> tabs + t \<le> GPU_WIRE_TABLES
        \<longrightarrow> (\<exists>e' ops' tabs'. calls_effect cs (e # es, ops, tabs) = Some (e' # es, ops', tabs')
               \<and> e' \<le> e + n \<and> ops' \<le> ops + k \<and> tabs' \<le> tabs + t))"

lemma bodyD:
  assumes "body d n k t cs" and "length es + 1 + d \<le> 64" and "e + n \<le> 4096"
    and "ops + k \<le> GPU_WIRE_OPERATIONS" and "tabs + t \<le> GPU_WIRE_TABLES"
  obtains e' ops' tabs' where "calls_effect cs (e # es, ops, tabs) = Some (e' # es, ops', tabs')"
    and "e' \<le> e + n" and "ops' \<le> ops + k" and "tabs' \<le> tabs + t"
  using assms unfolding body_def by metis

lemma body_sendable: "body d n k t cs \<Longrightarrow> list_all sendable cs"
  by (simp add: body_def)

lemma body_nil: "body d n k t []"
  by (simp add: body_def)

lemma body_mono:
  assumes b: "body d n k t cs" and le: "d \<le> d'" "n \<le> n'" "k \<le> k'" "t \<le> t'"
  shows "body d' n' k' t' cs"
  unfolding body_def
proof (intro conjI allI impI)
  show "list_all sendable cs" using b by (rule body_sendable)
next
  fix es :: "nat list" and e ops tabs :: nat
  assume "length es + 1 + d' \<le> 64" "e + n' \<le> 4096" "ops + k' \<le> GPU_WIRE_OPERATIONS"
    "tabs + t' \<le> GPU_WIRE_TABLES"
  with le have "length es + 1 + d \<le> 64" "e + n \<le> 4096" "ops + k \<le> GPU_WIRE_OPERATIONS"
    "tabs + t \<le> GPU_WIRE_TABLES" by linarith+
  from bodyD [OF b this] le show "\<exists>e' ops' tabs'. calls_effect cs (e # es, ops, tabs) = Some (e' # es, ops', tabs')
      \<and> e' \<le> e + n' \<and> ops' \<le> ops + k' \<and> tabs' \<le> tabs + t'"
    by (metis add_left_mono order_trans)
qed

lemma body_append:
  assumes a: "body d n k t as" and b: "body d n' k' t' bs"
  shows "body d (n + n') (k + k') (t + t') (as @ bs)"
  unfolding body_def
proof (intro conjI allI impI)
  show "list_all sendable (as @ bs)" using body_sendable [OF a] body_sendable [OF b] by simp
next
  fix es :: "nat list" and e ops tabs :: nat
  assume l: "length es + 1 + d \<le> 64" and m: "e + (n + n') \<le> 4096"
    "ops + (k + k') \<le> GPU_WIRE_OPERATIONS" "tabs + (t + t') \<le> GPU_WIRE_TABLES"
  from bodyD [OF a l, of e ops tabs] m obtain e1 o1 t1
    where 1: "calls_effect as (e # es, ops, tabs) = Some (e1 # es, o1, t1)"
      and le1: "e1 \<le> e + n" "o1 \<le> ops + k" "t1 \<le> tabs + t" by auto
  from bodyD [OF b l, of e1 o1 t1] m le1 obtain e2 o2 t2
    where 2: "calls_effect bs (e1 # es, o1, t1) = Some (e2 # es, o2, t2)"
      and le2: "e2 \<le> e1 + n'" "o2 \<le> o1 + k'" "t2 \<le> t1 + t'" by auto
  show "\<exists>e' ops' tabs'. calls_effect (as @ bs) (e # es, ops, tabs) = Some (e' # es, ops', tabs')
      \<and> e' \<le> e + (n + n') \<and> ops' \<le> ops + (k + k') \<and> tabs' \<le> tabs + (t + t')"
    using 1 2 le1 le2 by (simp add: calls_effect_append)
qed

lemma body_concat:
  "(\<And>x. x \<in> set xs \<Longrightarrow> body d (n x) (k x) (t x) (f x)) \<Longrightarrow>
     body d (sum_list (map n xs)) (sum_list (map k xs)) (sum_list (map t xs)) (concat (map f xs))"
  by (induction xs) (auto intro: body_append body_nil)

lemma body_times:
  assumes "\<And>x. x \<in> set xs \<Longrightarrow> body d n k t (f x)"
  shows "body d (length xs * n) (length xs * k) (length xs * t) (concat (map f xs))"
  using body_concat [of xs d "\<lambda>_. n" "\<lambda>_. k" "\<lambda>_. t" f] assms by (simp add: sum_list_triv)

lemma body_value:
  assumes "sendable c" and "cop c \<in> {GPU_INTEGER, GPU_NUMBER, GPU_STRING, GPU_BOOLEAN}"
  shows "body d 1 1 t [c]"
  using assms by (auto simp: body_def bump_def call_effect.simps)

lemma body_integer: "key_ok key \<Longrightarrow> body d 1 1 t [integer_field key v]"
  by (rule body_value) (simp_all add: sendable_def integer_field_def)

lemma body_number: "key_ok key \<Longrightarrow> is_finite_bits v \<Longrightarrow> body d 1 1 t [number_field key v]"
  by (rule body_value) (simp_all add: sendable_def number_field_def)

lemma body_string: "key_ok key \<Longrightarrow> text_ok v \<Longrightarrow> body d 1 1 t [string_field key v]"
  by (rule body_value) (simp_all add: sendable_def string_field_def)

lemma body_boolean: "key_ok key \<Longrightarrow> body d 1 1 t [boolean_field key v]"
  by (rule body_value) (simp_all add: sendable_def boolean_field_def)

lemma table_words:
  fixes a f :: u32
  shows "gpu_u32 (gpu_put64 (cinteger (gpu_table a f))) = f"
    and "gpu_u32 (drop 4 (gpu_put64 (cinteger (gpu_table a f)))) = a"
proof -
  let ?v = "push_bit 32 (scast a) OR ucast f :: u64"
  have lo: "(ucast ?v :: u32) = f"
    by (rule bit_word_eqI) (auto simp: bit_ucast_iff bit_or_iff bit_push_bit_iff)
  have hi: "(ucast (drop_bit 32 ?v) :: u32) = a"
    by (rule bit_word_eqI) (auto simp: bit_ucast_iff bit_or_iff bit_push_bit_iff bit_drop_bit_eq
        bit_signed_iff dest: bit_imp_le_length)
  have p: "gpu_put64 ?v = gpu_put32 f @ gpu_put32 a"
    using gpu_put64_split [of ?v] by (simp only: lo hi)
  show "gpu_u32 (gpu_put64 (cinteger (gpu_table a f))) = f"
    using p by (simp add: gpu_table_def le_simps)
  show "gpu_u32 (drop 4 (gpu_put64 (cinteger (gpu_table a f)))) = a"
    using p le32.get_put [of a "[]"] by (simp add: gpu_table_def le_simps)
qed

lemma sendable_table: "a \<le> 4096 \<Longrightarrow> f \<le> 128 \<Longrightarrow> sendable (gpu_table a f)"
  using table_words [of a f] by (simp add: sendable_def gpu_table_def)

text \<open>A table filled and then attached, appended or dropped.\<close>

lemma body_closed:
  assumes cs: "body d n k t cs" and n: "n \<le> 4096" and a: "a \<le> 4096" "f \<le> 128"
    and c: "sendable c" "cop c = GPU_DISCARD \<or> (cop c \<in> {GPU_FIELD, GPU_INDEX} \<and> m = 1)"
  shows "body (d + 1) m (k + 2) (t + 1) (gpu_table a f # cs @ [c])"
  unfolding body_def
proof (intro conjI allI impI)
  show "list_all sendable (gpu_table a f # cs @ [c])"
    using body_sendable [OF cs] sendable_table [OF a] c(1) by simp
next
  fix es :: "nat list" and e ops tabs :: nat
  assume l: "length es + 1 + (d + 1) \<le> 64" and e: "e + m \<le> 4096"
    and o: "ops + (k + 2) \<le> GPU_WIRE_OPERATIONS" and tt: "tabs + (t + 1) \<le> GPU_WIRE_TABLES"
  have 1: "call_effect (gpu_table a f) (e # es, ops, tabs) = Some (0 # e # es, ops + 1, tabs + 1)"
    using l o tt by (simp add: gpu_table_def call_effect.simps)
  have "length (e # es) + 1 + d \<le> 64" "0 + n \<le> 4096" "ops + 1 + k \<le> GPU_WIRE_OPERATIONS"
    "tabs + 1 + t \<le> GPU_WIRE_TABLES" using l n o tt by simp_all
  from bodyD [OF cs this] obtain e' ops' tabs'
    where 2: "calls_effect cs (0 # e # es, ops + 1, tabs + 1) = Some (e' # e # es, ops', tabs')"
      and le: "ops' \<le> ops + 1 + k" "tabs' \<le> tabs + 1 + t" by metis
  have 3: "call_effect c (e' # e # es, ops', tabs')
      = Some ((if cop c = GPU_DISCARD then e else e + 1) # es, ops' + 1, tabs')"
    using c(2) le o e by (auto simp: bump_def call_effect.simps)
  show "\<exists>e' ops' tabs'. calls_effect (gpu_table a f # cs @ [c]) (e # es, ops, tabs)
        = Some (e' # es, ops', tabs') \<and> e' \<le> e + m \<and> ops' \<le> ops + (k + 2) \<and> tabs' \<le> tabs + (t + 1)"
    using 1 2 3 le c(2) by (auto simp: calls_effect_append)
qed

lemma body_attach:
  "body d n k t cs \<Longrightarrow> n \<le> 4096 \<Longrightarrow> a \<le> 4096 \<Longrightarrow> f \<le> 128 \<Longrightarrow> key_ok key
     \<Longrightarrow> body (d + 1) 1 (k + 2) (t + 1) (gpu_table a f # cs @ [gpu_field_attach key])"
  by (rule body_closed) (auto simp: sendable_def gpu_field_attach_def)

lemma ucast_scast_index: "(ucast (scast (i :: u32) :: u64) :: u32) = i"
  by (rule bit_word_eqI) (auto simp: bit_ucast_iff bit_signed_iff)

lemma body_index:
  "body d n k t cs \<Longrightarrow> n \<le> 4096 \<Longrightarrow> a \<le> 4096 \<Longrightarrow> f \<le> 128 \<Longrightarrow> i \<noteq> 0 \<Longrightarrow> i \<le> 4096
     \<Longrightarrow> body (d + 1) 1 (k + 2) (t + 1) (gpu_table a f # cs @ [gpu_index i])"
  by (rule body_closed) (auto simp: sendable_def gpu_index_def ucast_scast_index)

lemma body_discard:
  "body d n k t cs \<Longrightarrow> n \<le> 4096 \<Longrightarrow> a \<le> 4096 \<Longrightarrow> f \<le> 128
     \<Longrightarrow> body (d + 1) 0 (k + 2) (t + 1) (gpu_table a f # cs @ [gpu_discard])"
  by (rule body_closed) (auto simp: sendable_def gpu_discard_def)

text \<open>
  The rules as they are applied: one field in front, a closed table in front, alternatives. The
  bounds come out as sums and maxima, which \<open>body_within\<close> compares with those claimed.
\<close>

lemma body_within: "body d n k t cs \<Longrightarrow> n \<le> n' \<Longrightarrow> k \<le> k' \<Longrightarrow> t \<le> t' \<Longrightarrow> body d n' k' t' cs"
  by (rule body_mono [OF _ order_refl])

lemma body_empty [emit_intros]: "body d 0 0 0 []"
  by (rule body_nil)

lemma body_front: "body d 1 1 0 [c] \<Longrightarrow> body d n k t cs \<Longrightarrow> body d (Suc n) (Suc k) t (c # cs)"
  using body_append [of d 1 1 0 "[c]" n k t cs] by simp

lemmas body_fields [emit_intros] = body_front [OF body_integer] body_front [OF body_number]
  body_front [OF body_string] body_front [OF body_boolean]

lemmas body_joined [emit_intros] = body_append

lemma body_attached [emit_intros]:
  "0 < d \<Longrightarrow> a \<le> 4096 \<Longrightarrow> f \<le> 128 \<Longrightarrow> key_ok key \<Longrightarrow> body (d - 1) n k t cs \<Longrightarrow> n \<le> 4096
     \<Longrightarrow> body d 1 (k + 2) (t + 1) (gpu_table a f # cs @ [gpu_field_attach key])"
  using body_attach [of "d - 1" n k t cs a f key] by simp

lemma body_indexed [emit_intros]:
  "0 < d \<Longrightarrow> a \<le> 4096 \<Longrightarrow> f \<le> 128 \<Longrightarrow> i \<noteq> 0 \<and> i \<le> 4096 \<Longrightarrow> body (d - 1) n k t cs \<Longrightarrow> n \<le> 4096
     \<Longrightarrow> body d 1 (k + 2) (t + 1) (gpu_table a f # cs @ [gpu_index i])"
  using body_index [of "d - 1" n k t cs a f i] by simp

lemma body_dropped [emit_intros]:
  "0 < d \<Longrightarrow> a \<le> 4096 \<Longrightarrow> f \<le> 128 \<Longrightarrow> body (d - 1) n k t cs \<Longrightarrow> n \<le> 4096
     \<Longrightarrow> body d 0 (k + 2) (t + 1) (gpu_table a f # cs @ [gpu_discard])"
  using body_discard [of "d - 1" n k t cs a f] by simp

lemma body_max: "body d n k t cs \<Longrightarrow> body d (max n n') (max k k') (max t t') cs"
  "body d n k t cs \<Longrightarrow> body d (max n' n) (max k' k) (max t' t) cs"
  by (auto elim!: body_within)

lemma body_if [emit_intros]:
  "(P \<Longrightarrow> body d n k t as) \<Longrightarrow> (\<not> P \<Longrightarrow> body d n' k' t' bs)
     \<Longrightarrow> body d (max n n') (max k k') (max t t') (if P then as else bs)"
  by (simp add: body_max)

lemma body_option [emit_intros]:
  "(x = None \<Longrightarrow> body d n k t as) \<Longrightarrow> (\<And>y. x = Some y \<Longrightarrow> body d n' k' t' (f y))
     \<Longrightarrow> body d (max n n') (max k k') (max t t') (case x of None \<Rightarrow> as | Some y \<Rightarrow> f y)"
  by (cases x) (simp_all add: body_max)

lemma body_pair [emit_intros]:
  "(\<And>y z. x = (y, z) \<Longrightarrow> body d n k t (f y z)) \<Longrightarrow> body d n k t (case x of (y, z) \<Rightarrow> f y z)"
  by (cases x) simp

section \<open>Texts and values\<close>

text \<open>The C string at the front of a buffer of \<open>n\<close> bytes, if it ends inside; \<open>valid_text\<close>.\<close>

definition text_in :: "nat \<Rightarrow> byte list \<Rightarrow> string option" where
  "text_in n buffer = (if 0 \<in> set (take n buffer)
     then Some (text_of (takeWhile (\<lambda>b. b \<noteq> 0) (take n buffer))) else None)"

definition valid_text :: "nat \<Rightarrow> byte list \<Rightarrow> string option" where
  "valid_text n buffer = (case text_in n buffer of Some (c # cs) \<Rightarrow> Some (c # cs) | _ \<Rightarrow> None)"

definition int_field :: "string \<Rightarrow> 'a::len word \<Rightarrow> emit_call" where
  "int_field k v = integer_field k (ucast v)"

definition hex_mask :: "u64 \<Rightarrow> string" where
  "hex_mask m = ''0x'' @ hex_fixed 16 (unat m)"

definition optional_text :: "string \<Rightarrow> string option \<Rightarrow> emit_call list" where
  "optional_text key t = (case t of None \<Rightarrow> [] | Some t \<Rightarrow> [string_field key t])"

text \<open>Texts with no NUL; literals and keys are decided by evaluation.\<close>

lemma zero_byte: "(0 :: byte) \<in> set (bytes_of t) \<longleftrightarrow> CHR 0x00 \<in> set t"
proof -
  have z: "(0 :: byte) = byte_of (CHR 0x00)" by (simp add: byte_of_def code_def)
  show ?thesis unfolding z by (auto simp: image_iff)
qed

lemma text_ok_plain: "text_ok t \<longleftrightarrow> length t \<le> 256 \<and> CHR 0x00 \<notin> set t"
  using zero_byte by (simp add: text_ok_def)

lemmas literal_simps = text_ok_plain key_ok_def key_byte_def byte_of_def code_def

lemma digit_char_plain [simp]: "d < 10 \<Longrightarrow> digit_char d \<noteq> CHR 0x00"
  using code_digit_char [of d] by (auto simp: code_def)

lemma hex_digit_plain: "d < 16 \<Longrightarrow> hex_digit d \<noteq> CHR 0x00"
  using code_hex_digit [of d] by (auto simp: code_def split: if_splits)

lemma hex_fixed_plain [simp]: "CHR 0x00 \<notin> set (hex_fixed n v)"
  using hex_fixed_digits hex_digit_plain by metis

lemma decimal_plain: "CHR 0x00 \<notin> set (decimal n)"
proof (induction n rule: decimal.induct)
  case (1 n)
  then show ?case
    using digit_char_plain [of "n mod 10"] digit_char_plain [of n] by (subst decimal.simps) (auto dest: sym)
qed

lemma text_in_ok:
  assumes "text_in n buffer = Some t"
  shows "length t < n \<and> CHR 0x00 \<notin> set t"
proof -
  let ?b = "take n buffer"
  from assms have z: "0 \<in> set ?b" and t: "t = text_of (takeWhile (\<lambda>b. b \<noteq> 0) ?b)"
    by (auto simp: text_in_def split: if_splits)
  have "length (takeWhile (\<lambda>b. b \<noteq> 0) ?b) \<noteq> length ?b"
    using z by (metis (mono_tags, lifting) set_takeWhileD take_all_iff takeWhile_eq_take order_refl)
  then have "length (takeWhile (\<lambda>b. b \<noteq> 0) ?b) < length ?b"
    using length_takeWhile_le [of "\<lambda>b. b \<noteq> 0" ?b] by linarith
  moreover have "0 \<notin> set (bytes_of t)" unfolding t by (auto dest: set_takeWhileD)
  ultimately show ?thesis using t zero_byte [of t] by simp
qed

lemma valid_text_in: "valid_text n buffer = Some t \<longleftrightarrow> text_in n buffer = Some t \<and> t \<noteq> []"
  by (auto simp: valid_text_def split: option.splits list.splits)

lemma hex_mask_ok [emit_intros]: "text_ok (hex_mask m)"
  by (simp add: hex_mask_def text_ok_plain)

lemma finite_bits: "is_finite_bits x \<longleftrightarrow> dbl_finite x"
  unfolding is_finite_bits_def dbl_finite_def dbl_exponent_def
  by (simp add: word_unat_eq_iff)

lemma hertz_finite [emit_intros]: "is_finite_bits (dbl_mul (dbl_of_nat (unat (x :: u32))) (dbl_of_nat 1000000))"
proof -
  have "unat x < 2 ^ 32" using unsigned_less [of x] by simp
  from dbl_of_nat_magnitude [OF this] have "dbl_num (dbl_of_nat (unat x)) < dbl_den (dbl_of_nat (unat x)) * 2 ^ 41"
    by simp
  moreover from dbl_of_nat_magnitude [of 1000000 20]
  have "dbl_num (dbl_of_nat 1000000) < dbl_den (dbl_of_nat 1000000) * 2 ^ 29" by simp
  ultimately show ?thesis unfolding finite_bits by (rule dbl_mul_within) simp
qed

lemma body_int [emit_intros]: "key_ok key \<Longrightarrow> body d n k t cs \<Longrightarrow> body d (Suc n) (Suc k) t (int_field key v # cs)"
  unfolding int_field_def by (rule body_fields)

lemma body_optional_text [emit_intros]:
  "key_ok key \<Longrightarrow> (\<And>s. t = Some s \<Longrightarrow> text_ok s) \<Longrightarrow> body d 1 1 0 (optional_text key t)"
  by (cases t) (simp_all only: optional_text_def option.case body_nil body_string simp_thms)

lemma body_enumerate:
  "(\<And>j x. m \<le> j \<Longrightarrow> j < m + length xs \<Longrightarrow> x \<in> set xs \<Longrightarrow> body d n (k x) (t x) (f j x)) \<Longrightarrow>
     body d (length xs * n) (sum_list (map k xs)) (sum_list (map t xs))
       (concat (map (\<lambda>(j, x). f j x) (enumerate m xs)))"
proof (induction xs arbitrary: m)
  case Nil
  then show ?case by (simp add: body_nil)
next
  case (Cons x xs)
  have "body d n (k x) (t x) (f m x)" by (rule Cons.prems) auto
  moreover have "body d (length xs * n) (sum_list (map k xs)) (sum_list (map t xs))
      (concat (map (\<lambda>(j, x). f j x) (enumerate (Suc m) xs)))"
    by (rule Cons.IH) (rule Cons.prems, auto)
  ultimately show ?case using body_append by simp
qed

lemma index_word_ok: "j < 4096 \<Longrightarrow> (word_of_nat (Suc j) :: u32) \<noteq> 0 \<and> (word_of_nat (Suc j) :: u32) \<le> 4096"
proof -
  assume j: "j < 4096"
  then have "unat (word_of_nat (Suc j) :: u32) = Suc j" by (subst unat_of_nat, intro mod_less) simp
  then show ?thesis using j by (auto simp: word_le_nat_alt simp del: of_nat_Suc)
qed

lemma word_count: "n \<le> 4096 \<Longrightarrow> (word_of_nat n :: u32) \<le> 4096"
proof -
  assume n: "n \<le> 4096"
  then have "unat (word_of_nat n :: u32) = n" by (subst unat_of_nat, intro mod_less) simp
  then show ?thesis using n by (simp add: word_le_nat_alt)
qed

section \<open>A whole frame\<close>

lemma frame_valid:
  assumes b: "body d n k t cs" and n: "n \<le> 4096" and d: "d \<le> 63" and k: "k < GPU_WIRE_OPERATIONS"
    and t: "t < GPU_WIRE_TABLES" and a: "a \<le> 4096" "f \<le> 128"
    and ok: "wfailed (wire_emit_all alloc w (gpu_table a f # cs)) = 0" and w: "wdata w = []"
    and size: "length (wdata (wire_emit_all alloc w (gpu_table a f # cs))) \<le> GPU_WIRE_LIMIT"
  shows "gpu_wire_valid (wdata (wire_emit_all alloc w (gpu_table a f # cs)))"
proof -
  let ?cs = "gpu_table a f # cs"
  from wire_emit_all_data [OF ok] w
  have data: "wdata (wire_emit_all alloc w ?cs) = concat (map wire_bytes ?cs)" by simp
  have "call_effect (gpu_table a f) ([], 0, 0) = Some ([0], 1, 1)" by (simp add: gpu_table_def call_effect.simps)
  moreover have "length ([] :: nat list) + 1 + d \<le> 64" "0 + n \<le> 4096" "1 + k \<le> GPU_WIRE_OPERATIONS"
    "1 + t \<le> GPU_WIRE_TABLES" using n d k t by simp_all
  from bodyD [OF b this] obtain e' ops' tabs'
    where "calls_effect cs ([0], 1, 1) = Some ([e'], ops', tabs')" by metis
  ultimately have "calls_effect ?cs ([], 0, 0) = Some ([e'], ops', tabs')"
    by simp
  moreover have "list_all sendable ?cs" using body_sendable [OF b] sendable_table [OF a] by simp
  ultimately have "valid_loop (concat (map wire_bytes ?cs)) [] 0 0 = Some [e']"
    by (intro valid_loop_wire)
  moreover have "concat (map wire_bytes ?cs) \<noteq> []" by (simp add: wire_bytes_def)
  ultimately show ?thesis using data size by (simp add: gpu_wire_valid_def)
qed

text \<open>The buffer never grows past the limit: \<open>reserve\<close> refuses.\<close>

lemma wire_emit_limit: "length (wdata w) \<le> GPU_WIRE_LIMIT \<Longrightarrow> length (wdata (wire_emit alloc w c)) \<le> GPU_WIRE_LIMIT"
proof -
  have "length (wire_bytes c) = 1 + (case ckey c of None \<Rightarrow> 0 | Some k \<Rightarrow> length k + 1) + payload_size c"
    by (simp add: wire_bytes_def payload_length split: option.splits)
  then show "length (wdata w) \<le> GPU_WIRE_LIMIT \<Longrightarrow> ?thesis"
    by (auto simp: wire_emit_def reserve_def Let_def split: if_splits option.splits)
qed

lemma wire_emit_all_limit:
  "length (wdata w) \<le> GPU_WIRE_LIMIT \<Longrightarrow> length (wdata (wire_emit_all alloc w cs)) \<le> GPU_WIRE_LIMIT"
  unfolding wire_emit_all_def
  by (induction cs arbitrary: w) (simp_all add: wire_emit_limit)

section \<open>Collectors\<close>

text \<open>
  A reason a collector gives itself: the name of its library, an underscore and small letters,
  short enough for a reply, and not the one the reader process gives for a broken frame.
\<close>

definition own_reason :: "string \<Rightarrow> string \<Rightarrow> bool" where
  "own_reason name r \<longleftrightarrow> length r \<le> 95 \<and> length name + 1 < length r \<and> take (length name) r = name
     \<and> r ! length name = CHR ''_'' \<and> list_all (\<lambda>c. c = CHR ''_'' \<or> 97 \<le> code c \<and> code c \<le> 122) r
     \<and> r \<noteq> name @ ''_invalid_response''"

lemmas reason_simps = own_reason_def code_def

text \<open>
  What the reader process needs of a collector: what it has sent when it reports success is a
  valid frame, and its reasons are its own.
\<close>

locale frame_collector =
  fixes name :: string and collect :: "(wire_buffer \<Rightarrow> emit_call \<Rightarrow> wire_buffer) \<Rightarrow> wire_buffer \<Rightarrow> 'w \<Rightarrow> bool
      \<Rightarrow> wire_buffer \<times> 'w \<times> string option"
  assumes frame_sent: "collect (wire_emit alloc) b w p = (b', w', None) \<Longrightarrow> wdata b = []
      \<Longrightarrow> gpu_wire_valid (wdata b')"
    and reason_named: "collect emit b w p = (b', w', Some reason) \<Longrightarrow> own_reason name reason"
begin

lemma sent_decodes:
  "collect (wire_emit alloc) b w p = (b', w', None) \<Longrightarrow> wdata b = [] \<Longrightarrow> \<exists>t. decode_frame (wdata b') = Some [LTab t]"
  by (rule valid_frame_table) (rule frame_sent)

end

end
