(* ===== verification/Nvml.thy ===== *)
theory Nvml imports GpuOutput begin

text \<open>
  The NVIDIA collector \<^verbatim>\<open>native/wtop_nvml.c\<close>: opening the driver's library, merging the
  process lists, the power fields, one device and the whole collection. The library is not in the
  repository: what it answers is a record of functions of the function pointer called and of the
  moment (the round of the loop over devices, and which call of that round it is), so it may
  answer anything at any time. A structure or a buffer the library fills is its contents after
  the call.
\<close>

section \<open>The session\<close>

abbreviation (input) NVML_MAX_DEVICES :: nat where "NVML_MAX_DEVICES \<equiv> 64"
abbreviation (input) NVML_MAX_PROCESSES :: u32 where "NVML_MAX_PROCESSES \<equiv> 256"
abbreviation (input) UINT_MAX :: u32 where "UINT_MAX \<equiv> 0xffffffff"

text \<open>The function pointers of \<open>nvml_api\<close>.\<close>

datatype nvml_function = F_shutdown | F_count | F_handle | F_name | F_uuid | F_driver_version | F_pci
  | F_utilization | F_memory | F_temperature | F_power | F_power_limit | F_pcie_generation
  | F_pcie_width | F_pcie_max_generation | F_pcie_max_width | F_pcie_throughput | F_clock
  | F_max_clock | F_fan | F_performance_state | F_compute_processes | F_graphics_processes
  | F_compute_processes_v2 | F_graphics_processes_v2 | F_compute_processes_v1
  | F_graphics_processes_v1 | F_process_samples | F_current_events | F_current_throttle
  | F_supported_events | F_supported_throttle | F_fields

fun nvml_symbols :: "nvml_function \<Rightarrow> string list" where
  "nvml_symbols F_shutdown = [''nvmlShutdown'']"
| "nvml_symbols F_count = [''nvmlDeviceGetCount_v2'', ''nvmlDeviceGetCount'']"
| "nvml_symbols F_handle = [''nvmlDeviceGetHandleByIndex_v2'', ''nvmlDeviceGetHandleByIndex'']"
| "nvml_symbols F_name = [''nvmlDeviceGetName'']"
| "nvml_symbols F_uuid = [''nvmlDeviceGetUUID'']"
| "nvml_symbols F_driver_version = [''nvmlSystemGetDriverVersion'']"
| "nvml_symbols F_pci = [''nvmlDeviceGetPciInfo_v3'', ''nvmlDeviceGetPciInfo_v2'', ''nvmlDeviceGetPciInfo'']"
| "nvml_symbols F_utilization = [''nvmlDeviceGetUtilizationRates'']"
| "nvml_symbols F_memory = [''nvmlDeviceGetMemoryInfo'']"
| "nvml_symbols F_temperature = [''nvmlDeviceGetTemperature'']"
| "nvml_symbols F_power = [''nvmlDeviceGetPowerUsage'']"
| "nvml_symbols F_power_limit = [''nvmlDeviceGetEnforcedPowerLimit'']"
| "nvml_symbols F_pcie_generation = [''nvmlDeviceGetCurrPcieLinkGeneration'']"
| "nvml_symbols F_pcie_width = [''nvmlDeviceGetCurrPcieLinkWidth'']"
| "nvml_symbols F_pcie_max_generation = [''nvmlDeviceGetMaxPcieLinkGeneration'']"
| "nvml_symbols F_pcie_max_width = [''nvmlDeviceGetMaxPcieLinkWidth'']"
| "nvml_symbols F_pcie_throughput = [''nvmlDeviceGetPcieThroughput'']"
| "nvml_symbols F_clock = [''nvmlDeviceGetClockInfo'']"
| "nvml_symbols F_max_clock = [''nvmlDeviceGetMaxClockInfo'']"
| "nvml_symbols F_fan = [''nvmlDeviceGetFanSpeed'']"
| "nvml_symbols F_performance_state = [''nvmlDeviceGetPerformanceState'']"
| "nvml_symbols F_compute_processes = [''nvmlDeviceGetComputeRunningProcesses_v3'']"
| "nvml_symbols F_graphics_processes = [''nvmlDeviceGetGraphicsRunningProcesses_v3'']"
| "nvml_symbols F_compute_processes_v2 = [''nvmlDeviceGetComputeRunningProcesses_v2'']"
| "nvml_symbols F_graphics_processes_v2 = [''nvmlDeviceGetGraphicsRunningProcesses_v2'']"
| "nvml_symbols F_compute_processes_v1 = [''nvmlDeviceGetComputeRunningProcesses'']"
| "nvml_symbols F_graphics_processes_v1 = [''nvmlDeviceGetGraphicsRunningProcesses'']"
| "nvml_symbols F_process_samples = [''nvmlDeviceGetProcessUtilization'']"
| "nvml_symbols F_current_events = [''nvmlDeviceGetCurrentClocksEventReasons'']"
| "nvml_symbols F_current_throttle = [''nvmlDeviceGetCurrentClocksThrottleReasons'']"
| "nvml_symbols F_supported_events = [''nvmlDeviceGetSupportedClocksEventReasons'']"
| "nvml_symbols F_supported_throttle = [''nvmlDeviceGetSupportedClocksThrottleReasons'']"
| "nvml_symbols F_fields = [''nvmlDeviceGetFieldValues'']"

record sample_cursor =
  cursor_uuid :: string
  cursor_timestamp :: u64

record nvml_api =
  nstate :: bool
  nlibrary :: bool
  nfunction :: "nvml_function \<Rightarrow> nat option"
  ncursors :: "sample_cursor list"

definition nvml_blank :: nvml_api where
  "nvml_blank = \<lparr>nstate = False, nlibrary = False, nfunction = (\<lambda>_. None), ncursors = []\<rparr>"

text \<open>What happens to the library, in order.\<close>

datatype nvml_event = Library_opened | Session_started | Session_ended | Library_closed

definition nvml_close :: "nvml_api \<Rightarrow> nvml_api \<times> nvml_event list" where
  "nvml_close a = (nvml_blank,
     (if nstate a \<and> nfunction a F_shutdown \<noteq> None then [Session_ended] else [])
     @ (if nlibrary a then [Library_closed] else []))"

text \<open>\<open>symbol\<close>: the first of the names the library has.\<close>

fun nvml_symbol :: "(string \<Rightarrow> nat option) \<Rightarrow> string list \<Rightarrow> nat option" where
  "nvml_symbol dlsym [] = None"
| "nvml_symbol dlsym (name # fallback) =
     (case dlsym name of Some f \<Rightarrow> Some f | None \<Rightarrow> nvml_symbol dlsym fallback)"

record nvml_loader =
  library_opens :: bool
  library_symbol :: "string \<Rightarrow> nat option"
  init_status :: "nat \<Rightarrow> u32"

definition nvml_open :: "nvml_loader \<Rightarrow> nvml_api \<Rightarrow> nvml_api \<times> nvml_event list \<times> string option" where
  "nvml_open l a =
     (if nstate a then (a, [], None)
      else if \<not> library_opens l then (a, [], Some ''nvml_library_not_found'')
      else
        let init = nvml_symbol (library_symbol l) [''nvmlInit_v2'', ''nvmlInit''];
            a = a\<lparr>nlibrary := True,
                  nfunction := (\<lambda>f. nvml_symbol (library_symbol l) (nvml_symbols f))\<rparr>;
            closed = nvml_close a
        in if init = None \<or> nfunction a F_shutdown = None \<or> nfunction a F_count = None
              \<or> nfunction a F_handle = None
           then (fst closed, Library_opened # snd closed, Some ''nvml_symbols_missing'')
           else if init_status l (the init) \<noteq> 0
           then (fst closed, Library_opened # snd closed, Some ''nvml_initialization_failed'')
           else (a\<lparr>nstate := True\<rparr>, [Library_opened, Session_started], None))"

section \<open>What the library answers\<close>

record nvml_pci_info =
  pci_bus_id_legacy :: "byte list"
  pci_domain :: u32
  pci_bus :: u32
  pci_device :: u32
  pci_device_id :: u32
  pci_bus_id :: "byte list"

record nvml_process =
  np_pid :: u32
  np_memory :: u64
  np_gpu_instance :: u32
  np_compute_instance :: u32

record nvml_process_sample =
  ns_pid :: u32
  ns_timestamp :: u64
  ns_sm :: u32
  ns_memory :: u32
  ns_encoder :: u32
  ns_decoder :: u32

record nvml_field =
  field_id :: u32
  field_scope :: u32
  field_timestamp :: u64
  field_type :: u32
  field_status :: u32
  field_value :: u64

text \<open>
  The answers of one collection: by function pointer, round, and where a round calls the function
  more than once, by the argument or the number of the call. \<open>realtime_us\<close> is the system clock.
\<close>

record nvml_driver =
  loader :: nvml_loader
  count_answer :: "nat \<Rightarrow> nat \<Rightarrow> u32 \<times> u32"
  handle_answer :: "nat \<Rightarrow> nat \<Rightarrow> u32 \<times> nat"
  text_answer :: "nat \<Rightarrow> nat \<Rightarrow> nat \<Rightarrow> u32 \<times> byte list"
  pci_answer :: "nat \<Rightarrow> nat \<Rightarrow> u32 \<times> nvml_pci_info"
  utilization_answer :: "nat \<Rightarrow> nat \<Rightarrow> u32 \<times> u32 \<times> u32"
  memory_answer :: "nat \<Rightarrow> nat \<Rightarrow> u32 \<times> u64 \<times> u64"
  sensor_answer :: "nat \<Rightarrow> nat \<Rightarrow> u32 \<Rightarrow> u32 \<times> u32"
  value_answer :: "nat \<Rightarrow> nat \<Rightarrow> u32 \<times> u32"
  processes_answer :: "nat \<Rightarrow> nat \<Rightarrow> u32 \<times> u32 \<times> (nat \<Rightarrow> nvml_process)"
  processes_v1_answer :: "nat \<Rightarrow> nat \<Rightarrow> u32 \<times> u32 \<times> (nat \<Rightarrow> u32 \<times> u64)"
  samples_answer :: "nat \<Rightarrow> nat \<Rightarrow> u64 \<Rightarrow> u32 \<times> u32 \<times> (nat \<Rightarrow> nvml_process_sample)"
  mask_answer :: "nat \<Rightarrow> nat \<Rightarrow> u32 \<times> u64"
  fields_answer :: "nat \<Rightarrow> nat \<Rightarrow> u32 \<times> nvml_field \<times> nvml_field"
  realtime_us :: "nat \<Rightarrow> nat \<Rightarrow> u64 option"

section \<open>Processes\<close>

fun process_versions ::
    "nvml_driver \<Rightarrow> nat \<Rightarrow> nat option list \<Rightarrow> bool \<Rightarrow> (nvml_process list \<times> bool) + bool" where
  "process_versions v i [] truncated = Inr truncated"
| "process_versions v i (None # fs) truncated = process_versions v i fs truncated"
| "process_versions v i (Some f # fs) truncated =
     (case processes_answer v f i of (status, count, values) \<Rightarrow>
        let truncated = (truncated \<or> NVML_MAX_PROCESSES < count \<or> status = 7)
        in if status = 0 \<and> count \<le> NVML_MAX_PROCESSES then Inl (map values [0..<unat count], truncated)
           else if status \<noteq> 3 \<and> status \<noteq> 13 then Inl ([], truncated)
           else process_versions v i fs truncated)"

definition process_list :: "nvml_driver \<Rightarrow> nvml_api \<Rightarrow> nat \<Rightarrow> bool \<Rightarrow> bool \<Rightarrow> nvml_process list \<times> bool" where
  "process_list v a i graphics truncated =
     (case process_versions v i
             [nfunction a (if graphics then F_graphics_processes else F_compute_processes),
              nfunction a (if graphics then F_graphics_processes_v2 else F_compute_processes_v2)] truncated of
        Inl r \<Rightarrow> r
      | Inr truncated \<Rightarrow>
          (case nfunction a (if graphics then F_graphics_processes_v1 else F_compute_processes_v1) of
             None \<Rightarrow> ([], truncated)
           | Some f \<Rightarrow>
               (case processes_v1_answer v f i of (status, count, old) \<Rightarrow>
                  let truncated = (truncated \<or> NVML_MAX_PROCESSES < count \<or> status = 7)
                  in if status = 0 \<and> count \<le> NVML_MAX_PROCESSES
                     then (map (\<lambda>j. \<lparr>np_pid = fst (old j), np_memory = snd (old j),
                             np_gpu_instance = UINT_MAX, np_compute_instance = UINT_MAX\<rparr>) [0..<unat count],
                           truncated)
                     else ([], truncated))))"

record allocation =
  avalue :: nvml_process
  asources :: u32

definition same_context :: "nvml_process \<Rightarrow> nvml_process \<Rightarrow> bool" where
  "same_context p q \<longleftrightarrow> np_pid p = np_pid q \<and> np_gpu_instance p = np_gpu_instance q
     \<and> np_compute_instance p = np_compute_instance q"

definition usable_pid :: "u32 \<Rightarrow> bool" where
  "usable_pid pid \<longleftrightarrow> pid \<noteq> 0 \<and> pid \<le> 0x7fffffff"

definition larger_memory :: "nvml_process \<Rightarrow> nvml_process \<Rightarrow> nvml_process" where
  "larger_memory p old =
     (if np_memory p \<noteq> - 1 \<and> (np_memory old = - 1 \<or> np_memory old < np_memory p)
      then old\<lparr>np_memory := np_memory p\<rparr> else old)"

fun put_allocation :: "u32 \<Rightarrow> nvml_process \<Rightarrow> allocation list \<Rightarrow> allocation list" where
  "put_allocation bits p [] = [\<lparr>avalue = p, asources = bits\<rparr>]"
| "put_allocation bits p (r # rs) =
     (if same_context (avalue r) p
      then \<lparr>avalue = larger_memory p (avalue r), asources = asources r OR bits\<rparr> # rs
      else r # put_allocation bits p rs)"

definition add_allocation :: "u32 \<Rightarrow> nvml_process \<Rightarrow> allocation list \<Rightarrow> allocation list" where
  "add_allocation bits p rs = (if usable_pid (np_pid p) then put_allocation bits p rs else rs)"

definition collect_allocations :: "nvml_driver \<Rightarrow> nvml_api \<Rightarrow> nat \<Rightarrow> bool \<Rightarrow> allocation list \<times> bool" where
  "collect_allocations v a i truncated =
     (let (compute, truncated) = process_list v a i False truncated;
          allocations = fold (add_allocation 1) compute [];
          (graphics, truncated) = process_list v a i True truncated
      in (fold (add_allocation 2) graphics allocations, truncated))"

record process_row =
  rpid :: u32
  rmemory :: u64
  rwhole_memory :: u64
  rcontext_memory :: u64
  rtimestamp :: u64
  rsource_bits :: u32
  rcontext_count :: u32
  rhas_memory :: bool
  rhas_whole :: bool
  rmemory_estimated :: bool
  rsm :: u32
  rmemory_utilization :: u32
  rencoder :: u32
  rdecoder :: u32
  rhas_sample :: bool
  rkind :: string

definition new_row :: "u32 \<Rightarrow> process_row" where
  "new_row pid = \<lparr>rpid = pid, rmemory = 0, rwhole_memory = 0, rcontext_memory = 0, rtimestamp = 0,
     rsource_bits = 0, rcontext_count = 0, rhas_memory = False, rhas_whole = False,
     rmemory_estimated = False, rsm = 0, rmemory_utilization = 0, rencoder = 0, rdecoder = 0,
     rhas_sample = False, rkind = []\<rparr>"

text \<open>
  \<open>find_process\<close> and what follows it: the row of the process changed, or a new one changed and
  appended, unless the table is full.
\<close>

fun find_process :: "process_row list \<Rightarrow> u32 \<Rightarrow> nat option" where
  "find_process [] pid = None"
| "find_process (r # rs) pid = (if rpid r = pid then Some 0 else map_option Suc (find_process rs pid))"

definition on_row ::
    "u32 \<Rightarrow> process_row \<Rightarrow> (process_row \<Rightarrow> process_row) \<Rightarrow> process_row list \<times> bool \<Rightarrow> process_row list \<times> bool" where
  "on_row pid fresh f s = (case s of (rows, truncated) \<Rightarrow>
     (case find_process rows pid of
        Some j \<Rightarrow> (rows[j := f (rows ! j)], truncated)
      | None \<Rightarrow> if length rows = 256 then (rows, True) else (rows @ [f fresh], truncated)))"

definition row_allocation :: "allocation \<Rightarrow> process_row \<Rightarrow> process_row" where
  "row_allocation al r =
     (let p = avalue al; r = r\<lparr>rsource_bits := rsource_bits r OR asources al\<rparr>
      in if np_memory p < 2 ^ 50 then
           (if np_gpu_instance p = UINT_MAX \<and> np_compute_instance p = UINT_MAX
            then r\<lparr>rwhole_memory := max (rwhole_memory r) (np_memory p), rhas_whole := True\<rparr>
            else r\<lparr>rcontext_count := rcontext_count r + 1,
                   rcontext_memory := max (rcontext_memory r) (np_memory p)\<rparr>)
           \<lparr>rhas_memory := True\<rparr>
         else r)"

definition add_row :: "allocation \<Rightarrow> process_row list \<times> bool \<Rightarrow> process_row list \<times> bool" where
  "add_row al = on_row (np_pid (avalue al)) (new_row (np_pid (avalue al))) (row_allocation al)"

definition source_kind :: "u32 \<Rightarrow> string" where
  "source_kind bits = (if bits = 3 then ''compute+graphics'' else if bits = 1 then ''compute'' else ''graphics'')"

definition finish_row :: "process_row \<Rightarrow> process_row" where
  "finish_row r = r\<lparr>rmemory := (if rwhole_memory r < rcontext_memory r then rcontext_memory r else rwhole_memory r),
     rmemory_estimated := (1 < rcontext_count r \<and> \<not> rhas_whole r)
       \<or> (rhas_whole r \<and> rwhole_memory r < rcontext_memory r),
     rkind := source_kind (rsource_bits r)\<rparr>"

definition row_sample :: "nvml_process_sample \<Rightarrow> process_row \<Rightarrow> process_row" where
  "row_sample p r =
     (if \<not> rhas_sample r \<or> rtimestamp r < ns_timestamp p
      then r\<lparr>rtimestamp := ns_timestamp p, rsm := ns_sm p, rmemory_utilization := ns_memory p,
             rencoder := ns_encoder p, rdecoder := ns_decoder p, rhas_sample := True\<rparr>
      else r)"

text \<open>One sample: the rows and whether they are cut off, and the newest time seen.\<close>

definition new_sample :: "u64 \<Rightarrow> nvml_process_sample \<Rightarrow> bool" where
  "new_sample previous p \<longleftrightarrow> usable_pid (ns_pid p) \<and> ns_timestamp p \<noteq> - 1 \<and> previous < ns_timestamp p"

definition sample_percent :: "nvml_process_sample \<Rightarrow> bool" where
  "sample_percent p \<longleftrightarrow> ns_sm p \<le> 100 \<and> ns_memory p \<le> 100 \<and> ns_encoder p \<le> 100 \<and> ns_decoder p \<le> 100"

definition add_sample ::
    "u64 \<Rightarrow> nvml_process_sample \<Rightarrow> (process_row list \<times> bool) \<times> u64 \<Rightarrow> (process_row list \<times> bool) \<times> u64" where
  "add_sample previous p s = (case s of (rows, newest) \<Rightarrow>
     if \<not> new_sample previous p then s
     else (if sample_percent p
           then on_row (ns_pid p) ((new_row (ns_pid p))\<lparr>rkind := ''sampled''\<rparr>) (row_sample p) rows else rows,
           max newest (ns_timestamp p)))"

definition collect_samples ::
    "nvml_driver \<Rightarrow> nvml_api \<Rightarrow> nat \<Rightarrow> u64 \<Rightarrow> process_row list \<times> bool \<Rightarrow> (process_row list \<times> bool) \<times> u64" where
  "collect_samples v a i previous s =
     (case nfunction a F_process_samples of
        None \<Rightarrow> (s, previous)
      | Some f \<Rightarrow>
          (case samples_answer v f i previous of (status, amount, samples) \<Rightarrow>
             let s = (fst s, snd s \<or> NVML_MAX_PROCESSES < amount \<or> status = 7)
             in if status = 0 \<and> amount \<le> NVML_MAX_PROCESSES
                then fold (add_sample previous) (map samples [0..<unat amount]) (s, previous)
                else (s, previous)))"

record processes =
  prows :: "process_row list"
  pallocations :: "allocation list"
  ptruncated :: bool
  pnext :: u64

definition collect_processes :: "nvml_driver \<Rightarrow> nvml_api \<Rightarrow> nat \<Rightarrow> u64 \<Rightarrow> processes" where
  "collect_processes v a i previous =
     (let (allocations, truncated) = collect_allocations v a i False;
          (rows, truncated) = fold add_row allocations ([], truncated);
          ((rows, truncated), newest) = collect_samples v a i previous (map finish_row rows, truncated)
      in \<lparr>prows = rows, pallocations = allocations, ptruncated = truncated, pnext = newest\<rparr>)"

section \<open>Texts and addresses\<close>

definition ask_text :: "nvml_driver \<Rightarrow> nat option \<Rightarrow> nat \<Rightarrow> nat \<Rightarrow> string option" where
  "ask_text v f i call = (case f of None \<Rightarrow> None | Some f \<Rightarrow>
     (case text_answer v f i call of (status, buffer) \<Rightarrow> if status = 0 then valid_text 256 buffer else None))"

definition nvml_hex :: "char \<Rightarrow> nat option" where
  "nvml_hex c = (if is_digit c then Some (code c - 48)
     else if 97 \<le> code c \<and> code c \<le> 102 then Some (code c - 97 + 10)
     else if 65 \<le> code c \<and> code c \<le> 70 then Some (code c - 65 + 10) else None)"

fun pci_number :: "nat \<Rightarrow> string \<Rightarrow> nat \<Rightarrow> (nat \<times> string) option" where
  "pci_number 0 text n = Some (n, text)"
| "pci_number (Suc w) [] n = None"
| "pci_number (Suc w) (c # text) n =
     (case nvml_hex c of None \<Rightarrow> None | Some d \<Rightarrow> pci_number w text ((n * 16 + d) mod 2 ^ 32))"

fun pci_numbers :: "nat list \<Rightarrow> string \<Rightarrow> string \<Rightarrow> nat list option" where
  "pci_numbers [] separators text = Some []"
| "pci_numbers (w # ws) separators text =
     (case pci_number w text 0 of None \<Rightarrow> None
      | Some (n, rest) \<Rightarrow>
          (case separators of
             [] \<Rightarrow> map_option (Cons n) (pci_numbers ws [] rest)
           | s # ss \<Rightarrow> (case rest of
               c # rest \<Rightarrow> if c \<noteq> s then None else map_option (Cons n) (pci_numbers ws ss rest)
             | [] \<Rightarrow> None)))"

text \<open>The result is 0 (malformed), -1 (out of range or of another device) or the address.\<close>

datatype checked_address = Malformed | Mismatch | Address string

definition pci_bdf :: "nat \<Rightarrow> nat \<Rightarrow> nat \<Rightarrow> nat \<Rightarrow> string" where
  "pci_bdf domain bus device func =
     hex_fixed 4 domain @ '':'' @ hex_fixed 2 bus @ '':'' @ hex_fixed 2 device @ ''.'' @ hex_fixed 1 func"

definition pci_address :: "nat \<Rightarrow> byte list \<Rightarrow> nvml_pci_info \<Rightarrow> checked_address" where
  "pci_address n buffer pci = (case text_in n buffer of
     None \<Rightarrow> Malformed
   | Some text \<Rightarrow>
       if length text \<noteq> 12 \<and> length text \<noteq> 16 then Malformed
       else (case pci_numbers [length text - 8, 2, 2, 1] ''::.'' text of
               Some [domain, bus, device, func] \<Rightarrow>
                 if 0xffff < domain \<or> 0xff < bus \<or> 0x1f < device \<or> 7 < func
                    \<or> domain \<noteq> unat (pci_domain pci) \<or> bus \<noteq> unat (pci_bus pci)
                    \<or> device \<noteq> unat (pci_device pci)
                 then Mismatch else Address (pci_bdf domain bus device func)
             | _ \<Rightarrow> Malformed))"

section \<open>One device\<close>

definition mask_query ::
    "nvml_driver \<Rightarrow> nvml_api \<Rightarrow> nat \<Rightarrow> nvml_function \<Rightarrow> nvml_function \<Rightarrow> string \<Rightarrow> string \<Rightarrow> u32 \<times> u64 \<times> string" where
  "mask_query v a i current legacy current_name legacy_name =
     (let (status, mask) = (case nfunction a current of None \<Rightarrow> (13, - 1) | Some f \<Rightarrow> mask_answer v f i)
      in case nfunction a legacy of
           Some f \<Rightarrow>
             if nfunction a current = None \<or> status = 3 \<or> status = 13
             then (fst (mask_answer v f i), snd (mask_answer v f i), legacy_name)
             else (status, mask, current_name)
         | None \<Rightarrow> (status, mask, current_name))"

definition clock_events :: "nvml_driver \<Rightarrow> nvml_api \<Rightarrow> nat \<Rightarrow> emit_call list" where
  "clock_events v a i =
     (let (status, active, active_source) = mask_query v a i F_current_events F_current_throttle
            ''nvmlDeviceGetCurrentClocksEventReasons'' ''nvmlDeviceGetCurrentClocksThrottleReasons'';
          (support_status, supported, supported_source) = mask_query v a i F_supported_events F_supported_throttle
            ''nvmlDeviceGetSupportedClocksEventReasons'' ''nvmlDeviceGetSupportedClocksThrottleReasons''
      in gpu_table 0 6
         # ([int_field ''status_code'' status, int_field ''supported_status_code'' support_status,
             string_field ''source'' active_source, string_field ''supported_source'' supported_source]
            @ (if status = 0 then [string_field ''raw_hex'' (hex_mask active)] else [])
            @ (if support_status = 0 then [string_field ''supported_hex'' (hex_mask supported)] else []))
         @ [gpu_field_attach ''clock_events''])"

text \<open>The member of the union \<open>nvml_field_value\<close> that the type selects, converted to a double.\<close>

definition field_double :: "nvml_field \<Rightarrow> u64 option" where
  "field_double f =
     (let raw = field_value f in
      if field_type f = 0 then Some raw
      else if field_type f = 1 then Some (dbl_of_nat (unat (ucast raw :: u32)))
      else if field_type f = 2 \<or> field_type f = 3 then Some (dbl_of_nat (unat raw))
      else if field_type f = 4 then Some (dbl_of_int (sint raw))
      else if field_type f = 5 then Some (dbl_of_int (sint (ucast raw :: u32)))
      else if field_type f = 6 then Some (dbl_of_nat (unat (ucast raw :: u16)))
      else None)"

definition field_power :: "nvml_field \<Rightarrow> u32 \<Rightarrow> u64 option" where
  "field_power f expected =
     (if field_id f \<noteq> expected \<or> field_scope f \<noteq> 0 \<or> field_status f \<noteq> 0 then None
      else case field_double f of None \<Rightarrow> None
        | Some value \<Rightarrow>
            if \<not> dbl_finite value \<or> dbl_below_zero value \<or> \<not> dbl_magnitude_less value 100000000 then None
            else Some (dbl_div value (dbl_of_nat 1000)))"

definition field_freshness :: "u64 option \<Rightarrow> nvml_field \<Rightarrow> string" where
  "field_freshness now f =
     (if field_timestamp f \<le>s 0 then ''gap''
      else case now of None \<Rightarrow> ''gap''
        | Some current \<Rightarrow>
            let age = sint (current - field_timestamp f)
            in if age < - 1000000 then ''gap'' else if 5000000 < age then ''stale'' else ''fresh'')"

definition nvml_value :: "nvml_driver \<Rightarrow> nvml_api \<Rightarrow> nat \<Rightarrow> nvml_function \<Rightarrow> u32 option" where
  "nvml_value v a i f = (case nfunction a f of None \<Rightarrow> None
     | Some g \<Rightarrow> if fst (value_answer v g i) = 0 then Some (snd (value_answer v g i)) else None)"

definition nvml_sensor :: "nvml_driver \<Rightarrow> nvml_api \<Rightarrow> nat \<Rightarrow> nvml_function \<Rightarrow> u32 \<Rightarrow> u32 option" where
  "nvml_sensor v a i f argument = (case nfunction a f of None \<Rightarrow> None
     | Some g \<Rightarrow> if fst (sensor_answer v g i argument) = 0 then Some (snd (sensor_answer v g i argument)) else None)"

text \<open>A field sent when the answer is there and in range.\<close>

definition when_in :: "u32 option \<Rightarrow> (u32 \<Rightarrow> bool) \<Rightarrow> (u32 \<Rightarrow> emit_call) \<Rightarrow> emit_call list" where
  "when_in answer ok send = (case answer of None \<Rightarrow> [] | Some x \<Rightarrow> if ok x then [send x] else [])"

definition device_pcie :: "nvml_driver \<Rightarrow> nvml_api \<Rightarrow> nat \<Rightarrow> emit_call list" where
  "device_pcie v a i =
     (let generation = (\<lambda>x. 0 < x \<and> x \<le> 32); width = (\<lambda>x. x \<le> 64);
          tx = when_in (nvml_sensor v a i F_pcie_throughput 0) (\<lambda>x. x \<noteq> UINT_MAX)
                 (int_field ''pcie_tx_kilobytes_per_second'');
          rx = when_in (nvml_sensor v a i F_pcie_throughput 1) (\<lambda>x. x \<noteq> UINT_MAX)
                 (int_field ''pcie_rx_kilobytes_per_second'')
      in when_in (nvml_value v a i F_pcie_generation) generation (int_field ''pcie_current_generation'')
         @ when_in (nvml_value v a i F_pcie_width) width (int_field ''pcie_current_width'')
         @ when_in (nvml_value v a i F_pcie_max_generation) generation (int_field ''pcie_maximum_generation'')
         @ when_in (nvml_value v a i F_pcie_max_width) width (int_field ''pcie_maximum_width'')
         @ tx @ rx
         @ (if tx \<noteq> [] \<or> rx \<noteq> [] then [integer_field ''pcie_throughput_interval_ns'' 20000000] else []))"

definition thousandths :: "u32 \<Rightarrow> u64" where
  "thousandths x = dbl_div (dbl_of_nat (unat x)) (dbl_of_nat 1000)"

text \<open>The two power fields asked for in one call: watts, freshness and time stamp.\<close>

definition power_fields :: "nvml_driver \<Rightarrow> nvml_api \<Rightarrow> nat \<Rightarrow> (nvml_field \<times> nvml_field) option" where
  "power_fields v a i = (case nfunction a F_fields of None \<Rightarrow> None
     | Some f \<Rightarrow> (case fields_answer v f i of (status, first, second) \<Rightarrow>
         if status = 0 then Some (first, second) else None))"

definition power_reading :: "u64 option \<Rightarrow> u32 \<Rightarrow> nvml_field option \<Rightarrow> (u64 \<times> string \<times> u64) option" where
  "power_reading now expected f = (case f of None \<Rightarrow> None
     | Some f \<Rightarrow> map_option (\<lambda>watts. (watts, field_freshness now f, field_timestamp f)) (field_power f expected))"

definition device_power :: "nvml_driver \<Rightarrow> nvml_api \<Rightarrow> nat \<Rightarrow> emit_call list" where
  "device_power v a i =
     (let instant = power_reading (realtime_us v i 0) 186 (map_option fst (power_fields v a i));
          average = power_reading (realtime_us v i 1) 185 (map_option snd (power_fields v a i))
      in (case instant of None \<Rightarrow> []
          | Some (watts, quality, stamp) \<Rightarrow>
              [string_field ''power_instant_quality'' quality, number_field ''power_instant_watts'' watts]
              @ (if 0 <s stamp then [int_field ''power_instant_timestamp_us'' stamp] else []))
         @ (case average of None \<Rightarrow> []
          | Some (watts, quality, stamp) \<Rightarrow>
              [string_field ''power_average_quality'' quality, number_field ''power_average_watts'' watts,
               integer_field ''power_average_interval_ns'' 1000000000]
              @ (if 0 <s stamp then [int_field ''power_average_timestamp_us'' stamp] else []))
         @ (case (instant, average) of
              (None, None) \<Rightarrow>
                (case nvml_value v a i F_power of
                   None \<Rightarrow> []
                 | Some x \<Rightarrow> if x < 100000000
                     then [number_field ''power_watts'' (thousandths x),
                           string_field ''power_measurement'' ''device_sample'',
                           string_field ''power_quality'' ''fresh'']
                     else [])
            | (Some (watts, quality, _), None) \<Rightarrow>
                [number_field ''power_watts'' watts, string_field ''power_measurement'' ''current'',
                 string_field ''power_quality'' quality]
            | (None, Some (watts, quality, _)) \<Rightarrow>
                [number_field ''power_watts'' watts, string_field ''power_measurement'' ''average'',
                 string_field ''power_quality'' quality, integer_field ''power_interval_ns'' 1000000000]
            | (Some (watts, quality, _), Some (watts', quality', _)) \<Rightarrow>
                if quality = ''fresh'' \<or> quality' \<noteq> ''fresh''
                then [number_field ''power_watts'' watts, string_field ''power_measurement'' ''current'',
                      string_field ''power_quality'' quality]
                else [number_field ''power_watts'' watts', string_field ''power_measurement'' ''average'',
                      string_field ''power_quality'' quality', integer_field ''power_interval_ns'' 1000000000])
         @ when_in (nvml_value v a i F_power_limit) (\<lambda>x. 0 < x \<and> x < 100000000)
             (\<lambda>x. number_field ''power_limit_watts'' (thousandths x)))"

text \<open>The part of a device's table before its processes.\<close>

definition device_pci :: "nvml_driver \<Rightarrow> nvml_api \<Rightarrow> nat \<Rightarrow> emit_call list" where
  "device_pci v a i = (case nfunction a F_pci of None \<Rightarrow> []
   | Some f \<Rightarrow> (case pci_answer v f i of (status, pci) \<Rightarrow>
       if status \<noteq> 0 then []
       else (case (case pci_address 32 (pci_bus_id pci) pci of
                     Malformed \<Rightarrow> pci_address 16 (pci_bus_id_legacy pci) pci | r \<Rightarrow> r) of
               Address bdf \<Rightarrow> [string_field ''pci_bdf'' bdf] | _ \<Rightarrow> [])
            @ (if pci_device_id pci \<noteq> UINT_MAX
               then [string_field ''vendor_id'' (''0x'' @ hex_fixed 4 (unat (pci_device_id pci AND 0xffff))),
                     string_field ''device_id'' (''0x'' @ hex_fixed 4 (unat (drop_bit 16 (pci_device_id pci))))]
               else [])))"

definition device_memory :: "nvml_driver \<Rightarrow> nvml_api \<Rightarrow> nat \<Rightarrow> emit_call list" where
  "device_memory v a i =
     (case nfunction a F_utilization of None \<Rightarrow> []
      | Some f \<Rightarrow> (case utilization_answer v f i of (status, gpu, memory) \<Rightarrow>
          if status \<noteq> 0 then []
          else (if gpu \<le> 100 then [int_field ''utilization_percent'' gpu] else [])
               @ (if memory \<le> 100 then [int_field ''memory_utilization_percent'' memory] else [])))
     @ (case nfunction a F_memory of None \<Rightarrow> []
      | Some f \<Rightarrow> (case memory_answer v f i of (status, all_memory, used_memory) \<Rightarrow>
          if status = 0 \<and> all_memory < 2 ^ 50
          then [integer_field ''memory_total_bytes'' all_memory]
               @ (if used_memory \<le> all_memory then [integer_field ''memory_used_bytes'' used_memory] else [])
          else []))"

definition device_clocks :: "nvml_driver \<Rightarrow> nvml_api \<Rightarrow> nat \<Rightarrow> emit_call list" where
  "device_clocks v a i =
     (let hertz = (\<lambda>key x. number_field key (dbl_mul (dbl_of_nat (unat x)) (dbl_of_nat 1000000)))
      in when_in (nvml_sensor v a i F_clock 0) (\<lambda>x. x < 100000) (hertz ''graphics_clock_hz'')
         @ when_in (nvml_sensor v a i F_clock 2) (\<lambda>x. x < 100000) (hertz ''memory_clock_hz'')
         @ when_in (nvml_sensor v a i F_max_clock 0) (\<lambda>x. 0 < x \<and> x < 100000) (hertz ''graphics_clock_maximum_hz'')
         @ when_in (nvml_value v a i F_fan) (\<lambda>x. x \<le> 100) (int_field ''fan_speed_percent'')
         @ when_in (nvml_value v a i F_performance_state) (\<lambda>x. x \<le> 15)
             (\<lambda>x. string_field ''performance_state'' (CHR ''P'' # decimal (unat x))))"

definition device_fields :: "nvml_driver \<Rightarrow> nvml_api \<Rightarrow> nat \<Rightarrow> string option \<Rightarrow> emit_call list" where
  "device_fields v a i uuid =
     [integer_field ''index'' (word_of_nat i)] @ optional_text ''uuid'' uuid
     @ optional_text ''name'' (ask_text v (nfunction a F_name) i 2)
     @ device_pci v a i @ device_memory v a i
     @ when_in (nvml_sensor v a i F_temperature 0) (\<lambda>x. x < 1000) (int_field ''temperature_celsius'')
     @ device_power v a i @ device_pcie v a i @ device_clocks v a i @ clock_events v a i"

text \<open>The table of the processes.\<close>

definition context_calls :: "allocation \<Rightarrow> nat \<Rightarrow> emit_call list" where
  "context_calls al j =
     (let p = avalue al in
      gpu_table 0 4
      # ((if np_gpu_instance p \<noteq> UINT_MAX then [int_field ''gpu_instance_id'' (np_gpu_instance p)] else [])
         @ (if np_compute_instance p \<noteq> UINT_MAX then [int_field ''compute_instance_id'' (np_compute_instance p)] else [])
         @ (if np_memory p < 2 ^ 50 then [integer_field ''memory_bytes'' (np_memory p)] else [])
         @ [string_field ''kind'' (source_kind (asources al))])
      @ [gpu_index (word_of_nat (Suc j))])"

definition row_calls :: "allocation list \<Rightarrow> u64 \<Rightarrow> process_row \<Rightarrow> nat \<Rightarrow> emit_call list" where
  "row_calls allocations previous r j =
     gpu_table 0 10
     # ([int_field ''pid'' (rpid r), string_field ''kind'' (rkind r)]
        @ (if rhas_memory r
           then [integer_field ''memory_bytes'' (rmemory r),
                 string_field ''memory_quality'' (if rmemory_estimated r then ''estimated'' else ''fresh''),
                 string_field ''memory_scope'' (if rmemory_estimated r then ''largest_reported_context''
                    else if rhas_whole r then ''whole_device'' else ''reported_context'')]
           else [])
        @ (gpu_table 0 0
           # concat (map (\<lambda>(n, al). context_calls al n)
               (enumerate 0 (filter (\<lambda>al. np_pid (avalue al) = rpid r) allocations)))
           @ [gpu_field_attach ''memory_contexts''])
        @ (if rhas_sample r
           then [int_field ''sm_percent'' (rsm r), int_field ''memory_percent'' (rmemory_utilization r),
                 int_field ''encoder_percent'' (rencoder r), int_field ''decoder_percent'' (rdecoder r),
                 int_field ''sample_timestamp_us'' (rtimestamp r),
                 string_field ''sample_window'' (if previous \<noteq> 0 then ''since_last_query'' else ''driver_buffer'')]
           else []))
     @ [gpu_index (word_of_nat (Suc j))]"

definition processes_calls :: "processes \<Rightarrow> u64 \<Rightarrow> emit_call list" where
  "processes_calls p previous =
     (gpu_table (word_of_nat (length (prows p))) 0
      # concat (map (\<lambda>(j, r). row_calls (pallocations p) previous r j) (enumerate 0 (prows p)))
      @ [gpu_field_attach ''processes''])
     @ [boolean_field ''processes_truncated'' (if ptruncated p then 1 else 0)]"

section \<open>The collection\<close>

text \<open>
  What the loop over the devices carries: the cursors of the devices returned so far (a device
  without a UUID leaves an empty one), the flags and the calls made.
\<close>

record collection =
  pending :: "sample_cursor list"
  partial :: bool
  truncated_devices :: bool
  calls :: "emit_call list"

definition cursor_before :: "sample_cursor list \<Rightarrow> string \<Rightarrow> u64" where
  "cursor_before cursors uuid =
     fold (\<lambda>c previous. if cursor_uuid c = uuid then cursor_timestamp c else previous) cursors 0"

definition nvml_device :: "nvml_driver \<Rightarrow> nvml_api \<Rightarrow> bool \<Rightarrow> nat \<Rightarrow> collection \<Rightarrow> collection" where
  "nvml_device v a include_processes i s =
     (if fst (handle_answer v (the (nfunction a F_handle)) i) \<noteq> 0
         \<or> snd (handle_answer v (the (nfunction a F_handle)) i) = 0 then s\<lparr>partial := True\<rparr>
      else
        let uuid = (case ask_text v (nfunction a F_uuid) i 0 of
              Some t \<Rightarrow> if length t < 128 then Some t else None | None \<Rightarrow> None);
            previous = (case uuid of Some u \<Rightarrow> cursor_before (ncursors a) u | None \<Rightarrow> 0)
        in if uuid \<noteq> None \<and> the uuid \<in> cursor_uuid ` set (pending s) then s\<lparr>partial := True\<rparr>
           else
             let p = collect_processes v a i previous;
                 fields = device_fields v a i uuid
                   @ (if include_processes then processes_calls p previous else []);
                 cut = (include_processes \<and> ptruncated p);
                 s = s\<lparr>partial := partial s \<or> cut, truncated_devices := truncated_devices s \<or> cut\<rparr>
             in if uuid \<noteq> None \<and> ask_text v (nfunction a F_uuid) i 1 \<noteq> uuid
                then s\<lparr>partial := True, calls := calls s @ (gpu_table 0 28 # fields @ [gpu_discard])\<rparr>
                else s\<lparr>pending := pending s
                         @ [case uuid of
                              Some u \<Rightarrow> \<lparr>cursor_uuid = u, cursor_timestamp = (if include_processes then pnext p else previous)\<rparr>
                            | None \<Rightarrow> \<lparr>cursor_uuid = [], cursor_timestamp = 0\<rparr>],
                       calls := calls s @ (gpu_table 0 28 # fields
                         @ [gpu_index (word_of_nat (Suc (length (pending s))))])\<rparr>)"

definition nvml_devices :: "nvml_driver \<Rightarrow> nvml_api \<Rightarrow> bool \<Rightarrow> u32 \<Rightarrow> collection" where
  "nvml_devices v a include_processes device_total =
     (let count = min device_total 64
      in fold (nvml_device v a include_processes) [0..<unat count]
           \<lparr>pending = [], partial = count < device_total, truncated_devices = count < device_total, calls = []\<rparr>)"

definition nvml_calls :: "nvml_driver \<Rightarrow> nvml_api \<Rightarrow> bool \<Rightarrow> u32 \<Rightarrow> emit_call list" where
  "nvml_calls v a include_processes device_total =
     (let s = nvml_devices v a include_processes device_total;
          after = count_answer v (the (nfunction a F_count)) 1;
          incomplete = (partial s \<or> fst after \<noteq> 0 \<or> snd after \<noteq> device_total)
      in gpu_table 0 5
         # (optional_text ''driver_version'' (ask_text v (nfunction a F_driver_version) 0 3)
            @ (gpu_table (min device_total 64) 0 # calls s @ [gpu_field_attach ''devices''])
            @ [string_field ''source'' ''nvml'',
               string_field ''status'' (if incomplete then ''partial'' else ''ok'')]
            @ (if incomplete then [string_field ''reason'' ''nvml_enumeration_incomplete''] else [])
            @ [boolean_field ''truncated'' (if truncated_devices s then 1 else 0)]))"

definition nvml_collect ::
    "nvml_driver \<Rightarrow> (wire_buffer \<Rightarrow> emit_call \<Rightarrow> wire_buffer) \<Rightarrow> wire_buffer \<Rightarrow> nvml_api \<Rightarrow> bool
       \<Rightarrow> wire_buffer \<times> nvml_api \<times> nvml_event list \<times> string option" where
  "nvml_collect v emit out a include_processes =
     (case nvml_open (loader v) a of
        (a, events, Some reason) \<Rightarrow> (out, a, events, Some reason)
      | (a, events, None) \<Rightarrow>
          (case count_answer v (the (nfunction a F_count)) 0 of (status, device_total) \<Rightarrow>
             if status \<noteq> 0 then
               (if status = 1 \<or> status = 9 \<or> status = 15
                then (out, fst (nvml_close a), events @ snd (nvml_close a), Some ''nvml_device_count_failed'')
                else (out, a, events, Some ''nvml_device_count_failed''))
             else
               let out = foldl emit out (nvml_calls v a include_processes device_total)
               in if wfailed out \<noteq> 0
                  then (out, a, events,
                        Some (if wfailed out = 2 then ''nvml_allocation_failed'' else ''nvml_output_too_large''))
                  else (out, a\<lparr>ncursors := pending (nvml_devices v a include_processes device_total)\<rparr>,
                        events, None)))"

section \<open>What is sent is within the limits\<close>

lemma ask_text_ok: "ask_text v f i call = Some t \<Longrightarrow> text_ok t"
  by (force simp: ask_text_def text_ok_plain valid_text_in split: option.splits if_splits prod.splits
      dest!: text_in_ok)

lemma source_kind_ok [emit_intros]: "text_ok (source_kind bits)"
  by (simp add: source_kind_def text_ok_plain)

lemma bdf_ok: "pci_address n buffer pci = Address bdf \<Longrightarrow> text_ok bdf"
  by (auto simp: pci_address_def pci_bdf_def text_ok_plain Let_def
      split: option.splits list.splits if_splits)


lemma thousandths_finite [emit_intros]: "is_finite_bits (thousandths x)"
proof -
  have "unat x < 2 ^ 32" using unsigned_less [of x] by simp
  from dbl_of_nat_magnitude [OF this] show ?thesis
    unfolding finite_bits thousandths_def by (rule dbl_div_within) (simp_all add: thousand_magnitude)
qed

lemma field_power_finite:
  assumes "field_power f expected = Some w"
  shows "is_finite_bits w"
proof -
  from assms obtain x where w: "w = dbl_div x (dbl_of_nat 1000)" and x: "dbl_magnitude_less x 100000000"
    by (auto simp: field_power_def split: if_splits option.splits)
  have "dbl_num x < dbl_den x * 100000000" using x by (simp add: dbl_magnitude_less_def mult.commute)
  also have "\<dots> \<le> dbl_den x * 2 ^ 40" by simp
  finally show ?thesis unfolding finite_bits w by (rule dbl_div_within) (simp_all add: thousand_magnitude)
qed

section \<open>The parts of a device\<close>

lemma body_when_in [emit_intros]:
  "(\<And>x. answer = Some x \<Longrightarrow> accept x \<Longrightarrow> body d n k t [send x]) \<Longrightarrow> body d n k t (when_in answer accept send)"
  by (auto simp: when_in_def intro: body_nil split: option.splits)

lemma mask_query_source:
  "mask_query v a i f g x y = (status, bits, source) \<Longrightarrow> source = x \<or> source = y"
  by (auto simp: mask_query_def Let_def split: option.splits prod.splits if_splits)

lemma clock_events_body: "body 4 1 8 1 (clock_events v a i)"
  unfolding clock_events_def Let_def
  by (rule body_within)
    (rule emit_intros | force simp: literal_simps dest!: mask_query_source)+

lemma freshness_ok: "text_ok (field_freshness now f)"
  by (simp add: field_freshness_def Let_def text_ok_plain split: option.split)

lemma device_pcie_body: "body 4 7 7 0 (device_pcie v a i)"
  unfolding device_pcie_def Let_def
  by (rule body_within) (rule emit_intros | force simp: literal_simps)+

lemma power_reading_ok: "power_reading now expected f = Some (watts, quality, stamp) \<Longrightarrow>
    is_finite_bits watts \<and> text_ok quality"
  by (auto simp: power_reading_def freshness_ok split: option.splits dest: field_power_finite)

lemma device_power_body: "body 4 13 13 0 (device_power v a i)"
  unfolding device_power_def Let_def
  by (rule body_within)
    (rule emit_intros | force simp: literal_simps dest: power_reading_ok)+

lemma body_address [emit_intros]:
  "(\<And>bdf. x = Address bdf \<Longrightarrow> body d n k t (f bdf)) \<Longrightarrow>
     body d n k t (case x of Malformed \<Rightarrow> [] | Mismatch \<Rightarrow> [] | Address bdf \<Rightarrow> f bdf)"
  by (cases x) (simp_all add: body_nil)

lemma performance_ok [emit_intros]: "x \<le> 15 \<Longrightarrow> text_ok (CHR ''P'' # decimal (unat (x :: u32)))"
proof -
  assume "x \<le> 15"
  then have "unat x \<le> 15" by (simp add: word_le_nat_alt)
  then have "length (decimal (unat x)) \<le> 2" by (subst decimal.simps, subst decimal.simps) auto
  then show ?thesis by (simp add: text_ok_plain decimal_plain)
qed

lemma device_pci_body: "body 4 3 3 0 (device_pci v a i)"
  unfolding device_pci_def
  by (rule body_within)
    (rule emit_intros | force simp: literal_simps dest: bdf_ok split: checked_address.splits)+

lemma device_memory_body: "body 4 4 4 0 (device_memory v a i)"
  unfolding device_memory_def
  by (rule body_within) (rule emit_intros | force simp: literal_simps)+

lemma device_clocks_body: "body 4 5 5 0 (device_clocks v a i)"
  unfolding device_clocks_def Let_def
  by (rule body_within) (rule emit_intros | assumption | force simp: literal_simps)+


lemma device_fields_body:
  "(\<And>t. uuid = Some t \<Longrightarrow> text_ok t) \<Longrightarrow> body 4 37 44 1 (device_fields v a i uuid)"
  unfolding device_fields_def
  by (rule body_within)
    (rule emit_intros clock_events_body device_pcie_body device_power_body device_pci_body
        device_memory_body device_clocks_body
     | erule ask_text_ok | assumption | force simp: literal_simps)+

lemma context_body: "j < 4096 \<Longrightarrow> body 1 1 6 1 (context_calls al j)"
  unfolding context_calls_def Let_def
  by (rule body_within) (rule emit_intros index_word_ok | assumption | force simp: literal_simps)+

definition contexts_of :: "allocation list \<Rightarrow> process_row \<Rightarrow> nat" where
  "contexts_of allocations r = length (filter (\<lambda>al. np_pid (avalue al) = rpid r) allocations)"

lemma contexts_body:
  assumes "length allocations \<le> 512" and d: "0 < d"
  shows "body d (contexts_of allocations r) (contexts_of allocations r * 6) (contexts_of allocations r)
    (concat (map (\<lambda>(n, al). context_calls al n)
       (enumerate 0 (filter (\<lambda>al. np_pid (avalue al) = rpid r) allocations))))"
proof -
  let ?xs = "filter (\<lambda>al. np_pid (avalue al) = rpid r) allocations"
  have len: "length ?xs \<le> 512" using assms length_filter_le order_trans by blast
  have "body 1 (length ?xs * 1) (sum_list (map (\<lambda>_. 6) ?xs)) (sum_list (map (\<lambda>_. 1) ?xs))
      (concat (map (\<lambda>(n, al). context_calls al n) (enumerate 0 ?xs)))"
    by (rule body_enumerate) (rule context_body, use len in simp)
  then have "body 1 (length ?xs) (length ?xs * 6) (length ?xs)
      (concat (map (\<lambda>(n, al). context_calls al n) (enumerate 0 ?xs)))" by (simp add: sum_list_triv)
  then show ?thesis unfolding contexts_of_def by (rule body_mono) (use d in simp_all)
qed

lemma row_body:
  assumes a: "length allocations \<le> 512" and j: "j < 4096" and kind: "text_ok (rkind r)"
  shows "body 3 1 (15 + contexts_of allocations r * 6) (2 + contexts_of allocations r)
    (row_calls allocations previous r j)"
proof -
  have c: "contexts_of allocations r \<le> 4096" unfolding contexts_of_def
    by (rule order_trans [OF length_filter_le]) (use a in simp)
  show ?thesis
    unfolding row_calls_def
    by (rule body_within)
      (rule emit_intros | rule contexts_body [OF a] | rule kind | rule index_word_ok [OF j]
       | use c in \<open>force simp: literal_simps\<close>)+
qed


section \<open>The rows of the processes\<close>

lemma process_versions_length:
  "process_versions v i fs truncated = Inl (ps, truncated') \<Longrightarrow> length ps \<le> 256"
  by (induction v i fs truncated rule: process_versions.induct)
    (auto simp: Let_def word_le_nat_alt split: prod.splits if_splits)

lemma process_list_length: "length (fst (process_list v a i graphics truncated)) \<le> 256"
  by (auto simp: process_list_def Let_def word_le_nat_alt split: sum.split option.split prod.split
      dest: process_versions_length)

lemma put_allocation_length: "length (put_allocation bits p rs) \<le> Suc (length rs)"
  by (induction bits p rs rule: put_allocation.induct) auto

lemma add_allocations_length: "length (fold (add_allocation bits) ps rs) \<le> length rs + length ps"
proof (induction ps arbitrary: rs)
  case (Cons p ps)
  have "length (add_allocation bits p rs) \<le> Suc (length rs)"
    by (simp add: add_allocation_def put_allocation_length)
  then show ?case using Cons.IH [of "add_allocation bits p rs"] by simp
qed simp

lemma collect_allocations_length: "length (fst (collect_allocations v a i truncated)) \<le> 512"
proof -
  obtain c t1 where c: "process_list v a i False truncated = (c, t1)" by force
  obtain g t2 where g: "process_list v a i True t1 = (g, t2)" by force
  have "length c \<le> 256" "length g \<le> 256"
    using process_list_length [of v a i False truncated] process_list_length [of v a i True t1] c g by auto
  then show ?thesis
    using add_allocations_length [of 1 c "[]"] add_allocations_length [of 2 g "fold (add_allocation 1) c []"]
    by (simp add: collect_allocations_def c g)
qed

text \<open>The rows are at most 256, one for each process, and their kinds are texts.\<close>

definition rows_ok :: "process_row list \<Rightarrow> bool" where
  "rows_ok rows \<longleftrightarrow> length rows \<le> 256 \<and> distinct (map rpid rows) \<and> (\<forall>r \<in> set rows. usable_pid (rpid r))"

lemma find_process_Some: "find_process rows pid = Some j \<Longrightarrow> j < length rows \<and> rpid (rows ! j) = pid"
  by (induction rows arbitrary: j) (auto split: if_splits)

lemma find_process_None: "find_process rows pid = None \<Longrightarrow> pid \<notin> rpid ` set rows"
  by (induction rows) (auto split: if_splits)

lemma find_process_absent: "pid \<notin> rpid ` set rows \<Longrightarrow> find_process rows pid = None"
  by (induction rows) auto

lemma on_row_ok:
  assumes ok: "rows_ok (fst s)" and f: "\<And>r. rpid (f r) = rpid r" and pid: "rpid fresh = pid" "usable_pid pid"
  shows "rows_ok (fst (on_row pid fresh f s))"
proof (cases "find_process (fst s) pid")
  case None
  from find_process_None [OF None] show ?thesis using ok f pid None
    by (auto simp: on_row_def rows_ok_def split: prod.split)
next
  case (Some j)
  from find_process_Some [OF Some] have j: "j < length (fst s)" "rpid (fst s ! j) = pid" by auto
  then have "map rpid ((fst s)[j := f (fst s ! j)]) = map rpid (fst s)"
    by (simp add: map_update f) (metis list_update_id map_update)
  moreover have "\<forall>r \<in> set ((fst s)[j := f (fst s ! j)]). usable_pid (rpid r)"
    using ok j pid by (auto simp: rows_ok_def f dest!: set_update_subset_insert [THEN subsetD])
  ultimately show ?thesis using ok Some by (auto simp: on_row_def rows_ok_def split: prod.split)
qed

lemma on_row_all:
  assumes "\<forall>r \<in> set (fst s). P r" and "\<And>r. P r \<Longrightarrow> P (f r)" and "P fresh"
  shows "\<forall>r \<in> set (fst (on_row pid fresh f s)). P r"
  using assms by (auto simp: on_row_def split: prod.split option.split
      dest!: find_process_Some set_update_subset_insert [THEN subsetD])

lemma sum_of_matches:
  "distinct ps \<Longrightarrow> sum_list (map (\<lambda>p. length (filter (\<lambda>x. f x = p) xs)) ps) \<le> length xs"
proof (induction xs)
  case Nil
  then show ?case by (simp add: sum_list_0)
next
  case (Cons x xs)
  have one: "sum_list (map (\<lambda>p. if f x = p then 1 else 0 :: nat) ps) \<le> 1"
    using Cons.prems by (induction ps) (auto simp: sum_list_0)
  have "sum_list (map (\<lambda>p. length (filter (\<lambda>x. f x = p) (x # xs))) ps)
      = sum_list (map (\<lambda>p. (if f x = p then 1 else 0) + length (filter (\<lambda>x. f x = p) xs)) ps)"
    by (rule arg_cong [of _ _ sum_list]) simp
  also have "\<dots> \<le> 1 + length xs" unfolding sum_list_addf by (rule add_mono [OF one Cons.IH [OF Cons.prems]])
  finally show ?case by simp
qed

lemma contexts_sum:
  assumes "rows_ok rows"
  shows "sum_list (map (contexts_of allocations) rows) \<le> length allocations"
proof -
  have "sum_list (map (contexts_of allocations) rows)
      = sum_list (map (\<lambda>p. length (filter (\<lambda>al. np_pid (avalue al) = p) allocations)) (map rpid rows))"
    by (simp add: contexts_of_def [abs_def] comp_def)
  then show ?thesis using sum_of_matches [of "map rpid rows" "\<lambda>al. np_pid (avalue al)" allocations] assms
    by (simp add: rows_ok_def)
qed


lemma larger_memory_pid [simp]: "np_pid (larger_memory p old) = np_pid old"
  by (simp add: larger_memory_def)

lemma put_allocation_pids:
  "al \<in> set (put_allocation bits p rs) \<Longrightarrow> np_pid (avalue al) = np_pid p \<or> (\<exists>old \<in> set rs. np_pid (avalue al) = np_pid (avalue old))"
  by (induction bits p rs rule: put_allocation.induct) (auto split: if_splits)

lemma add_allocations_usable:
  "\<forall>al \<in> set rs. usable_pid (np_pid (avalue al)) \<Longrightarrow>
     \<forall>al \<in> set (fold (add_allocation bits) ps rs). usable_pid (np_pid (avalue al))"
proof (induction ps arbitrary: rs)
  case (Cons p ps)
  have "\<forall>al \<in> set (add_allocation bits p rs). usable_pid (np_pid (avalue al))"
    using Cons.prems put_allocation_pids [of _ bits p rs] by (simp add: add_allocation_def) metis
  from Cons.IH [OF this] show ?case by simp
qed simp

lemma collect_allocations_usable:
  "al \<in> set (fst (collect_allocations v a i truncated)) \<Longrightarrow> usable_pid (np_pid (avalue al))"
proof -
  obtain c t1 where c: "process_list v a i False truncated = (c, t1)" by force
  obtain g t2 where g: "process_list v a i True t1 = (g, t2)" by force
  have "\<forall>al \<in> set (fold (add_allocation 2) g (fold (add_allocation 1) c [])). usable_pid (np_pid (avalue al))"
    by (intro add_allocations_usable) simp
  then show "al \<in> set (fst (collect_allocations v a i truncated)) \<Longrightarrow> ?thesis"
    by (simp add: collect_allocations_def c g)
qed

lemma row_allocation_pid [simp]: "rpid (row_allocation al r) = rpid r"
  by (simp add: row_allocation_def Let_def)

lemma row_sample_simps [simp]: "rpid (row_sample p r) = rpid r" "rkind (row_sample p r) = rkind r"
  by (simp_all add: row_sample_def)

lemma new_row_pid [simp]: "rpid (new_row pid) = pid"
  by (simp add: new_row_def)

lemma add_rows_ok:
  "rows_ok (fst s) \<Longrightarrow> \<forall>al \<in> set as. usable_pid (np_pid (avalue al)) \<Longrightarrow> rows_ok (fst (fold add_row as s))"
  by (induction as arbitrary: s) (simp_all add: add_row_def on_row_ok)

lemma finish_rows_ok: "rows_ok rows \<Longrightarrow> rows_ok (map finish_row rows)"
  by (simp add: rows_ok_def finish_row_def comp_def)

lemma add_sample_ok:
  assumes "rows_ok (fst (fst s))" and "\<forall>r \<in> set (fst (fst s)). text_ok (rkind r)"
  shows "rows_ok (fst (fst (add_sample previous p s))) \<and> (\<forall>r \<in> set (fst (fst (add_sample previous p s))). text_ok (rkind r))"
proof (cases "new_sample previous p \<and> sample_percent p")
  case True
  let ?fresh = "(new_row (ns_pid p))\<lparr>rkind := ''sampled''\<rparr>"
  have fresh: "text_ok (rkind ?fresh)" by (simp add: text_ok_plain)
  from True have u: "usable_pid (ns_pid p)" by (simp add: new_sample_def)
  have "rows_ok (fst (on_row (ns_pid p) ?fresh (row_sample p) (fst s)))"
    by (rule on_row_ok [OF assms(1)]) (simp_all add: u)
  moreover have "\<forall>r \<in> set (fst (on_row (ns_pid p) ?fresh (row_sample p) (fst s))). text_ok (rkind r)"
    by (rule on_row_all [OF assms(2)]) (use fresh in simp_all)
  ultimately show ?thesis using True by (cases s) (simp add: add_sample_def)
next
  case False
  then show ?thesis using assms by (cases s) (auto simp: add_sample_def)
qed

lemma add_samples_ok:
  "rows_ok (fst (fst s)) \<Longrightarrow> \<forall>r \<in> set (fst (fst s)). text_ok (rkind r) \<Longrightarrow>
     rows_ok (fst (fst (fold (add_sample previous) ps s)))
     \<and> (\<forall>r \<in> set (fst (fst (fold (add_sample previous) ps s))). text_ok (rkind r))"
proof (induction ps arbitrary: s)
  case (Cons p ps)
  show ?case using Cons.IH [of "add_sample previous p s"] add_sample_ok [OF Cons.prems, of previous p] by simp
qed simp

lemma collect_samples_ok:
  assumes "rows_ok (fst s)" and "\<forall>r \<in> set (fst s). text_ok (rkind r)"
  shows "rows_ok (fst (fst (collect_samples v a i previous s)))
    \<and> (\<forall>r \<in> set (fst (fst (collect_samples v a i previous s))). text_ok (rkind r))"
  using assms add_samples_ok
  by (auto simp: collect_samples_def Let_def split: option.split prod.split)

lemma collect_processes_rows:
  "rows_ok (prows (collect_processes v a i previous))
   \<and> (\<forall>r \<in> set (prows (collect_processes v a i previous)). text_ok (rkind r))
   \<and> length (pallocations (collect_processes v a i previous)) \<le> 512"
proof -
  obtain al t1 where al: "collect_allocations v a i False = (al, t1)" by force
  obtain rows t2 where rows: "fold add_row al ([], t1) = (rows, t2)" by force
  have "\<forall>x \<in> set al. usable_pid (np_pid (avalue x))"
    using collect_allocations_usable [of _ v a i False] al by auto
  then have "rows_ok rows" using add_rows_ok [of "([], t1)" al] rows by (simp add: rows_ok_def)
  then have "rows_ok (map finish_row rows)" by (rule finish_rows_ok)
  moreover have "\<forall>r \<in> set (map finish_row rows). text_ok (rkind r)"
    by (auto simp: finish_row_def source_kind_ok)
  ultimately have s: "rows_ok (fst (fst (collect_samples v a i previous (map finish_row rows, t2))))
    \<and> (\<forall>r \<in> set (fst (fst (collect_samples v a i previous (map finish_row rows, t2)))). text_ok (rkind r))"
    by (intro collect_samples_ok) simp_all
  moreover have "length al \<le> 512" using collect_allocations_length [of v a i False] al by simp
  moreover obtain rows' t' newest
    where "collect_samples v a i previous (map finish_row rows, t2) = ((rows', t'), newest)" by (metis prod.exhaust)
  ultimately show ?thesis by (simp add: collect_processes_def al rows)
qed

lemma processes_body:
  assumes "rows_ok (prows p)" and kinds: "\<forall>r \<in> set (prows p). text_ok (rkind r)"
    and al: "length (pallocations p) \<le> 512"
  shows "body 4 2 6915 1025 (processes_calls p previous)"
proof -
  let ?rows = "prows p" and ?c = "contexts_of (pallocations p)"
  have len: "length ?rows \<le> 256" using assms(1) by (simp add: rows_ok_def)
  have "body 3 (length ?rows * 1) (sum_list (map (\<lambda>r. 15 + ?c r * 6) ?rows)) (sum_list (map (\<lambda>r. 2 + ?c r) ?rows))
      (concat (map (\<lambda>(j, r). row_calls (pallocations p) previous r j) (enumerate 0 ?rows)))"
    by (rule body_enumerate) (rule row_body, use al kinds len in auto)
  moreover have "sum_list (map (\<lambda>r. 15 + ?c r * 6) ?rows) \<le> 6912"
    using contexts_sum [OF assms(1), of "pallocations p"] al len
    by (simp add: sum_list_addf sum_list_triv sum_list_mult_const)
  moreover have "sum_list (map (\<lambda>r. 2 + ?c r) ?rows) \<le> 1024"
    unfolding sum_list_addf using contexts_sum [OF assms(1), of "pallocations p"] al len
    by (simp add: sum_list_triv)
  ultimately have rows: "body (4 - 1) 256 6912 1024
      (concat (map (\<lambda>(j, r). row_calls (pallocations p) previous r j) (enumerate 0 ?rows)))"
    using len by (auto elim!: body_within)
  have w: "(word_of_nat (length ?rows) :: u32) \<le> 4096" by (rule word_count) (use len in simp)
  show ?thesis
    unfolding processes_calls_def
    by (rule body_within) (rule emit_intros | rule rows | rule w | force simp: literal_simps)+
qed

section \<open>The devices\<close>

lemma device_body:
  assumes "\<And>t. uuid = Some t \<Longrightarrow> text_ok t"
  shows "body 4 39 6959 1026 (device_fields v a i uuid
    @ (if include_processes then processes_calls (collect_processes v a i previous) previous else []))"
  by (rule body_within)
    (rule emit_intros device_fields_body processes_body | erule assms | use collect_processes_rows in force)+


lemma uuid_text: "ask_text v f i 0 = Some t \<Longrightarrow> text_ok t"
  by (rule ask_text_ok)

lemma pending_step:
  "pending s = cs \<Longrightarrow> pending (nvml_device v a p i s) = cs \<or> (\<exists>c. pending (nvml_device v a p i s) = cs @ [c])"
  by (simp add: nvml_device_def Let_def)

text \<open>
  One round of the loop: at most one entry, 6961 operations and 1027 tables more.
\<close>

lemma device_step_body:
  assumes s: "body 5 (length (pending s)) k t (calls s)" and few: "length (pending s) < 64"
  shows "body 5 (length (pending (nvml_device v a p i s))) (k + 6961) (t + 1027) (calls (nvml_device v a p i s))"
proof -
  define uuid where "uuid = (case ask_text v (nfunction a F_uuid) i 0 of
      Some t \<Rightarrow> if length t < 128 then Some t else None | None \<Rightarrow> None)"
  define previous where "previous = (case uuid of Some u \<Rightarrow> cursor_before (ncursors a) u | None \<Rightarrow> 0)"
  define fields where "fields = device_fields v a i uuid
      @ (if p then processes_calls (collect_processes v a i previous) previous else [])"
  have "\<And>t. uuid = Some t \<Longrightarrow> text_ok t"
    by (auto simp: uuid_def dest: ask_text_ok split: option.splits if_splits)
  from device_body [OF this] have f: "body (5 - 1) 39 6959 1026 fields" by (simp only: fields_def) simp
  have drop: "body 5 0 6961 1027 (gpu_table 0 28 # fields @ [gpu_discard])"
    by (rule body_within, rule body_dropped [OF _ _ _ f]) simp_all
  have add: "body 5 1 6961 1027 (gpu_table 0 28 # fields @ [gpu_index (word_of_nat (Suc (length (pending s))))])"
    by (rule body_within, rule body_indexed [OF _ _ _ index_word_ok f]) (use few in simp_all)
  have keep: "body 5 (length (pending s)) (k + 6961) (t + 1027) (calls s)"
    using s by (rule body_within) simp_all
  note more = body_append [OF s drop, simplified] body_append [OF s add, simplified]
  show ?thesis
    unfolding nvml_device_def uuid_def [symmetric] Let_def previous_def [symmetric] fields_def [symmetric]
    using keep more by simp
qed

lemma pending_length: "length (pending (nvml_device v a p i s)) \<le> Suc (length (pending s))"
  using pending_step [OF refl, of v a p i s] by auto

lemma devices_fold_body:
  assumes "body 5 (length (pending s)) k t (calls s)" and "length (pending s) + length is \<le> 64"
  shows "body 5 (length (pending (fold (nvml_device v a p) is s))) (k + length is * 6961) (t + length is * 1027)
           (calls (fold (nvml_device v a p) is s))
    \<and> length (pending (fold (nvml_device v a p) is s)) \<le> length (pending s) + length is"
  using assms
proof (induction "is" arbitrary: s k t)
  case (Cons i "is")
  have "body 5 (length (pending (nvml_device v a p i s))) (k + 6961) (t + 1027) (calls (nvml_device v a p i s))"
    by (rule device_step_body [OF Cons.prems(1)]) (use Cons.prems(2) in simp)
  from Cons.IH [OF this] show ?case using Cons.prems(2) pending_length [of v a p i s]
    by (simp add: algebra_simps)
qed simp

lemma nvml_devices_body: "body 5 64 445504 65728 (calls (nvml_devices v a p device_total))"
proof -
  let ?n = "unat (min device_total 64)"
  let ?s = "\<lparr>pending = [], partial = min device_total 64 < device_total,
    truncated_devices = min device_total 64 < device_total, calls = []\<rparr>"
  have "min device_total 64 \<le> 64" by (rule min.cobounded2)
  then have n: "?n \<le> 64" unfolding word_le_nat_alt by simp
  have "body 5 (length (pending ?s)) 0 0 (calls ?s)" by (simp add: body_nil)
  from devices_fold_body [OF this, of "[0..<?n]" v a p] n
  have b: "body 5 (length (pending (nvml_devices v a p device_total))) (?n * 6961) (?n * 1027)
      (calls (nvml_devices v a p device_total))"
    and l: "length (pending (nvml_devices v a p device_total)) \<le> ?n"
    by (simp_all add: nvml_devices_def Let_def)
  show ?thesis using n l by (intro body_within [OF b]) auto
qed

text \<open>Whatever the library answers, a collection that succeeds has sent a valid frame.\<close>

lemma nvml_calls_body:
  "\<exists>cs. nvml_calls v a p device_total = gpu_table 0 5 # cs \<and> body 6 6 445511 65729 cs"
proof -
  have d: "body (6 - 1) 64 445504 65728 (calls (nvml_devices v a p device_total))"
    using nvml_devices_body by simp
  have c: "min device_total 64 \<le> 4096"
    by (rule order_trans [OF min.cobounded2]) simp
  show ?thesis
    unfolding nvml_calls_def Let_def
    apply (rule exI, rule conjI, rule refl)
    by (rule body_within)
      (rule emit_intros | rule d | rule c | erule ask_text_ok | force simp: literal_simps)+
qed


lemma nvml_collect_sends:
  assumes "nvml_collect v (wire_emit alloc) b a p = (b', a', es, None)" and "wdata b = []"
  shows "gpu_wire_valid (wdata b')"
proof -
  from assms(1) obtain device_total a1 where b': "b' = wire_emit_all alloc b (nvml_calls v a1 p device_total)"
    and ok: "wfailed b' = 0"
    by (auto simp: nvml_collect_def wire_emit_all_def Let_def split: prod.splits option.splits if_splits)
  from nvml_calls_body obtain cs where cs: "nvml_calls v a1 p device_total = gpu_table 0 5 # cs"
    and body: "body 6 6 445511 65729 cs" by blast
  show ?thesis unfolding b' cs
    by (rule frame_valid [OF body]) (use ok b' cs assms(2) wire_emit_all_limit in simp_all)
qed

lemma nvml_open_reason: "nvml_open l a = (a', es, Some reason) \<Longrightarrow> own_reason ''nvml'' reason"
  by (auto simp: nvml_open_def Let_def reason_simps split: if_splits)

lemma nvml_collect_reason: "nvml_collect v emit b a p = (b', a', es, Some reason) \<Longrightarrow> own_reason ''nvml'' reason"
  by (auto simp: nvml_collect_def Let_def reason_simps dest!: nvml_open_reason split: prod.splits option.splits if_splits)

text \<open>
  The collector as the reader calls it: the session and the number of the collection, for which
  the library answers \<open>answers n\<close>.
\<close>

definition nvml_collector :: "(nat \<Rightarrow> nvml_driver) \<Rightarrow> (wire_buffer \<Rightarrow> emit_call \<Rightarrow> wire_buffer) \<Rightarrow> wire_buffer
    \<Rightarrow> nvml_api \<times> nat \<Rightarrow> bool \<Rightarrow> wire_buffer \<times> (nvml_api \<times> nat) \<times> string option" where
  "nvml_collector answers emit b w include_processes =
     (case nvml_collect (answers (snd w)) emit b (fst w) include_processes of
        (b', a', _, reason) \<Rightarrow> (b', (a', Suc (snd w)), reason))"

interpretation nvml: frame_collector "''nvml''" "nvml_collector answers" for answers
  by unfold_locales
    (auto simp: nvml_collector_def dest: nvml_collect_sends nvml_collect_reason split: prod.splits)

section \<open>The session\<close>

text \<open>
  The library is open and the session started exactly while the record says so: \<open>balance\<close> is
  what the events leave behind.
\<close>

fun balance :: "nvml_event list \<Rightarrow> int \<times> int \<Rightarrow> int \<times> int" where
  "balance [] s = s"
| "balance (Library_opened # es) (l, s) = balance es (l + 1, s)"
| "balance (Library_closed # es) (l, s) = balance es (l - 1, s)"
| "balance (Session_started # es) (l, s) = balance es (l, s + 1)"
| "balance (Session_ended # es) (l, s) = balance es (l, s - 1)"

datatype nvml_operation = Collect nvml_driver wire_buffer bool "wire_buffer \<Rightarrow> emit_call \<Rightarrow> wire_buffer" | Finish

fun nvml_step :: "nvml_operation \<Rightarrow> nvml_api \<times> nvml_event list \<Rightarrow> nvml_api \<times> nvml_event list" where
  "nvml_step (Collect v b p emit) (a, es) =
     (case nvml_collect v emit b a p of (_, a', new, _) \<Rightarrow> (a', es @ new))"
| "nvml_step Finish (a, es) = (fst (nvml_close a), es @ snd (nvml_close a))"

definition session_ok :: "nvml_api \<times> nvml_event list \<Rightarrow> bool" where
  "session_ok w \<longleftrightarrow> balance (snd w) (0, 0) = (of_bool (nlibrary (fst w)), of_bool (nstate (fst w)))
     \<and> (nstate (fst w) \<longleftrightarrow> nlibrary (fst w))
     \<and> (nstate (fst w) \<longrightarrow> nfunction (fst w) F_shutdown \<noteq> None)"

lemma balance_append: "balance (a @ b) s = balance b (balance a s)"
  by (induction a s rule: balance.induct) auto

lemma close_ok: "session_ok (a, es) \<Longrightarrow> session_ok (fst (nvml_close a), es @ snd (nvml_close a))"
  by (auto simp: session_ok_def nvml_close_def nvml_blank_def balance_append)

lemma open_ok: "session_ok (a, es) \<Longrightarrow> nvml_open l a = (a', new, r) \<Longrightarrow>
    session_ok (a', es @ new) \<and> (r = None \<longrightarrow> nstate a')"
  by (auto simp: session_ok_def nvml_open_def nvml_close_def nvml_blank_def balance_append Let_def split: if_splits)

lemma collect_ok:
  assumes ok: "session_ok (a, es)" and c: "nvml_collect v emit b a p = (b', a', new, r)"
  shows "session_ok (a', es @ new)"
proof -
  obtain a1 new1 r1 where o: "nvml_open (loader v) a = (a1, new1, r1)" by (metis prod.exhaust)
  from open_ok [OF ok o] have 1: "session_ok (a1, es @ new1)" by simp
  then have 2: "session_ok (a1\<lparr>ncursors := cs\<rparr>, es @ new1)" for cs by (simp add: session_ok_def)
  show ?thesis using c o 1 2 close_ok [OF 1]
    by (auto simp: nvml_collect_def Let_def split: option.splits prod.splits if_splits)
qed

lemma step_ok: "session_ok w \<Longrightarrow> session_ok (nvml_step op w)"
  by (cases op; cases w) (auto simp: close_ok split: prod.split intro: collect_ok)

lemma nvml_session_balanced:
  "session_ok (fold nvml_step ops (nvml_blank, []))"
proof -
  have "session_ok w \<Longrightarrow> session_ok (fold nvml_step ops w)" for w
    by (induction ops arbitrary: w) (simp_all add: step_ok)
  moreover have "session_ok (nvml_blank, [])" by (simp add: session_ok_def nvml_blank_def)
  ultimately show ?thesis by blast
qed

end
