(* ===== verification/NvmlProcesses.thy ===== *)
theory NvmlProcesses imports Nvml begin

text \<open>
  What \<open>collect_processes\<close> of \<^verbatim>\<open>native/wtop_nvml.c\<close> promises: the reports of the compute and
  graphics lists are merged into contexts, the contexts and the samples into one row for each
  process. Each loop keeps an invariant over the part of its input it has seen
  (\<open>allocations_inv\<close>, \<open>rows_inv\<close>, \<open>samples_inv\<close>); together they give \<open>processes_ok\<close>.
\<close>

section \<open>What the rows say\<close>

lemma on_row_inv:
  assumes d: "distinct (map rpid (fst s))" and q: "\<forall>r \<in> set (fst s). Q r"
    and other: "\<And>r. Q r \<Longrightarrow> rpid r \<noteq> pid \<Longrightarrow> Q' r"
    and same: "\<And>r. Q r \<Longrightarrow> rpid r = pid \<Longrightarrow> Q' (f r)"
    and fresh: "pid \<notin> rpid ` set (fst s) \<Longrightarrow> length (fst s) \<noteq> 256 \<Longrightarrow> Q' (f fresh)"
  shows "\<forall>r \<in> set (fst (on_row pid fresh f s)). Q' r"
proof (cases "find_process (fst s) pid")
  case None
  from find_process_None [OF None] have "\<forall>r \<in> set (fst s). Q' r" using q other by (metis imageI)
  then show ?thesis using None fresh find_process_None [OF None]
    by (cases s) (auto simp: on_row_def)
next
  case (Some j)
  from find_process_Some [OF Some] have j: "j < length (fst s)" "rpid (fst s ! j) = pid" by auto
  have "Q' ((fst s)[j := f (fst s ! j)] ! n)" if n: "n < length (fst s)" for n
  proof (cases "n = j")
    case True
    then show ?thesis using same [of "fst s ! j"] q j by simp
  next
    case False
    then have "rpid (fst s ! n) \<noteq> pid" using d j n
      by (metis distinct_conv_nth length_map nth_map)
    then show ?thesis using False other q n by simp
  qed
  then show ?thesis using Some by (cases s) (auto simp: on_row_def in_set_conv_nth)
qed

lemma on_row_pids:
  "(\<And>r. rpid (f r) = rpid r) \<Longrightarrow> rpid fresh = pid \<Longrightarrow>
     rpid ` set (fst (on_row pid fresh f s)) =
       (if pid \<in> rpid ` set (fst s) \<or> length (fst s) = 256 then rpid ` set (fst s)
        else insert pid (rpid ` set (fst s)))"
proof (cases "find_process (fst s) pid")
  case (Some j)
  assume f: "\<And>r. rpid (f r) = rpid r"
  from find_process_Some [OF Some] have j: "j < length (fst s)" "rpid (fst s ! j) = pid" by auto
  then have "map rpid ((fst s)[j := f (fst s ! j)]) = map rpid (fst s)"
    by (simp add: map_update f) (metis list_update_id map_update)
  then have "rpid ` set ((fst s)[j := f (fst s ! j)]) = rpid ` set (fst s)" by (metis list.set_map)
  moreover have "pid \<in> rpid ` set (fst s)" using j by (metis image_eqI nth_mem)
  ultimately show ?thesis using Some by (cases s) (simp add: on_row_def)
next
  case None
  assume "\<And>r. rpid (f r) = rpid r" "rpid fresh = pid"
  then show ?thesis using None find_process_None [OF None] by (auto simp: on_row_def split: prod.split)
qed

lemma on_row_cut: "snd (on_row pid fresh f s) \<longleftrightarrow> snd s \<or> (find_process (fst s) pid = None \<and> length (fst s) = 256)"
  by (auto simp: on_row_def split: prod.split option.split)

lemma on_row_length: "length (fst s) = 256 \<Longrightarrow> length (fst (on_row pid fresh f s)) = 256"
  by (auto simp: on_row_def split: prod.split option.split)

text \<open>The memory a process was reported to use, in the contexts \<open>as\<close>.\<close>

definition reported :: "allocation list \<Rightarrow> u32 \<Rightarrow> u64 set" where
  "reported as pid = {np_memory (avalue al) |al. al \<in> set as \<and> np_pid (avalue al) = pid \<and> np_memory (avalue al) < 2 ^ 50}"

definition row_memory_ok :: "allocation list \<Rightarrow> process_row \<Rightarrow> bool" where
  "row_memory_ok as r \<longleftrightarrow>
     (let m = max (rwhole_memory r) (rcontext_memory r) in
      (rhas_memory r \<longrightarrow> m \<in> reported as (rpid r)) \<and> (\<forall>x \<in> reported as (rpid r). rhas_memory r \<and> x \<le> m)
      \<and> (\<not> rhas_memory r \<longrightarrow> m = 0))"

lemma reported_snoc: "reported (as @ [al]) pid = reported as pid \<union>
    (if np_pid (avalue al) = pid \<and> np_memory (avalue al) < 2 ^ 50 then {np_memory (avalue al)} else {})"
  by (auto simp: reported_def)

lemma new_maximum:
  fixes M m :: u64
  assumes "has \<longrightarrow> M \<in> R" and "\<forall>x \<in> R. has \<and> x \<le> M" and "\<not> has \<longrightarrow> M = 0"
  shows "max M m \<in> insert m R \<and> (\<forall>x \<in> insert m R. x \<le> max M m)"
  using assms by (cases has) (auto simp: max_def)

lemma row_allocation_memory:
  assumes ok: "row_memory_ok as r" and pid: "rpid r = np_pid (avalue al)"
  shows "row_memory_ok (as @ [al]) (row_allocation al r)"
proof (cases "np_memory (avalue al) < 2 ^ 50")
  case False
  then show ?thesis using ok by (simp add: row_memory_ok_def row_allocation_def reported_snoc Let_def)
next
  case True
  let ?m = "np_memory (avalue al)" and ?r = "row_allocation al r"
  have h: "rhas_memory ?r" and m: "max (rwhole_memory ?r) (rcontext_memory ?r)
      = max (max (rwhole_memory r) (rcontext_memory r)) ?m"
    using True by (simp_all add: row_allocation_def Let_def max.assoc max.commute max.left_commute)
  have R: "reported (as @ [al]) (rpid ?r) = insert ?m (reported as (rpid r))"
    using True pid by (simp add: reported_snoc)
  from new_maximum [of "rhas_memory r" "max (rwhole_memory r) (rcontext_memory r)" "reported as (rpid r)" ?m] ok
  show ?thesis unfolding row_memory_ok_def Let_def m R using h by simp
qed

text \<open>The process has a row, or the table is full and cut.\<close>

definition accounted :: "process_row list \<times> bool \<Rightarrow> u32 \<Rightarrow> bool" where
  "accounted s pid \<longleftrightarrow> pid \<in> rpid ` set (fst s) \<or> (length (fst s) = 256 \<and> snd s)"

definition rows_inv :: "allocation list \<Rightarrow> process_row list \<times> bool \<Rightarrow> bool" where
  "rows_inv as s \<longleftrightarrow> rows_ok (fst s)
     \<and> (\<forall>al \<in> set as. accounted s (np_pid (avalue al)))
     \<and> (\<forall>r \<in> set (fst s). row_memory_ok as r)"

lemma add_row_inv:
  assumes inv: "rows_inv as s" and u: "usable_pid (np_pid (avalue al))"
  shows "rows_inv (as @ [al]) (add_row al s)"
proof -
  let ?pid = "np_pid (avalue al)"
  let ?s = "on_row ?pid (new_row ?pid) (row_allocation al) s"
  from inv have ok: "rows_ok (fst s)" by (simp add: rows_inv_def)
  have 1: "rows_ok (fst ?s)" by (rule on_row_ok [OF ok]) (simp_all add: u)
  have "\<forall>r \<in> set (fst ?s). row_memory_ok (as @ [al]) r"
  proof (rule on_row_inv)
    show "distinct (map rpid (fst s))" using ok by (simp add: rows_ok_def)
    show "\<forall>r \<in> set (fst s). row_memory_ok as r" using inv by (simp add: rows_inv_def)
    show "row_memory_ok (as @ [al]) r" if "row_memory_ok as r" "rpid r \<noteq> ?pid" for r
      using that by (auto simp: row_memory_ok_def reported_snoc)
    show "row_memory_ok (as @ [al]) (row_allocation al r)" if "row_memory_ok as r" "rpid r = ?pid" for r
      using that by (rule row_allocation_memory)
    assume "?pid \<notin> rpid ` set (fst s)" and "length (fst s) \<noteq> 256"
    then have "np_pid (avalue x) \<noteq> ?pid" if "x \<in> set as" for x
      using inv that unfolding rows_inv_def accounted_def by metis
    then have "reported as ?pid = {}" by (auto simp: reported_def)
    then have "row_memory_ok as (new_row ?pid)" by (simp add: row_memory_ok_def new_row_def)
    then show "row_memory_ok (as @ [al]) (row_allocation al (new_row ?pid))"
      by (rule row_allocation_memory) simp
  qed
  moreover have "\<forall>x \<in> set (as @ [al]). accounted ?s (np_pid (avalue x))"
  proof -
    have pids: "rpid ` set (fst ?s) = (if ?pid \<in> rpid ` set (fst s) \<or> length (fst s) = 256
        then rpid ` set (fst s) else insert ?pid (rpid ` set (fst s)))"
      by (rule on_row_pids) simp_all
    have cut: "snd ?s" if "?pid \<notin> rpid ` set (fst s)" "length (fst s) = 256"
      using that by (simp add: on_row_cut find_process_absent)
    show ?thesis using inv pids cut on_row_length [of s ?pid "new_row ?pid" "row_allocation al"]
      by (auto simp: rows_inv_def accounted_def on_row_cut)
  qed
  ultimately show ?thesis using 1 by (simp add: rows_inv_def add_row_def)
qed

lemma add_rows_inv:
  "rows_inv as s \<Longrightarrow> \<forall>al \<in> set bs. usable_pid (np_pid (avalue al)) \<Longrightarrow> rows_inv (as @ bs) (fold add_row bs s)"
proof (induction bs arbitrary: as s)
  case (Cons b bs)
  then have "rows_inv (as @ [b]) (add_row b s)" by (intro add_row_inv) simp_all
  from Cons.IH [OF this] Cons.prems(2) show ?case by simp
qed simp


text \<open>The newest sample of a process; a sample counts when it is new and within range.\<close>

definition counts :: "u64 \<Rightarrow> nvml_process_sample \<Rightarrow> bool" where
  "counts previous p \<longleftrightarrow> new_sample previous p \<and> sample_percent p"

definition row_sample_ok :: "u64 \<Rightarrow> nvml_process_sample list \<Rightarrow> process_row \<Rightarrow> bool" where
  "row_sample_ok previous ps r \<longleftrightarrow>
     (rhas_sample r \<longrightarrow> (\<exists>p \<in> set ps. counts previous p \<and> ns_pid p = rpid r \<and> ns_timestamp p = rtimestamp r
        \<and> ns_sm p = rsm r \<and> ns_memory p = rmemory_utilization r \<and> ns_encoder p = rencoder r \<and> ns_decoder p = rdecoder r))
     \<and> (\<forall>p \<in> set ps. counts previous p \<longrightarrow> ns_pid p = rpid r \<longrightarrow> rhas_sample r \<and> ns_timestamp p \<le> rtimestamp r)"

definition is_max :: "u64 set \<Rightarrow> u64 \<Rightarrow> bool" where
  "is_max R m \<longleftrightarrow> m \<in> R \<and> (\<forall>x \<in> R. x \<le> m)"

text \<open>What adding samples keeps: the rows' memory, and a row for every process reported.\<close>

definition samples_inv :: "u64 \<Rightarrow> allocation list \<Rightarrow> nvml_process_sample list
    \<Rightarrow> (process_row list \<times> bool) \<times> u64 \<Rightarrow> bool" where
  "samples_inv previous as ps s \<longleftrightarrow>
     (rows_ok (fst (fst s))
      \<and> (\<forall>al \<in> set as. accounted (fst s) (np_pid (avalue al)))
      \<and> (\<forall>p \<in> set ps. counts previous p \<longrightarrow> accounted (fst s) (ns_pid p))
      \<and> (\<forall>r \<in> set (fst (fst s)). (rhas_memory r \<longleftrightarrow> reported as (rpid r) \<noteq> {}) \<and> (rhas_memory r \<longrightarrow> is_max (reported as (rpid r)) (rmemory r))
            \<and> row_sample_ok previous ps r)
      \<and> (\<forall>p \<in> set ps. new_sample previous p \<longrightarrow> ns_timestamp p \<le> snd s)
      \<and> previous \<le> snd s)"


lemma row_sample_keeps [simp]:
  "rhas_memory (row_sample p r) = rhas_memory r" "rmemory (row_sample p r) = rmemory r"
  by (simp_all add: row_sample_def)

lemma row_sample_new:
  assumes "row_sample_ok previous ps r" and "ns_pid p = rpid r" and "counts previous p"
  shows "row_sample_ok previous (ps @ [p]) (row_sample p r)"
proof (cases "\<not> rhas_sample r \<or> rtimestamp r < ns_timestamp p")
  case True
  then have "\<forall>q \<in> set ps. counts previous q \<longrightarrow> ns_pid q = rpid r \<longrightarrow> ns_timestamp q \<le> ns_timestamp p"
    using assms(1) unfolding row_sample_ok_def by (meson less_imp_le order_trans)
  then show ?thesis using True assms(2,3) by (auto simp: row_sample_ok_def row_sample_def)
next
  case False
  then show ?thesis using assms by (auto simp: row_sample_ok_def row_sample_def)
qed

lemma row_sample_other:
  "row_sample_ok previous ps r \<Longrightarrow> ns_pid p \<noteq> rpid r \<or> \<not> counts previous p \<Longrightarrow> row_sample_ok previous (ps @ [p]) r"
  by (auto simp: row_sample_ok_def)

lemma add_sample_inv:
  assumes inv: "samples_inv previous as ps s"
  shows "samples_inv previous as (ps @ [p]) (add_sample previous p s)"
proof (cases "counts previous p")
  case False
  have "row_sample_ok previous (ps @ [p]) r" if "row_sample_ok previous ps r" for r
    using that False by (intro row_sample_other) simp_all
  then show ?thesis using inv False
    by (cases s) (auto simp: samples_inv_def add_sample_def counts_def Let_def max_def)
next
  case True
  let ?pid = "ns_pid p" and ?rows = "fst (fst s)"
  let ?fresh = "(new_row ?pid)\<lparr>rkind := ''sampled''\<rparr>"
  let ?s = "on_row ?pid ?fresh (row_sample p) (fst s)"
  let ?ok = "\<lambda>ps r. (rhas_memory r \<longleftrightarrow> reported as (rpid r) \<noteq> {})
      \<and> (rhas_memory r \<longrightarrow> is_max (reported as (rpid r)) (rmemory r)) \<and> row_sample_ok previous ps r"
  from inv have ok: "rows_ok ?rows" and old: "\<forall>r \<in> set ?rows. ?ok ps r"
    by (simp_all add: samples_inv_def)
  have u: "usable_pid ?pid" using True by (simp add: counts_def new_sample_def)
  have 1: "rows_ok (fst ?s)" by (rule on_row_ok [OF ok]) (simp_all add: u)
  have 2: "\<forall>r \<in> set (fst ?s). ?ok (ps @ [p]) r"
  proof (rule on_row_inv)
    show "distinct (map rpid ?rows)" using ok by (simp add: rows_ok_def)
    show "\<forall>r \<in> set ?rows. ?ok ps r" by (rule old)
    show "?ok (ps @ [p]) r" if "?ok ps r" "rpid r \<noteq> ?pid" for r
      using that row_sample_other [of previous ps r p] by auto
    show "?ok (ps @ [p]) (row_sample p r)" if "?ok ps r" "rpid r = ?pid" for r
      using that row_sample_new [of previous ps r p] True by simp
    assume absent: "?pid \<notin> rpid ` set ?rows" "length ?rows \<noteq> 256"
    have "np_pid (avalue x) \<noteq> ?pid" if "x \<in> set as" for x
      using inv that absent unfolding samples_inv_def accounted_def by metis
    then have r: "reported as ?pid = {}" by (auto simp: reported_def)
    have "\<not> (counts previous q \<and> ns_pid q = ?pid)" if "q \<in> set ps" for q
      using inv that absent unfolding samples_inv_def accounted_def by metis
    then have "row_sample_ok previous ps ?fresh" by (auto simp: row_sample_ok_def new_row_def)
    then have "row_sample_ok previous (ps @ [p]) (row_sample p ?fresh)"
      using True by (intro row_sample_new) simp_all
    then show "?ok (ps @ [p]) (row_sample p ?fresh)" using r by (simp add: new_row_def)
  qed
  have pids: "rpid ` set (fst ?s) = (if ?pid \<in> rpid ` set ?rows \<or> length ?rows = 256
      then rpid ` set ?rows else insert ?pid (rpid ` set ?rows))"
    by (rule on_row_pids) simp_all
  have cut: "snd ?s" if "?pid \<notin> rpid ` set ?rows" "length ?rows = 256"
    using that by (simp add: on_row_cut find_process_absent)
  have full: "length ?rows = 256 \<Longrightarrow> length (fst ?s) = 256" by (rule on_row_length)
  have more: "accounted ?s x" if "accounted (fst s) x" for x
    using that pids full by (auto simp: accounted_def on_row_cut)
  have own: "accounted ?s ?pid" using pids cut full by (auto simp: accounted_def)
  have step: "add_sample previous p s = (?s, max (snd s) (ns_timestamp p))"
    using True by (cases s) (simp add: add_sample_def counts_def)
  show ?thesis
    unfolding step samples_inv_def fst_conv snd_conv
  proof (intro conjI)
    show "\<forall>al \<in> set as. accounted ?s (np_pid (avalue al))"
      using inv more by (simp add: samples_inv_def)
    show "\<forall>q \<in> set (ps @ [p]). counts previous q \<longrightarrow> accounted ?s (ns_pid q)"
      using inv more own by (simp add: samples_inv_def)
    show "\<forall>q \<in> set (ps @ [p]). new_sample previous q \<longrightarrow> ns_timestamp q \<le> max (snd s) (ns_timestamp p)"
      using inv by (auto simp: samples_inv_def max_def)
    show "previous \<le> max (snd s) (ns_timestamp p)" using inv by (auto simp: samples_inv_def max_def)
  qed (rule 1, rule 2)
qed

lemma add_samples_inv:
  "samples_inv previous as ps s \<Longrightarrow> samples_inv previous as (ps @ qs) (fold (add_sample previous) qs s)"
proof (induction qs arbitrary: ps s)
  case (Cons q qs)
  from Cons.IH [OF add_sample_inv [OF Cons.prems, of q]] show ?case by simp
qed simp


text \<open>Contexts: what both lists say of one context is merged.\<close>

definition process_context :: "nvml_process \<Rightarrow> u32 \<times> u32 \<times> u32" where
  "process_context p = (np_pid p, np_gpu_instance p, np_compute_instance p)"

lemma same_context_of: "same_context p q \<longleftrightarrow> process_context p = process_context q"
  by (simp add: same_context_def process_context_def)

lemma larger_memory_context [simp]: "process_context (larger_memory p old) = process_context old"
  by (simp add: larger_memory_def process_context_def)

lemma put_allocation_contexts:
  "map (\<lambda>al. process_context (avalue al)) (put_allocation bits p rs) =
     (let cs = map (\<lambda>al. process_context (avalue al)) rs in if process_context p \<in> set cs then cs else cs @ [process_context p])"
  by (induction bits p rs rule: put_allocation.induct) (auto simp: same_context_of Let_def)

lemma put_allocation_inv:
  assumes "distinct (map (\<lambda>al. process_context (avalue al)) rs)" and "\<forall>al \<in> set rs. Q al"
    and other: "\<And>al. Q al \<Longrightarrow> process_context (avalue al) \<noteq> process_context p \<Longrightarrow> Q' al"
    and same: "\<And>al. Q al \<Longrightarrow> process_context (avalue al) = process_context p \<Longrightarrow>
        Q' \<lparr>avalue = larger_memory p (avalue al), asources = asources al OR bits\<rparr>"
    and fresh: "process_context p \<notin> (\<lambda>al. process_context (avalue al)) ` set rs \<Longrightarrow> Q' \<lparr>avalue = p, asources = bits\<rparr>"
  shows "\<forall>al \<in> set (put_allocation bits p rs). Q' al"
  using assms(1,2) fresh
proof (induction rs)
  case (Cons r rs)
  show ?case
  proof (cases "process_context (avalue r) = process_context p")
    case True
    then have "\<forall>al \<in> set rs. process_context (avalue al) \<noteq> process_context p" using Cons.prems(1) by force
    then show ?thesis using True Cons.prems(2) same other by (simp add: same_context_of)
  next
    case False
    then have "\<forall>al \<in> set (put_allocation bits p rs). Q' al"
      using Cons.prems by (intro Cons.IH) auto
    then show ?thesis using False Cons.prems(2) other by (simp add: same_context_of)
  qed
qed simp

text \<open>
  An entry stands for the reports \<open>es\<close> (each with the bit of its list) of its context: its
  sources are their bits, its memory the largest known one.
\<close>

definition reports_of :: "(u32 \<times> nvml_process) list \<Rightarrow> nvml_process \<Rightarrow> (u32 \<times> nvml_process) set" where
  "reports_of es p = {e \<in> set es. process_context (snd e) = process_context p}"

definition known_memory :: "(u32 \<times> nvml_process) set \<Rightarrow> u64 set" where
  "known_memory R = {np_memory (snd e) |e. e \<in> R \<and> np_memory (snd e) \<noteq> - 1}"

definition allocation_ok :: "(u32 \<times> nvml_process) list \<Rightarrow> allocation \<Rightarrow> bool" where
  "allocation_ok es al \<longleftrightarrow>
     (let R = reports_of es (avalue al); m = np_memory (avalue al) in
      R \<noteq> {} \<and> usable_pid (np_pid (avalue al))
      \<and> asources al = (if 1 \<in> fst ` R then 1 else 0) OR (if 2 \<in> fst ` R then 2 else 0)
      \<and> (if known_memory R = {} then m = - 1 else is_max (known_memory R) m))"

definition allocations_inv :: "(u32 \<times> nvml_process) list \<Rightarrow> allocation list \<Rightarrow> bool" where
  "allocations_inv es as \<longleftrightarrow> distinct (map (\<lambda>al. process_context (avalue al)) as)
     \<and> (\<forall>al \<in> set as. allocation_ok es al)
     \<and> (\<forall>e \<in> set es. usable_pid (np_pid (snd e)) \<longrightarrow> process_context (snd e) \<in> (\<lambda>al. process_context (avalue al)) ` set as)"

lemma reports_snoc: "reports_of (es @ [e]) p =
    (if process_context (snd e) = process_context p then insert e (reports_of es p) else reports_of es p)"
  by (auto simp: reports_of_def)

lemma known_insert: "known_memory (insert e R) =
    (if np_memory (snd e) = - 1 then known_memory R else insert (np_memory (snd e)) (known_memory R))"
  by (cases e) (auto simp: known_memory_def)

lemma known_not_minus_one: "x \<in> known_memory R \<Longrightarrow> x \<noteq> - 1"
  by (auto simp: known_memory_def)

lemma larger_memory_known:
  assumes "if K = {} then np_memory old = - 1 else is_max K (np_memory old)" and "\<forall>x \<in> K. x \<noteq> - 1"
    and "np_memory p \<noteq> - 1"
  shows "is_max (insert (np_memory p) K) (np_memory (larger_memory p old))"
  using assms by (auto simp: larger_memory_def is_max_def split: if_splits)

lemma larger_memory_unknown: "np_memory p = - 1 \<Longrightarrow> larger_memory p old = old"
  by (simp add: larger_memory_def)

lemma allocation_merge:
  assumes ok: "allocation_ok es al" and c: "process_context (avalue al) = process_context p" and b: "bits = 1 \<or> bits = 2"
  shows "allocation_ok (es @ [(bits, p)]) \<lparr>avalue = larger_memory p (avalue al), asources = asources al OR bits\<rparr>"
proof -
  let ?old = "avalue al"
  let ?R = "reports_of es ?old"
  have "reports_of es (larger_memory p ?old) = ?R" by (simp add: reports_of_def)
  then have R: "reports_of (es @ [(bits, p)]) (larger_memory p ?old) = insert (bits, p) ?R"
    using c by (simp add: reports_snoc)
  have s: "asources al OR bits = (if 1 \<in> fst ` insert (bits, p) ?R then 1 else 0)
      OR (if 2 \<in> fst ` insert (bits, p) ?R then 2 else 0)"
  proof -
    have "asources al = (if 1 \<in> fst ` ?R then 1 else 0) OR (if 2 \<in> fst ` ?R then 2 else 0)"
      using ok by (simp add: allocation_ok_def Let_def)
    then show ?thesis using b by (cases "1 \<in> fst ` ?R"; cases "2 \<in> fst ` ?R"; elim disjE) simp_all
  qed
  have k: "if known_memory ?R = {} then np_memory ?old = - 1 else is_max (known_memory ?R) (np_memory ?old)"
    using ok by (simp add: allocation_ok_def Let_def)
  have m: "if known_memory (insert (bits, p) ?R) = {} then np_memory (larger_memory p ?old) = - 1
      else is_max (known_memory (insert (bits, p) ?R)) (np_memory (larger_memory p ?old))"
  proof (cases "np_memory p = - 1")
    case True
    then show ?thesis using k by (simp add: known_insert larger_memory_unknown)
  next
    case False
    from larger_memory_known [OF k _ False] show ?thesis
      using False known_not_minus_one by (simp add: known_insert)
  qed
  have "usable_pid (np_pid ?old)" using ok by (simp add: allocation_ok_def Let_def)
  then show ?thesis unfolding allocation_ok_def Let_def allocation.simps R using s m by simp
qed


lemma add_allocation_inv:
  assumes inv: "allocations_inv es as" and b: "bits = 1 \<or> bits = 2"
  shows "allocations_inv (es @ [(bits, p)]) (add_allocation bits p as)"
proof (cases "usable_pid (np_pid p)")
  case False
  have skip: "allocation_ok (es @ [(bits, p)]) al" if "allocation_ok es al" for al
  proof -
    have "process_context p \<noteq> process_context (avalue al)" using that False
      by (auto simp: allocation_ok_def Let_def process_context_def)
    then show ?thesis using that by (simp add: allocation_ok_def reports_snoc)
  qed
  then show ?thesis using inv False by (simp add: allocations_inv_def add_allocation_def)
next
  case True
  have "\<forall>al \<in> set (put_allocation bits p as). allocation_ok (es @ [(bits, p)]) al"
  proof (rule put_allocation_inv)
    show "distinct (map (\<lambda>al. process_context (avalue al)) as)" "\<forall>al \<in> set as. allocation_ok es al"
      using inv by (simp_all add: allocations_inv_def)
    show "allocation_ok (es @ [(bits, p)]) al"
      if "allocation_ok es al" "process_context (avalue al) \<noteq> process_context p" for al
      using that by (simp add: allocation_ok_def reports_snoc)
    show "allocation_ok (es @ [(bits, p)]) \<lparr>avalue = larger_memory p (avalue al), asources = asources al OR bits\<rparr>"
      if "allocation_ok es al" "process_context (avalue al) = process_context p" for al
      using that b by (intro allocation_merge)
    assume fresh: "process_context p \<notin> (\<lambda>al. process_context (avalue al)) ` set as"
    have "reports_of es p = {}"
    proof -
      have "\<not> process_context (snd e) = process_context p" if "e \<in> set es" for e
        using inv that fresh True unfolding allocations_inv_def process_context_def
        by (metis (no_types, lifting) fst_conv)
      then show ?thesis by (auto simp: reports_of_def)
    qed
    then have "reports_of (es @ [(bits, p)]) p = {(bits, p)}" by (simp add: reports_snoc)
    then show "allocation_ok (es @ [(bits, p)]) \<lparr>avalue = p, asources = bits\<rparr>"
      using True b by (auto simp: allocation_ok_def known_memory_def is_max_def)
  qed
  moreover have "(\<lambda>al. process_context (avalue al)) ` set (put_allocation bits p as)
      = insert (process_context p) ((\<lambda>al. process_context (avalue al)) ` set as)"
    using arg_cong [OF put_allocation_contexts [of bits p as], of set] by (auto simp: Let_def split: if_splits)
  ultimately show ?thesis using inv True
    by (auto simp: allocations_inv_def add_allocation_def put_allocation_contexts Let_def)
qed

lemma add_allocations_inv:
  "allocations_inv es as \<Longrightarrow> bits = 1 \<or> bits = 2 \<Longrightarrow>
     allocations_inv (es @ map (Pair bits) ps) (fold (add_allocation bits) ps as)"
proof (induction ps arbitrary: es as)
  case (Cons p ps)
  from Cons.IH [OF add_allocation_inv [OF Cons.prems, of p] Cons.prems(2)] show ?case by simp
qed simp

text \<open>The reports and the samples of a collection, as the library gave them.\<close>

definition process_reports :: "nvml_driver \<Rightarrow> nvml_api \<Rightarrow> nat \<Rightarrow> (u32 \<times> nvml_process) list" where
  "process_reports v a i = map (Pair 1) (fst (process_list v a i False False))
     @ map (Pair 2) (fst (process_list v a i True False))"

definition process_samples :: "nvml_driver \<Rightarrow> nvml_api \<Rightarrow> nat \<Rightarrow> u64 \<Rightarrow> nvml_process_sample list" where
  "process_samples v a i previous = (case nfunction a F_process_samples of None \<Rightarrow> []
     | Some f \<Rightarrow> (case samples_answer v f i previous of (status, amount, samples) \<Rightarrow>
         if status = 0 \<and> amount \<le> NVML_MAX_PROCESSES then map samples [0..<unat amount] else []))"

definition values_read :: "(nvml_process list \<times> bool) + bool \<Rightarrow> nvml_process list option" where
  "values_read r = (case r of Inl (ps, _) \<Rightarrow> Some ps | Inr _ \<Rightarrow> None)"

lemma process_versions_values: "values_read (process_versions v i fs t) = values_read (process_versions v i fs t')"
proof (induction fs arbitrary: t t')
  case (Cons f fs)
  show ?case
  proof (cases f)
    case None
    then show ?thesis by simp (rule Cons.IH)
  next
    case (Some g)
    obtain status count vs where a: "processes_answer v g i = (status, count, vs)" by (metis prod.exhaust)
    show ?thesis
    proof (cases "(status = 0 \<and> count \<le> 256) \<or> (status \<noteq> 3 \<and> status \<noteq> 13)")
      case True
      then show ?thesis using Some a by (elim disjE) (simp_all add: Let_def values_read_def)
    next
      case False
      then have "status = 3 \<or> status = 13" by auto
      then show ?thesis using Some a by (elim disjE) (simp add: Let_def, rule Cons.IH)+
    qed
  qed
qed (simp add: values_read_def)

lemma process_list_values: "fst (process_list v a i g t) = fst (process_list v a i g t')"
proof -
  let ?fs = "[nfunction a (if g then F_graphics_processes else F_compute_processes),
    nfunction a (if g then F_graphics_processes_v2 else F_compute_processes_v2)]"
  note e = process_versions_values [of v i ?fs t t']
  show ?thesis
  proof (cases "process_versions v i ?fs t")
    case (Inl r)
    with e obtain r' where "process_versions v i ?fs t' = Inl r'" "fst r' = fst r"
      by (auto simp: values_read_def split: sum.splits prod.splits)
    then show ?thesis using Inl unfolding process_list_def by simp
  next
    case (Inr t1)
    with e obtain t2 where "process_versions v i ?fs t' = Inr t2"
      by (auto simp: values_read_def split: sum.splits prod.splits)
    then show ?thesis using Inr unfolding process_list_def
      by (auto simp: Let_def split: option.split prod.split)
  qed
qed

lemma collect_allocations_inv:
  "allocations_inv (process_reports v a i) (fst (collect_allocations v a i truncated))"
proof -
  obtain c t1 where c: "process_list v a i False truncated = (c, t1)" by force
  obtain g t2 where g: "process_list v a i True t1 = (g, t2)" by force
  have "process_reports v a i = map (Pair 1) c @ map (Pair 2) g"
    using process_list_values [of v a i False False truncated] process_list_values [of v a i True False t1] c g
    by (simp add: process_reports_def)
  moreover have "allocations_inv [] []" by (simp add: allocations_inv_def)
  from add_allocations_inv [OF add_allocations_inv [OF this, of 1 c], of 2 g]
  have "allocations_inv (map (Pair 1) c @ map (Pair 2) g) (fold (add_allocation 2) g (fold (add_allocation 1) c []))"
    by simp
  ultimately show ?thesis by (simp add: collect_allocations_def c g)
qed


section \<open>A collection of processes\<close>

lemma add_rows_unsampled:
  "\<forall>r \<in> set (fst s). \<not> rhas_sample r \<Longrightarrow> \<forall>r \<in> set (fst (fold add_row as s)). \<not> rhas_sample r"
proof (induction as arbitrary: s)
  case (Cons al as)
  have "\<forall>r \<in> set (fst (add_row al s)). \<not> rhas_sample r"
    unfolding add_row_def
    by (rule on_row_all [OF Cons.prems]) (simp_all add: row_allocation_def new_row_def Let_def)
  from Cons.IH [OF this] show ?case by simp
qed simp

lemma finish_row_memory:
  "row_memory_ok as r \<Longrightarrow> (rhas_memory (finish_row r) \<longleftrightarrow> reported as (rpid (finish_row r)) \<noteq> {})
     \<and> (rhas_memory (finish_row r) \<longrightarrow> is_max (reported as (rpid (finish_row r))) (rmemory (finish_row r)))"
  by (auto simp: row_memory_ok_def finish_row_def is_max_def max_def Let_def split: if_splits)

lemma finished_rows_inv:
  assumes "rows_inv as (rows, full)" and "\<forall>r \<in> set rows. \<not> rhas_sample r"
  shows "samples_inv previous as [] ((map finish_row rows, full \<or> beyond), previous)"
proof -
  have u: "\<not> rhas_sample (finish_row r)" if "r \<in> set rows" for r using assms(2) that by (simp add: finish_row_def)
  have p: "rpid (finish_row r) = rpid r" for r by (simp add: finish_row_def)
  have "\<forall>r \<in> set (map finish_row rows). (rhas_memory r \<longleftrightarrow> reported as (rpid r) \<noteq> {})
      \<and> (rhas_memory r \<longrightarrow> is_max (reported as (rpid r)) (rmemory r)) \<and> row_sample_ok previous [] r"
    using assms finish_row_memory u by (fastforce simp: rows_inv_def row_sample_ok_def)
  moreover have "accounted (map finish_row rows, full \<or> beyond) x" if "accounted (rows, full) x" for x
    using that by (auto simp: accounted_def p image_image)
  ultimately show ?thesis using assms(1) by (simp add: samples_inv_def rows_inv_def finish_rows_ok)
qed

text \<open>
  What a collection promises: one row for each process, contexts that stand for the reports of
  both lists, memory that is the largest of the contexts, the newest sample of each process, a
  row for every process unless the result says it is cut, and a cursor no new sample is beyond.
\<close>

definition processes_ok :: "(u32 \<times> nvml_process) list \<Rightarrow> nvml_process_sample list \<Rightarrow> u64 \<Rightarrow> processes \<Rightarrow> bool" where
  "processes_ok reports samples previous p \<longleftrightarrow>
     rows_ok (prows p) \<and> length (pallocations p) \<le> 512 \<and> allocations_inv reports (pallocations p)
     \<and> (\<forall>r \<in> set (prows p).
          (rhas_memory r \<longleftrightarrow> reported (pallocations p) (rpid r) \<noteq> {})
          \<and> (rhas_memory r \<longrightarrow> is_max (reported (pallocations p) (rpid r)) (rmemory r))
          \<and> row_sample_ok previous samples r)
     \<and> (\<forall>al \<in> set (pallocations p). ptruncated p \<or> np_pid (avalue al) \<in> rpid ` set (prows p))
     \<and> (\<forall>s \<in> set samples. counts previous s \<longrightarrow> ptruncated p \<or> ns_pid s \<in> rpid ` set (prows p))
     \<and> (\<forall>s \<in> set samples. new_sample previous s \<longrightarrow> ns_timestamp s \<le> pnext p) \<and> previous \<le> pnext p"


end
