(* ===== verification/Channel.thy ===== *)
theory Channel imports GpuProtocol "HOL-Library.Sublist" begin

text \<open>
  The exact transfers over the reader's socket and the command loop both readers run:
  \<open>receive_exact\<close> and \<open>send_exact\<close> of \<^verbatim>\<open>native/wtop_gpu_worker.c\<close> and
  \<^verbatim>\<open>native/wtop_hardware_worker.c\<close>, the checks on a command, the reply header, and the
  loop itself over a handler (the collector call of each reader). The kernel's part is the
  list of its answers to the successive \<open>recv\<close> and \<open>send\<close> calls: \<open>Got c\<close> says that at
  most \<open>c\<close> bytes are moved now, \<open>Failed e\<close> that the call fails with \<open>errno = e\<close>.
\<close>

section \<open>Exact transfers\<close>

text \<open>
  \<open>recv\<close> delivers a prefix of what is buffered, at most what was asked for; an empty
  delivery is the end of the stream. The result is the data (or \<open>None\<close> where the code
  returns 0), the rest of the stream and the unused answers.
\<close>

fun receive_exact ::
  "nat answer list \<Rightarrow> byte list \<Rightarrow> nat \<Rightarrow> (byte list option \<times> byte list \<times> nat answer list) option" where
  "receive_exact ans stream 0 = Some (Some [], stream, ans)"
| "receive_exact [] stream (Suc k) = None"
| "receive_exact (Failed e # ans) stream (Suc k) =
     (if e = EINTR then receive_exact ans stream (Suc k) else Some (None, stream, ans))"
| "receive_exact (Got c # ans) stream (Suc k) =
     (let n = moved c (Suc k) stream in
      if n = 0 then Some (None, stream, ans)
      else case receive_exact ans (drop n stream) (Suc k - n) of
             None \<Rightarrow> None
           | Some (data, stream', ans') \<Rightarrow> Some (map_option ((@) (take n stream)) data, stream', ans'))"

text \<open>\<open>send\<close> takes a prefix of the data; the result is the success flag, the bytes that
  left and the unused answers.\<close>

fun send_exact :: "nat answer list \<Rightarrow> byte list \<Rightarrow> (bool \<times> byte list \<times> nat answer list) option" where
  "send_exact ans [] = Some (True, [], ans)"
| "send_exact [] (b # bs) = None"
| "send_exact (Failed e # ans) (b # bs) =
     (if e = EINTR then send_exact ans (b # bs) else Some (False, [], ans))"
| "send_exact (Got c # ans) (b # bs) =
     (let n = moved c (Suc (length bs)) (b # bs) in
      if n = 0 then Some (False, [], ans)
      else case send_exact ans (drop n (b # bs)) of
             None \<Rightarrow> None
           | Some (ok, sent, ans') \<Rightarrow> Some (ok, take n (b # bs) @ sent, ans'))"

section \<open>Commands and replies\<close>

record command =
  csequence :: u64
  cflags :: u32

text \<open>The bytes of a command as the client sends them.\<close>

definition command_bytes :: "command \<Rightarrow> byte list" where
  "command_bytes c = gpu_put32 GPU_WIRE_MAGIC @ gpu_put32 GPU_WIRE_VERSION
     @ gpu_put64 (csequence c) @ gpu_put32 (cflags c) @ gpu_put32 0"

text \<open>The guard of the loop on the 24 bytes read: \<open>None\<close> is the \<open>break\<close>.\<close>

definition accept_command :: "(u32 \<Rightarrow> bool) \<Rightarrow> u64 \<Rightarrow> byte list \<Rightarrow> command option" where
  "accept_command flags_ok previous p =
     (let sequence = gpu_u64 (drop 8 p); flags = gpu_u32 (drop 16 p) in
      if gpu_u32 p \<noteq> GPU_WIRE_MAGIC \<or> gpu_u32 (drop 4 p) \<noteq> GPU_WIRE_VERSION
         \<or> gpu_u32 (drop 20 p) \<noteq> 0 \<or> sequence = 0 \<or> sequence \<le> previous \<or> \<not> flags_ok flags
      then None else Some \<lparr>csequence = sequence, cflags = flags\<rparr>)"

definition gpu_flags :: "u32 \<Rightarrow> bool" where
  "gpu_flags flags \<longleftrightarrow> \<not> 2 < flags"

definition hardware_flags :: "u32 \<Rightarrow> bool" where
  "hardware_flags flags \<longleftrightarrow> \<not> (flags \<noteq> 2 \<and> flags AND NOT 5 \<noteq> 0)"

record reply =
  rstatus :: u32
  rstart :: u64
  rfinish :: u64
  rdata :: "byte list"

text \<open>The 64 header bytes: the writes at the offsets of the code, zero elsewhere.\<close>

definition reply_header :: "u32 \<Rightarrow> command \<Rightarrow> reply \<Rightarrow> byte list" where
  "reply_header vendor c r = gpu_put32 GPU_WIRE_MAGIC @ gpu_put32 GPU_WIRE_VERSION
     @ gpu_put32 (word_of_nat (length (rdata r))) @ gpu_put32 (rstatus r)
     @ gpu_put64 (csequence c) @ gpu_put64 (rstart r) @ gpu_put64 (rfinish r)
     @ gpu_put32 (cflags c) @ gpu_put32 (gpu_checksum (rdata r)) @ gpu_put32 vendor
     @ replicate 12 0"

definition reply_bytes :: "u32 \<Rightarrow> command \<Rightarrow> reply \<Rightarrow> byte list" where
  "reply_bytes vendor c r = reply_header vendor c r @ rdata r"

section \<open>The command loop\<close>

record 'w reader =
  rx :: "nat answer list"
  tx :: "nat answer list"
  inbound :: "byte list"
  outbound :: "byte list"
  previous :: u64
  world :: 'w

definition send_part :: "byte list \<Rightarrow> 'w reader \<Rightarrow> ('w reader \<times> bool) option" where
  "send_part bs st = (case send_exact (tx st) bs of
     None \<Rightarrow> None
   | Some (ok, sent, ans) \<Rightarrow> Some (st\<lparr>tx := ans, outbound := outbound st @ sent\<rparr>, ok))"

text \<open>One accepted request: handler, header, body; the flag says whether the loop goes on.\<close>

definition answer_command ::
  "('w \<Rightarrow> u32 \<Rightarrow> 'w \<times> reply) \<Rightarrow> u32 \<Rightarrow> command \<Rightarrow> 'w reader \<Rightarrow> ('w reader \<times> bool) option" where
  "answer_command handle vendor c st =
     (let (w, r) = handle (world st) (cflags c) in
      case send_part (reply_header vendor c r) (st\<lparr>world := w\<rparr>) of
        None \<Rightarrow> None
      | Some (st', False) \<Rightarrow> Some (st', False)
      | Some (st', True) \<Rightarrow>
          (case send_part (rdata r) st' of
             None \<Rightarrow> None
           | Some (st'', ok) \<Rightarrow> Some (st'', ok \<and> rstatus r = 0)))"

text \<open>One turn of the loop; \<open>None\<close> is a transfer that has not returned.\<close>

definition reader_turn ::
  "(u32 \<Rightarrow> bool) \<Rightarrow> ('w \<Rightarrow> u32 \<Rightarrow> 'w \<times> reply) \<Rightarrow> u32 \<Rightarrow> 'w reader \<Rightarrow> ('w reader \<times> bool) option" where
  "reader_turn flags_ok handle vendor st =
     (case receive_exact (rx st) (inbound st) GPU_WIRE_COMMAND of
        None \<Rightarrow> None
      | Some (None, stream, ans) \<Rightarrow> Some (st\<lparr>rx := ans, inbound := stream\<rparr>, False)
      | Some (Some p, stream, ans) \<Rightarrow>
          (let st1 = st\<lparr>rx := ans, inbound := stream\<rparr> in
           case accept_command flags_ok (previous st) p of
             None \<Rightarrow> Some (st1, False)
           | Some c \<Rightarrow>
               (let st2 = st1\<lparr>previous := csequence c\<rparr> in
                if cflags c = 2 then Some (st2, False) else answer_command handle vendor c st2)))"

lemma receive_exact_uses:
  "receive_exact ans stream k = Some (data, stream', ans') \<Longrightarrow>
     length ans' \<le> length ans \<and> (0 < k \<longrightarrow> length ans' < length ans)"
proof (induction ans stream k arbitrary: data stream' ans' rule: receive_exact.induct)
  case (4 c ans stream k)
  let ?n = "moved c (Suc k) stream"
  show ?case
  proof (cases "?n = 0")
    case True
    then show ?thesis using "4.prems" by (auto simp: Let_def)
  next
    case False
    then obtain d where "receive_exact ans (drop ?n stream) (Suc k - ?n) = Some (d, stream', ans')"
      using "4.prems" by (auto simp: Let_def split: option.splits)
    from "4.IH" [OF refl False this] show ?thesis by auto
  qed
qed (auto split: if_splits)

lemma send_part_rx [simp]:
  "send_part bs st = Some (st', ok) \<Longrightarrow> rx st' = rx st \<and> previous st' = previous st \<and> inbound st' = inbound st \<and> world st' = world st"
  by (auto simp: send_part_def split: option.splits)

lemma answer_command_rx:
  "answer_command handle vendor c st = Some (st', go) \<Longrightarrow> rx st' = rx st \<and> previous st' = previous st \<and> inbound st' = inbound st"
  by (fastforce simp: answer_command_def split: option.splits bool.splits prod.splits dest!: send_part_rx)

lemma reader_turn_uses:
  assumes "reader_turn flags_ok handle vendor st = Some (st', go)"
  shows "length (rx st') < length (rx st)"
proof -
  from assms obtain d stream ans where r: "receive_exact (rx st) (inbound st) 24 = Some (d, stream, ans)"
    by (auto simp: reader_turn_def split: option.splits)
  have "length ans < length (rx st)" using receive_exact_uses [OF r] by simp
  moreover have "rx st' = ans"
    using assms r by (auto simp: reader_turn_def Let_def split: option.splits if_splits dest: answer_command_rx)
  ultimately show ?thesis by simp
qed

function serve ::
  "(u32 \<Rightarrow> bool) \<Rightarrow> ('w \<Rightarrow> u32 \<Rightarrow> 'w \<times> reply) \<Rightarrow> u32 \<Rightarrow> 'w reader \<Rightarrow> 'w reader option" where
  "serve flags_ok handle vendor st =
     (case reader_turn flags_ok handle vendor st of
        None \<Rightarrow> None
      | Some (st', False) \<Rightarrow> Some st'
      | Some (st', True) \<Rightarrow> serve flags_ok handle vendor st')"
  by pat_completeness auto
termination
  by (relation "measure (\<lambda>(_, _, _, st). length (rx st))") (auto dest: reader_turn_uses)

declare serve.simps [simp del]

section \<open>Exactness of the transfers\<close>

lemma take_split: "n \<le> k \<Longrightarrow> take k xs = take n xs @ take (k - n) (drop n xs)"
  by (metis le_add_diff_inverse take_add)

lemma drop_split: "n \<le> k \<Longrightarrow> drop (k - n) (drop n xs) = drop k xs"
  by simp

lemma receive_exact_data:
  "receive_exact ans stream k = Some (Some data, stream', ans') \<Longrightarrow>
     k \<le> length stream \<and> data = take k stream \<and> stream' = drop k stream"
proof (induction ans stream k arbitrary: data stream' ans' rule: receive_exact.induct)
  case (4 c ans stream k)
  let ?n = "moved c (Suc k) stream"
  have pos: "?n \<noteq> 0" by (rule notI) (use "4.prems" in \<open>simp add: Let_def\<close>)
  then obtain d where d: "receive_exact ans (drop ?n stream) (Suc k - ?n) = Some (Some d, stream', ans')"
      "data = take ?n stream @ d"
    using "4.prems" by (auto simp: Let_def split: option.splits)
  have "?n \<le> Suc k" "?n \<le> length stream" by (simp_all add: moved_le)
  with "4.IH" [OF refl pos d(1)] d(2) show ?case
    by (auto simp: take_split [of ?n "Suc k"] drop_split)
qed (auto split: if_splits)

lemma receive_exact_consumes:
  "receive_exact ans stream k = Some (data, stream', ans') \<Longrightarrow> suffix stream' stream"
proof (induction ans stream k arbitrary: data stream' ans' rule: receive_exact.induct)
  case (4 c ans stream k)
  let ?n = "moved c (Suc k) stream"
  show ?case
  proof (cases "?n = 0")
    case False
    then obtain d where "receive_exact ans (drop ?n stream) (Suc k - ?n) = Some (d, stream', ans')"
      using "4.prems" by (auto simp: Let_def split: option.splits)
    from "4.IH" [OF refl False this] show ?thesis by (meson suffix_drop suffix_order.trans)
  qed (use "4.prems" in \<open>auto simp: Let_def\<close>)
qed (auto split: if_splits)

lemma receive_exact_total:
  assumes "list_all willing ans" "k \<le> length stream" "k \<le> gots ans"
  shows "\<exists>ans'. receive_exact ans stream k = Some (Some (take k stream), drop k stream, ans')
    \<and> list_all willing ans' \<and> gots ans \<le> gots ans' + k"
  using assms
proof (induction ans stream k rule: receive_exact.induct)
  case (4 c ans stream k)
  let ?n = "moved c (Suc k) stream"
  have pos: "?n \<noteq> 0" using "4.prems" moved_pos [of c "Suc k" stream] by force
  have le: "?n \<le> Suc k" "?n \<le> length stream" by (simp_all add: moved_le)
  have "\<exists>ans'. receive_exact ans (drop ?n stream) (Suc k - ?n) =
        Some (Some (take (Suc k - ?n) (drop ?n stream)), drop (Suc k - ?n) (drop ?n stream), ans')
      \<and> list_all willing ans' \<and> gots ans \<le> gots ans' + (Suc k - ?n)"
    using "4.prems" pos by (intro "4.IH" [OF refl pos]) auto
  then obtain ans' where a: "receive_exact ans (drop ?n stream) (Suc k - ?n) =
        Some (Some (take (Suc k - ?n) (drop ?n stream)), drop (Suc k - ?n) (drop ?n stream), ans')"
      "list_all willing ans'" "gots ans \<le> gots ans' + (Suc k - ?n)" by blast
  have "gots (Got c # ans) \<le> gots ans' + Suc k" using a(3) pos by simp
  with a pos le show ?case
    by (intro exI [of _ ans']) (simp add: Let_def take_split [of ?n "Suc k" stream] drop_split)
qed auto

text \<open>At the end of the stream the loop sees the closed peer.\<close>

lemma receive_exact_closed:
  assumes "list_all willing ans" "length stream < k" "k \<le> gots ans"
  shows "\<exists>stream' ans'. receive_exact ans stream k = Some (None, stream', ans')"
  using assms
proof (induction ans stream k rule: receive_exact.induct)
  case (4 c ans stream k)
  let ?n = "moved c (Suc k) stream"
  show ?case
  proof (cases "?n = 0")
    case False
    have le: "?n \<le> length stream" by (simp add: moved_le)
    have "\<exists>s' a'. receive_exact ans (drop ?n stream) (Suc k - ?n) = Some (None, s', a')"
      using "4.prems" le False by (intro "4.IH" [OF refl False]) auto
    then show ?thesis using False by (auto simp: Let_def)
  qed (simp add: Let_def)
qed auto

lemma send_exact_data:
  "send_exact ans bs = Some (ok, sent, ans') \<Longrightarrow> prefix sent bs \<and> (ok \<longrightarrow> sent = bs)"
proof (induction ans bs arbitrary: ok sent ans' rule: send_exact.induct)
  case (4 c ans b bs)
  let ?n = "moved c (Suc (length bs)) (b # bs)"
  show ?case
  proof (cases "?n = 0")
    case False
    then obtain s where s: "send_exact ans (drop ?n (b # bs)) = Some (ok, s, ans')"
        "sent = take ?n (b # bs) @ s"
      using "4.prems" by (auto simp: Let_def simp del: take_Cons drop_Cons split: option.splits)
    have "prefix s (drop ?n (b # bs)) \<and> (ok \<longrightarrow> s = drop ?n (b # bs))"
      using "4.IH" [OF refl False s(1)] .
    then show ?thesis using s(2) by (metis append_take_drop_id same_prefix_prefix)
  qed (use "4.prems" in \<open>auto simp: Let_def\<close>)
qed (auto split: if_splits)

lemma send_exact_total:
  assumes "list_all willing ans" "length bs \<le> gots ans"
  shows "\<exists>ans'. send_exact ans bs = Some (True, bs, ans')
    \<and> list_all willing ans' \<and> gots ans \<le> gots ans' + length bs"
  using assms
proof (induction ans bs rule: send_exact.induct)
  case (4 c ans b bs)
  let ?n = "moved c (Suc (length bs)) (b # bs)"
  have pos: "?n \<noteq> 0" using "4.prems" moved_pos [of c "Suc (length bs)" "b # bs"] by force
  have le: "?n \<le> Suc (length bs)" by (simp add: moved_le)
  have "\<exists>ans'. send_exact ans (drop ?n (b # bs)) = Some (True, drop ?n (b # bs), ans')
      \<and> list_all willing ans' \<and> gots ans \<le> gots ans' + length (drop ?n (b # bs))"
    using "4.prems" pos by (intro "4.IH" [OF refl pos]) auto
  then obtain ans' where a: "send_exact ans (drop ?n (b # bs)) = Some (True, drop ?n (b # bs), ans')"
      "list_all willing ans'" "gots ans \<le> gots ans' + length (drop ?n (b # bs))" by blast
  have "gots (Got c # ans) \<le> gots ans' + length (b # bs)" using a(3) pos by simp
  with a pos show ?case
    by (intro exI [of _ ans']) (simp add: Let_def del: take_Cons drop_Cons)
qed auto

text \<open>A kernel that moves everything in one call.\<close>

lemma receive_whole:
  "0 < k \<Longrightarrow> k \<le> c \<Longrightarrow> k \<le> length stream \<Longrightarrow>
     receive_exact (Got c # ans) stream k = Some (Some (take k stream), drop k stream, ans)"
  by (cases k) (auto simp: moved_def)

lemma send_whole: "bs \<noteq> [] \<Longrightarrow> length bs \<le> c \<Longrightarrow> send_exact (Got c # ans) bs = Some (True, bs, ans)"
  by (cases bs) (auto simp: moved_def)

text \<open>
  What the users of a transfer rely on: a success moves exactly the bytes asked for, from
  the front of the source. Two successive transfers then take a header and its body.
\<close>

locale exact_channel =
  fixes run :: "'e \<Rightarrow> byte list \<Rightarrow> nat \<Rightarrow> (byte list \<times> byte list \<times> 'e) option"
  assumes exact: "run e source k = Some (data, source', e') \<Longrightarrow>
      k \<le> length source \<and> data = take k source \<and> source' = drop k source"
begin

lemma framed:
  assumes "run e (h @ b @ rest) (length h) = Some (d1, s1, e1)" and "run e1 s1 (length b) = Some (d2, s2, e2)"
  shows "d1 = h \<and> d2 = b \<and> s2 = rest"
  using exact [OF assms(1)] exact [OF assms(2)] by simp

lemma split_back:
  assumes "run e source k = Some (d, s, e1)" shows "source = d @ s \<and> length d = k"
  using exact [OF assms] by simp

end

definition received :: "nat answer list \<Rightarrow> byte list \<Rightarrow> nat \<Rightarrow> (byte list \<times> byte list \<times> nat answer list) option" where
  "received ans stream k = (case receive_exact ans stream k of
     Some (Some data, stream', ans') \<Rightarrow> Some (data, stream', ans') | _ \<Rightarrow> None)"

interpretation reader_channel: exact_channel received
  by unfold_locales (auto simp: received_def dest!: receive_exact_data split: option.splits)

section \<open>Commands are read back exactly\<close>

lemma gpu_put32_u32: "4 \<le> length p \<Longrightarrow> gpu_put32 (gpu_u32 p) = take 4 p"
proof -
  assume "4 \<le> length p"
  then obtain a b c d r where p: "p = a # b # c # d # r" using four_bytes by blast
  show ?thesis
    unfolding p gpu_put32_def gpu_u32_def
    by (simp add: upt_rec; intro conjI bit_word_eqI;
        auto simp: bit_ucast_iff bit_drop_bit_eq bit_or_iff bit_push_bit_iff dest: bit_imp_le_length)
qed

lemma gpu_put64_u64: "8 \<le> length p \<Longrightarrow> gpu_put64 (gpu_u64 p) = take 8 p"
proof -
  assume len: "8 \<le> length p"
  have lo: "ucast (gpu_u64 p) = gpu_u32 p"
    unfolding gpu_u64_def by (rule bit_word_eqI) (auto simp: bit_ucast_iff bit_or_iff bit_push_bit_iff)
  have hi: "ucast (drop_bit 32 (gpu_u64 p)) = gpu_u32 (drop 4 p)"
    unfolding gpu_u64_def
    by (rule bit_word_eqI)
      (auto simp: bit_ucast_iff bit_drop_bit_eq bit_or_iff bit_push_bit_iff dest: bit_imp_le_length)
  have "gpu_put64 (gpu_u64 p) = take 4 p @ take 4 (drop 4 p)"
    using len by (simp only: gpu_put64_split lo hi) (simp add: gpu_put32_u32)
  also have "\<dots> = take 8 p" by (simp add: take_add [symmetric])
  finally show ?thesis .
qed

lemma accepted_bytes:
  assumes "length p = 24" and "accept_command flags_ok prev p = Some c"
  shows "p = command_bytes c"
proof -
  have c: "csequence c = gpu_u64 (drop 8 p)" "cflags c = gpu_u32 (drop 16 p)"
      "gpu_u32 p = 0x4d4e5457" "gpu_u32 (drop 4 p) = 2" "gpu_u32 (drop 20 p) = 0"
    using assms(2) by (auto simp: accept_command_def Let_def split: if_splits)
  have "command_bytes c = gpu_put32 (gpu_u32 p) @ gpu_put32 (gpu_u32 (drop 4 p))
      @ gpu_put64 (gpu_u64 (drop 8 p)) @ gpu_put32 (gpu_u32 (drop 16 p)) @ gpu_put32 (gpu_u32 (drop 20 p))"
    by (simp only: command_bytes_def c)
  also have "\<dots> = take 4 p @ take 4 (drop 4 p) @ take 8 (drop 8 p) @ take 4 (drop 16 p) @ take 4 (drop 20 p)"
    using assms(1) by (simp add: gpu_put32_u32 gpu_put64_u64)
  also have "\<dots> = p"
  proof -
    have "take 24 p = take (4 + (4 + (8 + (4 + 4)))) p" by simp
    also have "\<dots> = take 4 p @ take 4 (drop 4 p) @ take 8 (drop 8 p) @ take 4 (drop 16 p) @ take 4 (drop 20 p)"
      by (simp only: take_add drop_drop append_assoc) simp
    finally show ?thesis using assms(1) by simp
  qed
  finally show ?thesis by simp
qed

lemma accept_written:
  "accept_command flags_ok prev (command_bytes c) =
     (if csequence c \<noteq> 0 \<and> prev < csequence c \<and> flags_ok (cflags c) then Some c else None)"
proof -
  have f: "gpu_u32 (command_bytes c) = 0x4d4e5457" "gpu_u32 (drop 4 (command_bytes c)) = 2"
      "gpu_u64 (drop 8 (command_bytes c)) = csequence c" "gpu_u32 (drop 16 (command_bytes c)) = cflags c"
      "gpu_u32 (drop 20 (command_bytes c)) = 0"
    using le32.get_put [of 0 "[]"] by (simp_all add: command_bytes_def le32.get_put le64.get_put)
  show ?thesis by (auto simp: accept_command_def f Let_def)
qed

lemma length_command_bytes [simp]: "length (command_bytes c) = 24"
  by (simp add: command_bytes_def)

lemma length_reply_header [simp]: "length (reply_header vendor c r) = 64"
  by (simp add: reply_header_def)

lemma accept_facts:
  "accept_command flags_ok prev p = Some c \<Longrightarrow> prev < csequence c \<and> flags_ok (cflags c)"
  by (auto simp: accept_command_def Let_def split: if_splits)

lemma reply_header_not_Nil [simp]: "reply_header vendor c r \<noteq> []"
  using length_reply_header [of vendor c r] by (metis list.size(3) zero_neq_numeral)

lemma answer_whole:
  assumes "tx st = Got a # Got b # ans" "64 \<le> a" "length (rdata r) \<le> b" "rdata r \<noteq> []"
    and h: "handle (world st) (cflags c) = (w, r)"
  shows "answer_command handle vendor c st =
    Some (st\<lparr>world := w, tx := ans, outbound := (outbound st @ reply_header vendor c r) @ rdata r\<rparr>,
      rstatus r = 0)"
proof -
  have "send_part (reply_header vendor c r) (st\<lparr>world := w\<rparr>) = Some (st\<lparr>world := w, tx := Got b # ans,
      outbound := outbound st @ reply_header vendor c r\<rparr>, True)"
    using assms(1,2) by (simp add: send_part_def send_whole)
  then show ?thesis using assms by (simp add: answer_command_def send_part_def send_whole)
qed

section \<open>What a command loop promises\<close>

definition reply_ok :: "(byte list \<Rightarrow> bool) \<Rightarrow> (byte list \<Rightarrow> bool) \<Rightarrow> reply \<Rightarrow> bool" where
  "reply_ok payload_ok reason_ok r \<longleftrightarrow> length (rdata r) \<le> GPU_WIRE_LIMIT
     \<and> (rstatus r = 0 \<and> payload_ok (rdata r) \<or> rstatus r = 1 \<and> reason_ok (rdata r))"

text \<open>
  The transcript of a run: the log pairs each accepted command with its reply. The
  commands are consecutive at the front of the input, their sequences increase strictly
  from the last one seen, only the last reply may report a failure, and what was sent is
  all replies in order, the last one perhaps cut by a failing channel.
\<close>

definition transcript ::
  "(u32 \<Rightarrow> bool) \<Rightarrow> (reply \<Rightarrow> bool) \<Rightarrow> u32 \<Rightarrow> u64 \<Rightarrow> byte list \<Rightarrow> byte list \<Rightarrow> (command \<times> reply) list \<Rightarrow> bool" where
  "transcript flags_ok ok vendor prev input sent log \<longleftrightarrow>
     prefix (concat (map (\<lambda>(c, r). command_bytes c) log)) input
     \<and> sorted_wrt (<) (prev # map (\<lambda>(c, r). csequence c) log)
     \<and> list_all (\<lambda>(c, r). flags_ok (cflags c) \<and> cflags c \<noteq> 2 \<and> ok r) log
     \<and> list_all (\<lambda>(c, r). rstatus r = 0) (butlast log)
     \<and> prefix sent (concat (map (\<lambda>(c, r). reply_bytes vendor c r) log))
     \<and> prefix (concat (map (\<lambda>(c, r). reply_bytes vendor c r) (butlast log))) sent"

lemma transcript_Nil: "transcript flags_ok ok vendor prev input [] []"
  by (simp add: transcript_def)

lemma transcript_last:
  assumes "prev < csequence c" "flags_ok (cflags c)" "cflags c \<noteq> 2" "ok r"
    and "prefix sent (reply_bytes vendor c r)"
  shows "transcript flags_ok ok vendor prev (command_bytes c @ input) sent [(c, r)]"
  using assms by (simp add: transcript_def)

lemma transcript_Cons:
  assumes "prev < csequence c" "flags_ok (cflags c)" "cflags c \<noteq> 2" "ok r" "rstatus r = 0"
    and "transcript flags_ok ok vendor (csequence c) input sent log"
  shows "transcript flags_ok ok vendor prev (command_bytes c @ input) (reply_bytes vendor c r @ sent) ((c, r) # log)"
proof -
  have sorted: "sorted_wrt (<) (csequence c # map (\<lambda>(c, r). csequence c) log)"
    using assms(6) by (simp only: transcript_def)
  have "sorted_wrt (<) (prev # map (\<lambda>(c, r). csequence c) ((c, r) # log))"
    using sorted assms(1) by (simp add: case_prod_unfold) (blast intro: less_trans)
  moreover have "list_all (\<lambda>(c, r). rstatus r = 0) (butlast ((c, r) # log))"
    using assms(5,6) by (simp add: transcript_def)
  moreover have "prefix (concat (map (\<lambda>(c, r). reply_bytes vendor c r) (butlast ((c, r) # log))))
      (reply_bytes vendor c r @ sent)"
    using assms(6) by (simp add: transcript_def)
  ultimately show ?thesis using assms(2-4,6) by (simp add: transcript_def)
qed

lemma send_part_sent:
  "send_part bs st = Some (st', ok) \<Longrightarrow>
     \<exists>sent. outbound st' = outbound st @ sent \<and> prefix sent bs \<and> (ok \<longrightarrow> sent = bs)"
proof -
  assume a: "send_part bs st = Some (st', ok)"
  obtain o' sent ans where s: "send_exact (tx st) bs = Some (o', sent, ans)"
    using a by (cases "send_exact (tx st) bs") (auto simp: send_part_def)
  have "o' = ok" "outbound st' = outbound st @ sent" using a s by (auto simp: send_part_def)
  with send_exact_data [OF s] show ?thesis by simp
qed

lemma answer_sent:
  assumes "answer_command handle vendor c st = Some (st', go)"
  shows "\<exists>w r sent. handle (world st) (cflags c) = (w, r) \<and> outbound st' = outbound st @ sent
    \<and> prefix sent (reply_bytes vendor c r) \<and> (go \<longrightarrow> sent = reply_bytes vendor c r \<and> rstatus r = 0)"
proof -
  obtain w r where h: "handle (world st) (cflags c) = (w, r)" by fastforce
  obtain s1 ok1 where p1: "send_part (reply_header vendor c r) (st\<lparr>world := w\<rparr>) = Some (s1, ok1)"
    using assms h by (auto simp: answer_command_def split: option.splits)
  obtain x where x: "outbound s1 = outbound st @ x" "prefix x (reply_header vendor c r)"
      "ok1 \<Longrightarrow> x = reply_header vendor c r"
    using send_part_sent [OF p1] by auto
  show ?thesis
  proof (cases ok1)
    case False
    then have "st' = s1" "\<not> go" using assms h p1 by (auto simp: answer_command_def)
    then show ?thesis using h x by (auto simp: reply_bytes_def intro: prefix_prefix)
  next
    case True
    then obtain ok2 where p2: "send_part (rdata r) s1 = Some (st', ok2)" "go = (ok2 \<and> rstatus r = 0)"
      using assms h p1 by (auto simp: answer_command_def split: option.splits)
    obtain y where "outbound st' = outbound s1 @ y" "prefix y (rdata r)" "ok2 \<Longrightarrow> y = rdata r"
      using send_part_sent [OF p2(1)] by auto
    then show ?thesis using h x True p2(2) by (auto simp: reply_bytes_def)
  qed
qed

locale frame_server =
  fixes flags_ok :: "u32 \<Rightarrow> bool" and handle :: "'w \<Rightarrow> u32 \<Rightarrow> 'w \<times> reply" and vendor :: u32
    and payload_ok reason_ok :: "byte list \<Rightarrow> bool"
  assumes handle_ok: "flags_ok f \<Longrightarrow> f \<noteq> 2 \<Longrightarrow> handle w f = (w', r) \<Longrightarrow> reply_ok payload_ok reason_ok r"
begin

lemma turn_cases:
  assumes "reader_turn flags_ok handle vendor st = Some (st', go)"
  obtains (stopped) "\<not> go" "outbound st' = outbound st"
  | (answered) c r sent input where "inbound st = command_bytes c @ input" "inbound st' = input"
      "previous st < csequence c" "previous st' = csequence c" "flags_ok (cflags c)" "cflags c \<noteq> 2"
      "reply_ok payload_ok reason_ok r" "outbound st' = outbound st @ sent"
      "prefix sent (reply_bytes vendor c r)" "go \<Longrightarrow> sent = reply_bytes vendor c r \<and> rstatus r = 0"
proof -
  obtain d stream ans where rcv: "receive_exact (rx st) (inbound st) 24 = Some (d, stream, ans)"
    using assms by (auto simp: reader_turn_def split: option.splits)
  show ?thesis
  proof (cases d)
    case None
    then show ?thesis using assms rcv stopped by (auto simp: reader_turn_def)
  next
    case (Some p)
    have p: "p = take 24 (inbound st)" "stream = drop 24 (inbound st)" "24 \<le> length (inbound st)"
      using receive_exact_data rcv Some by blast+
    show ?thesis
    proof (cases "accept_command flags_ok (previous st) p")
      case None
      then show ?thesis using assms rcv Some stopped by (auto simp: reader_turn_def)
    next
      case acc: (Some c)
      have cmd: "p = command_bytes c" using accepted_bytes [OF _ acc] p by simp
      note facts = accept_facts [OF acc]
      show ?thesis
      proof (cases "cflags c = 2")
        case True
        then show ?thesis using assms rcv Some acc stopped by (auto simp: reader_turn_def Let_def)
      next
        case False
        let ?st = "st\<lparr>rx := ans, inbound := stream, previous := csequence c\<rparr>"
        have a: "answer_command handle vendor c ?st = Some (st', go)"
          using assms rcv Some acc False by (simp add: reader_turn_def Let_def)
        obtain w r sent where r: "handle (world st) (cflags c) = (w, r)" "outbound st' = outbound st @ sent"
            "prefix sent (reply_bytes vendor c r)" "go \<Longrightarrow> sent = reply_bytes vendor c r \<and> rstatus r = 0"
          using answer_sent [OF a] by auto
        have "inbound st = command_bytes c @ stream" using p cmd by (metis append_take_drop_id)
        with r facts False answer_command_rx [OF a] handle_ok [OF _ False r(1)]
        show ?thesis by (intro answered [of c stream r sent]) auto
      qed
    qed
  qed
qed

lemma serve_transcript:
  "serve flags_ok handle vendor st = Some st' \<Longrightarrow>
     \<exists>log sent. outbound st' = outbound st @ sent
       \<and> transcript flags_ok (reply_ok payload_ok reason_ok) vendor (previous st) (inbound st) sent log"
proof (induction "length (rx st)" arbitrary: st rule: less_induct)
  case less
  let ?T = "transcript flags_ok (reply_ok payload_ok reason_ok) vendor"
  obtain st1 go where turn: "reader_turn flags_ok handle vendor st = Some (st1, go)"
    using less.prems by (subst (asm) serve.simps) (auto split: option.splits)
  note tail = less.prems [unfolded serve.simps [of flags_ok handle vendor st] turn]
  show ?case
    using turn
  proof (cases rule: turn_cases)
    case stopped
    then show ?thesis using tail transcript_Nil by (intro exI [of _ "[]"]) auto
  next
    case (answered c r sent input)
    show ?thesis
    proof (cases go)
      case False
      then have "st' = st1" using tail by simp
      have "?T (previous st) (command_bytes c @ input) sent [(c, r)]"
        using answered by (intro transcript_last) simp_all
      then show ?thesis using answered(1,8) \<open>st' = st1\<close> by metis
    next
      case True
      then have "serve flags_ok handle vendor st1 = Some st'" using tail by simp
      from less.hyps [OF reader_turn_uses [OF turn] this]
      obtain log sent' where "outbound st' = outbound st1 @ sent'"
          "?T (previous st1) (inbound st1) sent' log" by blast
      with answered True have "outbound st' = outbound st @ reply_bytes vendor c r @ sent'"
        and "?T (csequence c) input sent' log" by simp_all
      moreover have "?T (previous st) (command_bytes c @ input) (reply_bytes vendor c r @ sent') ((c, r) # log)"
        using answered True calculation(2) by (intro transcript_Cons) simp_all
      ultimately show ?thesis using answered(1) by metis
    qed
  qed
qed

end

lemma send_part_total:
  assumes "list_all willing (tx st)" "length bs \<le> gots (tx st)"
  shows "\<exists>st'. send_part bs st = Some (st', True) \<and> list_all willing (tx st')
    \<and> gots (tx st) \<le> gots (tx st') + length bs"
proof -
  obtain ans where "send_exact (tx st) bs = Some (True, bs, ans)" "list_all willing ans"
      "gots (tx st) \<le> gots ans + length bs"
    using send_exact_total [OF assms] by blast
  then show ?thesis by (simp add: send_part_def)
qed

lemma answer_total:
  assumes "list_all willing (tx st)" "64 + length (rdata r) \<le> gots (tx st)"
    and h: "handle (world st) (cflags c) = (w, r)"
  shows "\<exists>st' go. answer_command handle vendor c st = Some (st', go) \<and> list_all willing (tx st')
    \<and> gots (tx st) \<le> gots (tx st') + 64 + length (rdata r)"
proof -
  obtain s1 where s1: "send_part (reply_header vendor c r) (st\<lparr>world := w\<rparr>) = Some (s1, True)"
      "list_all willing (tx s1)" "gots (tx st) \<le> gots (tx s1) + 64"
    using send_part_total [of "st\<lparr>world := w\<rparr>" "reply_header vendor c r"] assms by auto
  have "length (rdata r) \<le> gots (tx s1)" using s1(3) assms(2) by simp
  from send_part_total [OF s1(2) this] obtain s2 where "send_part (rdata r) s1 = Some (s2, True)"
      "list_all willing (tx s2)" "gots (tx s1) \<le> gots (tx s2) + length (rdata r)" by blast
  then show ?thesis using s1 h by (simp add: answer_command_def)
qed

context frame_server
begin

text \<open>
  A finite input and a willing kernel end the loop: each turn takes a command of 24 bytes
  or leaves, and no reply is longer than 64 bytes and the payload limit.
\<close>

lemma turn_total:
  assumes rx: "list_all willing (rx st)" "24 + length (inbound st) \<le> gots (rx st)"
    and tx: "list_all willing (tx st)" "length (inbound st) * 16777280 \<le> gots (tx st)"
  shows "\<exists>st' go. reader_turn flags_ok handle vendor st = Some (st', go) \<and> (go \<longrightarrow>
    list_all willing (rx st') \<and> 24 + length (inbound st') \<le> gots (rx st')
    \<and> list_all willing (tx st') \<and> length (inbound st') * 16777280 \<le> gots (tx st'))"
proof (cases "24 \<le> length (inbound st)")
  case False
  then obtain s a where "receive_exact (rx st) (inbound st) 24 = Some (None, s, a)"
    using receive_exact_closed [OF rx(1), of "inbound st" 24] rx(2) by auto
  then show ?thesis
    by (intro exI [of _ "st\<lparr>rx := a, inbound := s\<rparr>"] exI [of _ False]) (simp add: reader_turn_def)
next
  case True
  let ?p = "take 24 (inbound st)" and ?q = "drop 24 (inbound st)"
  obtain a where a: "receive_exact (rx st) (inbound st) 24 = Some (Some ?p, ?q, a)"
      "list_all willing a" "gots (rx st) \<le> gots a + 24"
    using receive_exact_total [OF rx(1) True] rx(2) by auto
  show ?thesis
  proof (cases "accept_command flags_ok (previous st) ?p")
    case None
    then show ?thesis using a
      by (intro exI [of _ "st\<lparr>rx := a, inbound := ?q\<rparr>"] exI [of _ False]) (simp add: reader_turn_def)
  next
    case (Some c)
    let ?st = "st\<lparr>rx := a, inbound := ?q, previous := csequence c\<rparr>"
    show ?thesis
    proof (cases "cflags c = 2")
      case True
      then show ?thesis using a Some
        by (intro exI [of _ ?st] exI [of _ False]) (simp add: reader_turn_def)
    next
      case False
      obtain w r where h: "handle (world ?st) (cflags c) = (w, r)" by fastforce
      have small: "length (rdata r) \<le> 16777216"
        using handle_ok [OF _ False h] accept_facts [OF Some] by (simp add: reply_ok_def)
      define m where "m = length ?q"
      have len: "length (inbound st) = m + 24" using True by (simp add: m_def)
      have room: "(m + 24) * 16777280 \<le> gots (tx st)" using tx(2) by (simp only: len)
      then have "64 + length (rdata r) \<le> gots (tx ?st)" using small by simp
      from answer_total [where st = ?st and c = c and r = r and w = w and handle = handle, OF _ this h, of vendor] tx(1)
      obtain st' go where s: "answer_command handle vendor c ?st = Some (st', go)"
          "list_all willing (tx st')" "gots (tx st) \<le> gots (tx st') + 64 + length (rdata r)" by auto
      have f: "rx st' = a" "inbound st' = ?q" using answer_command_rx [OF s(1)] by simp_all
      have "m * 16777280 \<le> gots (tx st')" using s(3) room small by simp
      moreover have "24 + m \<le> gots a" using rx(2) a(3) by (simp add: len)
      moreover have "reader_turn flags_ok handle vendor st = Some (st', go)"
        using a(1) Some False s(1) by (simp add: reader_turn_def Let_def)
      ultimately show ?thesis using s(2) a(2) by (intro exI [of _ st'] exI [of _ go]) (simp add: f m_def)
    qed
  qed
qed

lemma serve_total:
  "list_all willing (rx st) \<Longrightarrow> 24 + length (inbound st) \<le> gots (rx st) \<Longrightarrow>
   list_all willing (tx st) \<Longrightarrow> length (inbound st) * 16777280 \<le> gots (tx st) \<Longrightarrow>
     \<exists>st'. serve flags_ok handle vendor st = Some st'"
proof (induction "length (rx st)" arbitrary: st rule: less_induct)
  case less
  obtain st' go where t: "reader_turn flags_ok handle vendor st = Some (st', go)" "go \<longrightarrow>
    list_all willing (rx st') \<and> 24 + length (inbound st') \<le> gots (rx st')
    \<and> list_all willing (tx st') \<and> length (inbound st') * 16777280 \<le> gots (tx st')"
    using turn_total [OF less.prems] by blast
  show ?case
  proof (cases go)
    case False
    then show ?thesis using t(1) by (simp add: serve.simps [of flags_ok handle vendor st])
  next
    case True
    have "\<exists>st''. serve flags_ok handle vendor st' = Some st''"
      using less.hyps [OF reader_turn_uses [OF t(1)]] t(2) True by blast
    then show ?thesis using t(1) True by (simp add: serve.simps [of flags_ok handle vendor st])
  qed
qed

end

end
