(* ===== verification/GpuReader.thy ===== *)
theory GpuReader imports Channel begin

text \<open>
  The GPU reader process, \<^verbatim>\<open>native/wtop_gpu_worker.c\<close>: its arguments, the descriptors it
  closes before it runs itself again, the choice of the Level Zero mode, and the answer to
  one request. The vendor libraries (the collectors of \<^verbatim>\<open>native/wtop_nvml.c\<close> and its
  siblings) are a parameter: a function of the output operation, the buffer, a world and
  the process flag.
\<close>

datatype gpu_vendor = GPU_NVML | GPU_AMDSMI | GPU_LEVELZERO

fun vendor_code :: "gpu_vendor \<Rightarrow> u32" where
  "vendor_code GPU_NVML = 0"
| "vendor_code GPU_AMDSMI = 1"
| "vendor_code GPU_LEVELZERO = 2"

definition vendor_names :: "(string \<times> gpu_vendor) list" where
  "vendor_names = [(''nvml'', GPU_NVML), (''amdsmi'', GPU_AMDSMI), (''levelzero'', GPU_LEVELZERO)]"

fun invalid_response :: "gpu_vendor \<Rightarrow> string" where
  "invalid_response GPU_NVML = ''nvml_invalid_response''"
| "invalid_response GPU_AMDSMI = ''amdsmi_invalid_response''"
| "invalid_response GPU_LEVELZERO = ''levelzero_invalid_response''"

section \<open>Clock, descriptors and arguments\<close>

text \<open>\<open>clock_gettime\<close> answers seconds and nanoseconds, or fails.\<close>

definition monotonic_now :: "(u64 \<times> u64) option \<Rightarrow> u64" where
  "monotonic_now t = (case t of None \<Rightarrow> 0 | Some (sec, nsec) \<Rightarrow> sec * 1000000000 + nsec)"

text \<open>The digit loop over a name of \<^verbatim>\<open>/proc/self/fd\<close>: a number past \<open>INT_MAX / 10\<close> stops it.\<close>

definition fd_name :: "string \<Rightarrow> nat option" where
  "fd_name name = (if name = [] then None else digit_loop (\<lambda>n d. n \<le> 214748364) 0 name)"

definition close_extra_fds :: "nat \<Rightarrow> string list \<Rightarrow> nat list" where
  "close_extra_fds dirfd names = List.map_filter
     (\<lambda>name. case fd_name name of
        Some n \<Rightarrow> if 3 < n \<and> n \<le> 2147483647 \<and> n \<noteq> dirfd then Some n else None
      | None \<Rightarrow> None) names"

definition parse_vendor :: "string list \<Rightarrow> (gpu_vendor \<times> bool) option" where
  "parse_vendor args = (case args of
     [] \<Rightarrow> Some (GPU_NVML, False)
   | name # _ \<Rightarrow> if name = ''levelzero-legacy'' then Some (GPU_LEVELZERO, True)
       else map_option (\<lambda>v. (v, False)) (map_of vendor_names name))"

definition parse_parent :: "string \<Rightarrow> nat option" where
  "parse_parent arg = (if arg = [] then None
     else case digit_loop (\<lambda>n d. n * 10 + d \<le> 2147483647) 0 arg of
            None \<Rightarrow> None | Some n \<Rightarrow> if n = 0 then None else Some n)"

section \<open>Start of the process\<close>

text \<open>What the process asks of the system before its first request.\<close>

record 'w gpu_system =
  pdeathsig_failed :: bool
  getppid :: nat
  environment_failed :: bool
  prepare :: "bool \<Rightarrow> 'w \<Rightarrow> 'w \<times> string option"
  fd_names :: "string list option"
  fd_directory :: nat
  exec_succeeds :: bool

text \<open>
  The Level Zero boot: \<open>Inl\<close> is a successful \<open>execv\<close> (the new argument vector and the
  descriptors closed before it), \<open>Inr\<close> the world and the reason every request then gets.
\<close>

definition boot ::
  "'w gpu_system \<Rightarrow> string \<Rightarrow> gpu_vendor \<Rightarrow> bool \<Rightarrow> 'w \<Rightarrow> (string list \<times> nat list) + ('w \<times> string option \<times> nat list)" where
  "boot sys parent vendor legacy w =
     (if vendor \<noteq> GPU_LEVELZERO then Inr (w, None, [])
      else let (w', reason) =
             (if environment_failed sys then (w, Some ''levelzero_allocation_failed'')
              else prepare sys legacy w) in
        if \<not> legacy \<and> reason = Some ''levelzero_legacy_required''
        then (case fd_names sys of
                Some names \<Rightarrow>
                  (let closed = close_extra_fds (fd_directory sys) names in
                   if exec_succeeds sys
                   then Inl ([''wtop-gpu-reader'', parent, ''levelzero-legacy''], closed)
                   else Inr (w', Some ''levelzero_worker_unavailable'', closed))
              | None \<Rightarrow> Inr (w', Some ''levelzero_worker_unavailable'', []))
        else Inr (w', reason, []))"

section \<open>One request\<close>

record 'w gpu_state =
  gbuffer :: wire_buffer
  gworld :: 'w

type_synonym 'w gpu_collect =
  "(wire_buffer \<Rightarrow> emit_call \<Rightarrow> wire_buffer) \<Rightarrow> wire_buffer \<Rightarrow> 'w \<Rightarrow> bool \<Rightarrow> wire_buffer \<times> 'w \<times> string option"

definition gpu_handle ::
  "(nat \<Rightarrow> bool) \<Rightarrow> ('w \<Rightarrow> 'w \<times> (u64 \<times> u64) option) \<Rightarrow> 'w gpu_collect \<Rightarrow> string option \<Rightarrow> gpu_vendor
     \<Rightarrow> 'w gpu_state \<Rightarrow> u32 \<Rightarrow> 'w gpu_state \<times> reply" where
  "gpu_handle alloc clock collect boot_reason vendor st flags =
     (let buffer = (gbuffer st)\<lparr>wdata := [], wfailed := 0\<rparr>;
          (w1, start) = clock (gworld st);
          (buffer, w2, reason) =
            (if boot_reason = None then collect (wire_emit alloc) buffer w1 (flags = 1)
             else (buffer, w1, boot_reason));
          (w3, finish) = clock w2;
          reason = (if reason = None \<and> \<not> gpu_wire_valid (wdata buffer)
                    then Some (invalid_response vendor) else reason) in
      (\<lparr>gbuffer = buffer, gworld = w3\<rparr>,
       \<lparr>rstatus = (if reason \<noteq> None then 1 else 0), rstart = monotonic_now start,
        rfinish = monotonic_now finish,
        rdata = (case reason of Some s \<Rightarrow> bytes_of s | None \<Rightarrow> wdata buffer)\<rparr>))"

section \<open>The process\<close>

text \<open>
  How \<open>main\<close> ends: with an exit status, with the process image replaced, or with the loop
  left (status 0, the reader's last state, the library that is shut down).
\<close>

datatype 'w gpu_exit = Exit int
  | Replaced "string list" "nat list"
  | Served "'w gpu_state reader" "gpu_vendor option"

definition gpu_main ::
  "(nat \<Rightarrow> bool) \<Rightarrow> ('w \<Rightarrow> 'w \<times> (u64 \<times> u64) option) \<Rightarrow> (gpu_vendor \<Rightarrow> 'w gpu_collect) \<Rightarrow> 'w gpu_system
     \<Rightarrow> nat answer list \<Rightarrow> nat answer list \<Rightarrow> byte list \<Rightarrow> 'w \<Rightarrow> string list \<Rightarrow> 'w gpu_exit option" where
  "gpu_main alloc clock collect sys rxs txs input w argv =
     (if length argv < 2 \<or> 3 < length argv then Some (Exit 2)
      else case parse_vendor (drop 2 argv) of
        None \<Rightarrow> Some (Exit 2)
      | Some (vendor, legacy) \<Rightarrow>
         (case parse_parent (argv ! 1) of
            None \<Rightarrow> Some (Exit 2)
          | Some parent \<Rightarrow>
              if pdeathsig_failed sys \<or> getppid sys \<noteq> parent then Some (Exit 3)
              else case boot sys (argv ! 1) vendor legacy w of
                Inl (args, closed) \<Rightarrow> Some (Replaced args closed)
              | Inr (w', reason, closed) \<Rightarrow>
                  map_option (\<lambda>st. Served st
                      (if vendor = GPU_NVML then Some GPU_NVML
                       else if vendor = GPU_LEVELZERO then Some GPU_LEVELZERO else None))
                    (serve gpu_flags (gpu_handle alloc clock (collect vendor) reason vendor) (vendor_code vendor)
                       \<lparr>rx = rxs, tx = txs, inbound = input, outbound = [], previous = 0,
                        world = \<lparr>gbuffer = \<lparr>wdata = [], wcapacity = 0, wfailed = 0\<rparr>, gworld = w'\<rparr>\<rparr>)))"

section \<open>The reader keeps the server contract\<close>

text \<open>A collector's reason fits the payload limit; the code's reasons are literals.\<close>

definition short_reasons :: "'w gpu_collect \<Rightarrow> bool" where
  "short_reasons collect \<longleftrightarrow>
     (\<forall>emit buffer w processes. case collect emit buffer w processes of
        (_, _, Some reason) \<Rightarrow> length reason \<le> 95 | _ \<Rightarrow> True)"

definition short_reason :: "string option \<Rightarrow> bool" where
  "short_reason reason \<longleftrightarrow> (case reason of Some s \<Rightarrow> length s \<le> 95 | None \<Rightarrow> True)"

lemma gpu_frame_server:
  assumes "short_reasons collect" and "short_reason boot_reason"
  shows "frame_server gpu_flags (gpu_handle alloc clock collect boot_reason vendor)
    gpu_wire_valid (\<lambda>bs. length bs \<le> 95)"
proof
  fix f w w' r
  assume h: "gpu_handle alloc clock collect boot_reason vendor w f = (w', r)"
  have invalid: "length (invalid_response vendor) \<le> 95" by (cases vendor) simp_all
  have limit: "gpu_wire_valid bs \<Longrightarrow> length bs \<le> 16777216" for bs
    by (simp add: gpu_wire_valid_def split: if_splits)
  obtain w1 start where c1: "clock (gworld w) = (w1, start)" by fastforce
  let ?b = "(gbuffer w)\<lparr>wdata := [], wfailed := 0\<rparr>"
  obtain b w2 reason where col: "(if boot_reason = None then collect (wire_emit alloc) ?b w1 (f = 1)
      else (?b, w1, boot_reason)) = (b, w2, reason)" using prod_cases3 by blast
  have short: "length s \<le> 95" if "reason = Some s" for s
  proof (cases boot_reason)
    case None
    then have "collect (wire_emit alloc) ?b w1 (f = 1) = (b, w2, Some s)" using col that by simp
    then show ?thesis using assms(1) unfolding short_reasons_def by (metis (no_types, lifting) case_prod_conv option.simps(5))
  next
    case (Some x)
    then show ?thesis using assms(2) col that by (simp add: short_reason_def)
  qed
  obtain w3 finish where c2: "clock w2 = (w3, finish)" by fastforce
  have r: "rdata r = (case (if reason = None \<and> \<not> gpu_wire_valid (wdata b)
        then Some (invalid_response vendor) else reason) of Some s \<Rightarrow> bytes_of s | None \<Rightarrow> wdata b)"
     "rstatus r = (if reason \<noteq> None \<or> \<not> gpu_wire_valid (wdata b) then 1 else 0)"
    using h unfolding gpu_handle_def by (auto simp: Let_def c1 col c2)
  show "reply_ok gpu_wire_valid (\<lambda>bs. length bs \<le> 95) r"
  proof (cases reason)
    case None
    then show ?thesis using invalid limit by (cases "gpu_wire_valid (wdata b)") (auto simp: reply_ok_def r)
  next
    case (Some s)
    then show ?thesis using short [of s] by (simp add: reply_ok_def r)
  qed
qed

lemma boot_short:
  assumes "\<And>l w. short_reason (snd (prepare sys l w))" and "boot sys parent vendor legacy w = Inr (w', reason, closed)"
  shows "short_reason reason"
proof -
  have p: "prepare sys legacy w = (a, b) \<Longrightarrow> short_reason b" for a b using assms(1) [of legacy w] by simp
  show ?thesis using assms(2) unfolding boot_def Let_def
    by (auto simp: short_reason_def [of "Some _"] split: if_splits option.splits prod.splits intro: p)
      (simp_all add: short_reason_def)
qed

lemma gpu_main_serves:
  assumes "gpu_main alloc clock collect sys rxs txs input w argv = Some (Served st lib)"
  obtains vendor legacy w' reason closed where
    "parse_vendor (drop 2 argv) = Some (vendor, legacy)"
    "boot sys (argv ! 1) vendor legacy w = Inr (w', reason, closed)"
    "serve gpu_flags (gpu_handle alloc clock (collect vendor) reason vendor) (vendor_code vendor)
       \<lparr>rx = rxs, tx = txs, inbound = input, outbound = [], previous = 0,
        world = \<lparr>gbuffer = \<lparr>wdata = [], wcapacity = 0, wfailed = 0\<rparr>, gworld = w'\<rparr>\<rparr> = Some st"
proof -
  from assms obtain vendor legacy where v: "parse_vendor (drop 2 argv) = Some (vendor, legacy)"
    unfolding gpu_main_def by (auto split: if_splits option.splits)
  from assms v obtain b where b: "boot sys (argv ! 1) vendor legacy w = Inr b"
    unfolding gpu_main_def by (auto split: if_splits option.splits sum.splits)
  obtain w' reason closed where "b = (w', reason, closed)" by (cases b)
  with that [OF v] assms v b show ?thesis
    unfolding gpu_main_def by (auto split: if_splits option.splits)
qed

section \<open>Properties\<close>

text \<open>
  Whatever the kernel does to the transfers, a GPU reader that leaves its loop has
  answered a sequence of well-formed commands read in order from its socket, with strictly
  increasing sequences, each with its own complete reply (header and payload), the payload
  a valid instruction stream or a short failure reason; only the last reply can report a
  failure or be cut by a failing channel.
\<close>

theorem gpu_reader_transcript:
  assumes "\<And>v. short_reasons (collect v)" and "\<And>l w. short_reason (snd (prepare sys l w))"
    and "gpu_main alloc clock collect sys rxs txs input w argv = Some (Served st lib)"
  shows "\<exists>vendor legacy log. parse_vendor (drop 2 argv) = Some (vendor, legacy)
    \<and> transcript gpu_flags (reply_ok gpu_wire_valid (\<lambda>bs. length bs \<le> 95)) (vendor_code vendor)
        0 input (outbound st) log"
proof -
  obtain vendor legacy w' reason closed where run:
    "parse_vendor (drop 2 argv) = Some (vendor, legacy)"
    "boot sys (argv ! 1) vendor legacy w = Inr (w', reason, closed)"
    "serve gpu_flags (gpu_handle alloc clock (collect vendor) reason vendor) (vendor_code vendor)
       \<lparr>rx = rxs, tx = txs, inbound = input, outbound = [], previous = 0,
        world = \<lparr>gbuffer = \<lparr>wdata = [], wcapacity = 0, wfailed = 0\<rparr>, gworld = w'\<rparr>\<rparr> = Some st"
    using gpu_main_serves [OF assms(3)] by blast
  have "frame_server gpu_flags (gpu_handle alloc clock (collect vendor) reason vendor)
      gpu_wire_valid (\<lambda>bs. length bs \<le> 95)"
    by (rule gpu_frame_server [OF assms(1) boot_short [OF assms(2) run(2)]])
  from frame_server.serve_transcript [OF this run(3)] run(1) show ?thesis by auto
qed

text \<open>
  C5. The GPU reader ends: on a finite input and a kernel that keeps moving bytes, every
  run of \<open>main\<close> returns, in whatever pieces the bytes move.
\<close>

theorem gpu_reader_returns:
  assumes "\<And>v. short_reasons (collect v)" and "\<And>l w. short_reason (snd (prepare sys l w))"
    and "list_all willing rxs" and "24 + length input \<le> gots rxs"
    and "list_all willing txs" and "length input * 16777280 \<le> gots txs"
  shows "\<exists>result. gpu_main alloc clock collect sys rxs txs input w argv = Some result"
proof -
  have "\<exists>st. serve gpu_flags (gpu_handle alloc clock (collect vendor) reason vendor) (vendor_code vendor)
       \<lparr>rx = rxs, tx = txs, inbound = input, outbound = [], previous = 0,
        world = \<lparr>gbuffer = \<lparr>wdata = [], wcapacity = 0, wfailed = 0\<rparr>, gworld = w'\<rparr>\<rparr> = Some st"
    if "boot sys parent vendor legacy w = Inr (w', reason, closed)" for vendor reason w' parent legacy closed
  proof -
    have "frame_server gpu_flags (gpu_handle alloc clock (collect vendor) reason vendor)
        gpu_wire_valid (\<lambda>bs. length bs \<le> 95)"
      by (rule gpu_frame_server [OF assms(1) boot_short [OF assms(2) that]])
    from frame_server.serve_total [OF this] assms(3-6) show ?thesis by simp
  qed
  note runs = this
  show ?thesis
    unfolding gpu_main_def
    by (auto split: option.splits sum.splits simp del: vendor_code.simps) (blast dest: runs)+
qed

text \<open>
  The Level Zero fallback runs the process again at most once: the replaced image gets
  the same parent and the legacy mode, in which no further replacement is possible, and
  the descriptors closed before it are all above the channel.
\<close>

theorem legacy_restart_once:
  assumes "boot sys parent vendor legacy w = Inl (args, closed)"
  shows "vendor = GPU_LEVELZERO \<and> \<not> legacy \<and> args ! 1 = parent
    \<and> parse_vendor (drop 2 args) = Some (GPU_LEVELZERO, True)
    \<and> list_all (\<lambda>n. 3 < n \<and> n \<le> 2147483647 \<and> n \<noteq> fd_directory sys) closed
    \<and> (\<nexists>r. boot sys' parent GPU_LEVELZERO True w' = Inl r)"
proof -
  have "list_all (\<lambda>n. 3 < n \<and> n \<le> 2147483647 \<and> n \<noteq> d) (close_extra_fds d names)" for d names
    by (induction names) (auto simp: close_extra_fds_def List.map_filter_simps split: option.splits)
  then show ?thesis using assms
    by (auto simp: boot_def Let_def parse_vendor_def split: if_splits option.splits prod.splits)
qed

section \<open>A concrete run\<close>

definition sample_system :: "unit gpu_system" where
  "sample_system = \<lparr>pdeathsig_failed = False, getppid = 7, environment_failed = False,
     prepare = (\<lambda>legacy w. (w, if legacy then None else Some ''levelzero_legacy_required'')),
     fd_names = Some [''.'', ''3'', ''9'', ''12''], fd_directory = 12, exec_succeeds = True\<rparr>"

definition sample_collect :: "gpu_vendor \<Rightarrow> unit gpu_collect" where
  "sample_collect v emit buffer w processes = (buffer, w, Some ''nvml_library_missing'')"

definition sample_clock :: "unit \<Rightarrow> unit \<times> (u64 \<times> u64) option" where
  "sample_clock w = (w, Some (1, 5))"

definition sample_command :: command where
  "sample_command = \<lparr>csequence = 1, cflags = 0\<rparr>"

lemma parse_parent_7: "parse_parent ''7'' = Some 7"
  by (simp add: parse_parent_def is_digit_def digit_def code_def)

lemma sample_shorts: "short_reasons (sample_collect v)" "short_reason (snd (prepare sample_system l w))"
  by (simp_all add: short_reasons_def short_reason_def sample_collect_def sample_system_def)

lemma sample_run:
  "\<exists>st lib. gpu_main (\<lambda>_. True) sample_clock sample_collect sample_system [Got 24, Got 1] [Got 64, Got 64]
     (command_bytes sample_command) () [''reader'', ''7''] = Some (Served st lib)"
proof -
  have a: "accept_command gpu_flags 0 (command_bytes sample_command) = Some sample_command"
    by (simp add: accept_written sample_command_def gpu_flags_def)
  have h: "gpu_handle (\<lambda>_. True) sample_clock (sample_collect GPU_NVML) None GPU_NVML st 0 =
      (\<lparr>gbuffer = (gbuffer st)\<lparr>wdata := [], wfailed := 0\<rparr>, gworld = ()\<rparr>,
       \<lparr>rstatus = 1, rstart = 1000000005, rfinish = 1000000005, rdata = bytes_of ''nvml_library_missing''\<rparr>)" for st
    by (simp add: gpu_handle_def sample_clock_def sample_collect_def monotonic_now_def)
  have seq: "cflags sample_command \<noteq> 2" by (simp add: sample_command_def)
  let ?st = "\<lambda>g. \<lparr>rx = [Got 1], tx = [Got 64, Got 64], inbound = [], outbound = [],
      previous = csequence sample_command, world = g\<rparr>"
  have ans: "\<exists>st'. answer_command (gpu_handle (\<lambda>_. True) sample_clock (sample_collect GPU_NVML) None GPU_NVML) 0
      sample_command (?st g) = Some (st', False)" for g
  proof -
    have "gpu_handle (\<lambda>_. True) sample_clock (sample_collect GPU_NVML) None GPU_NVML (world (?st g))
        (cflags sample_command) = (\<lparr>gbuffer = (gbuffer g)\<lparr>wdata := [], wfailed := 0\<rparr>, gworld = ()\<rparr>,
          \<lparr>rstatus = 1, rstart = 1000000005, rfinish = 1000000005, rdata = bytes_of ''nvml_library_missing''\<rparr>)"
      using h by (simp add: sample_command_def)
    from answer_whole [where st = "?st g" and c = sample_command
        and handle = "gpu_handle (\<lambda>_. True) sample_clock (sample_collect GPU_NVML) None GPU_NVML"
        and a = 64 and b = 64 and ans = "[]", OF _ _ _ _ this]
    show ?thesis by simp
  qed
  have "\<exists>st'. reader_turn gpu_flags (gpu_handle (\<lambda>_. True) sample_clock (sample_collect GPU_NVML) None GPU_NVML) 0
      \<lparr>rx = [Got 24, Got 1], tx = [Got 64, Got 64], inbound = command_bytes sample_command, outbound = [],
        previous = 0, world = g\<rparr> = Some (st', False)" for g
    using ans [of g] by (simp add: reader_turn_def receive_whole a seq)
  from this [of "\<lparr>gbuffer = \<lparr>wdata = [], wcapacity = 0, wfailed = 0\<rparr>, gworld = ()\<rparr>"]
  show ?thesis
    by (auto simp: gpu_main_def parse_vendor_def parse_parent_7 sample_system_def boot_def serve.simps)
qed

theorem gpu_reader_transcript_witness:
  "\<exists>st lib. gpu_main (\<lambda>_. True) sample_clock sample_collect sample_system [Got 24, Got 1] [Got 64, Got 64]
       (command_bytes sample_command) () [''reader'', ''7''] = Some (Served st lib)
     \<and> (\<exists>vendor legacy log. parse_vendor (drop 2 [''reader'', ''7'']) = Some (vendor, legacy)
       \<and> transcript gpu_flags (reply_ok gpu_wire_valid (\<lambda>bs. length bs \<le> 95)) (vendor_code vendor)
           0 (command_bytes sample_command) (outbound st) log)"
  using sample_run gpu_reader_transcript [where collect = sample_collect and sys = sample_system,
      OF sample_shorts(1) sample_shorts(2)] by blast

theorem gpu_reader_returns_witness:
  "\<exists>result. gpu_main (\<lambda>_. True) sample_clock sample_collect sample_system
     (Failed EINTR # replicate 48 (Got 1)) (replicate (24 * 16777280) (Got 1))
     (command_bytes sample_command) () [''reader'', ''7''] = Some result"
proof (rule gpu_reader_returns [OF sample_shorts])
  have g: "gots (replicate n (Got 1)) = n" for n by (induction n) auto
  have w: "list_all willing (replicate n (Got 1))" for n by (simp add: list_all_length)
  show "24 + length (command_bytes sample_command) \<le> gots (Failed EINTR # replicate 48 (Got 1))"
    using g [of 48] by (simp only: gots.simps) simp
  show "length (command_bytes sample_command) * 16777280 \<le> gots (replicate (24 * 16777280) (Got 1))"
    by (simp only: g length_command_bytes)
  show "list_all willing (Failed EINTR # replicate 48 (Got 1))"
    using w [of 48] by (simp only: list.pred_inject willing.simps)
  show "list_all willing (replicate (24 * 16777280) (Got 1))" by (rule w)
qed

theorem legacy_restart_once_witness:
  "boot sample_system ''7'' GPU_LEVELZERO False () = Inl ([''wtop-gpu-reader'', ''7'', ''levelzero-legacy''], [9])
   \<and> list_all (\<lambda>n. 3 < n \<and> n \<le> 2147483647 \<and> n \<noteq> fd_directory sample_system) [9]
   \<and> (\<nexists>r. boot sample_system ''7'' GPU_LEVELZERO True () = Inl r)"
proof -
  have "boot sample_system ''7'' GPU_LEVELZERO False () = Inl ([''wtop-gpu-reader'', ''7'', ''levelzero-legacy''], [9])"
    by (simp add: boot_def sample_system_def close_extra_fds_def List.map_filter_simps fd_name_def
        is_digit_def digit_def code_def)
  from this legacy_restart_once [OF this, of sample_system "()"] show ?thesis by blast
qed

end
