(* ===== verification/HardwareReader.thy ===== *)
theory HardwareReader imports GpuReader begin

text \<open>
  The hardware reader process, \<^verbatim>\<open>native/wtop_hardware_worker.c\<close> as built on Linux: the
  memory limit of its Lua state, its arguments and configuration, and the answer to one
  request. The Lua collector it runs is a parameter: a function of a world and the two
  flags that gives the string the collector returned, or \<open>None\<close> when the call failed or
  returned something else.
\<close>

section \<open>The limited allocator\<close>

text \<open>
  \<open>fresh\<close> says that \<open>old\<close> is \<open>NULL\<close>, \<open>available\<close> that \<open>realloc\<close> succeeds. The result is the
  new value of the counter and whether a block is returned.
\<close>

definition limited_alloc :: "bool \<Rightarrow> u64 \<Rightarrow> bool \<Rightarrow> u64 \<Rightarrow> u64 \<Rightarrow> u64 \<times> bool" where
  "limited_alloc available used fresh old_size new_size =
     (let old_size = (if fresh then 0 else old_size) in
      if new_size = 0 then (used - old_size, False)
      else if old_size < new_size \<and> 134217728 - used < new_size - old_size then (used, False)
      else if available then (used - old_size + new_size, True) else (used, False))"

text \<open>
  The requests of the Lua state on its blocks, by their positions: the contract of
  \<open>lua_Alloc\<close> passes the size of the block, and an arbitrary tag with a \<open>NULL\<close> pointer.
\<close>

datatype lua_request = Allocate u64 u64 | Resize nat u64 | Release nat

record lua_heap =
  used_bytes :: u64
  blocks :: "u64 list"

fun heap_step :: "bool \<Rightarrow> lua_request \<Rightarrow> lua_heap \<Rightarrow> lua_heap" where
  "heap_step available (Allocate tag new_size) h =
     (case limited_alloc available (used_bytes h) True tag new_size of
        (u, ok) \<Rightarrow> h\<lparr>used_bytes := u, blocks := blocks h @ (if ok then [new_size] else [])\<rparr>)"
| "heap_step available (Resize i new_size) h =
     (if i < length (blocks h) \<and> new_size \<noteq> 0
      then case limited_alloc available (used_bytes h) False (blocks h ! i) new_size of
             (u, ok) \<Rightarrow> h\<lparr>used_bytes := u, blocks := (if ok then (blocks h)[i := new_size] else blocks h)\<rparr>
      else h)"
| "heap_step available (Release i) h =
     (if i < length (blocks h)
      then case limited_alloc available (used_bytes h) False (blocks h ! i) 0 of
             (u, ok) \<Rightarrow> h\<lparr>used_bytes := u, blocks := take i (blocks h) @ drop (Suc i) (blocks h)\<rparr>
      else h)"

definition heap_run :: "(bool \<times> lua_request) list \<Rightarrow> lua_heap" where
  "heap_run reqs = fold (\<lambda>(a, r). heap_step a r) reqs \<lparr>used_bytes = 0, blocks = []\<rparr>"

section \<open>The process\<close>

definition hardware_names :: "string list" where
  "hardware_names = [''hwmon'', ''cpufreq'', ''powercap'', ''cpu_limits'', ''thermal_throttle'',
     ''cpuidle'', ''thermal_zones'', ''smbios_input'', ''gpu_drm'', ''cpu_clocks'', ''cpuid'', ''spd'',
     ''disk_health'', ''wifi'', ''displays'', ''ram_bandwidth'', ''power_supply'', ''typec'', ''cppc'']"

fun index_of :: "'a \<Rightarrow> 'a list \<Rightarrow> nat option" where
  "index_of x [] = None"
| "index_of x (y # ys) = (if x = y then Some 0 else map_option Suc (index_of x ys))"

type_synonym 'w hardware_collect = "'w \<Rightarrow> bool \<Rightarrow> bool \<Rightarrow> 'w \<times> byte list option"

definition hardware_handle ::
  "('w \<Rightarrow> 'w \<times> (u64 \<times> u64) option) \<Rightarrow> bool \<Rightarrow> 'w hardware_collect \<Rightarrow> 'w \<Rightarrow> u32 \<Rightarrow> 'w \<times> reply" where
  "hardware_handle clock initialized collect w flags =
     (let (w1, start) = clock w;
          (w2, result) = (if initialized then collect w1 (flags AND 1 \<noteq> 0) (flags AND 4 \<noteq> 0) else (w1, None));
          success = (case result of Some data \<Rightarrow> 0 < length data \<and> length data \<le> GPU_WIRE_LIMIT | None \<Rightarrow> False);
          (w3, finish) = clock w2 in
      (w3, \<lparr>rstatus = (if success then 0 else 1), rstart = monotonic_now start, rfinish = monotonic_now finish,
            rdata = (if success then the result else bytes_of ''hardware_collector_error'')\<rparr>))"

text \<open>What the process asks of the system: the Lua state, its initialisation, its memory.\<close>

record 'w hardware_system =
  hw_pdeathsig_failed :: bool
  hw_getppid :: nat
  hw_malloc_ok :: bool
  hw_newstate_ok :: bool
  hw_initialize :: "string \<Rightarrow> byte list \<Rightarrow> 'w \<Rightarrow> 'w \<times> bool"

datatype 'w hardware_exit = HwExit int | HwServed nat "'w reader"

text \<open>The configuration at the front of the channel: its length, then its bytes.\<close>

definition receive_configuration ::
  "bool \<Rightarrow> nat answer list \<Rightarrow> byte list \<Rightarrow> (int + (byte list \<times> byte list \<times> nat answer list)) option" where
  "receive_configuration malloc_ok ans stream =
     (case receive_exact ans stream 4 of
        None \<Rightarrow> None
      | Some (None, _, _) \<Rightarrow> Some (Inl 4)
      | Some (Some head, stream, ans) \<Rightarrow>
          (let new_size = gpu_u32 head in
           if new_size = 0 \<or> 65536 < new_size then Some (Inl 4)
           else if \<not> malloc_ok then Some (Inl 5)
           else case receive_exact ans stream (unat new_size) of
                  None \<Rightarrow> None
                | Some (None, _, _) \<Rightarrow> Some (Inl 4)
                | Some (Some configuration, stream, ans) \<Rightarrow> Some (Inr (configuration, stream, ans))))"

definition hardware_main ::
  "('w \<Rightarrow> 'w \<times> (u64 \<times> u64) option) \<Rightarrow> 'w hardware_collect \<Rightarrow> 'w hardware_system
     \<Rightarrow> nat answer list \<Rightarrow> nat answer list \<Rightarrow> byte list \<Rightarrow> 'w \<Rightarrow> string list \<Rightarrow> 'w hardware_exit option" where
  "hardware_main clock collect sys rxs txs input w argv =
     (if length argv \<noteq> 3 then Some (HwExit 2)
      else case (parse_parent (argv ! 1), index_of (argv ! 2) hardware_names) of
        (Some parent, Some source) \<Rightarrow>
          if hw_pdeathsig_failed sys \<or> hw_getppid sys \<noteq> parent then Some (HwExit 3)
          else (case receive_configuration (hw_malloc_ok sys) rxs input of
                  None \<Rightarrow> None
                | Some (Inl status) \<Rightarrow> Some (HwExit status)
                | Some (Inr (configuration, stream, ans)) \<Rightarrow>
                    if \<not> hw_newstate_ok sys then Some (HwExit 5)
                    else let (w', initialized) = hw_initialize sys (argv ! 2) configuration w in
                      map_option (HwServed source)
                        (serve hardware_flags (hardware_handle clock initialized collect)
                           (word_of_nat source + 3)
                           \<lparr>rx = ans, tx = txs, inbound = stream, outbound = [], previous = 0, world = w'\<rparr>))
      | _ \<Rightarrow> Some (HwExit 2))"

section \<open>The reader keeps the server contract\<close>

interpretation hardware: frame_server hardware_flags "hardware_handle clock initialized collect" vendor
  "\<lambda>d. d \<noteq> []" "\<lambda>d. d = bytes_of ''hardware_collector_error''"
  for clock initialized collect vendor
proof
  fix f w w' r
  assume "hardware_handle clock initialized collect w f = (w', r)"
  then show "reply_ok (\<lambda>d. d \<noteq> []) (\<lambda>d. d = bytes_of ''hardware_collector_error'') r"
    by (auto simp: hardware_handle_def reply_ok_def Let_def split: prod.splits option.splits if_splits)
qed

section \<open>Accounting of the allocator\<close>

definition heap_inv :: "lua_heap \<Rightarrow> bool" where
  "heap_inv h \<longleftrightarrow> unat (used_bytes h) = sum_list (map unat (blocks h)) \<and> unat (used_bytes h) \<le> 134217728"

lemma unat_word_add: "unat a + unat b < 2 ^ LENGTH('a) \<Longrightarrow> unat (a + b :: 'a::len word) = unat a + unat b"
  using unat_add_lem by blast

lemma limited_alloc_moves:
  assumes "limited_alloc available used fresh old new_size = (u, True)"
    and "(if fresh then 0 else unat old) \<le> unat used" and "unat used \<le> 134217728"
  shows "unat u = unat used - (if fresh then 0 else unat old) + unat new_size \<and> unat u \<le> 134217728"
proof -
  define ob where "ob = (if fresh then 0 else old)"
  have ob: "unat ob \<le> unat used" using assms(2) by (simp add: ob_def split: if_splits)
  have u: "u = used - ob + new_size" "\<not> (ob < new_size \<and> 134217728 - used < new_size - ob)"
    using assms(1) by (simp_all add: limited_alloc_def ob_def Let_def split: if_splits)
  have rest: "unat (used - ob) = unat used - unat ob" using ob by (simp add: unat_sub word_le_nat_alt)
  have room: "unat (134217728 - used) = 134217728 - unat used"
    using assms(3) by (simp add: unat_sub word_le_nat_alt)
  have le: "unat used - unat ob + unat new_size \<le> 134217728"
  proof (cases "ob < new_size")
    case True
    then have "unat (new_size - ob) = unat new_size - unat ob" by (simp add: unat_sub)
    then have "unat new_size - unat ob \<le> 134217728 - unat used"
      using u(2) True room by (simp add: word_less_nat_alt)
    then show ?thesis using ob assms(3) by linarith
  next
    case False
    then have "unat new_size \<le> unat ob" by (simp add: word_less_nat_alt not_less)
    then show ?thesis using ob assms(3) by linarith
  qed
  then have "unat u = unat (used - ob) + unat new_size"
    unfolding u(1) by (intro unat_word_add) (simp add: rest)
  then show ?thesis using le rest by (simp add: ob_def)
qed

lemma limited_alloc_refuses:
  "limited_alloc available used fresh old new_size = (u, False) \<Longrightarrow> new_size \<noteq> 0 \<Longrightarrow> u = used"
  by (auto simp: limited_alloc_def Let_def split: if_splits)

lemma block_le: "i < length bs \<Longrightarrow> unat (bs ! i) \<le> sum_list (map unat (bs :: u64 list))"
  using member_le_sum_list [of "unat (bs ! i)" "map unat bs"] by simp

lemma blocks_update:
  assumes "i < length bs"
  shows "sum_list (map unat (bs[i := b])) = sum_list (map unat bs) - unat (bs ! i) + unat (b :: u64)"
proof -
  have "sum_list (map unat (bs[i := b])) = sum_list (map unat bs) + unat b - unat (bs ! i)"
    using assms by (simp add: map_update sum_list_update)
  then show ?thesis using block_le [OF assms] by linarith
qed

lemma blocks_remove:
  assumes "i < length bs"
  shows "sum_list (map unat (take i bs @ drop (Suc i) bs)) = sum_list (map unat bs) - unat (bs ! i :: u64)"
proof -
  have "sum_list (map unat bs) = sum_list (map unat (take i bs @ bs ! i # drop (Suc i) bs))"
    using id_take_nth_drop [OF assms] by simp
  then show ?thesis by simp
qed

lemma heap_step_inv:
  assumes "heap_inv h"
  shows "heap_inv (heap_step available r h)"
proof (cases r)
  case (Allocate tag n)
  obtain u ok where l: "limited_alloc available (used_bytes h) True tag n = (u, ok)" by fastforce
  show ?thesis
  proof (cases ok)
    case True
    then show ?thesis using limited_alloc_moves [of available "used_bytes h" True tag n u] l assms Allocate
      by (simp add: heap_inv_def)
  next
    case False
    then have "u = used_bytes h"
      using l by (auto simp: limited_alloc_def split: if_splits)
    then show ?thesis using l False assms Allocate by (simp add: heap_inv_def)
  qed
next
  case (Resize i n)
  show ?thesis
  proof (cases "i < length (blocks h) \<and> n \<noteq> 0")
    case True
    obtain u ok where l: "limited_alloc available (used_bytes h) False (blocks h ! i) n = (u, ok)" by fastforce
    show ?thesis
    proof (cases ok)
      case ok: True
      then show ?thesis using limited_alloc_moves [of available "used_bytes h" False "blocks h ! i" n u] l assms Resize True
          block_le [of i "blocks h"] by (simp add: heap_inv_def blocks_update)
    next
      case False
      then have "u = used_bytes h" using l True by (simp add: limited_alloc_refuses)
      then show ?thesis using l False assms Resize True by (simp add: heap_inv_def)
    qed
  qed (use assms Resize in auto)
next
  case (Release i)
  show ?thesis
  proof (cases "i < length (blocks h)")
    case True
    have "unat (blocks h ! i) \<le> unat (used_bytes h)"
      using block_le [OF True] assms by (simp add: heap_inv_def)
    then have "unat (used_bytes h - blocks h ! i) = unat (used_bytes h) - unat (blocks h ! i)"
      by (simp add: unat_sub word_le_nat_alt)
    then show ?thesis using assms Release True
      by (simp add: heap_inv_def limited_alloc_def blocks_remove le_diff_conv
          trans_le_add1 del: map_append sum_list_append)
  qed (use assms Release in simp)
qed

section \<open>Properties\<close>

text \<open>
  C9. The memory limit of the collector is exact: after any sequence of requests of the
  Lua state, whatever \<open>realloc\<close> answers, the counter is the sum of the live blocks and
  never exceeds 128 MiB.
\<close>

theorem lua_memory_bounded:
  "unat (used_bytes (heap_run reqs)) = sum_list (map unat (blocks (heap_run reqs)))
   \<and> sum_list (map unat (blocks (heap_run reqs))) \<le> 134217728"
proof -
  have "heap_inv h \<Longrightarrow> heap_inv (fold (\<lambda>(a, r). heap_step a r) reqs h)" for h
    by (induction reqs arbitrary: h) (auto simp: heap_step_inv)
  moreover have "heap_inv \<lparr>used_bytes = 0, blocks = []\<rparr>" by (simp add: heap_inv_def)
  ultimately have "heap_inv (heap_run reqs)" by (simp add: heap_run_def)
  then show ?thesis by (simp add: heap_inv_def)
qed

lemma receive_configuration_Inr:
  assumes "receive_configuration m ans input = Some (Inr (configuration, stream, ans'))"
  shows "input = gpu_put32 (word_of_nat (length configuration)) @ configuration @ stream
    \<and> 0 < length configuration \<and> length configuration \<le> 65536"
proof -
  from assms obtain h s1 a1 where h: "receive_exact ans input 4 = Some (Some h, s1, a1)"
    by (auto simp: receive_configuration_def split: option.splits)
  with assms have size: "gpu_u32 h \<noteq> 0" "gpu_u32 h \<le> 65536"
    by (auto simp: receive_configuration_def Let_def split: if_splits)
  with h assms have c: "receive_exact a1 s1 (unat (gpu_u32 h)) = Some (Some configuration, stream, ans')"
    by (auto simp: receive_configuration_def Let_def split: if_splits option.splits)
  have H: "input = h @ s1" "length h = 4"
    using reader_channel.split_back [of ans input 4 h s1 a1] h by (simp_all add: received_def)
  have C: "s1 = configuration @ stream" and len: "length configuration = unat (gpu_u32 h)"
    using reader_channel.split_back [of a1 s1 "unat (gpu_u32 h)" configuration stream ans'] c by (simp_all add: received_def)
  have "h = gpu_put32 (gpu_u32 h)" using H(2) by (simp add: gpu_put32_u32)
  then have h': "h = gpu_put32 (word_of_nat (length configuration))" by (simp add: len)
  have "input = h @ configuration @ stream" using H(1) C by simp
  moreover have "0 < unat (gpu_u32 h)" using size(1) by (simp add: unat_gt_0)
  moreover have "unat (gpu_u32 h) \<le> 65536" using size(2) by (simp add: word_le_nat_alt)
  ultimately show ?thesis using h' len by metis
qed

text \<open>
  C10. A hardware reader that leaves its loop has read a configuration of 1 to 65536 bytes
  in front of its commands, and has answered the commands that follow in order, with
  increasing sequences, each by a non-empty payload within the limit or, at the end, by
  the one failure reason the client knows; the reply names the collector.
\<close>

theorem hardware_reader_transcript:
  assumes "hardware_main clock collect sys rxs txs input w argv = Some (HwServed source st)"
  shows "\<exists>configuration rest log. index_of (argv ! 2) hardware_names = Some source
    \<and> input = gpu_put32 (word_of_nat (length configuration)) @ configuration @ rest
    \<and> 0 < length configuration \<and> length configuration \<le> 65536
    \<and> transcript hardware_flags (reply_ok (\<lambda>d. d \<noteq> []) (\<lambda>d. d = bytes_of ''hardware_collector_error''))
        (word_of_nat source + 3) 0 rest (outbound st) log"
proof -
  from assms obtain parent src conf stream ans where m:
      "parse_parent (argv ! 1) = Some parent" "index_of (argv ! 2) hardware_names = Some src"
      "receive_configuration (hw_malloc_ok sys) rxs input = Some (Inr (conf, stream, ans))"
    unfolding hardware_main_def by (auto split: if_splits option.splits sum.splits)
  obtain w' initialized where i: "hw_initialize sys (argv ! 2) conf w = (w', initialized)" by fastforce
  have "src = source" and s: "serve hardware_flags (hardware_handle clock initialized collect) (word_of_nat source + 3)
      \<lparr>rx = ans, tx = txs, inbound = stream, outbound = [], previous = 0, world = w'\<rparr> = Some st"
    using assms m i unfolding hardware_main_def by (auto split: if_splits)
  with hardware.serve_transcript [OF s] receive_configuration_Inr [OF m(3)] m(2)
  show ?thesis by auto
qed

section \<open>A concrete run\<close>

definition hw_sample_system :: "unit hardware_system" where
  "hw_sample_system = \<lparr>hw_pdeathsig_failed = False, hw_getppid = 7, hw_malloc_ok = True,
     hw_newstate_ok = True, hw_initialize = (\<lambda>name conf w. (w, True))\<rparr>"

definition hw_sample_collect :: "unit hardware_collect" where
  "hw_sample_collect w safe deep = (w, Some [if deep then 100 else 48])"

definition hw_sample_command :: command where
  "hw_sample_command = \<lparr>csequence = 3, cflags = 4\<rparr>"

definition hw_sample_input :: "byte list" where
  "hw_sample_input = gpu_put32 1 @ [123] @ command_bytes hw_sample_command"

lemma hw_sample_run:
  "\<exists>st. hardware_main sample_clock hw_sample_collect hw_sample_system
     [Got 4, Got 5, Got 24, Got 9] [Got 64, Got 64] hw_sample_input () [''reader'', ''7'', ''gpu_drm'']
   = Some (HwServed 8 st)"
proof -
  let ?h = "hardware_handle sample_clock True hw_sample_collect"
  let ?st = "\<lparr>rx = [Got 9], tx = [Got 64, Got 64], inbound = [], outbound = [],
      previous = csequence hw_sample_command, world = ()\<rparr>"
  have idx: "index_of ''gpu_drm'' hardware_names = Some 8" by (simp add: hardware_names_def)
  have sys: "hw_getppid hw_sample_system = 7" "\<not> hw_pdeathsig_failed hw_sample_system"
      "hw_malloc_ok hw_sample_system" "hw_newstate_ok hw_sample_system"
      "hw_initialize hw_sample_system name conf w = (w, True)" for name conf w
    by (simp_all add: hw_sample_system_def)
  have p: "gpu_u32 (gpu_put32 1) = 1" using le32.get_put [of 1 "[]"] by simp
  have conf: "receive_configuration True [Got 4, Got 5, Got 24, Got 9] hw_sample_input
      = Some (Inr ([123], command_bytes hw_sample_command, [Got 24, Got 9]))"
    by (simp add: receive_configuration_def hw_sample_input_def receive_whole p moved_def)
  have acc: "accept_command hardware_flags 0 (command_bytes hw_sample_command) = Some hw_sample_command"
    by (simp add: accept_written hw_sample_command_def hardware_flags_def)
  have "?h (world ?st) (cflags hw_sample_command) =
      ((), \<lparr>rstatus = 0, rstart = 1000000005, rfinish = 1000000005, rdata = [100]\<rparr>)"
    by (simp add: hardware_handle_def sample_clock_def hw_sample_collect_def monotonic_now_def
        hw_sample_command_def)
  from answer_whole [where st = ?st and c = hw_sample_command and handle = ?h and a = 64 and b = 64
      and ans = "[]", OF _ _ _ _ this, of 11]
  obtain st' where ans: "answer_command ?h 11 hw_sample_command ?st = Some (st', True)" by simp
  have st': "rx st' = [Got 9]" "inbound st' = []" using answer_command_rx [OF ans] by simp_all
  have "cflags hw_sample_command \<noteq> 2" by (simp add: hw_sample_command_def)
  then have "reader_turn hardware_flags ?h 11 \<lparr>rx = [Got 24, Got 9], tx = [Got 64, Got 64],
      inbound = command_bytes hw_sample_command, outbound = [], previous = 0, world = ()\<rparr> = Some (st', True)"
    using ans by (simp add: reader_turn_def receive_whole acc)
  moreover have "receive_exact [Got 9] [] 24 = Some (None, [], [])"
    using receive_exact.simps(4) [of 9 "[]" "[]" 23] by (simp add: moved_def)
  then have "reader_turn hardware_flags ?h 11 st' = Some (st'\<lparr>rx := [], inbound := []\<rparr>, False)"
    by (simp add: reader_turn_def st')
  ultimately have "\<exists>st. serve hardware_flags ?h 11 \<lparr>rx = [Got 24, Got 9], tx = [Got 64, Got 64],
      inbound = command_bytes hw_sample_command, outbound = [], previous = 0, world = ()\<rparr> = Some st"
    by (simp add: serve.simps [of hardware_flags ?h 11])
  then show ?thesis
    by (auto simp: hardware_main_def parse_parent_7 idx sys conf)
qed

theorem hardware_reader_transcript_witness:
  "\<exists>(st :: unit reader) configuration rest log. hw_sample_input = gpu_put32 (word_of_nat (length configuration)) @ configuration @ rest
    \<and> 0 < length configuration
    \<and> transcript hardware_flags (reply_ok (\<lambda>d. d \<noteq> []) (\<lambda>d. d = bytes_of ''hardware_collector_error''))
        (word_of_nat 8 + 3) 0 rest (outbound st) log"
proof -
  obtain st where "hardware_main sample_clock hw_sample_collect hw_sample_system
     [Got 4, Got 5, Got 24, Got 9] [Got 64, Got 64] hw_sample_input () [''reader'', ''7'', ''gpu_drm'']
   = Some (HwServed 8 st)" using hw_sample_run by blast
  from hardware_reader_transcript [OF this] show ?thesis by blast
qed

end
