(* ===== verification/WorkerIpc.thy ===== *)
theory WorkerIpc imports HardwareReader begin

text \<open>
  The client's side of the reader protocol, \<^verbatim>\<open>native/wtop_worker_client.c\<close>: the
  non-blocking transfer with its deadline, one request and its response, the messages of
  the errors, the end of a child process and the copy of the environment.
\<close>

section \<open>Sources and their error messages\<close>

text \<open>Sources 0 to 2 are the GPU vendors, the others the hardware collectors.\<close>

definition worker_names :: "string list" where
  "worker_names = [''nvml'', ''amdsmi'', ''levelzero''] @ hardware_names"

datatype gpu_error = UNAVAILABLE | BUSY | CLOSED | ALLOCATION | PENDING | TIMEOUT | INVALID | EXITED

fun error_text :: "gpu_error \<Rightarrow> string" where
  "error_text UNAVAILABLE = ''_worker_unavailable''"
| "error_text BUSY = ''_worker_busy''"
| "error_text CLOSED = ''_worker_closed''"
| "error_text ALLOCATION = ''_allocation_failed''"
| "error_text PENDING = ''_query_pending''"
| "error_text TIMEOUT = ''_query_timeout''"
| "error_text INVALID = ''_invalid_response''"
| "error_text EXITED = ''_worker_exited''"

definition source_prefix :: "nat \<Rightarrow> string" where
  "source_prefix source = (if source < 3 then worker_names ! source else ''hardware'')"

definition worker_error :: "nat \<Rightarrow> gpu_error \<Rightarrow> string" where
  "worker_error source e = source_prefix source @ error_text e"

section \<open>Transfers with a deadline\<close>

text \<open>
  One turn of the loop: the cancellation flag, the clock, the answer of the non-blocking
  \<open>send\<close> or \<open>recv\<close>, and what \<open>poll\<close> answers for a timeout (an error, or \<open>None\<close>).
\<close>

record io_turn =
  t_cancelled :: bool
  t_now :: u64
  t_io :: "nat answer"
  t_poll :: "int \<Rightarrow> errno option"

definition poll_timeout :: "u64 \<Rightarrow> u64 \<Rightarrow> int" where
  "poll_timeout deadline now =
     (let timeout = sint (ucast ((deadline - now) div 1000000) :: 32 word);
          timeout = (if 20 < timeout then 20 else timeout)
      in if timeout < 1 then 1 else timeout)"

text \<open>
  The source is the data to send or the stream to read from: both directions move a prefix
  of it. The result is the error (0 for success), the bytes moved, what is left of the
  source and the unused turns.
\<close>

fun transfer :: "u64 \<Rightarrow> io_turn list \<Rightarrow> byte list \<Rightarrow> nat \<Rightarrow> (errno \<times> byte list \<times> byte list \<times> io_turn list) option" where
  "transfer deadline ts source 0 = Some (0, [], source, ts)"
| "transfer deadline [] source (Suc k) = None"
| "transfer deadline (t # ts) source (Suc k) =
     (if t_cancelled t then Some (ECANCELED, [], source, ts)
      else if t_now t = 0 \<or> deadline \<le> t_now t then Some (ETIMEDOUT, [], source, ts)
      else case t_io t of
        Got c \<Rightarrow>
          (let n = moved c (Suc k) source in
           if n = 0 then Some (EPIPE, [], source, ts)
           else case transfer deadline ts (drop n source) (Suc k - n) of
                  None \<Rightarrow> None
                | Some (e, data, source', ts') \<Rightarrow> Some (e, take n source @ data, source', ts'))
      | Failed e \<Rightarrow>
          (if e = EINTR then transfer deadline ts source (Suc k)
           else if e \<noteq> EAGAIN \<and> e \<noteq> EWOULDBLOCK then Some (e, [], source, ts)
           else case t_poll t (poll_timeout deadline (t_now t)) of
                  Some p \<Rightarrow> if p \<noteq> EINTR then Some (p, [], source, ts)
                            else transfer deadline ts source (Suc k)
                | None \<Rightarrow> transfer deadline ts source (Suc k)))"

section \<open>One request\<close>

record gpu_frame =
  fstarted :: u64
  ffinished :: u64
  fprocesses :: u32
  fdata :: "byte list"

definition query_ns :: u64 where "query_ns = 2000000000"
definition frame_ns :: u64 where "frame_ns = 5000000000"
definition retry_ns :: u64 where "retry_ns = 5000000000"

text \<open>The checks on the 64 header bytes.\<close>

definition accept_header :: "nat \<Rightarrow> command \<Rightarrow> u64 \<Rightarrow> u64 \<Rightarrow> byte list \<Rightarrow> bool" where
  "accept_header source c requested now h =
     (let length = gpu_u32 (drop 8 h); status = gpu_u32 (drop 12 h);
          started = gpu_u64 (drop 24 h); finished = gpu_u64 (drop 32 h) in
      \<not> (gpu_u32 h \<noteq> GPU_WIRE_MAGIC \<or> gpu_u32 (drop 4 h) \<noteq> GPU_WIRE_VERSION
         \<or> length = 0 \<or> 16777216 < length \<or> 1 < status
         \<or> gpu_u64 (drop 16 h) \<noteq> csequence c \<or> gpu_u32 (drop 40 h) \<noteq> cflags c
         \<or> gpu_u32 (drop 48 h) \<noteq> word_of_nat source \<or> gpu_u32 (drop 52 h) \<noteq> 0 \<or> gpu_u64 (drop 56 h) \<noteq> 0
         \<or> started = 0 \<or> started < requested \<or> finished < started \<or> now < finished))"

text \<open>A failure reason names its source and is made of small letters and underscores.\<close>

definition reason_byte :: "byte \<Rightarrow> bool" where
  "reason_byte b \<longleftrightarrow> (97 \<le> b \<and> b \<le> 122) \<or> b = 95"

definition reason_ok :: "nat \<Rightarrow> byte list \<Rightarrow> bool" where
  "reason_ok source data =
     (let name = bytes_of (source_prefix source); n = length name in
      if 96 \<le> length data \<or> length data \<le> n + 1 \<or> take n data \<noteq> name \<or> data ! n \<noteq> 95 then False
      else list_all reason_byte data)"

text \<open>What \<open>read_response\<close> gives: a frame, an error number, or the reader's reason.\<close>

datatype response = Frame gpu_frame | Broken errno | Reason string

definition check_payload :: "nat \<Rightarrow> u32 \<Rightarrow> byte list \<Rightarrow> byte list \<Rightarrow> gpu_frame \<Rightarrow> response" where
  "check_payload source status h data frame =
     (if gpu_checksum data \<noteq> gpu_u32 (drop 44 h) then Broken EPROTO
      else if status \<noteq> 0 then (if reason_ok source data then Reason (text_of data) else Broken EPROTO)
      else if source < 3 \<and> \<not> gpu_wire_valid data then Broken EPROTO
      else Frame frame)"

text \<open>
  One request of the controller: the command goes out (its bytes are returned), header and
  payload come in. \<open>now\<close> is the clock when the header is checked.
\<close>

definition read_response ::
  "nat \<Rightarrow> command \<Rightarrow> u64 \<Rightarrow> u64 \<Rightarrow> bool \<Rightarrow> io_turn list \<Rightarrow> byte list
     \<Rightarrow> (response \<times> byte list \<times> byte list \<times> io_turn list) option" where
  "read_response source c requested now malloc_ok ts stream =
     (let deadline = requested + query_ns in
      case transfer deadline ts (command_bytes c) GPU_WIRE_COMMAND of
        None \<Rightarrow> None
      | Some (e, sent, _, ts) \<Rightarrow>
          if e \<noteq> 0 then Some (Broken e, sent, stream, ts)
          else case transfer deadline ts stream GPU_WIRE_HEADER of
            None \<Rightarrow> None
          | Some (e, h, stream, ts) \<Rightarrow>
              if e \<noteq> 0 then Some (Broken e, sent, stream, ts)
              else if \<not> accept_header source c requested now h then Some (Broken EPROTO, sent, stream, ts)
              else if \<not> malloc_ok then Some (Broken ENOMEM, sent, stream, ts)
              else case transfer deadline ts stream (unat (gpu_u32 (drop 8 h))) of
                None \<Rightarrow> None
              | Some (e, data, stream, ts) \<Rightarrow>
                  if e \<noteq> 0 then Some (Broken e, sent, stream, ts)
                  else Some (check_payload source (gpu_u32 (drop 12 h)) h data
                    \<lparr>fstarted = gpu_u64 (drop 24 h), ffinished = gpu_u64 (drop 32 h),
                     fprocesses = cflags c, fdata = data\<rparr>, sent, stream, ts))"

text \<open>The error a failed response is reported as.\<close>

definition response_error :: "nat \<Rightarrow> response \<Rightarrow> string" where
  "response_error source r = (case r of
     Reason s \<Rightarrow> s
   | Broken e \<Rightarrow> worker_error source
       (if e = ETIMEDOUT then TIMEOUT else if e = ENOMEM then ALLOCATION
        else if e = EPROTO then INVALID else EXITED)
   | Frame _ \<Rightarrow> [])"

section \<open>The end of the child\<close>

text \<open>
  The reaping loop over the answers of \<open>waitpid\<close> (0: still running) and the clock; the
  result tells how many turns slept longer and whether the child was killed.
\<close>

record reap_turn =
  r_wait :: "int answer"
  r_now :: u64

fun reap :: "int \<Rightarrow> u64 \<Rightarrow> bool \<Rightarrow> reap_turn list \<Rightarrow> (nat \<times> bool) option" where
  "reap pid deadline killed [] = None"
| "reap pid deadline killed (t # ts) =
     (if r_wait t = Got pid \<or> r_wait t = Failed ECHILD then Some (0, killed)
      else let slow = (case r_wait t of Failed e \<Rightarrow> e \<noteq> EINTR | Got _ \<Rightarrow> False) in
        map_option (\<lambda>(n, k). (n + (if slow then 1 else 0), k))
          (reap pid deadline (killed \<or> deadline \<le> r_now t) ts))"

text \<open>The quit command, sent once without waiting before the channel is closed.\<close>

definition quit_command :: "u64 \<Rightarrow> byte list" where
  "quit_command sequence = command_bytes \<lparr>csequence = sequence + 1, cflags = 2\<rparr>"

definition finish_child :: "int \<Rightarrow> u64 \<Rightarrow> u64 \<Rightarrow> reap_turn list \<Rightarrow> (byte list \<times> (nat \<times> bool)) option" where
  "finish_child pid sequence now ts =
     (if pid \<le> 0 then Some ([], (0, False))
      else map_option (\<lambda>r. (quit_command sequence, r)) (reap pid (now + 20000000) False ts))"

section \<open>The environment\<close>

fun environment_loop :: "nat \<Rightarrow> nat \<Rightarrow> string list \<Rightarrow> bool" where
  "environment_loop count bytes [] = True"
| "environment_loop count bytes (v # vs) =
     (let n = min (length v) 1048577 in
      if count = 4096 \<or> 1048576 \<le> bytes \<or> 1048576 - bytes \<le> n then False
      else environment_loop (count + 1) (bytes + n + 1) vs)"

definition environment_copy :: "string list \<Rightarrow> bool \<Rightarrow> errno + string list" where
  "environment_copy environ memory_ok =
     (if \<not> environment_loop 0 0 environ then Inl E2BIG
      else if \<not> memory_ok then Inl ENOMEM else Inr environ)"

section \<open>The transfer is exact\<close>

text \<open>The kernel reports a failure by a positive error number.\<close>

definition sane :: "io_turn \<Rightarrow> bool" where
  "sane t \<longleftrightarrow> t_io t \<noteq> Failed 0 \<and> (\<forall>timeout. t_poll t timeout \<noteq> Some 0)"

lemma transfer_data:
  "transfer deadline ts source k = Some (0, data, source', ts') \<Longrightarrow> list_all sane ts \<Longrightarrow>
     k \<le> length source \<and> data = take k source \<and> source' = drop k source \<and> list_all sane ts'"
proof (induction deadline ts source k arbitrary: data source' ts' rule: transfer.induct)
  case (3 deadline t ts source k)
  have live: "\<not> t_cancelled t" "\<not> (t_now t = 0 \<or> deadline \<le> t_now t)"
    using "3.prems" by (auto split: if_splits)
  show ?case
  proof (cases "t_io t")
    case (Got c)
    let ?n = "moved c (Suc k) source"
    have pos: "?n \<noteq> 0" by (rule notI) (use "3.prems" live Got in \<open>simp add: Let_def\<close>)
    then obtain d where d: "transfer deadline ts (drop ?n source) (Suc k - ?n) = Some (0, d, source', ts')"
        "data = take ?n source @ d"
      using "3.prems" live Got by (auto simp: Let_def split: option.splits)
    have "?n \<le> Suc k" "?n \<le> length source" by (simp_all add: moved_le)
    with "3.IH"(1) [OF live Got refl pos d(1)] d(2) "3.prems"(2) show ?thesis
      by (auto simp: take_split [of ?n "Suc k"] drop_split)
  next
    case (Failed e)
    let ?x = "poll_timeout deadline (t_now t)"
    have s: "t_poll t ?x \<noteq> Some 0" "e \<noteq> 0" using "3.prems"(2) Failed by (auto simp: sane_def)
    show ?thesis
    proof (cases "e = EINTR")
      case True
      then have "transfer deadline ts source (Suc k) = Some (0, data, source', ts')"
        using "3.prems"(1) live Failed by simp
      from "3.IH"(2) [OF live Failed True this] "3.prems"(2) show ?thesis by simp
    next
      case False
      then have again: "\<not> (e \<noteq> EAGAIN \<and> e \<noteq> EWOULDBLOCK)"
        by (rule contrapos_pn) (use "3.prems"(1) live Failed False s in auto)
      show ?thesis
      proof (cases "t_poll t ?x")
        case None
        then have "transfer deadline ts source (Suc k) = Some (0, data, source', ts')"
          using "3.prems"(1) live Failed False again by simp
        from "3.IH"(3) [OF live Failed False again None this] "3.prems"(2) show ?thesis by simp
      next
        case (Some p)
        then have p: "\<not> p \<noteq> EINTR" 
          by (rule contrapos_pn) (use "3.prems"(1) live Failed False again s Some in auto)
        then have "transfer deadline ts source (Suc k) = Some (0, data, source', ts')"
          using "3.prems"(1) live Failed False again Some by simp
        from "3.IH"(4) [OF live Failed False again Some p this] "3.prems"(2) show ?thesis by simp
      qed
    qed
  qed
qed (auto split: if_splits)

definition transferred :: "u64 \<Rightarrow> io_turn list \<Rightarrow> byte list \<Rightarrow> nat \<Rightarrow> (byte list \<times> byte list \<times> io_turn list) option" where
  "transferred deadline ts source k = (case transfer deadline ts source k of
     Some (e, data, source', ts') \<Rightarrow> if e = 0 \<and> list_all sane ts then Some (data, source', ts') else None
   | None \<Rightarrow> None)"

interpretation client_channel: exact_channel "transferred deadline" for deadline
  by unfold_locales (auto simp: transferred_def dest!: transfer_data split: option.splits if_splits)

lemma client_split:
  assumes "transfer deadline ts source k = Some (0, data, source', ts')" "list_all sane ts"
  shows "source = data @ source' \<and> length data = k \<and> list_all sane ts'"
  using client_channel.split_back [of deadline ts source k data source' ts'] assms transfer_data [OF assms]
  by (simp add: transferred_def)

text \<open>A client that is neither cancelled nor late, over a kernel that keeps moving bytes.\<close>

definition prompt :: "u64 \<Rightarrow> io_turn \<Rightarrow> bool" where
  "prompt deadline t \<longleftrightarrow> \<not> t_cancelled t \<and> t_now t \<noteq> 0 \<and> t_now t < deadline
     \<and> (case t_io t of Got c \<Rightarrow> 0 < c
        | Failed e \<Rightarrow> e = EINTR \<or> e = EAGAIN \<and> (\<forall>x. t_poll t x = None \<or> t_poll t x = Some EINTR))"

fun io_gots :: "io_turn list \<Rightarrow> nat" where
  "io_gots [] = 0"
| "io_gots (t # ts) = (case t_io t of Got _ \<Rightarrow> 1 | Failed _ \<Rightarrow> 0) + io_gots ts"

lemma transfer_total:
  assumes "list_all (prompt deadline) ts" "k \<le> length source" "k \<le> io_gots ts"
  shows "\<exists>ts'. transfer deadline ts source k = Some (0, take k source, drop k source, ts')
    \<and> list_all (prompt deadline) ts' \<and> io_gots ts \<le> io_gots ts' + k"
  using assms
proof (induction deadline ts source k rule: transfer.induct)
  case (3 deadline t ts source k)
  have live: "\<not> t_cancelled t" "\<not> (t_now t = 0 \<or> deadline \<le> t_now t)"
    using "3.prems" by (auto simp: prompt_def)
  show ?case
  proof (cases "t_io t")
    case (Got c)
    let ?n = "moved c (Suc k) source"
    have "0 < c" "source \<noteq> []" using "3.prems" Got by (auto simp: prompt_def)
    then have pos: "?n \<noteq> 0" using moved_pos [of c "Suc k" source] by simp
    have le: "?n \<le> Suc k" "?n \<le> length source" by (simp_all add: moved_le)
    have "\<exists>ts'. transfer deadline ts (drop ?n source) (Suc k - ?n) =
          Some (0, take (Suc k - ?n) (drop ?n source), drop (Suc k - ?n) (drop ?n source), ts')
        \<and> list_all (prompt deadline) ts' \<and> io_gots ts \<le> io_gots ts' + (Suc k - ?n)"
      using "3.prems" pos Got by (intro "3.IH"(1) [OF live Got refl pos]) auto
    then obtain ts' where a: "transfer deadline ts (drop ?n source) (Suc k - ?n) =
          Some (0, take (Suc k - ?n) (drop ?n source), drop (Suc k - ?n) (drop ?n source), ts')"
        "list_all (prompt deadline) ts'" "io_gots ts \<le> io_gots ts' + (Suc k - ?n)" by blast
    have "io_gots (t # ts) \<le> io_gots ts' + Suc k" using a(3) pos Got by simp
    with a pos le live Got show ?thesis
      by (intro exI [of _ ts']) (simp add: Let_def take_split [of ?n "Suc k" source] drop_split)
  next
    case (Failed e)
    have e: "e = EINTR \<or> e = EAGAIN \<and> (\<forall>x. t_poll t x = None \<or> t_poll t x = Some EINTR)"
      using "3.prems"(1) Failed by (simp add: prompt_def)
    let ?x = "poll_timeout deadline (t_now t)"
    have IH: "\<exists>ts'. transfer deadline ts source (Suc k) = Some (0, take (Suc k) source, drop (Suc k) source, ts')
        \<and> list_all (prompt deadline) ts' \<and> io_gots ts \<le> io_gots ts' + Suc k"
    proof (cases "e = EINTR")
      case True
      then show ?thesis using "3.IH"(2) [OF live Failed True] "3.prems" Failed by simp
    next
      case False
      then have p: "\<not> (e \<noteq> EAGAIN \<and> e \<noteq> EWOULDBLOCK)" "t_poll t ?x = None \<or> t_poll t ?x = Some EINTR"
        using e by auto
      then show ?thesis
        using "3.IH"(3) [OF live Failed False p(1)] "3.IH"(4) [OF live Failed False p(1)] "3.prems" Failed by auto
    qed
    have "transfer deadline (t # ts) source (Suc k) = transfer deadline ts source (Suc k)"
      using live Failed e spec [of "\<lambda>x. t_poll t x = None \<or> t_poll t x = Some EINTR" ?x]
      by (cases "t_poll t ?x") auto
    moreover have "io_gots (t # ts) = io_gots ts" using Failed by simp
    ultimately show ?thesis using IH by metis
  qed
qed auto

section \<open>Replies are read back\<close>

lemma zero_padding: "replicate 12 0 = gpu_put32 0 @ gpu_put64 0"
proof -
  have "replicate 12 (0 :: byte) = [0, 0, 0, 0, 0, 0, 0, 0, 0, 0, 0, 0]"
    by (simp add: eval_nat_numeral)
  then show ?thesis by (simp add: gpu_put32_def gpu_put64_def upt_rec)
qed

lemma header_bytes:
  assumes "length h = 64" and "accept_header source c requested now h"
    and "length data = unat (gpu_u32 (drop 8 h))" and "gpu_checksum data = gpu_u32 (drop 44 h)"
  shows "h = reply_header (word_of_nat source) c \<lparr>rstatus = gpu_u32 (drop 12 h),
    rstart = gpu_u64 (drop 24 h), rfinish = gpu_u64 (drop 32 h), rdata = data\<rparr>"
proof -
  note z = zero_padding
  have f: "gpu_u32 h = 0x4d4e5457" "gpu_u32 (drop 4 h) = 2" "gpu_u64 (drop 16 h) = csequence c"
      "gpu_u32 (drop 40 h) = cflags c" "gpu_u32 (drop 48 h) = word_of_nat source"
      "gpu_u32 (drop 52 h) = 0" "gpu_u64 (drop 56 h) = 0"
    using assms(2) by (simp_all add: accept_header_def Let_def)
  have len: "(word_of_nat (length data) :: u32) = gpu_u32 (drop 8 h)" by (simp add: assms(3))
  let ?p = "\<lambda>i. gpu_put32 (gpu_u32 (drop i h))" and ?q = "\<lambda>i. gpu_put64 (gpu_u64 (drop i h))"
  have "reply_header (word_of_nat source) c \<lparr>rstatus = gpu_u32 (drop 12 h),
      rstart = gpu_u64 (drop 24 h), rfinish = gpu_u64 (drop 32 h), rdata = data\<rparr>
    = ?p 0 @ ?p 4 @ ?p 8 @ ?p 12 @ ?q 16 @ ?q 24 @ ?q 32 @ ?p 40 @ ?p 44 @ ?p 48 @ ?p 52 @ ?q 56"
    unfolding reply_header_def z using assms(4) by (simp add: f len)
  also have "\<dots> = take 4 h @ take 4 (drop 4 h) @ take 4 (drop 8 h) @ take 4 (drop 12 h) @ take 8 (drop 16 h)
      @ take 8 (drop 24 h) @ take 8 (drop 32 h) @ take 4 (drop 40 h) @ take 4 (drop 44 h) @ take 4 (drop 48 h)
      @ take 4 (drop 52 h) @ take 8 (drop 56 h)"
    using assms(1) by (simp add: gpu_put32_u32 gpu_put64_u64)
  also have "\<dots> = take (4 + (4 + (4 + (4 + (8 + (8 + (8 + (4 + (4 + (4 + (4 + 8))))))))))) h"
    by (simp only: take_add drop_drop append_assoc) simp
  also have "\<dots> = h" using assms(1) by simp
  finally show ?thesis by simp
qed

lemma header_fields:
  "gpu_u32 (reply_header v c r) = 0x4d4e5457" "gpu_u32 (drop 4 (reply_header v c r)) = 2"
  "gpu_u32 (drop 8 (reply_header v c r)) = word_of_nat (length (rdata r))"
  "gpu_u32 (drop 12 (reply_header v c r)) = rstatus r"
  "gpu_u64 (drop 16 (reply_header v c r)) = csequence c"
  "gpu_u64 (drop 24 (reply_header v c r)) = rstart r"
  "gpu_u64 (drop 32 (reply_header v c r)) = rfinish r"
  "gpu_u32 (drop 40 (reply_header v c r)) = cflags c"
  "gpu_u32 (drop 44 (reply_header v c r)) = gpu_checksum (rdata r)"
  "gpu_u32 (drop 48 (reply_header v c r)) = v"
  "gpu_u32 (drop 52 (reply_header v c r)) = 0" "gpu_u64 (drop 56 (reply_header v c r)) = 0"
proof -
  note z = zero_padding
  show "gpu_u32 (reply_header v c r) = 0x4d4e5457" "gpu_u32 (drop 4 (reply_header v c r)) = 2"
    "gpu_u32 (drop 8 (reply_header v c r)) = word_of_nat (length (rdata r))"
    "gpu_u32 (drop 12 (reply_header v c r)) = rstatus r"
    "gpu_u64 (drop 16 (reply_header v c r)) = csequence c"
    "gpu_u64 (drop 24 (reply_header v c r)) = rstart r"
    "gpu_u64 (drop 32 (reply_header v c r)) = rfinish r"
    "gpu_u32 (drop 40 (reply_header v c r)) = cflags c"
    "gpu_u32 (drop 44 (reply_header v c r)) = gpu_checksum (rdata r)"
    "gpu_u32 (drop 48 (reply_header v c r)) = v"
    "gpu_u32 (drop 52 (reply_header v c r)) = 0" "gpu_u64 (drop 56 (reply_header v c r)) = 0"
    unfolding reply_header_def z
    using le64.get_put [of 0 "[]"] by (simp_all add: le32.get_put le64.get_put)
qed

text \<open>When the client takes a reply of its reader: the exchange was in time.\<close>

definition timely :: "u64 \<Rightarrow> u64 \<Rightarrow> reply \<Rightarrow> bool" where
  "timely requested now r \<longleftrightarrow> rstart r \<noteq> 0 \<and> requested \<le> rstart r \<and> rstart r \<le> rfinish r \<and> rfinish r \<le> now"

lemma accept_written_header:
  assumes "timely requested now r" "rdata r \<noteq> []" "length (rdata r) \<le> 16777216" "rstatus r = 0 \<or> rstatus r = 1"
  shows "accept_header source c requested now (reply_header (word_of_nat source) c r)"
proof -
  let ?n = "word_of_nat (length (rdata r)) :: u32"
  have small: "length (rdata r) < 2 ^ LENGTH(32)" using assms(3) by simp
  then have n: "unat ?n = length (rdata r)" by (simp add: unat_of_nat take_bit_nat_eq_self)
  then have "?n \<noteq> 0" using assms(2) by (metis length_0_conv unat_0)
  moreover have "\<not> 16777216 < ?n" using n assms(3) by (simp add: word_less_nat_alt)
  moreover have "\<not> 1 < rstatus r" using assms(4) by auto
  ultimately show ?thesis
    using assms(1) unfolding accept_header_def header_fields Let_def timely_def
    by (simp add: not_less)
qed

lemma read_written:
  assumes turns: "list_all (prompt (requested + query_ns)) ts" "88 + length (rdata r) \<le> io_gots ts"
    and r: "timely requested now r" "rdata r \<noteq> []" "length (rdata r) \<le> 16777216" "rstatus r = 0 \<or> rstatus r = 1"
  shows "\<exists>ts'. read_response source c requested now True ts (reply_bytes (word_of_nat source) c r @ rest) =
    Some (check_payload source (rstatus r) (reply_header (word_of_nat source) c r) (rdata r)
      \<lparr>fstarted = rstart r, ffinished = rfinish r, fprocesses = cflags c, fdata = rdata r\<rparr>,
      command_bytes c, rest, ts')"
proof -
  let ?dl = "requested + query_ns" and ?h = "reply_header (word_of_nat source) c r"
  obtain t1 where t1: "transfer ?dl ts (command_bytes c) 24 = Some (0, command_bytes c, [], t1)"
      "list_all (prompt ?dl) t1" "io_gots ts \<le> io_gots t1 + 24"
    using transfer_total [OF turns(1), of 24 "command_bytes c"] turns(2) by auto
  obtain t2 where t2: "transfer ?dl t1 (?h @ rdata r @ rest) 64 = Some (0, ?h, rdata r @ rest, t2)"
      "list_all (prompt ?dl) t2" "io_gots t1 \<le> io_gots t2 + 64"
    using transfer_total [OF t1(2), of 64 "?h @ rdata r @ rest"] turns(2) t1(3) by auto
  obtain t3 where t3: "transfer ?dl t2 (rdata r @ rest) (length (rdata r)) = Some (0, rdata r, rest, t3)"
    using transfer_total [OF t2(2), of "length (rdata r)" "rdata r @ rest"] turns(2) t1(3) t2(3) by auto
  have "length (rdata r) < 2 ^ LENGTH(32)" using r(3) by simp
  then have n: "unat (word_of_nat (length (rdata r)) :: u32) = length (rdata r)"
    by (simp add: unat_of_nat take_bit_nat_eq_self)
  have acc: "accept_header source c requested now ?h" by (rule accept_written_header [OF r])
  show ?thesis
    unfolding read_response_def Let_def reply_bytes_def append_assoc
    by (simp add: t1(1) t2(1) acc header_fields n t3)
qed

section \<open>Properties\<close>

definition source_payload_ok :: "nat \<Rightarrow> byte list \<Rightarrow> bool" where
  "source_payload_ok source d \<longleftrightarrow> d \<noteq> [] \<and> (source < 3 \<longrightarrow> gpu_wire_valid d)"

text \<open>
  C11. Reader and client agree on the format: a reply of a reader that keeps the server
  contract, sent in time, is taken by the client whatever pieces the bytes arrive in; a
  success becomes the frame with the reader's payload and clock, a failure the reader's
  reason, and the bytes of the next reply are left untouched.
\<close>

theorem reply_understood:
  assumes "list_all (prompt (requested + query_ns)) ts" and "88 + length (rdata r) \<le> io_gots ts"
    and "timely requested now r" and "reply_ok (source_payload_ok source) (reason_ok source) r"
  shows "\<exists>ts'. read_response source c requested now True ts (reply_bytes (word_of_nat source) c r @ rest) =
    Some (if rstatus r = 0
          then Frame \<lparr>fstarted = rstart r, ffinished = rfinish r, fprocesses = cflags c, fdata = rdata r\<rparr>
          else Reason (text_of (rdata r)),
      command_bytes c, rest, ts')"
proof -
  have r: "rdata r \<noteq> []" "length (rdata r) \<le> 16777216" "rstatus r = 0 \<or> rstatus r = 1"
    using assms(4) by (auto simp: reply_ok_def source_payload_ok_def reason_ok_def Let_def split: if_splits)
  have "rstatus r = 0 \<longrightarrow> \<not> (source < 3 \<and> \<not> gpu_wire_valid (rdata r))"
    "rstatus r \<noteq> 0 \<longrightarrow> reason_ok source (rdata r)"
    using assms(4) by (auto simp: reply_ok_def source_payload_ok_def)
  then have cp: "check_payload source (rstatus r) (reply_header (word_of_nat source) c r) (rdata r) f =
      (if rstatus r = 0 then Frame f else Reason (text_of (rdata r)))" for f
    by (auto simp: check_payload_def header_fields)
  show ?thesis using read_written [OF assms(1,2,3) r, of source c rest] unfolding cp .
qed

text \<open>
  C12. The client takes nothing else: a frame only comes from bytes that are exactly a
  successful reply to this command (same sequence, same flags, same source, matching
  checksum, a payload within the limit that is a valid instruction stream for a GPU), begun
  after the request and finished before the check.
\<close>

theorem response_authentic:
  assumes "read_response source c requested now malloc_ok ts stream = Some (Frame f, sent, stream', ts')"
    and "list_all sane ts"
  shows "\<exists>r. sent = command_bytes c \<and> stream = reply_bytes (word_of_nat source) c r @ stream'
    \<and> rstatus r = 0 \<and> timely requested now r \<and> rdata r \<noteq> [] \<and> length (rdata r) \<le> 16777216
    \<and> (source < 3 \<longrightarrow> gpu_wire_valid (rdata r))
    \<and> f = \<lparr>fstarted = rstart r, ffinished = rfinish r, fprocesses = cflags c, fdata = rdata r\<rparr>"
proof -
  let ?dl = "requested + query_ns"
  obtain x t1 where t1: "transfer ?dl ts (command_bytes c) 24 = Some (0, sent, x, t1)"
    using assms(1) by (auto simp: read_response_def Let_def split: option.splits if_splits prod.splits)
  obtain h s1 t2 where t2: "transfer ?dl t1 stream 64 = Some (0, h, s1, t2)" "accept_header source c requested now h"
    using assms(1) t1 by (auto simp: read_response_def Let_def split: option.splits if_splits prod.splits)
  obtain d where t3: "transfer ?dl t2 s1 (unat (gpu_u32 (drop 8 h))) = Some (0, d, stream', ts')"
      and p: "check_payload source (gpu_u32 (drop 12 h)) h d \<lparr>fstarted = gpu_u64 (drop 24 h),
        ffinished = gpu_u64 (drop 32 h), fprocesses = cflags c, fdata = d\<rparr> = Frame f"
    using assms(1) t1 t2 by (auto simp: read_response_def Let_def split: option.splits if_splits prod.splits)
  note T1 = client_split [OF t1 assms(2)]
  have T1': "sent = command_bytes c" using T1 length_command_bytes [of c] by (metis append_eq_conv_conj take_all_iff order_refl)
  have T2: "stream = h @ s1" "length h = 64" "list_all sane t2" using client_split [OF t2(1)] T1 by simp_all
  have T3: "s1 = d @ stream'" "length d = unat (gpu_u32 (drop 8 h))" using client_split [OF t3 T2(3)] by simp_all
  have c: "gpu_checksum d = gpu_u32 (drop 44 h)" "gpu_u32 (drop 12 h) = 0" "source < 3 \<longrightarrow> gpu_wire_valid d"
      "f = \<lparr>fstarted = gpu_u64 (drop 24 h), ffinished = gpu_u64 (drop 32 h), fprocesses = cflags c, fdata = d\<rparr>"
    using p by (simp_all add: check_payload_def split: if_splits)
  define r where "r = \<lparr>rstatus = gpu_u32 (drop 12 h), rstart = gpu_u64 (drop 24 h),
    rfinish = gpu_u64 (drop 32 h), rdata = d\<rparr>"
  have "h = reply_header (word_of_nat source) c r"
    unfolding r_def by (rule header_bytes [OF T2(2) t2(2) T3(2) c(1)])
  then have "stream = reply_bytes (word_of_nat source) c r @ stream'"
    using T2 T3 by (simp add: reply_bytes_def r_def)
  moreover have "timely requested now r" using t2(2) by (simp add: r_def timely_def accept_header_def Let_def not_less)
  moreover have n: "gpu_u32 (drop 8 h) \<noteq> 0" "gpu_u32 (drop 8 h) \<le> 16777216"
    using t2(2) by (simp_all add: accept_header_def Let_def not_less)
  then have "0 < length d" "length d \<le> 16777216"
    using T3(2) by (simp_all add: unat_gt_0 word_le_nat_alt)
  ultimately show ?thesis using T1' c by (intro exI [of _ r]) (simp add: r_def)
qed

text \<open>
  The reasons the readers make up themselves pass the client's check on reasons, and
  so does every message the client reports for a broken exchange.
\<close>

theorem own_reasons_accepted:
  "reason_ok (unat (vendor_code v)) (bytes_of (invalid_response v))
   \<and> (\<forall>s \<in> {''levelzero_allocation_failed'', ''levelzero_worker_unavailable''}. reason_ok 2 (bytes_of s))
   \<and> (3 \<le> source \<longrightarrow> reason_ok source (bytes_of ''hardware_collector_error''))
   \<and> reason_ok source (bytes_of (worker_error source e))"
proof -
  note ev = reason_ok_def source_prefix_def worker_names_def reason_byte_def Let_def byte_of_def code_def worker_error_def
  have "reason_ok (unat (vendor_code v)) (bytes_of (invalid_response v))" by (cases v) (simp_all add: ev)
  moreover have "\<forall>s \<in> {''levelzero_allocation_failed'', ''levelzero_worker_unavailable''}. reason_ok 2 (bytes_of s)"
    by (simp add: ev)
  moreover have "3 \<le> source \<longrightarrow> reason_ok source (bytes_of ''hardware_collector_error'')" by (simp add: ev)
  moreover have "reason_ok source (bytes_of (worker_error source e))"
  proof (cases "source < 3")
    case True
    then have "source = 0 \<or> source = 1 \<or> source = 2" by linarith
    then show ?thesis by (elim disjE; cases e) (simp_all add: ev)
  next
    case False
    then show ?thesis by (cases e) (simp_all add: ev)
  qed
  ultimately show ?thesis by blast
qed

text \<open>
  C13. The end of a child: the quit command is one every reader leaves its loop on, the
  loop only ends when the child is reaped, and the child is killed if and only if a turn
  before that reached the deadline.
\<close>

theorem child_finished:
  assumes "finish_child pid sequence now ts = Some (sent, n, killed)" and "0 < pid"
  shows "sent = quit_command sequence
    \<and> (\<exists>i < length ts. (r_wait (ts ! i) = Got pid \<or> r_wait (ts ! i) = Failed ECHILD)
        \<and> killed = list_ex (\<lambda>t. now + 20000000 \<le> r_now t) (take i ts))
    \<and> (prev \<le> sequence \<and> sequence + 1 \<noteq> 0 \<longrightarrow>
        accept_command gpu_flags prev sent = Some \<lparr>csequence = sequence + 1, cflags = 2\<rparr>
        \<and> accept_command hardware_flags prev sent = Some \<lparr>csequence = sequence + 1, cflags = 2\<rparr>)"
proof -
  have reap: "reap pid dl k ts = Some (n, killed) \<Longrightarrow>
    \<exists>i < length ts. (r_wait (ts ! i) = Got pid \<or> r_wait (ts ! i) = Failed ECHILD)
      \<and> killed = (k \<or> list_ex (\<lambda>t. dl \<le> r_now t) (take i ts))" for dl k n ts
  proof (induction pid dl k ts arbitrary: n rule: reap.induct)
    case (2 pid dl k t ts)
    show ?case
    proof (cases "r_wait t = Got pid \<or> r_wait t = Failed ECHILD")
      case True
      then show ?thesis using "2.prems" by (intro exI [of _ 0]) auto
    next
      case False
      then obtain m where "reap pid dl (k \<or> dl \<le> r_now t) ts = Some (m, killed)"
        using "2.prems" by (auto simp: Let_def split: if_splits)
      from "2.IH" [OF False refl this] obtain i where "i < length ts"
          "r_wait (ts ! i) = Got pid \<or> r_wait (ts ! i) = Failed ECHILD"
          "killed = ((k \<or> dl \<le> r_now t) \<or> list_ex (\<lambda>t. dl \<le> r_now t) (take i ts))" by blast
      then show ?thesis by (intro exI [of _ "Suc i"]) auto
    qed
  qed simp
  have s: "sent = quit_command sequence" "reap pid (now + 20000000) False ts = Some (n, killed)"
    using assms by (auto simp: finish_child_def)
  have "prev \<le> sequence \<and> sequence + 1 \<noteq> 0 \<longrightarrow> prev < sequence + 1"
    using unatSuc [of sequence] by (auto simp: word_le_nat_alt word_less_nat_alt add.commute)
  then show ?thesis
    using s(1) reap [OF s(2)] by (auto simp: quit_command_def accept_written gpu_flags_def hardware_flags_def)
qed

text \<open>
  The environment handed to a reader is the caller's, unless it has more than 4096
  entries or more than 1 MiB of text with its terminators; then the copy fails as \<open>E2BIG\<close>.
\<close>

theorem environment_bounded:
  "environment_copy environ True =
     (if length environ \<le> 4096 \<and> sum_list (map (\<lambda>v. length v + 1) environ) \<le> 1048576
      then Inr environ else Inl E2BIG)"
proof -
  have "count \<le> 4096 \<Longrightarrow> bytes \<le> 1048576 \<Longrightarrow> environment_loop count bytes vs \<longleftrightarrow>
      count + length vs \<le> 4096 \<and> bytes + sum_list (map (\<lambda>v. length v + 1) vs) \<le> 1048576" for count bytes vs
    by (induction count bytes vs rule: environment_loop.induct) (auto simp: Let_def min_def add.assoc)
  from this [of 0 0 environ] show ?thesis by (simp add: environment_copy_def)
qed

section \<open>A concrete exchange\<close>

definition sample_turn :: io_turn where
  "sample_turn = \<lparr>t_cancelled = False, t_now = 5, t_io = Got 1, t_poll = (\<lambda>_. None)\<rparr>"

definition sample_query :: command where "sample_query = \<lparr>csequence = 1, cflags = 4\<rparr>"

definition sample_reply :: reply where
  "sample_reply = \<lparr>rstatus = 0, rstart = 2, rfinish = 3, rdata = [55]\<rparr>"

lemma sample_turns:
  "list_all (prompt (1 + query_ns)) (replicate 89 sample_turn)" "88 + length (rdata sample_reply) \<le> io_gots (replicate 89 sample_turn)"
  "list_all sane (replicate 89 sample_turn)"
proof -
  have "io_gots (replicate n sample_turn) = n" for n by (induction n) (auto simp: sample_turn_def)
  then show "88 + length (rdata sample_reply) \<le> io_gots (replicate 89 sample_turn)" by (simp add: sample_reply_def)
  have "prompt (1 + query_ns) sample_turn" "sane sample_turn"
    by (simp_all add: prompt_def sample_turn_def query_ns_def sane_def)
  then show "list_all (prompt (1 + query_ns)) (replicate 89 sample_turn)" "list_all sane (replicate 89 sample_turn)"
    by (simp_all add: list_all_length)
qed

lemma sample_reply_ok:
  "timely 1 9 sample_reply" "reply_ok (source_payload_ok 11) (reason_ok 11) sample_reply"
  by (simp_all add: timely_def reply_ok_def source_payload_ok_def sample_reply_def)

theorem reply_understood_witness:
  "\<exists>ts'. read_response 11 sample_query 1 9 True (replicate 89 sample_turn)
      (reply_bytes (word_of_nat 11) sample_query sample_reply @ [1, 2])
    = Some (Frame \<lparr>fstarted = 2, ffinished = 3, fprocesses = 4, fdata = [55]\<rparr>, command_bytes sample_query, [1, 2], ts')"
  using reply_understood [OF sample_turns(1,2) sample_reply_ok, of sample_query "[1, 2]"]
  by (simp add: sample_reply_def sample_query_def)

theorem response_authentic_witness:
  "\<exists>f sent ts'. read_response 11 sample_query 1 9 True (replicate 89 sample_turn)
      (reply_bytes (word_of_nat 11) sample_query sample_reply @ []) = Some (Frame f, sent, [], ts')
    \<and> sent = command_bytes sample_query
    \<and> (\<exists>r. reply_bytes (word_of_nat 11) sample_query sample_reply = reply_bytes (word_of_nat 11) sample_query r
        \<and> f = \<lparr>fstarted = rstart r, ffinished = rfinish r, fprocesses = cflags sample_query, fdata = rdata r\<rparr>)"
proof -
  have "check_payload 11 (rstatus sample_reply) (reply_header (word_of_nat 11) sample_query sample_reply)
      (rdata sample_reply) f = Frame f" for f
    unfolding check_payload_def header_fields by (simp add: sample_reply_def)
  then obtain f ts' where e: "read_response 11 sample_query 1 9 True (replicate 89 sample_turn)
      (reply_bytes (word_of_nat 11) sample_query sample_reply @ []) = Some (Frame f, command_bytes sample_query, [], ts')"
    using read_written [OF sample_turns(1,2) sample_reply_ok(1), of 11 sample_query "[]"]
    by (auto simp: sample_reply_def)
  from e response_authentic [OF e sample_turns(3)] show ?thesis by auto
qed

theorem own_reasons_accepted_witness:
  "reason_ok 5 (bytes_of ''hardware_collector_error'')
   \<and> reason_ok 2 (bytes_of ''levelzero_allocation_failed'')"
  using own_reasons_accepted [of GPU_NVML 5 BUSY] by simp

theorem child_finished_witness:
  "finish_child 7 5 100 [\<lparr>r_wait = Got 0, r_now = 20000200\<rparr>, \<lparr>r_wait = Got 7, r_now = 20000300\<rparr>]
     = Some (quit_command 5, 0, True)
   \<and> accept_command gpu_flags 5 (quit_command 5) = Some \<lparr>csequence = 6, cflags = 2\<rparr>"
proof -
  have e: "finish_child 7 5 100 [\<lparr>r_wait = Got 0, r_now = 20000200\<rparr>, \<lparr>r_wait = Got 7, r_now = 20000300\<rparr>]
     = Some (quit_command 5, 0, True)" by (simp add: finish_child_def)
  from e child_finished [OF e, of 5] show ?thesis by simp
qed

end
