(* ===== verification/LevelZero.thy ===== *)
theory LevelZero imports GpuOutput begin

text \<open>
  The Intel collector \<^verbatim>\<open>native/wtop_levelzero.c\<close>: opening the loader, enumerating drivers,
  devices and domains, temperatures, clocks, power from energy counters, limits, and the whole
  collection. The library answers as it likes: each call is identified by the function, the round
  of the loop over devices, the position of the domain and the number of the call. A lost device
  (\<open>lost\<close>) ends every loop. Handles are numbers, 0 is \<open>NULL\<close>.
\<close>

section \<open>The session\<close>

abbreviation (input) L0_DRIVERS :: u32 where "L0_DRIVERS \<equiv> 8"
abbreviation (input) L0_DEVICES :: nat where "L0_DEVICES \<equiv> 64"
abbreviation (input) L0_DOMAINS :: u32 where "L0_DOMAINS \<equiv> 32"
abbreviation (input) L0_LOST :: u32 where "L0_LOST \<equiv> 0x70000001"
abbreviation (input) L0_UNINITIALIZED :: u32 where "L0_UNINITIALIZED \<equiv> 0x78000001"
abbreviation (input) L0_UNSUPPORTED :: u32 where "L0_UNSUPPORTED \<equiv> 0x78000003"

datatype l0_function = L0_properties | L0_pci | L0_temperatures | L0_temp_properties | L0_temperature
  | L0_frequencies | L0_freq_properties | L0_freq_state | L0_powers | L0_power_properties | L0_card
  | L0_energy | L0_limits | L0_limits_ext

fun l0_symbol :: "l0_function \<Rightarrow> string" where
  "l0_symbol L0_properties = ''zesDeviceGetProperties''"
| "l0_symbol L0_pci = ''zesDevicePciGetProperties''"
| "l0_symbol L0_temperatures = ''zesDeviceEnumTemperatureSensors''"
| "l0_symbol L0_temp_properties = ''zesTemperatureGetProperties''"
| "l0_symbol L0_temperature = ''zesTemperatureGetState''"
| "l0_symbol L0_frequencies = ''zesDeviceEnumFrequencyDomains''"
| "l0_symbol L0_freq_properties = ''zesFrequencyGetProperties''"
| "l0_symbol L0_freq_state = ''zesFrequencyGetState''"
| "l0_symbol L0_powers = ''zesDeviceEnumPowerDomains''"
| "l0_symbol L0_power_properties = ''zesPowerGetProperties''"
| "l0_symbol L0_card = ''zesDeviceGetCardPowerDomain''"
| "l0_symbol L0_energy = ''zesPowerGetEnergyCounter''"
| "l0_symbol L0_limits = ''zesPowerGetLimits''"
| "l0_symbol L0_limits_ext = ''zesPowerGetLimitsExt''"

record l0_power_cursor =
  pc_power :: nat
  pc_energy :: u64
  pc_timestamp :: u64

record l0_cursor =
  lc_device :: nat
  lc_identity :: string
  lc_powers :: "l0_power_cursor list"

record l0_api =
  l0_library :: bool
  l0_ready :: bool
  l0_legacy :: bool
  l0_lost :: bool
  l0_has :: "l0_function \<Rightarrow> bool"
  l0_cursors :: "l0_cursor list"

definition l0_blank :: l0_api where
  "l0_blank = \<lparr>l0_library = False, l0_ready = False, l0_legacy = False, l0_lost = False,
     l0_has = (\<lambda>_. False), l0_cursors = []\<rparr>"

datatype l0_event = Loader_opened | Loader_closed

definition l0_close :: "l0_api \<Rightarrow> l0_api \<times> l0_event list" where
  "l0_close a = (l0_blank, if l0_library a then [Loader_closed] else [])"

record l0_loader =
  ll_opens :: bool
  ll_symbol :: "string \<Rightarrow> bool"
  ll_init :: "u32 \<Rightarrow> u32"

definition l0_open :: "l0_loader \<Rightarrow> l0_api \<Rightarrow> bool \<Rightarrow> l0_api \<times> l0_event list \<times> string option" where
  "l0_open l a legacy =
     (if l0_ready a then (a, [], None)
      else
        let closed = (if l0_library a then l0_close a else (a, []));
            a = (fst closed)\<lparr>l0_legacy := legacy\<rparr>
        in if \<not> ll_opens l then (a, snd closed, Some ''levelzero_library_not_found'')
           else
             let a = a\<lparr>l0_library := True\<rparr>; events = snd closed @ [Loader_opened];
                 status = ll_init l (if legacy then 1 else 0)
             in if \<not> ll_symbol l (if legacy then ''zeInit'' else ''zesInit'')
                   \<or> \<not> ll_symbol l (if legacy then ''zeDriverGet'' else ''zesDriverGet'')
                   \<or> \<not> ll_symbol l (if legacy then ''zeDeviceGet'' else ''zesDeviceGet'')
                then (a, events, Some (if legacy then ''levelzero_symbols_missing'' else ''levelzero_legacy_required''))
                else if \<not> legacy \<and> status = L0_UNSUPPORTED then (a, events, Some ''levelzero_legacy_required'')
                else if status \<noteq> 0 then (a, events, Some ''levelzero_initialization_failed'')
                else (a\<lparr>l0_ready := True, l0_has := (\<lambda>f. ll_symbol l (l0_symbol f))\<rparr>, events, None))"

section \<open>What the library answers\<close>

record l0_properties =
  lp_type :: u32
  lp_vendor :: u32
  lp_device :: u32
  lp_uuid :: "byte list"
  lp_name :: "byte list"
  lp_subdevices :: u32
  lp_vendor_name :: "byte list"
  lp_driver_version :: "byte list"

record l0_frequency_properties =
  fp_type :: u32
  fp_on_subdevice :: byte
  fp_subdevice :: u32
  fp_min :: u64
  fp_max :: u64

record l0_frequency_state =
  fs_request :: u64
  fs_actual :: u64
  fs_throttle :: u32

record l0_power_properties =
  pp_on_subdevice :: byte
  pp_subdevice :: u32

record l0_limit =
  lm_level :: u32
  lm_source :: u32
  lm_unit :: u32
  lm_enabled :: byte
  lm_interval :: u32
  lm_limit :: u32

record l0_legacy_limits =
  sustained_enabled :: byte
  sustained_power :: u32
  sustained_interval :: u32
  burst_enabled :: byte
  burst_power :: u32
  peak_ac :: u32
  peak_dc :: u32

type_synonym l0_handles = "u32 \<times> u32 \<times> (nat \<Rightarrow> nat)"

record l0_driver =
  l0_drivers_answer :: "nat \<Rightarrow> l0_handles"
  l0_devices_answer :: "nat \<Rightarrow> nat \<Rightarrow> l0_handles"
  l0_properties_answer :: "nat \<Rightarrow> u32 \<times> l0_properties"
  l0_pci_answer :: "nat \<Rightarrow> u32 \<times> u32 \<times> u32 \<times> u32 \<times> u32"
  l0_enum_answer :: "l0_function \<Rightarrow> nat \<Rightarrow> nat \<Rightarrow> l0_handles"
  l0_sensor_answer :: "nat \<Rightarrow> nat \<Rightarrow> u32 \<times> u32 \<times> byte"
  l0_temperature_answer :: "nat \<Rightarrow> nat \<Rightarrow> u32 \<times> u64"
  l0_frequency_answer :: "nat \<Rightarrow> nat \<Rightarrow> u32 \<times> l0_frequency_properties"
  l0_state_answer :: "nat \<Rightarrow> nat \<Rightarrow> u32 \<times> l0_frequency_state"
  l0_card_answer :: "nat \<Rightarrow> u32 \<times> nat"
  l0_power_answer :: "nat \<Rightarrow> nat \<Rightarrow> u32 \<times> l0_power_properties \<times> u32"
  l0_power_again :: "nat \<Rightarrow> nat \<Rightarrow> u32 \<times> l0_power_properties"
  l0_energy_answer :: "nat \<Rightarrow> nat \<Rightarrow> u32 \<times> u64 \<times> u64"
  l0_ext_answer :: "nat \<Rightarrow> nat \<Rightarrow> nat \<Rightarrow> u32 \<times> u32 \<times> (nat \<Rightarrow> l0_limit)"
  l0_limits_answer :: "nat \<Rightarrow> nat \<Rightarrow> u32 \<times> l0_legacy_limits"

text \<open>The flags a collection carries: \<open>a->lost\<close>, \<open>partial\<close> and \<open>truncated\<close>.\<close>

record l0_flags =
  lost :: bool
  incomplete :: bool
  cut :: bool

definition l0_ok :: "u32 \<Rightarrow> l0_flags \<Rightarrow> bool \<times> l0_flags" where
  "l0_ok status fl = (status = 0, if status = L0_LOST \<or> status = L0_UNINITIALIZED then fl\<lparr>lost := True\<rparr> else fl)"

section \<open>Enumeration\<close>

text \<open>Handles without \<open>NULL\<close> and duplicates.\<close>

definition l0_keep :: "nat \<Rightarrow> nat list \<times> l0_flags \<Rightarrow> nat list \<times> l0_flags" where
  "l0_keep h s = (if h = 0 \<or> h \<in> set (fst s) then (fst s, (snd s)\<lparr>incomplete := True\<rparr>) else (fst s @ [h], snd s))"

definition l0_enumerate :: "(nat \<Rightarrow> l0_handles) \<Rightarrow> l0_flags \<Rightarrow> nat list \<times> l0_flags" where
  "l0_enumerate answer fl =
     (if lost fl then ([], fl)
      else case answer 0 of (status, amount, _) \<Rightarrow>
        (case l0_ok status fl of (ok, fl) \<Rightarrow>
           if \<not> ok then ([], fl\<lparr>incomplete := True\<rparr>)
           else
             let fl = (if L0_DOMAINS < amount then fl\<lparr>incomplete := True, cut := True\<rparr> else fl);
                 capacity = (if amount < L0_DOMAINS then amount else L0_DOMAINS)
             in if capacity = 0 then ([], fl)
                else case answer 1 of (status, count, handles) \<Rightarrow>
                  (case l0_ok status fl of (ok, fl) \<Rightarrow>
                     if \<not> ok \<or> capacity < count
                     then ([], fl\<lparr>incomplete := True, cut := (cut fl \<or> capacity < count)\<rparr>)
                     else
                       let fl = (if count \<noteq> capacity then fl\<lparr>incomplete := True\<rparr> else fl)
                       in fold l0_keep (map handles [0..<unat count]) ([], fl))))"

section \<open>Numbers\<close>

definition l0_number :: "u64 \<Rightarrow> nat \<Rightarrow> bool" where
  "l0_number value maximum \<longleftrightarrow> dbl_finite value \<and> \<not> dbl_below_zero value \<and> dbl_magnitude_less value maximum"

definition mega :: "u64 \<Rightarrow> u64" where
  "mega x = dbl_mul x (dbl_of_nat 1000000)"

definition milli :: "u32 \<Rightarrow> u64" where
  "milli x = dbl_div (dbl_of_int (sint x)) (dbl_of_nat 1000)"

text \<open>\<open>l0_text\<close>: a string that ends inside its buffer, with 1 to 256 characters.\<close>

definition l0_text :: "string \<Rightarrow> byte list \<Rightarrow> nat \<Rightarrow> emit_call list" where
  "l0_text key buffer capacity = (case valid_text capacity buffer of
     Some t \<Rightarrow> if length t \<le> 256 then [string_field key t] else [] | None \<Rightarrow> [])"

definition l0_uuid :: "byte list \<Rightarrow> string" where
  "l0_uuid uuid = (if \<forall>b \<in> set (take 16 uuid). b = 0 then []
     else if \<forall>b \<in> set (take 16 uuid). b = 255 then []
     else concat (map (\<lambda>b. hex_fixed 2 (unat b)) (take 16 uuid)))"

section \<open>Temperatures\<close>

definition l0_temperature :: "l0_driver \<Rightarrow> nat \<Rightarrow> nat \<Rightarrow> u64 \<times> l0_flags \<Rightarrow> u64 \<times> l0_flags" where
  "l0_temperature v i j s = (case s of (hottest, fl) \<Rightarrow>
     if lost fl then s
     else case l0_sensor_answer v i j of (status, type, on_subdevice) \<Rightarrow>
       (case l0_ok status fl of (ok, fl) \<Rightarrow>
          if \<not> ok then (hottest, fl\<lparr>incomplete := True\<rparr>)
          else if type \<noteq> 1 \<or> 1 < on_subdevice then (hottest, fl)
          else case l0_temperature_answer v i j of (status, temperature) \<Rightarrow>
            (case l0_ok status fl of (ok, fl) \<Rightarrow>
               if ok \<and> dbl_finite temperature \<and> dbl_less (dbl_of_int (- 274)) temperature
                  \<and> dbl_less temperature (dbl_of_nat 1000)
               then (if dbl_less hottest temperature then temperature else hottest, fl)
               else (hottest, fl\<lparr>incomplete := True\<rparr>))))"

definition l0_temperatures :: "l0_driver \<Rightarrow> l0_api \<Rightarrow> nat \<Rightarrow> l0_flags \<Rightarrow> emit_call list \<times> l0_flags" where
  "l0_temperatures v a i fl =
     (if \<not> l0_has a L0_temperatures \<or> \<not> l0_has a L0_temp_properties \<or> \<not> l0_has a L0_temperature then ([], fl)
      else case l0_enumerate (l0_enum_answer v L0_temperatures i) fl of (handles, fl) \<Rightarrow>
        (case fold (l0_temperature v i) [0..<length handles] (dbl_of_int (- 274), fl) of (hottest, fl) \<Rightarrow>
           (if dbl_less (dbl_of_int (- 274)) hottest then [number_field ''temperature_celsius'' hottest] else [], fl)))"

section \<open>Clocks\<close>

definition l0_frequency_kind :: "u32 \<Rightarrow> string" where
  "l0_frequency_kind type = (if type = 0 then ''gpu'' else if type = 1 then ''memory''
     else if type = 2 then ''media'' else ''unknown'')"

record l0_clocks =
  ck_calls :: "emit_call list"
  ck_returned :: nat
  ck_gpu :: "u64 \<times> nat"
  ck_memory :: "u64 \<times> nat"
  ck_flags :: l0_flags

definition l0_frequency_fields ::
    "nat \<Rightarrow> l0_frequency_properties \<Rightarrow> bool \<Rightarrow> l0_frequency_state \<Rightarrow> emit_call list" where
  "l0_frequency_fields j props valid state =
     [integer_field ''index'' (word_of_nat j), string_field ''kind'' (l0_frequency_kind (fp_type props)),
      boolean_field ''on_subdevice'' (ucast (fp_on_subdevice props))]
     @ (if fp_on_subdevice props \<noteq> 0 then [int_field ''subdevice_id'' (fp_subdevice props)] else [])
     @ (if l0_number (fp_min props) 100000 then [number_field ''minimum_hz'' (mega (fp_min props))] else [])
     @ (if l0_number (fp_max props) 100000 \<and> \<not> dbl_nan (fp_min props) \<and> \<not> dbl_less (fp_max props) (fp_min props)
        then [number_field ''maximum_hz'' (mega (fp_max props))] else [])
     @ (if valid \<and> l0_number (fs_actual state) 100000 then [number_field ''actual_hz'' (mega (fs_actual state))] else [])
     @ (if valid \<and> l0_number (fs_request state) 100000 then [number_field ''requested_hz'' (mega (fs_request state))] else [])
     @ (if valid \<and> fs_throttle state \<noteq> - 1
        then [string_field ''throttle_raw_hex'' (hex_mask (ucast (fs_throttle state))),
              string_field ''throttle_quality'' ''fresh'']
        else [string_field ''throttle_quality'' (if valid then ''unavailable'' else ''error'')])"

definition l0_frequency :: "l0_driver \<Rightarrow> nat \<Rightarrow> nat \<Rightarrow> l0_clocks \<Rightarrow> l0_clocks" where
  "l0_frequency v i j s =
     (if lost (ck_flags s) then s
      else case l0_frequency_answer v i j of (status, props) \<Rightarrow>
        (case l0_ok status (ck_flags s) of (ok, fl) \<Rightarrow>
           if \<not> ok \<or> 1 < fp_on_subdevice props then s\<lparr>ck_flags := fl\<lparr>incomplete := True\<rparr>\<rparr>
           else case l0_state_answer v i j of (status, state) \<Rightarrow>
             (case l0_ok status fl of (valid, fl) \<Rightarrow>
                let fl = (if valid then fl else fl\<lparr>incomplete := True\<rparr>);
                    root = (valid \<and> l0_number (fs_actual state) 100000 \<and> fp_on_subdevice props = 0)
                in s\<lparr>ck_calls := ck_calls s @ (gpu_table 0 15 # l0_frequency_fields j props valid state
                         @ [gpu_index (word_of_nat (Suc (ck_returned s)))]),
                     ck_returned := Suc (ck_returned s),
                     ck_gpu := (if root \<and> fp_type props = 0 then (mega (fs_actual state), Suc (snd (ck_gpu s))) else ck_gpu s),
                     ck_memory := (if root \<and> fp_type props = 1 then (mega (fs_actual state), Suc (snd (ck_memory s))) else ck_memory s),
                     ck_flags := fl\<rparr>)))"

definition l0_frequencies :: "l0_driver \<Rightarrow> l0_api \<Rightarrow> nat \<Rightarrow> l0_flags \<Rightarrow> emit_call list \<times> l0_flags" where
  "l0_frequencies v a i fl =
     (if \<not> l0_has a L0_frequencies \<or> \<not> l0_has a L0_freq_properties \<or> \<not> l0_has a L0_freq_state then ([], fl)
      else case l0_enumerate (l0_enum_answer v L0_frequencies i) fl of (handles, fl) \<Rightarrow>
        let s = fold (l0_frequency v i) [0..<length handles]
              \<lparr>ck_calls = [], ck_returned = 0, ck_gpu = (0, 0), ck_memory = (0, 0), ck_flags = fl\<rparr>
        in ((gpu_table (word_of_nat (length handles)) 0 # ck_calls s @ [gpu_field_attach ''frequency_domains''])
              @ (if snd (ck_gpu s) = 1 then [number_field ''graphics_clock_hz'' (fst (ck_gpu s))] else [])
              @ (if snd (ck_memory s) = 1 then [number_field ''memory_clock_hz'' (fst (ck_memory s))] else []),
            ck_flags s))"

section \<open>Power\<close>

definition l0_power_kind :: "u32 \<Rightarrow> string" where
  "l0_power_kind domain = (if domain = 1 then ''card'' else if domain = 2 then ''package''
     else if domain = 3 then ''stack'' else if domain = 4 then ''memory''
     else if domain = 5 then ''gpu'' else ''unknown'')"

text \<open>
  \<open>l0_energy\<close>: the average power since the energy counter of the same domain was read before,
  and the cursor to keep. A reading too soon keeps the old cursor.
\<close>

record l0_reading =
  rd_quality :: string
  rd_reason :: "string option"
  rd_watts :: u64
  rd_interval :: u64

definition last_cursor :: "l0_power_cursor list \<Rightarrow> nat \<Rightarrow> l0_power_cursor option" where
  "last_cursor cs handle = fold (\<lambda>c found. if pc_power c = handle then Some c else found) cs None"

definition l0_energy :: "nat \<Rightarrow> (u64 \<times> u64) option \<Rightarrow> l0_power_cursor list option \<Rightarrow> l0_power_cursor list
    \<Rightarrow> l0_reading \<times> l0_power_cursor list" where
  "l0_energy handle counter old nxt = (case counter of
     None \<Rightarrow> (\<lparr>rd_quality = ''unavailable'', rd_reason = None, rd_watts = 0, rd_interval = 0\<rparr>, nxt)
   | Some (energy, stamp) \<Rightarrow>
       let cursor = \<lparr>pc_power = handle, pc_energy = energy, pc_timestamp = stamp\<rparr>;
           gap = (\<lambda>reason. \<lparr>rd_quality = ''gap'', rd_reason = Some reason, rd_watts = 0, rd_interval = 0\<rparr>);
           (reading, cursor) = (case Option.bind old (\<lambda>cs. last_cursor cs handle) of
               None \<Rightarrow> (gap ''levelzero_power_warmup'', cursor)
             | Some past \<Rightarrow>
                 if stamp \<le> pc_timestamp past \<or> energy < pc_energy past
                 then (gap ''levelzero_energy_counter_reset'', cursor)
                 else let delta = stamp - pc_timestamp past in
                   if delta < 100000 then (gap ''levelzero_power_warmup'', past)
                   else if 5000000 < delta then (gap ''levelzero_energy_counter_gap'', cursor)
                   else let watts = dbl_div (dbl_of_nat (unat (energy - pc_energy past))) (dbl_of_nat (unat delta)) in
                     if l0_number watts 100000
                     then (\<lparr>rd_quality = ''fresh'', rd_reason = None, rd_watts = watts, rd_interval = delta\<rparr>, cursor)
                     else (gap ''levelzero_energy_counter_invalid'', cursor))
       in (reading, if length nxt < 32 then nxt @ [cursor] else nxt))"

text \<open>The limits of one domain: the extended list, or else the three of the older call.\<close>

record l0_caps =
  cp_limits :: "l0_limit list"
  cp_legacy :: "l0_legacy_limits option"
  cp_cap :: u64

definition no_caps :: l0_caps where
  "no_caps = \<lparr>cp_limits = [], cp_legacy = None, cp_cap = 0\<rparr>"

definition is_cap :: "l0_limit \<Rightarrow> bool" where
  "is_cap m \<longleftrightarrow> lm_level m = 1 \<and> lm_source m = 0 \<and> lm_unit m = 2 \<and> lm_enabled m = 1 \<and> 0 <s lm_limit m"

definition l0_legacy_caps :: "l0_driver \<Rightarrow> l0_api \<Rightarrow> nat \<Rightarrow> nat \<Rightarrow> l0_flags \<Rightarrow> l0_caps \<times> l0_flags" where
  "l0_legacy_caps v a i j fl =
     (if lost fl \<or> \<not> l0_has a L0_limits then (no_caps, fl)
      else case l0_limits_answer v i j of (status, m) \<Rightarrow>
        (case l0_ok status fl of (ok, fl) \<Rightarrow>
           if \<not> ok then (no_caps, fl)
           else (no_caps\<lparr>cp_legacy := Some m,
                   cp_cap := (if sustained_enabled m = 1 \<and> 0 <s sustained_power m then milli (sustained_power m) else 0)\<rparr>, fl)))"

definition l0_limits_of :: "l0_driver \<Rightarrow> l0_api \<Rightarrow> nat \<Rightarrow> nat \<Rightarrow> l0_flags \<Rightarrow> l0_caps \<times> l0_flags" where
  "l0_limits_of v a i j fl =
     (if lost fl then (no_caps, fl)
      else if \<not> l0_has a L0_limits_ext then l0_legacy_caps v a i j fl
      else case l0_ext_answer v i j 0 of (status, amount, _) \<Rightarrow>
        (case l0_ok status fl of (ok, fl) \<Rightarrow>
           if \<not> ok then l0_legacy_caps v a i j fl
           else
             let fl = (if 16 < amount then fl\<lparr>incomplete := True, cut := True\<rparr> else fl);
                 capacity = (if amount < 16 then amount else 16)
             in if capacity = 0 then (no_caps, fl)
                else case l0_ext_answer v i j 1 of (status, count, limits) \<Rightarrow>
                  (case l0_ok status fl of (ok, fl) \<Rightarrow>
                     if \<not> ok \<or> capacity < count then (no_caps, fl\<lparr>incomplete := True\<rparr>)
                     else
                       let ms = map limits [0..<unat count]; caps = filter is_cap ms
                       in (no_caps\<lparr>cp_limits := ms,
                             cp_cap := (if length caps = 1 then milli (lm_limit (hd caps)) else 0)\<rparr>, fl))))"

definition l0_limit_calls :: "l0_limit \<Rightarrow> nat \<Rightarrow> emit_call list" where
  "l0_limit_calls m n =
     gpu_table 0 8
     # ([int_field ''level_code'' (lm_level m), int_field ''source_code'' (lm_source m), int_field ''unit_code'' (lm_unit m)]
        @ (if lm_enabled m \<le> 1 then [boolean_field ''enabled'' (ucast (lm_enabled m))] else [])
        @ (if 0 \<le>s lm_interval m then [number_field ''window_seconds'' (milli (lm_interval m))] else [])
        @ (if 0 \<le>s lm_limit m \<and> lm_unit m = 2 then [number_field ''watts'' (milli (lm_limit m))]
           else if 0 \<le>s lm_limit m \<and> lm_unit m = 1 then [number_field ''amperes'' (milli (lm_limit m))] else []))
     @ [gpu_index (word_of_nat (Suc n))]"

definition l0_milli_field :: "string \<Rightarrow> u32 \<Rightarrow> emit_call list" where
  "l0_milli_field key x = (if 0 \<le>s x then [number_field key (milli x)] else [])"

definition l0_emit_limits :: "l0_caps \<Rightarrow> emit_call list" where
  "l0_emit_limits c =
     (case cp_legacy c of None \<Rightarrow> []
      | Some m \<Rightarrow>
          (if sustained_enabled m \<le> 1 then [boolean_field ''sustained_enabled'' (ucast (sustained_enabled m))] else [])
          @ l0_milli_field ''sustained_limit_watts'' (sustained_power m)
          @ l0_milli_field ''sustained_window_seconds'' (sustained_interval m)
          @ (if burst_enabled m \<le> 1 then [boolean_field ''burst_enabled'' (ucast (burst_enabled m))] else [])
          @ l0_milli_field ''burst_limit_watts'' (burst_power m)
          @ l0_milli_field ''peak_ac_watts'' (peak_ac m)
          @ l0_milli_field ''peak_dc_watts'' (peak_dc m))
     @ (gpu_table (word_of_nat (length (cp_limits c))) 0
        # concat (map (\<lambda>(n, m). l0_limit_calls m n) (enumerate 0 (cp_limits c)))
        @ [gpu_field_attach ''limits''])"

text \<open>One power domain as \<open>l0_powers\<close> reads it.\<close>

record l0_power_read =
  pr_domain :: u32
  pr_properties :: l0_power_properties
  pr_rank :: nat
  pr_counter :: "(u64 \<times> u64) option"
  pr_reading :: l0_reading
  pr_caps :: l0_caps

abbreviation (input) RANK_MAX :: nat where "RANK_MAX \<equiv> 2147483647"

definition l0_rank :: "u32 \<Rightarrow> byte \<Rightarrow> nat" where
  "l0_rank domain on_subdevice =
     (if on_subdevice \<noteq> 0 then RANK_MAX else if domain = 1 then 0 else if domain = 2 then 1
      else if domain = 5 then 2 else if domain = 0 then 3 else RANK_MAX)"

text \<open>The properties are asked for with the extension and, when that fails, without.\<close>

definition l0_power_properties_of ::
    "l0_driver \<Rightarrow> nat \<Rightarrow> nat \<Rightarrow> l0_flags \<Rightarrow> (l0_power_properties \<times> u32) option \<times> l0_flags" where
  "l0_power_properties_of v i j fl =
     (case l0_power_answer v i j of (status, props, domain) \<Rightarrow>
        (case l0_ok status fl of (ok, fl) \<Rightarrow>
           if ok then (Some (props, domain), fl)
           else if lost fl then (None, fl)
           else case l0_power_again v i j of (status, props) \<Rightarrow>
             (case l0_ok status fl of (ok, fl) \<Rightarrow> (if ok then Some (props, domain) else None, fl))))"

definition l0_counter :: "l0_driver \<Rightarrow> l0_api \<Rightarrow> nat \<Rightarrow> nat \<Rightarrow> l0_flags \<Rightarrow> (u64 \<times> u64) option \<times> l0_flags" where
  "l0_counter v a i j fl =
     (if \<not> l0_has a L0_energy then (None, fl)
      else case l0_energy_answer v i j of (status, energy, stamp) \<Rightarrow>
        (case l0_ok status fl of (ok, fl) \<Rightarrow>
           if ok \<and> energy \<noteq> - 1 \<and> stamp \<noteq> - 1 \<and> 0 < stamp then (Some (energy, stamp), fl)
           else (None, fl\<lparr>incomplete := True\<rparr>)))"

record l0_power_loop =
  lq_readings :: "l0_power_read list"
  lq_next :: "l0_power_cursor list"
  lq_best :: nat
  lq_selected :: nat
  lq_ties :: nat
  lq_flags :: l0_flags

definition l0_power :: "l0_driver \<Rightarrow> l0_api \<Rightarrow> nat \<Rightarrow> nat \<Rightarrow> l0_power_cursor list option \<Rightarrow> nat \<times> nat
    \<Rightarrow> l0_power_loop \<Rightarrow> l0_power_loop" where
  "l0_power v a i board old jh s = (case jh of (j, handle) \<Rightarrow>
     if lost (lq_flags s) then s
     else case l0_power_properties_of v i j (lq_flags s) of
       (None, fl) \<Rightarrow> s\<lparr>lq_flags := fl\<lparr>incomplete := True\<rparr>\<rparr>
     | (Some (props, domain), fl) \<Rightarrow>
         if 1 < pp_on_subdevice props then s\<lparr>lq_flags := fl\<lparr>incomplete := True\<rparr>\<rparr>
         else
           let domain = (if handle = board then 1 else if domain \<le> 5 then domain else 0);
               rank = l0_rank domain (pp_on_subdevice props);
               (counter, fl) = l0_counter v a i j fl;
               (reading, nxt) = l0_energy handle counter old (lq_next s);
               (caps, fl) = l0_limits_of v a i j fl
           in s\<lparr>lq_readings := lq_readings s @ [\<lparr>pr_domain = domain, pr_properties = props, pr_rank = rank,
                    pr_counter = counter, pr_reading = reading, pr_caps = caps\<rparr>],
                lq_next := nxt,
                lq_best := (if rank < lq_best s then rank else lq_best s),
                lq_selected := (if rank < lq_best s then length (lq_readings s) else lq_selected s),
                lq_ties := (if rank < lq_best s then 1 else if rank = lq_best s then Suc (lq_ties s) else lq_ties s),
                lq_flags := fl\<rparr>)"

definition l0_counter_fields :: "(u64 \<times> u64) option \<Rightarrow> emit_call list" where
  "l0_counter_fields counter = (case counter of None \<Rightarrow> []
   | Some (energy, stamp) \<Rightarrow>
       (if energy \<le> 0x7fffffffffffffff then [integer_field ''energy_microjoules'' energy]
        else [string_field ''energy_raw_hex'' (hex_mask energy)])
       @ (if stamp \<le> 0x7fffffffffffffff then [integer_field ''counter_timestamp_us'' stamp] else []))"

definition l0_power_calls :: "l0_power_read \<Rightarrow> nat \<Rightarrow> emit_call list" where
  "l0_power_calls r n =
     gpu_table 0 18
     # ([integer_field ''index'' (word_of_nat n), string_field ''scope'' (l0_power_kind (pr_domain r)),
         boolean_field ''on_subdevice'' (ucast (pp_on_subdevice (pr_properties r)))]
        @ (if pp_on_subdevice (pr_properties r) \<noteq> 0
           then [int_field ''subdevice_id'' (pp_subdevice (pr_properties r))] else [])
        @ [string_field ''quality'' (rd_quality (pr_reading r))]
        @ optional_text ''reason'' (rd_reason (pr_reading r))
        @ l0_counter_fields (pr_counter r)
        @ (if rd_interval (pr_reading r) \<noteq> 0
           then [number_field ''power_watts'' (rd_watts (pr_reading r)),
                 integer_field ''interval_ns'' (rd_interval (pr_reading r) * 1000)] else [])
        @ l0_emit_limits (pr_caps r))
     @ [gpu_index (word_of_nat (Suc n))]"

definition l0_selected_power :: "l0_power_read \<Rightarrow> nat \<Rightarrow> emit_call list" where
  "l0_selected_power r selected =
     [string_field ''power_scope'' (l0_power_kind (pr_domain r)),
      integer_field ''power_domain_index'' (word_of_nat selected),
      string_field ''power_quality'' (rd_quality (pr_reading r))]
     @ optional_text ''power_reason'' (rd_reason (pr_reading r))
     @ (if rd_interval (pr_reading r) \<noteq> 0
        then [number_field ''power_watts'' (rd_watts (pr_reading r)),
              string_field ''power_measurement'' ''average'',
              integer_field ''power_interval_ns'' (rd_interval (pr_reading r) * 1000)]
             @ (if pr_domain r = 1 then [number_field ''board_power_watts'' (rd_watts (pr_reading r))] else [])
        else [])
     @ (if dbl_less 0 (cp_cap (pr_caps r)) \<and> dbl_less (cp_cap (pr_caps r)) (dbl_of_nat 100000)
        then [number_field ''power_limit_watts'' (cp_cap (pr_caps r))] else [])"

definition l0_powers :: "l0_driver \<Rightarrow> l0_api \<Rightarrow> nat \<Rightarrow> l0_power_cursor list option \<Rightarrow> l0_flags
    \<Rightarrow> emit_call list \<times> l0_power_cursor list \<times> l0_flags" where
  "l0_powers v a i old fl =
     (if \<not> l0_has a L0_powers \<or> \<not> l0_has a L0_power_properties then ([], [], fl)
      else case l0_enumerate (l0_enum_answer v L0_powers i) fl of (handles, fl) \<Rightarrow>
        (case (if lost fl \<or> \<not> l0_has a L0_card then (0, fl)
               else case l0_card_answer v i of (status, board) \<Rightarrow>
                 (case l0_ok status fl of (ok, fl) \<Rightarrow> (if ok then board else 0, fl))) of (board, fl) \<Rightarrow>
           let s = fold (l0_power v a i board old) (enumerate 0 handles)
                 \<lparr>lq_readings = [], lq_next = [], lq_best = RANK_MAX, lq_selected = 0, lq_ties = 0, lq_flags = fl\<rparr>;
               rs = lq_readings s
           in ((gpu_table (word_of_nat (length rs)) 0
                  # concat (map (\<lambda>(n, r). l0_power_calls r n) (enumerate 0 rs))
                  @ [gpu_field_attach ''power_domains''])
                @ (if lq_ties s = 1 \<and> lq_best s \<noteq> RANK_MAX then l0_selected_power (rs ! lq_selected s) (lq_selected s)
                   else if rs \<noteq> []
                   then [string_field ''power_quality'' ''unavailable'',
                         string_field ''power_reason'' ''levelzero_power_domain_ambiguous'']
                   else []),
               lq_next s, lq_flags s)))"

section \<open>Devices\<close>

record l0_found =
  lf_devices :: "(nat \<times> nat) list"
  lf_flags :: l0_flags

definition l0_add_device :: "nat \<Rightarrow> nat \<Rightarrow> l0_found \<Rightarrow> l0_found" where
  "l0_add_device driver handle s =
     (if handle = 0 \<or> (handle, driver) \<in> set (lf_devices s) then s\<lparr>lf_flags := (lf_flags s)\<lparr>incomplete := True\<rparr>\<rparr>
      else if length (lf_devices s) = L0_DEVICES
      then s\<lparr>lf_flags := (lf_flags s)\<lparr>incomplete := True, cut := True\<rparr>\<rparr>
      else s\<lparr>lf_devices := lf_devices s @ [(handle, driver)]\<rparr>)"

definition l0_driver_devices :: "l0_driver \<Rightarrow> nat \<times> nat \<Rightarrow> l0_found \<Rightarrow> l0_found" where
  "l0_driver_devices v nd s = (case nd of (n, driver) \<Rightarrow>
     if driver = 0 then s\<lparr>lf_flags := (lf_flags s)\<lparr>incomplete := True\<rparr>\<rparr>
     else case l0_devices_answer v n 0 of (status, amount, _) \<Rightarrow>
       (case l0_ok status (lf_flags s) of (ok, fl) \<Rightarrow>
          if \<not> ok then s\<lparr>lf_flags := fl\<lparr>incomplete := True\<rparr>\<rparr>
          else
            let fl = (if 64 < amount then fl\<lparr>incomplete := True, cut := True\<rparr> else fl);
                capacity = (if amount < 64 then amount else 64)
            in if capacity = 0 then s\<lparr>lf_flags := fl\<rparr>
               else case l0_devices_answer v n 1 of (status, count, handles) \<Rightarrow>
                 (case l0_ok status fl of (ok, fl) \<Rightarrow>
                    if \<not> ok \<or> capacity < count then s\<lparr>lf_flags := fl\<lparr>incomplete := True\<rparr>\<rparr>
                    else fold (l0_add_device driver) (map handles [0..<unat count]) (s\<lparr>lf_flags := fl\<rparr>))))"

definition l0_devices :: "l0_driver \<Rightarrow> l0_flags \<Rightarrow> (l0_found \<times> u32) option \<times> l0_flags" where
  "l0_devices v fl =
     (case l0_drivers_answer v 0 of (status, amount, _) \<Rightarrow>
        (case l0_ok status fl of (ok, fl) \<Rightarrow>
           if \<not> ok then (None, fl)
           else
             let fl = (if L0_DRIVERS < amount then fl\<lparr>incomplete := True, cut := True\<rparr> else fl);
                 capacity = (if amount < L0_DRIVERS then amount else L0_DRIVERS)
             in if capacity = 0 then (Some (\<lparr>lf_devices = [], lf_flags = fl\<rparr>, amount), fl)
                else case l0_drivers_answer v 1 of (status, count, drivers) \<Rightarrow>
                  (case l0_ok status fl of (ok, fl) \<Rightarrow>
                     if \<not> ok \<or> capacity < count then (None, fl)
                     else let s = fold (l0_driver_devices v) (map (\<lambda>n. (n, drivers n)) [0..<unat count])
                                   \<lparr>lf_devices = [], lf_flags = fl\<rparr>
                          in (Some (s, amount), lf_flags s))))"

section \<open>The collection\<close>

text \<open>\<open>%p\<close>: the handle in hexadecimal.\<close>

fun hex_digits :: "nat \<Rightarrow> string" where
  "hex_digits n = (if n < 16 then [hex_digit n] else hex_digits (n div 16) @ [hex_digit (n mod 16)])"

declare hex_digits.simps [simp del]

record l0_collection =
  lk_calls :: "emit_call list"
  lk_pending :: "l0_cursor list"
  lk_bdfs :: "string list"
  lk_flags :: l0_flags
  lk_reason :: "string option"

definition l0_bdf :: "l0_driver \<Rightarrow> l0_api \<Rightarrow> nat \<Rightarrow> l0_flags \<Rightarrow> string \<times> l0_flags" where
  "l0_bdf v a i fl =
     (if \<not> l0_has a L0_pci then ([], fl)
      else case l0_pci_answer v i of (status, domain, bus, device, func) \<Rightarrow>
        (case l0_ok status fl of (ok, fl) \<Rightarrow>
           (if ok \<and> domain \<le> 0xffff \<and> bus \<le> 255 \<and> device \<le> 31 \<and> func \<le> 7
            then hex_fixed 4 (unat domain) @ '':'' @ hex_fixed 2 (unat bus) @ '':'' @ hex_fixed 2 (unat device)
                 @ ''.'' @ hex_fixed 1 (unat func)
            else [], fl)))"

definition l0_device_fields :: "nat \<Rightarrow> string \<Rightarrow> string \<Rightarrow> l0_properties option \<Rightarrow> emit_call list" where
  "l0_device_fields i bdf uuid properties =
     [integer_field ''index'' (word_of_nat i)]
     @ (if bdf \<noteq> [] then [string_field ''pci_bdf'' bdf] else [])
     @ (if uuid \<noteq> [] then [string_field ''uuid'' uuid] else [])
     @ (case properties of None \<Rightarrow> []
        | Some p \<Rightarrow>
            l0_text ''name'' (lp_name p) 256 @ l0_text ''vendor_name'' (lp_vendor_name p) 64
            @ l0_text ''driver_version'' (lp_driver_version p) 64
            @ (if lp_vendor p \<le> 0xffff then [int_field ''vendor_id'' (lp_vendor p)] else [])
            @ (if lp_device p \<le> 0xffff then [int_field ''device_id'' (lp_device p)] else [])
            @ (if lp_subdevices p < 1024 then [int_field ''subdevice_count'' (lp_subdevices p)] else []))"

definition l0_old_cursor :: "l0_cursor list \<Rightarrow> nat \<Rightarrow> string \<Rightarrow> l0_power_cursor list option" where
  "l0_old_cursor cursors device identity =
     fold (\<lambda>c found. if lc_device c = device \<and> lc_identity c = identity then Some (lc_powers c) else found) cursors None"

text \<open>
  The temperatures, clocks and power of a device and its place in the result. The table is left
  open (no \<open>gpu_index\<close>) when the device is lost before its power has been read; the reason then
  ends the collection.
\<close>

definition l0_report :: "l0_driver \<Rightarrow> l0_api \<Rightarrow> nat \<Rightarrow> nat \<Rightarrow> string \<Rightarrow> string \<Rightarrow> emit_call list \<Rightarrow> l0_flags
    \<Rightarrow> l0_collection \<Rightarrow> l0_collection" where
  "l0_report v a i handle identity bdf entry fl s =
     (case l0_temperatures v a i fl of (temperatures, fl) \<Rightarrow>
        if lost fl
        then s\<lparr>lk_calls := lk_calls s @ gpu_table 0 22 # entry @ temperatures, lk_flags := fl,
               lk_reason := Some ''levelzero_device_lost''\<rparr>
        else case l0_frequencies v a i fl of (clocks, fl) \<Rightarrow>
          if lost fl
          then s\<lparr>lk_calls := lk_calls s @ gpu_table 0 22 # entry @ temperatures @ clocks, lk_flags := fl,
                 lk_reason := Some ''levelzero_device_lost''\<rparr>
          else case l0_powers v a i (l0_old_cursor (l0_cursors a) handle identity) fl of (powers, nxt, fl) \<Rightarrow>
            s\<lparr>lk_calls := lk_calls s @ (gpu_table 0 22 # (entry @ temperatures @ clocks @ powers)
                   @ [gpu_index (word_of_nat (Suc (length (lk_pending s))))]),
              lk_pending := lk_pending s @ [\<lparr>lc_device = handle, lc_identity = identity, lc_powers = nxt\<rparr>],
              lk_bdfs := lk_bdfs s @ [bdf], lk_flags := fl,
              lk_reason := (if lost fl then Some ''levelzero_device_lost'' else None)\<rparr>)"

definition l0_identified :: "l0_driver \<Rightarrow> l0_api \<Rightarrow> nat \<Rightarrow> l0_flags \<Rightarrow> l0_properties option \<times> l0_flags" where
  "l0_identified v a i fl =
     (if \<not> l0_has a L0_properties then (None, fl)
      else case l0_properties_answer v i of (status, properties) \<Rightarrow>
        (case l0_ok status fl of (ok, fl) \<Rightarrow> (if ok then Some properties else None, fl)))"

definition l0_identity :: "string \<Rightarrow> string \<Rightarrow> nat \<Rightarrow> nat \<Rightarrow> string" where
  "l0_identity uuid bdf driver handle = (if uuid \<noteq> [] then uuid else if bdf \<noteq> [] then bdf
     else ''opaque:0x'' @ hex_digits driver @ '':0x'' @ hex_digits handle)"

definition l0_device :: "l0_driver \<Rightarrow> l0_api \<Rightarrow> nat \<times> nat \<times> nat \<Rightarrow> l0_collection \<Rightarrow> l0_collection" where
  "l0_device v a d s = (case d of (i, handle, driver) \<Rightarrow>
     if lk_reason s \<noteq> None then s
     else case l0_identified v a i (lk_flags s) of (identified, fl) \<Rightarrow>
       if identified \<noteq> None \<and> lp_type (the identified) \<noteq> 1 then s\<lparr>lk_flags := fl\<lparr>incomplete := True\<rparr>\<rparr>
       else case l0_bdf v a i fl of (bdf, fl) \<Rightarrow>
         let uuid = (case identified of Some p \<Rightarrow> l0_uuid (lp_uuid p) | None \<Rightarrow> [])
         in if (bdf \<noteq> [] \<and> bdf \<in> set (lk_bdfs s)) \<or> (uuid \<noteq> [] \<and> uuid \<in> lc_identity ` set (lk_pending s))
            then s\<lparr>lk_flags := fl\<lparr>incomplete := True\<rparr>\<rparr>
            else l0_report v a i handle (l0_identity uuid bdf driver handle) bdf
                   (l0_device_fields i bdf uuid identified) fl s)"

definition l0_collection_of :: "l0_driver \<Rightarrow> l0_api \<Rightarrow> l0_found \<Rightarrow> l0_collection" where
  "l0_collection_of v a found =
     fold (l0_device v a) (map (\<lambda>(i, d). (i, fst d, snd d)) (enumerate 0 (lf_devices found)))
       \<lparr>lk_calls = [], lk_pending = [], lk_bdfs = [], lk_flags = lf_flags found, lk_reason = None\<rparr>"

definition l0_head :: "l0_api \<Rightarrow> u32 \<Rightarrow> emit_call list" where
  "l0_head a drivers = [string_field ''initialization'' (if l0_legacy a then ''core_legacy'' else ''sysman''),
     int_field ''driver_count'' drivers]"

definition l0_tail :: "l0_flags \<Rightarrow> emit_call list" where
  "l0_tail fl = [string_field ''source'' ''levelzero'', string_field ''status'' (if incomplete fl then ''partial'' else ''ok''),
     boolean_field ''truncated'' (if cut fl then 1 else 0)]
     @ (if incomplete fl then [string_field ''reason'' ''levelzero_data_incomplete''] else [])"

definition l0_collect ::
    "l0_driver \<Rightarrow> (wire_buffer \<Rightarrow> emit_call \<Rightarrow> wire_buffer) \<Rightarrow> wire_buffer \<Rightarrow> l0_api
       \<Rightarrow> wire_buffer \<times> l0_api \<times> string option" where
  "l0_collect v emit out a =
     (case l0_devices v \<lparr>lost = l0_lost a, incomplete = False, cut = False\<rparr> of
        (None, fl) \<Rightarrow> (out, a\<lparr>l0_lost := lost fl\<rparr>, Some ''levelzero_driver_enumeration_failed'')
      | (Some (found, drivers), _) \<Rightarrow>
          let s = l0_collection_of v a found;
              devices = gpu_table (word_of_nat (length (lf_devices found))) 0 # lk_calls s;
              a = a\<lparr>l0_lost := lost (lk_flags s)\<rparr>
          in case lk_reason s of
               Some reason \<Rightarrow> (foldl emit out (gpu_table 0 8 # l0_head a drivers @ devices), a, Some reason)
             | None \<Rightarrow>
                 let out = foldl emit out (gpu_table 0 8 # (l0_head a drivers @ (devices @ [gpu_field_attach ''devices''])
                       @ l0_tail (lk_flags s)))
                 in if wfailed out \<noteq> 0
                    then (out, a, Some (if wfailed out = 2 then ''levelzero_allocation_failed'' else ''levelzero_output_too_large''))
                    else (out, a\<lparr>l0_cursors := lk_pending s\<rparr>, None))"

section \<open>The numbers sent are finite\<close>

lemma mega_finite: "l0_number x 100000 \<Longrightarrow> is_finite_bits (mega x)"
proof -
  assume "l0_number x 100000"
  then have "dbl_num x < dbl_den x * 100000" by (simp add: l0_number_def dbl_magnitude_less_def mult.commute)
  also have "\<dots> \<le> dbl_den x * 2 ^ 17" by simp
  finally have x: "dbl_num x < dbl_den x * 2 ^ 17" .
  from dbl_of_nat_magnitude [of 1000000 20]
  have "dbl_num (dbl_of_nat 1000000) < dbl_den (dbl_of_nat 1000000) * 2 ^ 29" by simp
  from dbl_mul_within [OF x this] show ?thesis by (simp add: finite_bits mega_def)
qed

lemma milli_finite [emit_intros]: "is_finite_bits (milli x)"
proof -
  have "- (2 ^ 31) \<le> sint x \<and> sint x < 2 ^ 31" using sint_range_size [of x] by (simp add: word_size)
  then have "nat \<bar>sint x\<bar> < 2 ^ 32" by auto
  from dbl_of_int_magnitude [OF this] show ?thesis
    unfolding finite_bits milli_def by (rule dbl_div_within) (simp_all add: thousand_magnitude)
qed

lemma zero_finite: "is_finite_bits 0"
  by (simp add: is_finite_bits_def)

lemma l0_number_finite: "l0_number x m \<Longrightarrow> is_finite_bits x"
  by (simp add: l0_number_def finite_bits)

section \<open>The parts of a device\<close>

lemma l0_kind_ok [emit_intros]: "text_ok (l0_frequency_kind type)" "text_ok (l0_power_kind domain)"
  by (simp_all add: l0_frequency_kind_def l0_power_kind_def text_ok_plain)

lemma frequency_fields_body: "body 2 10 10 0 (l0_frequency_fields j props valid state)"
  unfolding l0_frequency_fields_def
  by (rule body_within) (rule emit_intros mega_finite | blast | force simp: literal_simps)+

lemma keep_length: "length (fst (fold l0_keep hs s)) \<le> length (fst s) + length hs"
proof (induction hs arbitrary: s)
  case (Cons h hs)
  have "length (fst (l0_keep h s)) \<le> Suc (length (fst s))" by (simp add: l0_keep_def)
  then show ?case using Cons.IH [of "l0_keep h s"] by simp
qed simp

lemma enumerate_length: "length (fst (l0_enumerate answer fl)) \<le> 32"
proof -
  have few: "length (fst (fold l0_keep (map hs [0..<unat count]) ([], f))) \<le> 32" if "count \<le> 32" for hs and count :: u32 and f
    using keep_length [of "map hs [0..<unat count]" "([], f)"] that by (simp add: word_le_nat_alt)
  from few [of 32] have "length (fst (fold l0_keep (map hs [0..<32]) ([], f))) \<le> 32" for hs f by simp
  moreover have "count \<le> 32" if "count \<le> (if amount < 32 then amount else 32)" for count amount :: u32
    using that by (auto split: if_splits)
  ultimately show ?thesis using few
    by (auto simp: l0_enumerate_def Let_def not_less split: prod.split)
qed

lemma temperature_finite:
  "is_finite_bits (fst s) \<Longrightarrow> is_finite_bits (fst (fold (l0_temperature v i) js s))"
proof (induction js arbitrary: s)
  case (Cons j js)
  have "is_finite_bits (fst (l0_temperature v i j s))" using Cons.prems
    by (auto simp: l0_temperature_def finite_bits split: prod.split)
  from Cons.IH [OF this] show ?case by simp
qed simp

lemma temperatures_body: "body 4 1 1 0 (fst (l0_temperatures v a i fl))"
proof -
  have "is_finite_bits (dbl_of_int (- 274))" unfolding finite_bits by (rule dbl_of_int_finite) simp
  then have "body 4 1 1 0 [number_field ''temperature_celsius'' hottest]"
    if "fold (l0_temperature v i) js (dbl_of_int (- 274), f) = (hottest, g)" for js hottest f g
    using temperature_finite [of "(dbl_of_int (- 274), f)" v i js] that
    by (intro body_number) (simp_all add: literal_simps)
  then show ?thesis by (auto simp: l0_temperatures_def body_nil split: prod.split)
qed

definition clocks_ok :: "nat \<Rightarrow> l0_clocks \<Rightarrow> bool" where
  "clocks_ok n s \<longleftrightarrow> body 3 n (n * 12) n (ck_calls s) \<and> ck_returned s \<le> n
     \<and> is_finite_bits (fst (ck_gpu s)) \<and> is_finite_bits (fst (ck_memory s))"

lemma frequency_ok:
  assumes "clocks_ok n s" and n: "n < 4096"
  shows "clocks_ok (Suc n) (l0_frequency v i j s)"
proof -
  from assms have b: "body 3 n (n * 12) n (ck_calls s)" and r: "ck_returned s \<le> n" by (simp_all add: clocks_ok_def)
  have keep: "body 3 (Suc n) (12 + n * 12) (Suc n) (ck_calls s)" using b by (rule body_within) simp_all
  have f: "body (3 - 1) 10 10 0 (l0_frequency_fields j props valid state)" for props valid state
    using frequency_fields_body by simp
  have "body 3 1 12 1 (gpu_table 0 15 # l0_frequency_fields j props valid state
      @ [gpu_index (word_of_nat (Suc (ck_returned s)))])" for props valid state
    by (rule body_within, rule body_indexed [OF _ _ _ index_word_ok f]) (use r n in simp_all)
  from body_append [OF b this] have more: "body 3 (Suc n) (12 + n * 12) (Suc n)
      (ck_calls s @ (gpu_table 0 15 # l0_frequency_fields j props valid state
      @ [gpu_index (word_of_nat (Suc (ck_returned s)))]))" for props valid state by (simp add: add.commute)
  show ?thesis using assms keep more mega_finite
    by (auto simp: l0_frequency_def clocks_ok_def Let_def split: prod.split)
qed

lemma frequencies_fold_ok:
  "clocks_ok n s \<Longrightarrow> n + length js \<le> 4096 \<Longrightarrow> clocks_ok (n + length js) (fold (l0_frequency v i) js s)"
proof (induction js arbitrary: n s)
  case (Cons j js)
  from Cons.prems have "clocks_ok (Suc n) (l0_frequency v i j s)" by (intro frequency_ok) simp_all
  from Cons.IH [OF this] Cons.prems(2) show ?case by simp
qed simp

lemma frequencies_body: "body 4 3 388 33 (fst (l0_frequencies v a i fl))"
proof -
  obtain handles fl' where e: "l0_enumerate (l0_enum_answer v L0_frequencies i) fl = (handles, fl')" by force
  have len: "length handles \<le> 32" using enumerate_length [of "l0_enum_answer v L0_frequencies i" fl] e by simp
  let ?s = "fold (l0_frequency v i) [0..<length handles]
    \<lparr>ck_calls = [], ck_returned = 0, ck_gpu = (0, 0), ck_memory = (0, 0), ck_flags = fl'\<rparr>"
  have "clocks_ok 0 \<lparr>ck_calls = [], ck_returned = 0, ck_gpu = (0, 0), ck_memory = (0, 0), ck_flags = fl'\<rparr>"
    by (simp add: clocks_ok_def body_nil zero_finite)
  from frequencies_fold_ok [OF this, of "[0..<length handles]" v i] len
  have s: "clocks_ok (length handles) ?s" by simp
  have b: "body (4 - 1) 32 384 32 (ck_calls ?s)"
    using s len by (auto simp: clocks_ok_def elim!: body_within)
  have f: "is_finite_bits (fst (ck_gpu ?s))" "is_finite_bits (fst (ck_memory ?s))"
    using s by (simp_all add: clocks_ok_def)
  have w: "(word_of_nat (length handles) :: u32) \<le> 4096" by (rule word_count) (use len in simp)
  have "body 4 3 388 33 ((gpu_table (word_of_nat (length handles)) 0 # ck_calls ?s @ [gpu_field_attach ''frequency_domains''])
      @ (if snd (ck_gpu ?s) = 1 then [number_field ''graphics_clock_hz'' (fst (ck_gpu ?s))] else [])
      @ (if snd (ck_memory ?s) = 1 then [number_field ''memory_clock_hz'' (fst (ck_memory ?s))] else []))"
    by (rule body_within) (rule emit_intros | rule b w f | force simp: literal_simps)+
  then show ?thesis by (simp add: l0_frequencies_def e Let_def body_nil)
qed


lemma limit_body: "n < 4096 \<Longrightarrow> body 1 1 8 1 (l0_limit_calls m n)"
  unfolding l0_limit_calls_def
  by (rule body_within) (rule emit_intros index_word_ok | assumption | force simp: literal_simps)+

lemma milli_field_body [emit_intros]: "key_ok key \<Longrightarrow> body d 1 1 0 (l0_milli_field key x)"
  unfolding l0_milli_field_def by (rule body_within) (rule emit_intros | assumption | force)+

lemma limits_list_body:
  assumes "length ms \<le> 16" and d: "0 < d"
  shows "body d 16 128 16 (concat (map (\<lambda>(n, m). l0_limit_calls m n) (enumerate 0 ms)))"
proof -
  have "body 1 (length ms * 1) (sum_list (map (\<lambda>_. 8) ms)) (sum_list (map (\<lambda>_. 1) ms))
      (concat (map (\<lambda>(n, m). l0_limit_calls m n) (enumerate 0 ms)))"
    by (rule body_enumerate) (rule limit_body, use assms in simp)
  then show ?thesis by (rule body_mono) (use assms in \<open>simp_all add: sum_list_triv\<close>)
qed

lemma emit_limits_body:
  assumes "length (cp_limits c) \<le> 16"
  shows "body 2 8 137 17 (l0_emit_limits c)"
proof -
  have w: "(word_of_nat (length (cp_limits c)) :: u32) \<le> 4096" by (rule word_count) (use assms in simp)
  show ?thesis
    unfolding l0_emit_limits_def
    by (rule body_within)
      (rule emit_intros | rule w | rule limits_list_body [OF assms] | force simp: literal_simps)+
qed

definition reading_ok :: "l0_reading \<Rightarrow> bool" where
  "reading_ok r \<longleftrightarrow> text_ok (rd_quality r) \<and> (\<forall>t. rd_reason r = Some t \<longrightarrow> text_ok t) \<and> is_finite_bits (rd_watts r)"

definition read_ok :: "l0_power_read \<Rightarrow> bool" where
  "read_ok r \<longleftrightarrow> reading_ok (pr_reading r) \<and> length (cp_limits (pr_caps r)) \<le> 16 \<and> is_finite_bits (cp_cap (pr_caps r))"

lemma energy_ok: "reading_ok (fst (l0_energy handle counter old nxt))"
  by (auto simp: l0_energy_def reading_ok_def Let_def text_ok_plain zero_finite l0_number_finite
      split: option.split prod.split)

lemma legacy_caps_ok: "length (cp_limits (fst (l0_legacy_caps v a i j fl))) \<le> 16
    \<and> is_finite_bits (cp_cap (fst (l0_legacy_caps v a i j fl)))"
  by (auto simp: l0_legacy_caps_def no_caps_def zero_finite milli_finite split: prod.split)

lemma limits_of_ok: "length (cp_limits (fst (l0_limits_of v a i j fl))) \<le> 16
    \<and> is_finite_bits (cp_cap (fst (l0_limits_of v a i j fl)))"
  using legacy_caps_ok
  by (auto simp: l0_limits_of_def no_caps_def Let_def zero_finite milli_finite not_less word_le_nat_alt
      word_less_nat_alt split: prod.split)

lemma counter_fields_body [emit_intros]: "body d 2 2 0 (l0_counter_fields counter)"
  unfolding l0_counter_fields_def
  by (rule body_within) (rule emit_intros | force simp: literal_simps)+

lemma power_calls_body:
  assumes r: "read_ok r" and n: "n < 4096"
  shows "body 3 1 149 18 (l0_power_calls r n)"
proof -
  have l: "body (3 - 1) 8 137 17 (l0_emit_limits (pr_caps r))" using emit_limits_body r by (simp add: read_ok_def)
  have why: "\<And>t. rd_reason (pr_reading r) = Some t \<Longrightarrow> text_ok t"
    and t: "text_ok (rd_quality (pr_reading r))" "is_finite_bits (rd_watts (pr_reading r))"
    using r by (auto simp: read_ok_def reading_ok_def)
  show ?thesis
    unfolding l0_power_calls_def
    by (rule body_within)
      (rule emit_intros l index_word_ok [OF n] | erule why | rule t | force simp: literal_simps)+
qed

lemma selected_body:
  assumes r: "read_ok r"
  shows "body d 9 9 0 (l0_selected_power r n)"
proof -
  have why: "\<And>t. rd_reason (pr_reading r) = Some t \<Longrightarrow> text_ok t"
    and t: "text_ok (rd_quality (pr_reading r))" "is_finite_bits (rd_watts (pr_reading r))" "is_finite_bits (cp_cap (pr_caps r))"
    using r by (auto simp: read_ok_def reading_ok_def)
  show ?thesis
    unfolding l0_selected_power_def
    by (rule body_within) (rule emit_intros | erule why | rule t | force simp: literal_simps)+
qed

definition power_loop_ok :: "nat \<Rightarrow> l0_power_loop \<Rightarrow> bool" where
  "power_loop_ok n s \<longleftrightarrow> length (lq_readings s) \<le> n \<and> (\<forall>r \<in> set (lq_readings s). read_ok r)
     \<and> (lq_best s \<noteq> RANK_MAX \<longrightarrow> lq_selected s < length (lq_readings s)) \<and> lq_best s \<le> RANK_MAX"

lemma power_step_ok: "power_loop_ok n s \<Longrightarrow> power_loop_ok (Suc n) (l0_power v a i b old jh s)"
proof -
  assume ok: "power_loop_ok n s"
  then have keep: "power_loop_ok (Suc n) (s\<lparr>lq_flags := fl\<rparr>)" for fl by (auto simp: power_loop_ok_def)
  have same: "power_loop_ok (Suc n) s" using ok by (auto simp: power_loop_ok_def)
  have rank: "l0_rank domain sub \<le> RANK_MAX" for domain sub by (simp add: l0_rank_def)
  obtain j handle where jh: "jh = (j, handle)" by force
  show ?thesis
  proof (cases "lost (lq_flags s)")
    case True
    then show ?thesis using same by (simp add: l0_power_def jh)
  next
    case False
    obtain p fl where p: "l0_power_properties_of v i j (lq_flags s) = (p, fl)" by force
    show ?thesis
    proof (cases p)
      case None
      then show ?thesis using False keep p by (simp add: l0_power_def jh)
    next
      case (Some pd)
      obtain props domain where pd: "pd = (props, domain)" by force
      let ?dom = "if handle = b then 1 else if domain \<le> 5 then domain else 0"
      obtain counter fl1 where c: "l0_counter v a i j fl = (counter, fl1)" by force
      obtain reading nxt where e: "l0_energy handle counter old (lq_next s) = (reading, nxt)" by force
      obtain caps fl2 where m: "l0_limits_of v a i j fl1 = (caps, fl2)" by force
      have "reading_ok reading" using energy_ok [of handle counter old "lq_next s"] e by simp
      moreover have "length (cp_limits caps) \<le> 16 \<and> is_finite_bits (cp_cap caps)"
        using limits_of_ok [of v a i j fl1] m by simp
      ultimately have new: "read_ok \<lparr>pr_domain = ?dom, pr_properties = props,
          pr_rank = l0_rank ?dom (pp_on_subdevice props), pr_counter = counter, pr_reading = reading, pr_caps = caps\<rparr>"
        by (simp add: read_ok_def)
      show ?thesis
      proof (cases "1 < pp_on_subdevice props")
        case True
        then show ?thesis using False keep p Some pd by (simp add: l0_power_def jh)
      next
        case sub: False
        have l: "l0_power v a i b old jh s = s\<lparr>lq_readings := lq_readings s @ [\<lparr>pr_domain = ?dom, pr_properties = props,
              pr_rank = l0_rank ?dom (pp_on_subdevice props), pr_counter = counter, pr_reading = reading, pr_caps = caps\<rparr>],
            lq_next := nxt,
            lq_best := (if l0_rank ?dom (pp_on_subdevice props) < lq_best s then l0_rank ?dom (pp_on_subdevice props) else lq_best s),
            lq_selected := (if l0_rank ?dom (pp_on_subdevice props) < lq_best s then length (lq_readings s) else lq_selected s),
            lq_ties := (if l0_rank ?dom (pp_on_subdevice props) < lq_best s then 1
              else if l0_rank ?dom (pp_on_subdevice props) = lq_best s then Suc (lq_ties s) else lq_ties s),
            lq_flags := fl2\<rparr>"
          using False sub p Some pd c e m by (simp add: l0_power_def jh Let_def)
        show ?thesis using ok new rank unfolding l power_loop_ok_def by (auto simp: less_Suc_eq)
      qed
    qed
  qed
qed

lemma power_fold_ok: "power_loop_ok n s \<Longrightarrow> power_loop_ok (n + length jhs) (fold (l0_power v a i b old) jhs s)"
proof (induction jhs arbitrary: n s)
  case (Cons jh jhs)
  from Cons.IH [OF power_step_ok [OF Cons.prems, of v a i b old jh]] show ?case by simp
qed simp

lemma powers_body: "body 4 10 4779 577 (fst (l0_powers v a i old fl))"
proof -
  obtain handles fl' where e: "l0_enumerate (l0_enum_answer v L0_powers i) fl = (handles, fl')" by force
  have len: "length handles \<le> 32" using enumerate_length [of "l0_enum_answer v L0_powers i" fl] e by simp
  let ?init = "\<lambda>fl. \<lparr>lq_readings = [], lq_next = [], lq_best = RANK_MAX, lq_selected = 0, lq_ties = 0, lq_flags = fl\<rparr>"
  have all: "body 4 10 4779 577 ((gpu_table (word_of_nat (length (lq_readings s))) 0
        # concat (map (\<lambda>(n, r). l0_power_calls r n) (enumerate 0 (lq_readings s)))
        @ [gpu_field_attach ''power_domains''])
      @ (if lq_ties s = 1 \<and> lq_best s \<noteq> RANK_MAX then l0_selected_power (lq_readings s ! lq_selected s) (lq_selected s)
         else if lq_readings s \<noteq> []
         then [string_field ''power_quality'' ''unavailable'', string_field ''power_reason'' ''levelzero_power_domain_ambiguous'']
         else []))" if s: "s = fold (l0_power v a i b old) (enumerate 0 handles) (?init fl)" for s b fl
  proof -
    have "power_loop_ok 0 (?init fl)" by (simp add: power_loop_ok_def)
    from power_fold_ok [OF this, of "enumerate 0 handles" v a i b old] len
    have ok: "power_loop_ok 32 s" by (auto simp: s power_loop_ok_def)
    then have r: "length (lq_readings s) \<le> 32" "\<forall>r \<in> set (lq_readings s). read_ok r" by (simp_all add: power_loop_ok_def)
    have "body 3 (length (lq_readings s) * 1) (sum_list (map (\<lambda>_. 149) (lq_readings s))) (sum_list (map (\<lambda>_. 18) (lq_readings s)))
        (concat (map (\<lambda>(n, r). l0_power_calls r n) (enumerate 0 (lq_readings s))))"
      by (rule body_enumerate) (rule power_calls_body, use r in auto)
    then have b: "body (4 - 1) 32 4768 576 (concat (map (\<lambda>(n, r). l0_power_calls r n) (enumerate 0 (lq_readings s))))"
      using r(1) by (auto simp: sum_list_triv elim!: body_within)
    have sel: "lq_best s \<noteq> RANK_MAX \<Longrightarrow> read_ok (lq_readings s ! lq_selected s)"
      using ok by (simp add: power_loop_ok_def)
    have w: "(word_of_nat (length (lq_readings s)) :: u32) \<le> 4096" by (rule word_count) (use r in simp)
    show ?thesis
      by (rule body_within)
        (rule emit_intros | rule b w | rule selected_body, rule sel, blast | force simp: literal_simps)+
  qed
  show ?thesis
    using all by (auto simp: l0_powers_def e Let_def body_nil split: prod.split)
qed


section \<open>The devices\<close>

lemma l0_text_body [emit_intros]: "key_ok key \<Longrightarrow> body d 1 1 0 (l0_text key buffer capacity)"
  unfolding l0_text_def
  by (rule body_within)
    (rule emit_intros | assumption | force simp: valid_text_in text_ok_plain dest: text_in_ok)+

lemma uuid_length: "length (concat (map (\<lambda>b. hex_fixed 2 (unat b)) u)) = 2 * length u"
  by (induction u) auto

lemma l0_uuid_ok [emit_intros]: "text_ok (l0_uuid uuid)"
  using uuid_length [of "take 16 uuid"] by (auto simp: l0_uuid_def text_ok_plain)

lemma l0_bdf_ok: "text_ok (fst (l0_bdf v a i fl))"
  by (auto simp: l0_bdf_def text_ok_plain split: prod.split)

lemma l0_device_fields_body:
  assumes "text_ok bdf" and "text_ok uuid"
  shows "body 4 9 9 0 (l0_device_fields i bdf uuid properties)"
  unfolding l0_device_fields_def
  by (rule body_within) (rule emit_intros assms | force simp: literal_simps)+

lemma device_content_body:
  assumes "body 4 9 9 0 entry"
  shows "body 4 23 5177 610 (entry @ fst (l0_temperatures v a i fl)
    @ fst (l0_frequencies v a i fl') @ fst (l0_powers v a i old fl''))"
  by (rule body_within)
    (rule body_append assms temperatures_body frequencies_body powers_body | simp)+

definition collection_ok :: "nat \<Rightarrow> l0_collection \<Rightarrow> bool" where
  "collection_ok n s \<longleftrightarrow> length (lk_pending s) \<le> n
     \<and> (lk_reason s = None \<longrightarrow> body 5 (length (lk_pending s)) (n * 5179) (n * 611) (lk_calls s))
     \<and> (case lk_reason s of None \<Rightarrow> True | Some reason \<Rightarrow> reason = ''levelzero_device_lost'')"

lemma collection_skip: "collection_ok n s \<Longrightarrow> collection_ok (Suc n) (s\<lparr>lk_flags := fl\<rparr>)"
  by (auto simp: collection_ok_def elim!: body_within)

lemma collection_same: "collection_ok n s \<Longrightarrow> collection_ok (Suc n) s"
  by (auto simp: collection_ok_def elim!: body_within)

lemma collection_add:
  assumes ok: "collection_ok n s" and r: "lk_reason s = None" and n: "n < 4096"
    and b: "body 4 23 5177 610 cs"
  shows "collection_ok (Suc n) (s\<lparr>lk_calls := lk_calls s @ (gpu_table 0 22 # cs
      @ [gpu_index (word_of_nat (Suc (length (lk_pending s))))]),
    lk_pending := lk_pending s @ [c], lk_bdfs := lk_bdfs s @ [bdf], lk_flags := fl,
    lk_reason := (if gone then Some ''levelzero_device_lost'' else None)\<rparr>)"
proof -
  have c: "body (5 - 1) 23 5177 610 cs" using b by simp
  have p: "length (lk_pending s) \<le> n" using ok by (simp add: collection_ok_def)
  have "body 5 1 5179 611 (gpu_table 0 22 # cs @ [gpu_index (word_of_nat (Suc (length (lk_pending s))))])"
    by (rule body_within, rule body_indexed [OF _ _ _ index_word_ok c]) (use p n in simp_all)
  from body_append [OF _ this] ok r show ?thesis
    by (fastforce simp: collection_ok_def algebra_simps)
qed

lemma report_ok:
  assumes ok: "collection_ok n s" and r: "lk_reason s = None" and n: "n < 4096" and f: "body 4 9 9 0 entry"
  shows "collection_ok (Suc n) (l0_report v a i handle identity bdf entry fl s)"
proof -
  obtain temperatures fl1 where 1: "l0_temperatures v a i fl = (temperatures, fl1)" by force
  obtain clocks fl2 where 2: "l0_frequencies v a i fl1 = (clocks, fl2)" by force
  obtain powers nxt fl3 where 3: "l0_powers v a i (l0_old_cursor (l0_cursors a) handle identity) fl2 = (powers, nxt, fl3)"
    by (metis prod.exhaust)
  from device_content_body [OF f, of v a i fl fl1 "l0_old_cursor (l0_cursors a) handle identity" fl2]
  have b: "body 4 23 5177 610 (entry @ temperatures @ clocks @ powers)" by (simp add: 1 2 3)
  show ?thesis
  proof (cases "lost fl1 \<or> lost fl2")
    case True
    then show ?thesis using ok by (auto simp: l0_report_def 1 2 collection_ok_def)
  next
    case False
    let ?c = "\<lparr>lc_device = handle, lc_identity = identity, lc_powers = nxt\<rparr>"
    have "l0_report v a i handle identity bdf entry fl s = s\<lparr>lk_calls := lk_calls s @ (gpu_table 0 22
        # (entry @ temperatures @ clocks @ powers) @ [gpu_index (word_of_nat (Suc (length (lk_pending s))))]),
      lk_pending := lk_pending s @ [?c], lk_bdfs := lk_bdfs s @ [bdf], lk_flags := fl3,
      lk_reason := (if lost fl3 then Some ''levelzero_device_lost'' else None)\<rparr>"
      using False by (simp add: l0_report_def 1 2 3)
    then show ?thesis using collection_add [OF ok r n b, where c = ?c and bdf = bdf and fl = fl3 and gone = "lost fl3"] by (simp only:)
  qed
qed

lemma device_ok:
  assumes ok: "collection_ok n s" and n: "n < 4096"
  shows "collection_ok (Suc n) (l0_device v a d s)"
proof -
  obtain i handle driver where d: "d = (i, handle, driver)" by (metis prod.exhaust)
  obtain identified fl1 where 1: "l0_identified v a i (lk_flags s) = (identified, fl1)" by force
  obtain bdf fl2 where 2: "l0_bdf v a i fl1 = (bdf, fl2)" by force
  have bdf: "text_ok bdf" using l0_bdf_ok [of v a i fl1] 2 by simp
  have uuid: "text_ok (case identified of Some p \<Rightarrow> l0_uuid (lp_uuid p) | None \<Rightarrow> [])"
    using l0_uuid_ok by (simp add: text_ok_plain split: option.split)
  note report = report_ok [OF ok _ n l0_device_fields_body [OF bdf uuid]]
  show ?thesis
    using collection_same [OF ok] collection_skip [OF ok] report
    unfolding l0_device_def d prod.case 1 2 Let_def by (auto split: if_split)
qed

lemma devices_fold_ok:
  "collection_ok n s \<Longrightarrow> n + length ds \<le> 4096 \<Longrightarrow> collection_ok (n + length ds) (fold (l0_device v a) ds s)"
proof (induction ds arbitrary: n s)
  case (Cons d ds)
  from Cons.prems have "collection_ok (Suc n) (l0_device v a d s)" by (intro device_ok) simp_all
  from Cons.IH [OF this] Cons.prems(2) show ?case by simp
qed simp

lemma add_device_few: "length (lf_devices s) \<le> 64 \<Longrightarrow> length (lf_devices (l0_add_device driver h s)) \<le> 64"
  by (simp add: l0_add_device_def)

lemma add_devices_few: "length (lf_devices s) \<le> 64 \<Longrightarrow> length (lf_devices (fold (l0_add_device driver) hs s)) \<le> 64"
  by (induction hs arbitrary: s) (simp_all add: add_device_few)

lemma driver_devices_few: "length (lf_devices s) \<le> 64 \<Longrightarrow> length (lf_devices (l0_driver_devices v nd s)) \<le> 64"
  by (auto simp: l0_driver_devices_def Let_def add_devices_few split: prod.split)

lemma drivers_devices_few: "length (lf_devices s) \<le> 64 \<Longrightarrow> length (lf_devices (fold (l0_driver_devices v) nds s)) \<le> 64"
  by (induction nds arbitrary: s) (simp_all add: driver_devices_few)

lemma l0_devices_few: "l0_devices v fl = (Some (found, drivers), fl') \<Longrightarrow> length (lf_devices found) \<le> 64"
  by (auto simp: l0_devices_def Let_def drivers_devices_few split: prod.splits if_splits)

lemma l0_collection_ok:
  assumes "length (lf_devices found) \<le> 64"
  shows "collection_ok 64 (l0_collection_of v a found)"
proof -
  have "collection_ok 0 \<lparr>lk_calls = [], lk_pending = [], lk_bdfs = [], lk_flags = lf_flags found, lk_reason = None\<rparr>"
    by (simp add: collection_ok_def body_nil)
  from devices_fold_ok [OF this, of "map (\<lambda>(i, d). (i, fst d, snd d)) (enumerate 0 (lf_devices found))" v a] assms
  have "collection_ok (length (lf_devices found)) (l0_collection_of v a found)" by (simp add: l0_collection_of_def)
  moreover have "body 5 m (length (lf_devices found) * 5179) (length (lf_devices found) * 611) cs
      \<Longrightarrow> body 5 m (64 * 5179) (64 * 611) cs" for m cs
    by (rule body_within) (use assms in auto)
  ultimately show ?thesis using assms by (auto simp: collection_ok_def)
qed

lemma l0_frame_body:
  assumes b: "body 5 n 331456 39104 cs" and n: "n \<le> 64" and d: "devices \<le> 4096"
  shows "body 6 7 331464 39105 (l0_head a drivers @ ((gpu_table devices 0 # cs) @ [gpu_field_attach ''devices'']) @ l0_tail fl)"
proof -
  have c: "body (6 - 1) 64 331456 39104 cs" using b by (simp, rule body_within) (use n in simp_all)
  have "body 6 7 331464 39105 (l0_head a drivers @ (gpu_table devices 0 # cs @ [gpu_field_attach ''devices'']) @ l0_tail fl)"
    unfolding l0_head_def l0_tail_def
    by (rule body_within) (rule emit_intros | rule c d | force simp: literal_simps)+
  then show ?thesis by simp
qed

lemma l0_head_lost [simp]: "l0_head (a\<lparr>l0_lost := gone\<rparr>) drivers = l0_head a drivers"
  by (simp add: l0_head_def)

lemma l0_collect_sends:
  assumes "l0_collect v (wire_emit alloc) b a = (b', a', None)" and "wdata b = []"
  shows "gpu_wire_valid (wdata b')"
proof -
  obtain r fl where e: "l0_devices v \<lparr>lost = l0_lost a, incomplete = False, cut = False\<rparr> = (r, fl)" by force
  obtain found drivers where r: "r = Some (found, drivers)"
    using assms(1) e by (cases r) (auto simp: l0_collect_def)
  let ?s = "l0_collection_of v a found"
  let ?cs = "l0_head a drivers @ ((gpu_table (word_of_nat (length (lf_devices found))) 0 # lk_calls ?s)
      @ [gpu_field_attach ''devices'']) @ l0_tail (lk_flags ?s)"
  from l0_devices_few [of v _ found drivers fl] e r have few: "length (lf_devices found) \<le> 64" by simp
  from l0_collection_ok [OF few, of v a] have ok: "collection_ok 64 ?s" .
  have none: "lk_reason ?s = None"
    using assms(1) e r by (auto simp: l0_collect_def Let_def split: option.splits)
  have b': "b' = wire_emit_all alloc b (gpu_table 0 8 # ?cs)" and sent: "wfailed b' = 0"
    using assms(1) e r none by (auto simp: l0_collect_def Let_def wire_emit_all_def split: if_splits)
  have "body 5 (length (lk_pending ?s)) 331456 39104 (lk_calls ?s)" and "length (lk_pending ?s) \<le> 64"
    using ok none by (simp_all add: collection_ok_def)
  from l0_frame_body [OF this word_count, of "length (lf_devices found)"] few
  have body: "body 6 7 331464 39105 ?cs" by simp
  show ?thesis unfolding b'
    by (rule frame_valid [OF body]) (use sent b' assms(2) wire_emit_all_limit in simp_all)
qed

lemma l0_collect_reason: "l0_collect v emit b a = (b', a', Some reason) \<Longrightarrow> own_reason ''levelzero'' reason"
proof -
  assume h: "l0_collect v emit b a = (b', a', Some reason)"
  obtain r fl where e: "l0_devices v \<lparr>lost = l0_lost a, incomplete = False, cut = False\<rparr> = (r, fl)" by force
  show ?thesis
  proof (cases r)
    case None
    then show ?thesis using h e by (auto simp: l0_collect_def reason_simps)
  next
    case (Some x)
    obtain found drivers where x: "x = (found, drivers)" by force
    have "collection_ok 64 (l0_collection_of v a found)"
      using l0_collection_ok l0_devices_few e Some x by simp
    then show ?thesis using h e Some x
      by (auto simp: l0_collect_def Let_def collection_ok_def reason_simps split: option.splits if_splits)
  qed
qed


section \<open>The collector\<close>

text \<open>
  The collector as the reader calls it: the session and the number of the collection. Level Zero
  reports no processes.
\<close>

definition l0_collector :: "(nat \<Rightarrow> l0_driver) \<Rightarrow> (wire_buffer \<Rightarrow> emit_call \<Rightarrow> wire_buffer) \<Rightarrow> wire_buffer
    \<Rightarrow> l0_api \<times> nat \<Rightarrow> bool \<Rightarrow> wire_buffer \<times> (l0_api \<times> nat) \<times> string option" where
  "l0_collector answers emit b w include_processes =
     (case l0_collect (answers (snd w)) emit b (fst w) of (b', a', reason) \<Rightarrow> (b', (a', Suc (snd w)), reason))"

interpretation levelzero: frame_collector "''levelzero''" "l0_collector answers" for answers
  by unfold_locales
    (auto simp: l0_collector_def dest: l0_collect_sends l0_collect_reason split: prod.splits)

section \<open>Power is measured\<close>

lemma last_cursor_Some: "last_cursor cs handle = Some c \<Longrightarrow> c \<in> set cs \<and> pc_power c = handle"
proof (induction cs rule: rev_induct)
  case (snoc x xs)
  then show ?case by (auto simp: last_cursor_def split: if_splits)
qed (simp add: last_cursor_def)


lemma l0_open_reason: "l0_open l a legacy = (a', es, Some reason) \<Longrightarrow> own_reason ''levelzero'' reason"
  by (auto simp: l0_open_def Let_def reason_simps split: if_splits)

text \<open>The loader stays open at most once: opening after a failure closes it first.\<close>

lemma l0_open_balanced:
  assumes "l0_open l a legacy = (a', es, r)" and "l0_ready a \<longrightarrow> l0_library a"
  shows "int (count_list es Loader_opened) - int (count_list es Loader_closed)
      = of_bool (l0_library a') - of_bool (l0_library a)"
    and "r = None \<longleftrightarrow> l0_ready a'" and "l0_ready a' \<longrightarrow> l0_library a'"
  using assms by (auto simp: l0_open_def l0_close_def l0_blank_def Let_def split: if_splits)

end
