(* ===== verification/Amdsmi.thy ===== *)
theory Amdsmi imports GpuOutput begin

text \<open>
  The AMD collector \<^verbatim>\<open>native/wtop_amdsmi.c\<close>. Every collection opens the library, starts a
  session, recognizes the version whose structures it knows, enumerates sockets and processors,
  reads each device, ends the session and closes the library, and only then sends what it has.
  The library's answers are functions of the position of the socket and device and of the call;
  an answer that depends on the layout of a version is given as the fields the code reads.
\<close>

section \<open>The library\<close>

abbreviation (input) MAX_SOCKETS :: u32 where "MAX_SOCKETS \<equiv> 32"
abbreviation (input) MAX_DEVICES :: u32 where "MAX_DEVICES \<equiv> 64"
abbreviation (input) AMD_GPU_TYPE :: u32 where "AMD_GPU_TYPE \<equiv> 1"

datatype amd_function = A_init | A_shutdown | A_version | A_sockets | A_processors | A_type | A_bdf
  | A_asic | A_driver_info | A_activity | A_power | A_uuid | A_driver | A_memory_total | A_memory_used
  | A_temperature | A_clock | A_cap | A_fan | A_fan_max

fun amd_symbol :: "amd_function \<Rightarrow> string" where
  "amd_symbol A_init = ''amdsmi_init''"
| "amd_symbol A_shutdown = ''amdsmi_shut_down''"
| "amd_symbol A_version = ''amdsmi_get_lib_version''"
| "amd_symbol A_sockets = ''amdsmi_get_socket_handles''"
| "amd_symbol A_processors = ''amdsmi_get_processor_handles''"
| "amd_symbol A_type = ''amdsmi_get_processor_type''"
| "amd_symbol A_bdf = ''amdsmi_get_gpu_device_bdf''"
| "amd_symbol A_asic = ''amdsmi_get_gpu_asic_info''"
| "amd_symbol A_driver_info = ''amdsmi_get_gpu_driver_info''"
| "amd_symbol A_driver = ''amdsmi_get_gpu_driver_version''"
| "amd_symbol A_uuid = ''amdsmi_get_gpu_device_uuid''"
| "amd_symbol A_activity = ''amdsmi_get_gpu_activity''"
| "amd_symbol A_memory_total = ''amdsmi_get_gpu_memory_total''"
| "amd_symbol A_memory_used = ''amdsmi_get_gpu_memory_usage''"
| "amd_symbol A_temperature = ''amdsmi_get_temp_metric''"
| "amd_symbol A_power = ''amdsmi_get_power_info''"
| "amd_symbol A_cap = ''amdsmi_get_power_cap_info''"
| "amd_symbol A_clock = ''amdsmi_get_clock_info''"
| "amd_symbol A_fan = ''amdsmi_get_gpu_fan_speed''"
| "amd_symbol A_fan_max = ''amdsmi_get_gpu_fan_speed_max''"

record smi_loader =
  amd_dlopen :: "string \<Rightarrow> bool"
  amd_dlsym :: "string \<Rightarrow> bool"

record amd_api =
  amd_library :: bool
  amd_has :: "amd_function \<Rightarrow> bool"

definition amd_libraries :: "string list" where
  "amd_libraries = [''libamd_smi.so'', ''libamd_smi.so.26'', ''libamd_smi.so.25'', ''libamd_smi.so.24'',
     ''libamd_smi.so.23'', ''libamd_smi.so.1'']"

definition open_api :: "smi_loader \<Rightarrow> amd_api \<times> string option" where
  "open_api l =
     (if \<not> list_ex (amd_dlopen l) amd_libraries
      then (\<lparr>amd_library = False, amd_has = (\<lambda>_. False)\<rparr>, Some ''amdsmi_library_not_found'')
      else
        let a = \<lparr>amd_library = True, amd_has = (\<lambda>f. amd_dlsym l (amd_symbol f))\<rparr>
        in (a, if list_all (amd_has a) [A_init, A_shutdown, A_version, A_sockets, A_processors, A_type]
               then None else Some ''amdsmi_symbols_missing''))"

section \<open>What the library answers\<close>

record amd_driver =
  amd_loader :: smi_loader
  init_answer :: u32
  shutdown_answer :: u32
  version_answer :: "u32 \<times> u32 \<times> u32 \<times> u32 \<times> u32"
  sockets_answer :: "nat \<Rightarrow> u32 \<times> u32 \<times> (nat \<Rightarrow> nat)"
  processors_answer :: "nat \<Rightarrow> nat \<Rightarrow> u32 \<times> u32 \<times> (nat \<Rightarrow> nat)"
  type_answer :: "nat \<Rightarrow> nat \<Rightarrow> u32 \<times> u32"
  asic_name_answer :: "nat \<Rightarrow> u32 \<times> byte list"
  driver_info_answer :: "nat \<Rightarrow> u32 \<times> byte list"
  driver_answer :: "nat \<Rightarrow> u32 \<times> u32 \<times> byte list"
  uuid_answer :: "nat \<Rightarrow> u32 \<times> u32 \<times> byte list"
  bdf_answer :: "nat \<Rightarrow> u32 \<times> u64"
  activity_answer :: "nat \<Rightarrow> u32 \<times> u32 \<times> u32"
  memory_total_answer :: "nat \<Rightarrow> u32 \<times> u64"
  memory_used_answer :: "nat \<Rightarrow> u32 \<times> u64"
  temperature_answer :: "nat \<Rightarrow> u32 \<times> u64"
  power_answer :: "nat \<Rightarrow> u32 \<times> u32 \<times> u32"
  cap_answer :: "nat \<Rightarrow> u32 \<times> u64"
  clock_answer :: "nat \<Rightarrow> u32 \<Rightarrow> u32 \<times> u32 \<times> u32"
  fan_answer :: "nat \<Rightarrow> u32 \<times> u64"
  fan_max_answer :: "nat \<Rightarrow> u32 \<times> u64"

text \<open>
  \<open>version_profile\<close>: the layouts known. From release 26 on the version has three numbers, before
  four.
\<close>

definition dotted :: "u32 list \<Rightarrow> string" where
  "dotted ns = concat (map (\<lambda>n. ''.'' @ decimal (unat n)) ns)"

definition version_profile :: "amd_driver \<Rightarrow> nat \<times> string" where
  "version_profile v = (case version_answer v of (status, a, b, c, d) \<Rightarrow>
     if status \<noteq> 0 then (0, [])
     else if a = 26
     then (if b = 0 \<and> c = 2 then 260 else if b = 2 \<and> (c = 0 \<or> c = 2) then 262 else 0, tl (dotted [a, b, c]))
     else (if (a, b, c, d) = (23, 2, 0, 1) then 232
           else if (a, b, c, d) = (23, 4, 0, 0) then 234
           else if (a, b, c, d) = (24, 5, 2, 0) then 245
           else if (a, b, c, d) = (24, 6, 3, 0) then 246
           else if (a, b, c, d) = (25, 1, 0, 0) then 251
           else if (a, b, c, d) = (25, 25, 5, 1) then 255 else 0, tl (dotted [a, b, c, d])))"

section \<open>Enumeration\<close>

record amd_found =
  af_handles :: "nat list"
  af_partial :: bool
  af_truncated :: bool

definition add_processor :: "amd_driver \<Rightarrow> nat \<Rightarrow> nat \<times> nat \<Rightarrow> amd_found \<Rightarrow> amd_found" where
  "add_processor v i jh s = (case jh of (j, h) \<Rightarrow>
     if h = 0 \<or> fst (type_answer v i j) \<noteq> 0 then s\<lparr>af_partial := True\<rparr>
     else if snd (type_answer v i j) \<noteq> AMD_GPU_TYPE then s
     else if h \<in> set (af_handles s) then s
     else if length (af_handles s) = 64 then s\<lparr>af_partial := True, af_truncated := True\<rparr>
     else s\<lparr>af_handles := af_handles s @ [h]\<rparr>)"

definition socket_processors :: "amd_driver \<Rightarrow> nat \<times> nat \<Rightarrow> amd_found \<Rightarrow> amd_found" where
  "socket_processors v is s = (case is of (i, socket) \<Rightarrow>
     if socket = 0 then s\<lparr>af_partial := True\<rparr>
     else case processors_answer v i 0 of (status, needed, _) \<Rightarrow>
       if status \<noteq> 0 then s\<lparr>af_partial := True\<rparr>
       else if needed = 0 then s
       else
         let capacity = (if needed < MAX_DEVICES then needed else MAX_DEVICES);
             s = (if MAX_DEVICES < needed then s\<lparr>af_partial := True, af_truncated := True\<rparr> else s)
         in case processors_answer v i 1 of (status, amount, batch) \<Rightarrow>
              if status \<noteq> 0 \<or> capacity < amount
              then s\<lparr>af_partial := True, af_truncated := af_truncated s \<or> capacity < amount\<rparr>
              else fold (add_processor v i) (map (\<lambda>j. (j, batch j)) [0..<unat amount]) s)"

definition collect_handles :: "amd_driver \<Rightarrow> amd_found \<times> string option" where
  "collect_handles v =
     (let s = \<lparr>af_handles = [], af_partial = False, af_truncated = False\<rparr> in
      case sockets_answer v 0 of (status, needed, _) \<Rightarrow>
        if status \<noteq> 0 then (s, Some ''amdsmi_socket_query_failed'')
        else if needed = 0 then (s, None)
        else
          let capacity = (if needed < MAX_SOCKETS then needed else MAX_SOCKETS);
              s = (if MAX_SOCKETS < needed then s\<lparr>af_partial := True, af_truncated := True\<rparr> else s)
          in case sockets_answer v 1 of (status, amount, sockets) \<Rightarrow>
               if status \<noteq> 0 \<or> capacity < amount
               then (s\<lparr>af_partial := True, af_truncated := af_truncated s \<or> capacity < amount\<rparr>,
                     Some ''amdsmi_socket_query_failed'')
               else (fold (socket_processors v) (map (\<lambda>i. (i, sockets i)) [0..<unat amount]) s, None))"

section \<open>One device\<close>

datatype amd_metric = UTILIZATION | MEMORY_UTILIZATION | MEMORY_TOTAL | MEMORY_USED | TEMPERATURE | POWER
  | POWER_LIMIT | GRAPHICS_CLOCK | GRAPHICS_MAX | MEMORY_CLOCK | FAN_PERCENT

fun metric_name :: "amd_metric \<Rightarrow> string" where
  "metric_name UTILIZATION = ''utilization_percent''"
| "metric_name MEMORY_UTILIZATION = ''memory_utilization_percent''"
| "metric_name MEMORY_TOTAL = ''memory_total_bytes''"
| "metric_name MEMORY_USED = ''memory_used_bytes''"
| "metric_name TEMPERATURE = ''temperature_celsius''"
| "metric_name POWER = ''power_watts''"
| "metric_name POWER_LIMIT = ''power_limit_watts''"
| "metric_name GRAPHICS_CLOCK = ''graphics_clock_hz''"
| "metric_name GRAPHICS_MAX = ''graphics_clock_maximum_hz''"
| "metric_name MEMORY_CLOCK = ''memory_clock_hz''"
| "metric_name FAN_PERCENT = ''fan_speed_percent''"

definition all_metrics :: "amd_metric list" where
  "all_metrics = [UTILIZATION, MEMORY_UTILIZATION, MEMORY_TOTAL, MEMORY_USED, TEMPERATURE, POWER, POWER_LIMIT,
     GRAPHICS_CLOCK, GRAPHICS_MAX, MEMORY_CLOCK, FAN_PERCENT]"

text \<open>\<open>present\<close> and \<open>metrics\<close> together: a reading is there or not. Empty texts are not sent.\<close>

record amd_device =
  ad_metrics :: "amd_metric \<Rightarrow> u64 option"
  ad_name :: string
  ad_uuid :: string
  ad_driver :: string
  ad_bdf :: string
  ad_power_measurement :: string

definition no_device :: amd_device where
  "no_device = \<lparr>ad_metrics = (\<lambda>_. None), ad_name = [], ad_uuid = [], ad_driver = [], ad_bdf = [],
     ad_power_measurement = []\<rparr>"

definition text_copy :: "nat \<Rightarrow> byte list \<Rightarrow> nat \<Rightarrow> string" where
  "text_copy capacity value n = (case valid_text n value of
     Some t \<Rightarrow> if length t < capacity then t else [] | None \<Rightarrow> [])"

definition amd_reading :: "amd_metric \<Rightarrow> u64 \<Rightarrow> amd_device \<Rightarrow> amd_device" where
  "amd_reading k x d = d\<lparr>ad_metrics := (ad_metrics d)(k \<mapsto> x)\<rparr>"

definition watts_valid :: "u64 \<Rightarrow> bool" where
  "watts_valid x \<longleftrightarrow> x \<noteq> 0xffff \<and> x \<noteq> 0xffffffff \<and> x < 100000"

definition clock_valid :: "u32 \<Rightarrow> bool" where
  "clock_valid x \<longleftrightarrow> x \<noteq> 0xffff \<and> x < 100000"

text \<open>
  \<open>identity\<close>: the sizes of the name and of the driver version are those of the layout; release
  23.2 has no driver structure, and the older call is the fallback.
\<close>

definition asic_name_size :: "nat \<Rightarrow> nat" where
  "asic_name_size profile = (if profile \<le> 245 then 64 else 256)"

definition driver_version_size :: "nat \<Rightarrow> nat" where
  "driver_version_size profile = (if profile \<le> 251 then 64 else 256)"

definition amd_asic_name :: "amd_driver \<Rightarrow> amd_api \<Rightarrow> nat \<Rightarrow> nat \<Rightarrow> string" where
  "amd_asic_name v a profile i = (case asic_name_answer v i of (status, value) \<Rightarrow>
     if amd_has a A_asic \<and> status = 0 then text_copy 257 value (asic_name_size profile) else [])"

definition amd_driver_version :: "amd_driver \<Rightarrow> amd_api \<Rightarrow> nat \<Rightarrow> nat \<Rightarrow> string" where
  "amd_driver_version v a profile i =
     (let info = (case driver_info_answer v i of (status, value) \<Rightarrow>
            if profile \<noteq> 232 \<and> amd_has a A_driver_info \<and> status = 0
            then text_copy 257 value (driver_version_size profile) else [])
      in if info = [] \<and> amd_has a A_driver
         then case driver_answer v i of (status, written, value) \<Rightarrow>
           if status = 0 \<and> 0 < sint written \<and> sint written \<le> 257 then text_copy 257 value (unat written) else []
         else info)"

definition amd_uuid :: "amd_driver \<Rightarrow> amd_api \<Rightarrow> nat \<Rightarrow> string" where
  "amd_uuid v a i = (case uuid_answer v i of (status, written, value) \<Rightarrow>
     if amd_has a A_uuid \<and> status = 0 \<and> 0 < written \<and> written \<le> 257
     then text_copy 257 value (if written < 257 then unat written + 1 else unat written) else [])"

definition amd_bdf :: "amd_driver \<Rightarrow> amd_api \<Rightarrow> nat \<Rightarrow> string" where
  "amd_bdf v a i = (case bdf_answer v i of (status, x) \<Rightarrow>
     if amd_has a A_bdf \<and> status = 0 \<and> drop_bit 16 x \<le> 0xffff
     then hex_fixed 4 (unat (drop_bit 16 x)) @ '':'' @ hex_fixed 2 (unat (drop_bit 8 x AND 0xff)) @ '':''
          @ hex_fixed 2 (unat (drop_bit 3 x AND 0x1f)) @ ''.'' @ hex_fixed 1 (unat (x AND 7))
     else [])"

definition amd_identity :: "amd_driver \<Rightarrow> amd_api \<Rightarrow> nat \<Rightarrow> nat \<Rightarrow> amd_device \<Rightarrow> amd_device" where
  "amd_identity v a profile i d = d\<lparr>ad_name := amd_asic_name v a profile i,
     ad_driver := amd_driver_version v a profile i, ad_uuid := amd_uuid v a i, ad_bdf := amd_bdf v a i\<rparr>"

definition amd_power_reading :: "u64 \<Rightarrow> u64 \<Rightarrow> amd_device \<Rightarrow> amd_device" where
  "amd_power_reading current average d =
     (if watts_valid current
      then (amd_reading POWER (dbl_of_nat (unat current)) d)\<lparr>ad_power_measurement := ''current''\<rparr>
      else if watts_valid average
      then (amd_reading POWER (dbl_of_nat (unat average)) d)\<lparr>ad_power_measurement := ''average''\<rparr>
      else d)"

definition amd_power :: "amd_driver \<Rightarrow> amd_api \<Rightarrow> nat \<Rightarrow> nat \<Rightarrow> amd_device \<Rightarrow> amd_device" where
  "amd_power v a profile i d =
     (case (power_answer v i, cap_answer v i) of ((status, current, average), (cap_status, cap)) \<Rightarrow>
        let d = (if amd_has a A_power \<and> status = 0
                 then amd_power_reading (if profile = 232 then - 1 else ucast current) (ucast average) d else d)
        in if amd_has a A_cap \<and> cap_status = 0 \<and> 0 < cap \<and> cap \<noteq> 0xffff \<and> cap \<noteq> 0xffffffff \<and> cap < 100000000000
           then amd_reading POWER_LIMIT (dbl_div (dbl_of_nat (unat cap)) (dbl_of_nat 1000000)) d else d)"

definition amd_hertz :: "u32 \<Rightarrow> u64" where
  "amd_hertz x = dbl_mul (dbl_of_nat (unat x)) (dbl_of_nat 1000000)"

definition amd_clocks :: "amd_driver \<Rightarrow> amd_api \<Rightarrow> nat \<Rightarrow> amd_device \<Rightarrow> amd_device" where
  "amd_clocks v a i d =
     (if \<not> amd_has a A_clock then d
      else case (clock_answer v i 0, clock_answer v i 4) of
        ((graphics, current, maximum), (memory, memory_clock, _)) \<Rightarrow>
          let d = (if graphics = 0 \<and> clock_valid current then amd_reading GRAPHICS_CLOCK (amd_hertz current) d else d);
              d = (if graphics = 0 \<and> 0 < maximum \<and> clock_valid maximum
                   then amd_reading GRAPHICS_MAX (amd_hertz maximum) d else d)
          in if memory = 0 \<and> clock_valid memory_clock then amd_reading MEMORY_CLOCK (amd_hertz memory_clock) d else d)"

text \<open>The parts of \<open>collect_device\<close> between the identity and the clocks.\<close>

definition amd_activity :: "amd_driver \<Rightarrow> amd_api \<Rightarrow> nat \<Rightarrow> amd_device \<Rightarrow> amd_device" where
  "amd_activity v a i d = (case activity_answer v i of (status, gfx, umc) \<Rightarrow>
     if amd_has a A_activity \<and> status = 0
     then let d = (if gfx \<le> 100 then amd_reading UTILIZATION (dbl_of_nat (unat gfx)) d else d)
          in if umc \<le> 100 then amd_reading MEMORY_UTILIZATION (dbl_of_nat (unat umc)) d else d
     else d)"

definition amd_bytes :: "amd_metric \<Rightarrow> bool \<Rightarrow> u32 \<times> u64 \<Rightarrow> amd_device \<Rightarrow> amd_device" where
  "amd_bytes k available answer d = (case answer of (status, bytes) \<Rightarrow>
     if available \<and> status = 0 \<and> bytes < 2 ^ 50 then amd_reading k (dbl_of_nat (unat bytes)) d else d)"

definition amd_memory :: "amd_driver \<Rightarrow> amd_api \<Rightarrow> nat \<Rightarrow> amd_device \<Rightarrow> amd_device" where
  "amd_memory v a i d =
     (let d = amd_bytes MEMORY_TOTAL (amd_has a A_memory_total) (memory_total_answer v i) d;
          d = amd_bytes MEMORY_USED (amd_has a A_memory_used) (memory_used_answer v i) d
      in case (ad_metrics d MEMORY_TOTAL, ad_metrics d MEMORY_USED) of
           (Some all, Some used) \<Rightarrow> if dbl_less all used then d\<lparr>ad_metrics := (ad_metrics d)(MEMORY_USED := None)\<rparr> else d
         | _ \<Rightarrow> d)"

definition amd_temperature :: "amd_driver \<Rightarrow> amd_api \<Rightarrow> nat \<Rightarrow> amd_device \<Rightarrow> amd_device" where
  "amd_temperature v a i d = (case temperature_answer v i of (status, t) \<Rightarrow>
     if amd_has a A_temperature \<and> status = 0 \<and> - 274 < sint t \<and> sint t < 1000
     then amd_reading TEMPERATURE (dbl_of_int (sint t)) d else d)"

definition amd_fan :: "amd_driver \<Rightarrow> amd_api \<Rightarrow> nat \<Rightarrow> amd_device \<Rightarrow> amd_device" where
  "amd_fan v a i d = (case (fan_answer v i, fan_max_answer v i) of ((status, fan), (max_status, maximum)) \<Rightarrow>
     if amd_has a A_fan \<and> amd_has a A_fan_max \<and> status = 0 \<and> max_status = 0 \<and> 0 \<le> sint fan \<and> 0 < maximum
        \<and> maximum < 1000000000 \<and> fan \<le> maximum
     then amd_reading FAN_PERCENT
            (dbl_div (dbl_mul (dbl_of_int (sint fan)) (dbl_of_nat 100)) (dbl_of_nat (unat maximum))) d
     else d)"

definition collect_device :: "amd_driver \<Rightarrow> amd_api \<Rightarrow> nat \<Rightarrow> nat \<Rightarrow> amd_device" where
  "collect_device v a profile i =
     amd_fan v a i (amd_clocks v a i (amd_power v a profile i (amd_temperature v a i
       (amd_memory v a i (amd_activity v a i (amd_identity v a profile i no_device))))))"

section \<open>The collection\<close>

definition amd_text_field :: "string \<Rightarrow> string \<Rightarrow> emit_call list" where
  "amd_text_field key t = (if t = [] then [] else [string_field key t])"

definition amd_device_fields :: "nat \<Rightarrow> amd_device \<Rightarrow> emit_call list" where
  "amd_device_fields i d =
     [integer_field ''index'' (word_of_nat i)]
     @ amd_text_field ''name'' (ad_name d) @ amd_text_field ''uuid'' (ad_uuid d)
     @ amd_text_field ''pci_bdf'' (ad_bdf d) @ amd_text_field ''driver_version'' (ad_driver d)
     @ amd_text_field ''power_measurement'' (ad_power_measurement d)
     @ concat (map (\<lambda>k. case ad_metrics d k of None \<Rightarrow> [] | Some x \<Rightarrow> [number_field (metric_name k) x]) all_metrics)"

definition amd_device_calls :: "nat \<Rightarrow> amd_device \<Rightarrow> emit_call list" where
  "amd_device_calls i d = gpu_table 0 20 # amd_device_fields i d @ [gpu_index (word_of_nat (Suc i))]"

record amd_snapshot =
  as_devices :: "amd_device list"
  as_partial :: bool
  as_truncated :: bool
  as_version :: string

definition amd_calls :: "amd_snapshot \<Rightarrow> emit_call list" where
  "amd_calls s =
     amd_text_field ''api_version'' (as_version s)
     @ amd_text_field ''status'' (if as_partial s then ''partial'' else ''ok'')
     @ (if as_partial s then amd_text_field ''reason'' ''amdsmi_enumeration_incomplete'' else [])
     @ [boolean_field ''truncated'' (if as_truncated s then 1 else 0)]
     @ (gpu_table (word_of_nat (length (as_devices s))) 0
        # concat (map (\<lambda>(i, d). amd_device_calls i d) (enumerate 0 (as_devices s))) @ [gpu_field_attach ''devices''])"

datatype amd_event = Smi_opened | Smi_started | Smi_ended | Smi_closed

text \<open>What is read between the start and the end of the session, or the reason there is nothing.\<close>

definition amd_snapshot_of :: "amd_driver \<Rightarrow> amd_api \<Rightarrow> amd_snapshot + string" where
  "amd_snapshot_of v a = (case version_profile v of (profile, version) \<Rightarrow>
     if profile = 0 then Inr ''amdsmi_abi_unsupported''
     else case collect_handles v of
       (_, Some reason) \<Rightarrow> Inr reason
     | (found, None) \<Rightarrow>
         Inl \<lparr>as_devices = map (collect_device v a profile) [0..<length (af_handles found)],
              as_partial = af_partial found, as_truncated = af_truncated found, as_version = version\<rparr>)"

definition amd_session :: "amd_driver \<Rightarrow> amd_event list \<times> (amd_snapshot + string)" where
  "amd_session v =
     (case open_api (amd_loader v) of (a, reason) \<Rightarrow>
        let started = (reason = None \<and> init_answer v = 0);
            result = (case reason of Some r \<Rightarrow> Inr r
                      | None \<Rightarrow> if started then amd_snapshot_of v a else Inr ''amdsmi_initialization_failed'');
            result = (if started \<and> shutdown_answer v \<noteq> 0 then Inr ''amdsmi_shutdown_failed'' else result)
        in ((if amd_library a then [Smi_opened] else []) @ (if started then [Smi_started, Smi_ended] else [])
            @ (if amd_library a then [Smi_closed] else []), result))"

definition amdsmi_collect :: "amd_driver \<Rightarrow> (wire_buffer \<Rightarrow> emit_call \<Rightarrow> wire_buffer) \<Rightarrow> wire_buffer
    \<Rightarrow> wire_buffer \<times> amd_event list \<times> string option" where
  "amdsmi_collect v emit out =
     (case amd_session v of
        (events, Inr reason) \<Rightarrow> (out, events, Some reason)
      | (events, Inl s) \<Rightarrow>
          let out = foldl emit out (gpu_table 0 6 # amd_calls s)
          in (out, events, if wfailed out = 0 then None
                else Some (if wfailed out = 2 then ''amdsmi_allocation_failed'' else ''amdsmi_output_too_large'')))"

section \<open>What is sent is within the limits\<close>

definition amd_ok :: "amd_device \<Rightarrow> bool" where
  "amd_ok d \<longleftrightarrow> text_ok (ad_name d) \<and> text_ok (ad_uuid d) \<and> text_ok (ad_driver d) \<and> text_ok (ad_bdf d)
     \<and> text_ok (ad_power_measurement d) \<and> (\<forall>k x. ad_metrics d k = Some x \<longrightarrow> is_finite_bits x)"

lemma text_copy_ok [simp]: "text_ok (text_copy 257 bytes n)"
proof (cases "valid_text n bytes")
  case (Some t)
  then have "CHR 0x00 \<notin> set t" using text_in_ok [of n bytes t] by (simp add: valid_text_in)
  then show ?thesis using Some by (simp add: text_copy_def text_ok_plain)
qed (simp add: text_copy_def text_ok_plain)

lemma text_ok_empty [simp]: "text_ok []"
  by (simp add: text_ok_plain)

lemma amd_texts_ok [simp]: "text_ok (amd_asic_name v a profile i)" "text_ok (amd_driver_version v a profile i)"
  "text_ok (amd_uuid v a i)" "text_ok (amd_bdf v a i)"
  by (simp_all add: amd_asic_name_def amd_driver_version_def amd_uuid_def Let_def split: prod.split)
    (simp add: amd_bdf_def text_ok_plain split: prod.split)

lemma amd_reading_ok [intro]: "amd_ok d \<Longrightarrow> is_finite_bits x \<Longrightarrow> amd_ok (amd_reading k x d)"
  by (auto simp: amd_ok_def amd_reading_def)

lemma nat_finite: "is_finite_bits (dbl_of_nat (unat (x :: 'a::len word)))" if "LENGTH('a) \<le> 64"
proof -
  have "unat x < 2 ^ LENGTH('a)" by (rule unsigned_less)
  also have "\<dots> \<le> 2 ^ 64" using that by (intro power_increasing) auto
  finally show ?thesis unfolding finite_bits by (rule dbl_of_nat_finite)
qed

lemma nat_finite_words [intro]: "is_finite_bits (dbl_of_nat (unat (x :: u32)))" "is_finite_bits (dbl_of_nat (unat (y :: u64)))"
  by (simp_all add: nat_finite)

lemma amd_hertz_finite [intro]: "is_finite_bits (amd_hertz x)"
  unfolding amd_hertz_def by (rule hertz_finite)

lemma unat_less: "x < y \<Longrightarrow> unat y \<le> n \<Longrightarrow> unat (x :: 'a::len word) < n"
  by (simp add: word_less_nat_alt)

lemma cap_finite: "cap < (100000000000 :: u64) \<Longrightarrow> is_finite_bits (dbl_div (dbl_of_nat (unat cap)) (dbl_of_nat 1000000))"
proof -
  assume "cap < 100000000000"
  then have "unat cap < 2 ^ 37" by (rule unat_less) simp
  from dbl_of_nat_magnitude [OF this] show ?thesis
    unfolding finite_bits by (rule dbl_div_within [OF _ dbl_of_nat_ge_one]) simp_all
qed

lemma fan_finite:
  assumes "0 < maximum" and "maximum < (1000000000 :: u64)" and "fan \<le> maximum"
  shows "is_finite_bits (dbl_div (dbl_mul (dbl_of_int (sint fan)) (dbl_of_nat 100)) (dbl_of_nat (unat maximum)))"
proof -
  have m: "unat maximum < 2 ^ 30" by (rule unat_less [OF assms(2)]) simp
  have f: "unat fan \<le> unat maximum" using assms(3) by (simp add: word_le_nat_alt)
  then have "int (unat fan) < 2 ^ 30" using m by (metis of_nat_less_iff of_nat_numeral of_nat_power le_less_trans)
  then have "uint fan < 2 ^ 30" by (simp only: uint_nat)
  then have "sint fan = uint fan" unfolding sint_uint
    by (intro signed_take_bit_int_eq_self) (simp_all add: order_trans [OF _ uint_ge_0])
  then have "sint fan = int (unat fan)" by (simp only: uint_nat)
  then have "nat \<bar>sint fan\<bar> < 2 ^ 30" using m f by simp
  from dbl_of_int_magnitude [OF this] have i: "dbl_num (dbl_of_int (sint fan)) < dbl_den (dbl_of_int (sint fan)) * 2 ^ 39"
    by simp
  from dbl_of_nat_magnitude [of 100 7] have h: "dbl_num (dbl_of_nat 100) < dbl_den (dbl_of_nat 100) * 2 ^ 16" by simp
  have "0 < unat maximum" using assms(1) by (simp add: word_less_nat_alt)
  then have "dbl_den (dbl_of_nat (unat maximum)) \<le> dbl_num (dbl_of_nat (unat maximum))"
    by (rule dbl_of_nat_ge_one) (use m in simp)
  with dbl_mul_magnitude [OF i h] show ?thesis unfolding finite_bits by (rule dbl_div_within) simp_all
qed

lemma temperature_value_finite: "is_finite_bits (dbl_of_int (sint (t :: u64)))"
proof -
  have "- (2 ^ 63) \<le> sint t \<and> sint t < 2 ^ 63" using sint_range_size [of t] by (simp add: word_size)
  then have "nat \<bar>sint t\<bar> < 2 ^ 64" by auto
  then show ?thesis unfolding finite_bits by (rule dbl_of_int_finite)
qed

lemma amd_parts_ok:
  assumes "amd_ok d"
  shows "amd_ok (amd_activity v a i d)" and "amd_ok (amd_bytes k available answer d)"
    and "amd_ok (amd_temperature v a i d)" and "amd_ok (amd_power v a profile i d)" and "amd_ok (amd_clocks v a i d)"
    and "amd_ok (amd_fan v a i d)"
proof -
  have measured: "amd_ok (d\<lparr>ad_power_measurement := m\<rparr>)" if "amd_ok d" "text_ok m" for d m
    using that by (simp add: amd_ok_def)
  have power: "amd_ok (amd_power_reading current average d)" for current average
    using assms nat_finite_words
    by (auto simp: amd_power_reading_def text_ok_plain intro!: measured amd_reading_ok)
  show "amd_ok (amd_power v a profile i d)"
    using assms power cap_finite by (auto simp: amd_power_def Let_def split: prod.split)
  show "amd_ok (amd_activity v a i d)" using assms by (auto simp: amd_activity_def Let_def split: prod.split)
  show "amd_ok (amd_bytes k available answer d)" using assms by (auto simp: amd_bytes_def split: prod.split)
  show "amd_ok (amd_temperature v a i d)" using assms temperature_value_finite
    by (auto simp: amd_temperature_def split: prod.split)
  show "amd_ok (amd_clocks v a i d)" using assms by (auto simp: amd_clocks_def Let_def split: prod.split)
  show "amd_ok (amd_fan v a i d)" using assms fan_finite by (auto simp: amd_fan_def split: prod.split)
qed

lemma amd_memory_ok: "amd_ok d \<Longrightarrow> amd_ok (amd_memory v a i d)"
proof -
  assume "amd_ok d"
  then have "amd_ok (amd_bytes MEMORY_USED u x (amd_bytes MEMORY_TOTAL t y d))" for u x t y
    by (intro amd_parts_ok)
  then show ?thesis by (auto simp: amd_memory_def Let_def amd_ok_def split: option.split)
qed

lemma amd_identity_ok: "amd_ok (amd_identity v a profile i no_device)"
  by (simp add: amd_ok_def amd_identity_def no_device_def)

lemma collect_device_ok: "amd_ok (collect_device v a profile i)"
  unfolding collect_device_def by (intro amd_parts_ok amd_memory_ok amd_identity_ok)

lemma amd_text_body [emit_intros]: "key_ok key \<Longrightarrow> text_ok t \<Longrightarrow> body d 1 1 0 (amd_text_field key t)"
  unfolding amd_text_field_def by (rule body_within) (rule emit_intros | assumption | simp)+

lemma metric_name_ok: "key_ok (metric_name k)"
  by (cases k) (simp_all add: literal_simps)

lemma metrics_body:
  assumes "amd_ok d"
  shows "body 4 11 11 0
    (concat (map (\<lambda>k. case ad_metrics d k of None \<Rightarrow> [] | Some x \<Rightarrow> [number_field (metric_name k) x]) all_metrics))"
proof -
  have "body 4 1 1 0 (case ad_metrics d k of None \<Rightarrow> [] | Some x \<Rightarrow> [number_field (metric_name k) x])" for k
    using assms body_number [OF metric_name_ok [of k]]
    by (cases "ad_metrics d k") (auto simp: amd_ok_def intro: body_nil)
  then have "body 4 (length all_metrics * 1) (length all_metrics * 1) (length all_metrics * 0)
    (concat (map (\<lambda>k. case ad_metrics d k of None \<Rightarrow> [] | Some x \<Rightarrow> [number_field (metric_name k) x]) all_metrics))"
    by (intro body_times)
  moreover have "length all_metrics = 11" by (simp add: all_metrics_def)
  ultimately show ?thesis by simp
qed

lemma device_calls_body:
  assumes "amd_ok d" and i: "i < 4096"
  shows "body 5 1 19 1 (amd_device_calls i d)"
  unfolding amd_device_calls_def amd_device_fields_def
  by (rule body_within)
    (rule emit_intros index_word_ok [OF i] | use assms(1) metrics_body [OF assms(1)] in \<open>force simp: amd_ok_def literal_simps\<close>)+

lemma amd_calls_body:
  assumes v: "text_ok (as_version s)" and few: "length (as_devices s) \<le> 64" and d: "\<forall>d \<in> set (as_devices s). amd_ok d"
  shows "body 6 5 1222 65 (amd_calls s)"
proof -
  have "body 5 (length (as_devices s) * 1) (sum_list (map (\<lambda>_. 19) (as_devices s))) (sum_list (map (\<lambda>_. 1) (as_devices s)))
      (concat (map (\<lambda>(i, d). amd_device_calls i d) (enumerate 0 (as_devices s))))"
    by (rule body_enumerate) (rule device_calls_body, use few d in auto)
  then have b: "body (6 - 1) 64 1216 64 (concat (map (\<lambda>(i, d). amd_device_calls i d) (enumerate 0 (as_devices s))))"
    using few by (auto simp: sum_list_triv elim!: body_within)
  have w: "(word_of_nat (length (as_devices s)) :: u32) \<le> 4096" by (rule word_count) (use few in simp)
  show ?thesis
    unfolding amd_calls_def
    by (rule body_within) (rule emit_intros b w v | force simp: literal_simps)+
qed

section \<open>The devices found\<close>

definition found_ok :: "amd_found \<Rightarrow> bool" where
  "found_ok s \<longleftrightarrow> length (af_handles s) \<le> 64 \<and> distinct (af_handles s) \<and> 0 \<notin> set (af_handles s)
     \<and> (af_truncated s \<longrightarrow> af_partial s)"

lemma add_processor_found: "found_ok s \<Longrightarrow> found_ok (add_processor v i jh s)"
  by (cases jh) (auto simp: found_ok_def add_processor_def)

lemma fold_invariant: "P s \<Longrightarrow> (\<And>x s. P s \<Longrightarrow> P (f x s)) \<Longrightarrow> P (fold f xs s)"
  by (induction xs arbitrary: s) simp_all

lemma found_incomplete: "found_ok s \<Longrightarrow> found_ok (s\<lparr>af_partial := True\<rparr>)"
  "found_ok s \<Longrightarrow> found_ok (s\<lparr>af_partial := True, af_truncated := t\<rparr>)"
  by (simp_all add: found_ok_def)

lemma socket_processors_found: "found_ok s \<Longrightarrow> found_ok (socket_processors v is s)"
  by (auto simp: socket_processors_def Let_def found_incomplete
      intro!: fold_invariant [where P = found_ok] add_processor_found split: prod.split)

lemma collect_handles_found: "found_ok (fst (collect_handles v))"
proof -
  have "found_ok \<lparr>af_handles = [], af_partial = p, af_truncated = t\<rparr>" if "t \<longrightarrow> p" for p t
    using that by (simp add: found_ok_def)
  then show ?thesis
    by (auto simp: collect_handles_def Let_def
        intro!: fold_invariant [where P = found_ok] socket_processors_found split: prod.split)
qed

lemma dotted_plain: "CHR 0x00 \<notin> set (dotted ns)"
  by (auto simp: dotted_def decimal_plain)

lemma dotted_length: "length (dotted ns) \<le> length ns * 11"
proof (induction ns)
  case (Cons n ns)
  have "unat n < 2 ^ 32" using unsigned_less [of n] by simp
  then have "length (decimal (unat n)) \<le> Suc 9" by (intro decimal_length) simp
  then show ?case using Cons.IH by (simp add: dotted_def)
qed (simp add: dotted_def)

lemma dotted_ok: "length ns \<le> 23 \<Longrightarrow> text_ok (tl (dotted ns))"
  using dotted_plain [of ns] dotted_length [of ns] list.set_sel(2) [of "dotted ns"]
  by (cases "dotted ns") (auto simp: text_ok_plain)

lemma version_text_ok: "text_ok (snd (version_profile v))"
  by (simp add: version_profile_def dotted_ok split: prod.split)

definition amd_snapshot_ok :: "amd_snapshot \<Rightarrow> bool" where
  "amd_snapshot_ok s \<longleftrightarrow> text_ok (as_version s) \<and> length (as_devices s) \<le> 64 \<and> (\<forall>d \<in> set (as_devices s). amd_ok d)
     \<and> (as_truncated s \<longrightarrow> as_partial s)"

lemma snapshot_of_ok: "amd_snapshot_of v a = Inl s \<Longrightarrow> amd_snapshot_ok s"
proof -
  assume h: "amd_snapshot_of v a = Inl s"
  obtain profile version where p: "version_profile v = (profile, version)" by force
  obtain found r where f: "collect_handles v = (found, r)" by force
  have "text_ok version" using version_text_ok [of v] p by simp
  moreover have "found_ok found" using collect_handles_found [of v] f by simp
  ultimately show ?thesis using h p f
    by (auto simp: amd_snapshot_of_def amd_snapshot_ok_def found_ok_def collect_device_ok split: option.splits if_splits)
qed

lemma session_snapshot_amd: "amd_session v = (es, Inl s) \<Longrightarrow> amd_snapshot_ok s"
  by (auto simp: amd_session_def Let_def intro: snapshot_of_ok split: prod.splits option.splits if_splits)

lemma amdsmi_collect_sends:
  assumes "amdsmi_collect v (wire_emit alloc) b = (b', es, None)" and "wdata b = []"
  shows "gpu_wire_valid (wdata b')"
proof -
  from assms(1) obtain s where s: "amd_session v = (es, Inl s)"
    and b': "b' = wire_emit_all alloc b (gpu_table 0 6 # amd_calls s)" and ok: "wfailed b' = 0"
    by (auto simp: amdsmi_collect_def wire_emit_all_def Let_def split: prod.splits sum.splits if_splits)
  from session_snapshot_amd [OF s] have "body 6 5 1222 65 (amd_calls s)"
    by (intro amd_calls_body) (simp_all add: amd_snapshot_ok_def)
  then show ?thesis unfolding b'
    by (rule frame_valid) (use ok b' assms(2) wire_emit_all_limit in simp_all)
qed

lemma open_api_reason: "open_api l = (a, Some reason) \<Longrightarrow> own_reason ''amdsmi'' reason"
  by (auto simp: open_api_def reason_simps Let_def split: if_splits)

lemma collect_handles_reason: "collect_handles v = (s, Some reason) \<Longrightarrow> own_reason ''amdsmi'' reason"
  by (auto simp: collect_handles_def reason_simps Let_def split: prod.splits if_splits)

lemma snapshot_of_reason: "amd_snapshot_of v a = Inr reason \<Longrightarrow> own_reason ''amdsmi'' reason"
  by (auto simp: amd_snapshot_of_def reason_simps dest: collect_handles_reason split: prod.splits option.splits if_splits)

lemma session_reason: "amd_session v = (es, Inr reason) \<Longrightarrow> own_reason ''amdsmi'' reason"
  by (auto simp: amd_session_def reason_simps Let_def dest: open_api_reason snapshot_of_reason
      split: prod.splits option.splits if_splits)

lemma amdsmi_collect_reason: "amdsmi_collect v emit b = (b', es, Some reason) \<Longrightarrow> own_reason ''amdsmi'' reason"
  by (auto simp: amdsmi_collect_def reason_simps Let_def dest: session_reason split: prod.splits sum.splits if_splits)

section \<open>The collector\<close>

text \<open>AMD SMI keeps nothing between collections and reports no processes.\<close>

definition amdsmi_collector :: "(nat \<Rightarrow> amd_driver) \<Rightarrow> (wire_buffer \<Rightarrow> emit_call \<Rightarrow> wire_buffer) \<Rightarrow> wire_buffer
    \<Rightarrow> nat \<Rightarrow> bool \<Rightarrow> wire_buffer \<times> nat \<times> string option" where
  "amdsmi_collector answers emit b n include_processes =
     (case amdsmi_collect (answers n) emit b of (b', _, reason) \<Rightarrow> (b', Suc n, reason))"

interpretation amdsmi: frame_collector "''amdsmi''" "amdsmi_collector answers" for answers
  by unfold_locales
    (auto simp: amdsmi_collector_def dest: amdsmi_collect_sends amdsmi_collect_reason split: prod.splits)

section \<open>The devices are the GPUs\<close>

text \<open>What the library calls a GPU in one socket, and in all.\<close>

definition processor_gpus :: "amd_driver \<Rightarrow> nat \<Rightarrow> nat \<times> nat \<Rightarrow> nat set" where
  "processor_gpus v i jh = (if snd jh \<noteq> 0 \<and> type_answer v i (fst jh) = (0, AMD_GPU_TYPE) then {snd jh} else {})"

definition socket_gpus :: "amd_driver \<Rightarrow> nat \<times> nat \<Rightarrow> nat set" where
  "socket_gpus v is = (case is of (i, socket) \<Rightarrow>
     case (processors_answer v i 0, processors_answer v i 1) of ((asked, needed, _), (status, amount, batch)) \<Rightarrow>
       if socket \<noteq> 0 \<and> asked = 0 \<and> needed \<noteq> 0 \<and> status = 0
       then \<Union>j < unat amount. processor_gpus v i (j, batch j) else {})"

definition amd_gpus :: "amd_driver \<Rightarrow> nat set" where
  "amd_gpus v = (case (sockets_answer v 0, sockets_answer v 1) of ((_, needed, _), (_, amount, sockets)) \<Rightarrow>
     if needed = 0 then {} else \<Union>i < unat amount. socket_gpus v (i, sockets i))"

definition extends :: "amd_found \<Rightarrow> nat set \<Rightarrow> amd_found \<Rightarrow> bool" where
  "extends s gpus s' \<longleftrightarrow> set (af_handles s) \<subseteq> set (af_handles s') \<and> set (af_handles s') \<subseteq> set (af_handles s) \<union> gpus
     \<and> (\<not> af_partial s' \<longrightarrow> \<not> af_partial s \<and> set (af_handles s') = set (af_handles s) \<union> gpus)"

lemma extends_partial: "extends s gpus (s\<lparr>af_partial := True\<rparr>)" "extends s gpus (s\<lparr>af_partial := True, af_truncated := t\<rparr>)"
  "extends s {} s"
  by (auto simp: extends_def)

lemma extends_trans: "extends s A s1 \<Longrightarrow> extends s1 B s2 \<Longrightarrow> extends s (A \<union> B) s2"
  by (auto simp: extends_def)

lemma extends_fold:
  assumes "\<And>x s. extends s (gpus x) (f x s)"
  shows "extends s (\<Union>x \<in> set xs. gpus x) (fold f xs s)"
proof (induction xs arbitrary: s)
  case Nil
  show ?case by (simp add: extends_partial)
next
  case (Cons x xs)
  from extends_trans [OF assms Cons.IH] show ?case by simp
qed

lemma add_processor_extends: "extends s (processor_gpus v i jh) (add_processor v i jh s)"
proof -
  obtain j h where jh: "jh = (j, h)" by force
  obtain status type where t: "type_answer v i j = (status, type)" by force
  show ?thesis by (auto simp: jh t add_processor_def processor_gpus_def extends_def)
qed

lemma upto_image: "set (map (\<lambda>j. (j, f j)) [0..<n]) = (\<lambda>j. (j, f j)) ` {..<n}"
  by (auto simp: image_iff)

lemma socket_processors_extends: "extends s (socket_gpus v is) (socket_processors v is s)"
proof -
  obtain i socket where s: "is = (i, socket)" by force
  obtain asked needed first where a: "processors_answer v i 0 = (asked, needed, first)" by (metis prod.exhaust)
  obtain status amount batch where b: "processors_answer v i (Suc 0) = (status, amount, batch)" by (metis prod.exhaust)
  let ?xs = "map (\<lambda>j. (j, batch j)) [0..<unat amount]"
  have all: "extends s (\<Union>j < unat amount. processor_gpus v i (j, batch j)) (fold (add_processor v i) ?xs s)" for s
    using extends_fold [where gpus = "processor_gpus v i" and f = "add_processor v i" and xs = ?xs, OF add_processor_extends]
    unfolding upto_image by simp
  have more: "extends s A t" if "extends (s\<lparr>af_partial := True, af_truncated := True\<rparr>) A t" for A t
    using that by (auto simp: extends_def)
  show ?thesis
    by (auto simp: s a b socket_processors_def socket_gpus_def Let_def all extends_partial intro: more)
qed

lemma collect_handles_extends:
  assumes "collect_handles v = (found, None)"
  shows "extends \<lparr>af_handles = [], af_partial = False, af_truncated = False\<rparr> (amd_gpus v) found"
proof -
  obtain asked needed first where a: "sockets_answer v 0 = (asked, needed, first)" by (metis prod.exhaust)
  obtain status amount sockets where b: "sockets_answer v (Suc 0) = (status, amount, sockets)" by (metis prod.exhaust)
  let ?xs = "map (\<lambda>i. (i, sockets i)) [0..<unat amount]"
  have all: "extends s (\<Union>i < unat amount. socket_gpus v (i, sockets i)) (fold (socket_processors v) ?xs s)" for s
    using extends_fold [where gpus = "socket_gpus v" and f = "socket_processors v" and xs = ?xs, OF socket_processors_extends]
    unfolding upto_image by simp
  have more: "extends \<lparr>af_handles = [], af_partial = False, af_truncated = False\<rparr> A t"
    if "extends \<lparr>af_handles = [], af_partial = True, af_truncated = True\<rparr> A t" for A t
    using that by (auto simp: extends_def)
  show ?thesis using assms
    by (auto simp: a b collect_handles_def amd_gpus_def Let_def all extends_partial split: if_splits intro: more)
qed

lemma amd_session_closed:
  "amd_session v = (es, r) \<Longrightarrow> es \<in> {[], [Smi_opened, Smi_closed], [Smi_opened, Smi_started, Smi_ended, Smi_closed]}
     \<and> (r = Inl s \<longrightarrow> es = [Smi_opened, Smi_started, Smi_ended, Smi_closed] \<and> shutdown_answer v = 0)"
  by (auto simp: amd_session_def open_api_def Let_def split: option.splits if_splits)

lemma session_handles:
  "amd_session v = (es, Inl s) \<Longrightarrow> \<exists>found. collect_handles v = (found, None) \<and> length (as_devices s) = length (af_handles found)
     \<and> as_partial s = af_partial found"
  by (auto simp: amd_session_def amd_snapshot_of_def Let_def split: prod.splits option.splits if_splits)

text \<open>
  C8. Every AMD collection closes what it opened and ends the session it started, in that order;
  what it reports comes from a session that ended well, with one device for each of at most 64
  distinct processors the library calls a GPU, and for all of them unless it is marked partial.
\<close>

theorem amd_devices_exact:
  "fst (amd_session v) \<in> {[], [Smi_opened, Smi_closed], [Smi_opened, Smi_started, Smi_ended, Smi_closed]}
   \<and> (case snd (amd_session v) of
        Inr reason \<Rightarrow> own_reason ''amdsmi'' reason
      | Inl s \<Rightarrow> fst (amd_session v) = [Smi_opened, Smi_started, Smi_ended, Smi_closed] \<and> shutdown_answer v = 0
          \<and> (\<exists>gpus \<subseteq> amd_gpus v. finite gpus \<and> card gpus = length (as_devices s) \<and> card gpus \<le> 64
               \<and> (as_partial s \<or> gpus = amd_gpus v)))"
proof -
  obtain es r where e: "amd_session v = (es, r)" by force
  show ?thesis
  proof (cases r)
    case (Inr reason)
    then show ?thesis using amd_session_closed [OF e] session_reason [of v es reason] e by auto
  next
    case (Inl s)
    from session_handles [of v es s] e Inl obtain found where f: "collect_handles v = (found, None)"
      "length (as_devices s) = length (af_handles found)" "as_partial s = af_partial found" by auto
    from collect_handles_extends [OF f(1)] have x: "set (af_handles found) \<subseteq> amd_gpus v"
      "\<not> af_partial found \<Longrightarrow> set (af_handles found) = amd_gpus v" by (auto simp: extends_def)
    from collect_handles_found [of v] f have "distinct (af_handles found)" "length (af_handles found) \<le> 64"
      by (simp_all add: found_ok_def)
    then have c: "card (set (af_handles found)) = length (as_devices s)" "card (set (af_handles found)) \<le> 64"
      using f by (simp_all add: distinct_card)
    show ?thesis using amd_session_closed [OF e, of s] e Inl f x c
      by (auto intro!: exI [of _ "set (af_handles found)"])
  qed
qed

end
