(* ===== verification/GpuCollectors.thy ===== *)
theory GpuCollectors imports WorkerIpc Nvml LevelZero Amdsmi begin

text \<open>
  The reader process with the collectors it is built with: the three \<^verbatim>\<open>wtop_*_collect\<close>
  functions and \<^verbatim>\<open>wtop_levelzero_prepare\<close> that \<^verbatim>\<open>native/wtop_gpu_worker.c\<close> calls, over
  the sessions the collectors keep. The vendors' libraries are all that is left open: whatever they
  answer, and whatever the kernel does, the replies of the process are frames or reasons that the
  client takes.
\<close>

record gpu_libraries =
  nvml_answers :: "nat \<Rightarrow> nvml_driver"
  amd_answers :: "nat \<Rightarrow> amd_driver"
  l0_answers :: "nat \<Rightarrow> l0_driver"
  l0_library_of :: l0_loader

record gpu_sessions =
  nvml_session :: "nvml_api \<times> nat"
  amd_session_count :: nat
  l0_session :: "l0_api \<times> nat"

fun wtop_collect :: "gpu_libraries \<Rightarrow> gpu_vendor \<Rightarrow> gpu_sessions gpu_collect" where
  "wtop_collect libs GPU_NVML emit b w p =
     (case nvml_collector (nvml_answers libs) emit b (nvml_session w) p of
        (b', s, reason) \<Rightarrow> (b', w\<lparr>nvml_session := s\<rparr>, reason))"
| "wtop_collect libs GPU_AMDSMI emit b w p =
     (case amdsmi_collector (amd_answers libs) emit b (amd_session_count w) p of
        (b', s, reason) \<Rightarrow> (b', w\<lparr>amd_session_count := s\<rparr>, reason))"
| "wtop_collect libs GPU_LEVELZERO emit b w p =
     (case l0_collector (l0_answers libs) emit b (l0_session w) p of
        (b', s, reason) \<Rightarrow> (b', w\<lparr>l0_session := s\<rparr>, reason))"

definition wtop_levelzero_prepare :: "gpu_libraries \<Rightarrow> bool \<Rightarrow> gpu_sessions \<Rightarrow> gpu_sessions \<times> string option" where
  "wtop_levelzero_prepare libs legacy w =
     (case l0_open (l0_library_of libs) (fst (l0_session w)) legacy of
        (a, _, reason) \<Rightarrow> (w\<lparr>l0_session := (a, snd (l0_session w))\<rparr>, reason))"

abbreviation reader_name :: "gpu_vendor \<Rightarrow> string" where
  "reader_name v \<equiv> source_prefix (unat (vendor_code v))"

lemma reader_names: "reader_name GPU_NVML = ''nvml''" "reader_name GPU_AMDSMI = ''amdsmi''"
  "reader_name GPU_LEVELZERO = ''levelzero''"
  by (simp_all add: source_prefix_def worker_names_def)

interpretation vendors: frame_collector "reader_name v" "wtop_collect libs v" for libs v
proof
  show "gpu_wire_valid (wdata b')" if "wtop_collect libs v (wire_emit alloc) b w p = (b', w', None)" "wdata b = []"
    for alloc b w p b' w'
    using that by (cases v) (auto split: prod.splits dest: nvml.frame_sent amdsmi.frame_sent levelzero.frame_sent)
  show "own_reason (reader_name v) reason" if "wtop_collect libs v emit b w p = (b', w', Some reason)"
    for emit b w p b' w' reason
    using that by (cases v) (auto simp only: reader_names wtop_collect.simps prod.inject split: prod.splits
        dest: nvml.reason_named amdsmi.reason_named levelzero.reason_named)
qed

section \<open>One request\<close>

lemma own_reason_client:
  assumes "own_reason (source_prefix source) s"
  shows "reason_ok source (bytes_of s)"
proof -
  let ?n = "length (source_prefix source)"
  have small: "reason_byte (byte_of c)" if "c = CHR ''_'' \<or> 97 \<le> code c \<and> code c \<le> 122" for c
  proof -
    have c: "code c < 256" by (simp add: code_def)
    show ?thesis using that c
      by (auto simp: reason_byte_def byte_of_def word_le_nat_alt unat_of_nat code_def)
  qed
  have "?n < length s" using assms by (simp add: own_reason_def)
  then have "bytes_of s ! ?n = 95" using assms by (simp add: own_reason_def byte_of_def code_def)
  moreover have "list_all reason_byte (bytes_of s)" using assms small by (auto simp: own_reason_def list_all_iff)
  ultimately show ?thesis using assms by (auto simp: reason_ok_def own_reason_def Let_def take_map)
qed

definition collected :: "byte list \<Rightarrow> bool" where
  "collected d \<longleftrightarrow> gpu_wire_valid d \<and> (\<exists>t. decode_frame d = Some [LTab t])"

context frame_collector
begin

lemma request_answered:
  assumes boot: "\<And>s. boot_reason = Some s \<Longrightarrow> own_reason name s"
    and h: "gpu_handle alloc clock collect boot_reason vendor st f = (st', r)"
  shows "reply_ok collected (\<lambda>d. \<exists>s. own_reason name s \<and> d = bytes_of s) r"
proof -
  obtain w1 start where c1: "clock (gworld st) = (w1, start)" by fastforce
  let ?b = "(gbuffer st)\<lparr>wdata := [], wfailed := 0\<rparr>"
  obtain b w2 reason where col: "(if boot_reason = None then collect (wire_emit alloc) ?b w1 (f = 1)
      else (?b, w1, boot_reason)) = (b, w2, reason)" using prod_cases3 by blast
  obtain w3 finish where c2: "clock w2 = (w3, finish)" by fastforce
  show ?thesis
  proof (cases reason)
    case None
    with col have sent: "collect (wire_emit alloc) ?b w1 (f = 1) = (b, w2, None)" by (auto split: if_splits)
    have "gpu_wire_valid (wdata b)" by (rule frame_sent [OF sent]) simp
    moreover have "\<exists>t. decode_frame (wdata b) = Some [LTab t]" by (rule sent_decodes [OF sent]) simp
    moreover have "length (wdata b) \<le> 16777216" using calculation(1) by (simp add: gpu_wire_valid_def split: if_splits)
    ultimately show ?thesis using h None unfolding gpu_handle_def
      by (auto simp: Let_def c1 col c2 reply_ok_def collected_def)
  next
    case (Some s)
    with col have "own_reason name s" by (auto split: if_splits intro: boot reason_named)
    then show ?thesis using h Some unfolding gpu_handle_def
      by (auto simp: Let_def c1 col c2 reply_ok_def own_reason_def)
  qed
qed

end

lemma vendor_boot_reason:
  assumes "boot (sys\<lparr>prepare := wtop_levelzero_prepare libs\<rparr>) parent vendor legacy w = Inr (w', Some reason, fds)"
  shows "own_reason (reader_name vendor) reason"
proof -
  have own: "own_reason ''levelzero'' ''levelzero_allocation_failed''" "own_reason ''levelzero'' ''levelzero_worker_unavailable''"
    by (simp_all add: reason_simps)
  have "own_reason ''levelzero'' s" if "wtop_levelzero_prepare libs l v = (v', Some s)" for l v v' s
    using that by (auto simp: wtop_levelzero_prepare_def dest: l0_open_reason split: prod.splits)
  then show ?thesis using assms own
    by (cases vendor)
      (auto simp: boot_def Let_def reader_names simp del: vendor_code.simps split: if_splits option.splits prod.splits)
qed

text \<open>The server contract of a started process, on the sessions it keeps.\<close>

lemma vendor_server:
  assumes "boot (sys\<lparr>prepare := wtop_levelzero_prepare libs\<rparr>) parent vendor legacy w = Inr (w', reason, fds)"
  shows "frame_server gpu_flags (gpu_handle alloc clock (wtop_collect libs vendor) reason vendor)
    collected (\<lambda>d. \<exists>s. own_reason (reader_name vendor) s \<and> d = bytes_of s)"
proof
  fix f w w' r
  assume "gpu_handle alloc clock (wtop_collect libs vendor) reason vendor w f = (w', r)"
  with vendor_boot_reason assms show "reply_ok collected (\<lambda>d. \<exists>s. own_reason (reader_name vendor) s \<and> d = bytes_of s) r"
    by (intro vendors.request_answered) auto
qed

lemma server_mono:
  assumes "frame_server flags handle p q"
    and "\<And>d. p d \<Longrightarrow> p' d" and "\<And>d. q d \<Longrightarrow> q' d"
  shows "frame_server flags handle p' q'"
proof
  fix f w w' r
  assume "flags f" "f \<noteq> 2" "handle w f = (w', r)"
  from frame_server.handle_ok [OF assms(1) this] show "reply_ok p' q' r"
    using assms(2,3) by (auto simp: reply_ok_def)
qed

section \<open>Properties\<close>

text \<open>
  C4. The reader process with its collectors, whatever the vendors' libraries and the kernel do:
  the replies of a run carry, in order and for well-formed commands only, either a frame that
  decodes to one table or a reason the client accepts; a collector that reports success has never
  sent a broken frame, so no reply is the reader's own complaint about one.
\<close>

theorem gpu_collectors_answer:
  assumes "gpu_main alloc clock (wtop_collect libs) (sys\<lparr>prepare := wtop_levelzero_prepare libs\<rparr>) rxs txs input w argv
    = Some (Served st lib)"
  shows "\<exists>vendor legacy log. parse_vendor (drop 2 argv) = Some (vendor, legacy)
    \<and> transcript gpu_flags
        (reply_ok (\<lambda>d. gpu_wire_valid d \<and> (\<exists>t. decode_frame d = Some [LTab t]))
          (\<lambda>d. reason_ok (unat (vendor_code vendor)) d \<and> d \<noteq> bytes_of (invalid_response vendor)))
        (vendor_code vendor) 0 input (outbound st) log"
proof -
  obtain vendor legacy w' reason fds where v: "parse_vendor (drop 2 argv) = Some (vendor, legacy)"
    and b: "boot (sys\<lparr>prepare := wtop_levelzero_prepare libs\<rparr>) (argv ! 1) vendor legacy w = Inr (w', reason, fds)"
    and run: "serve gpu_flags (gpu_handle alloc clock (wtop_collect libs vendor) reason vendor) (vendor_code vendor)
       \<lparr>rx = rxs, tx = txs, inbound = input, outbound = [], previous = 0,
        world = \<lparr>gbuffer = \<lparr>wdata = [], wcapacity = 0, wfailed = 0\<rparr>, gworld = w'\<rparr>\<rparr> = Some st"
    using gpu_main_serves [OF assms] by blast
  have own: "d \<noteq> bytes_of (invalid_response vendor)" if "own_reason (reader_name vendor) s" "d = bytes_of s" for d s
  proof
    assume "d = bytes_of (invalid_response vendor)"
    then have "s = invalid_response vendor" using that(2) by (metis text_of_bytes_of)
    also have "\<dots> = reader_name vendor @ ''_invalid_response''"
      by (cases vendor) (simp_all only: reader_names invalid_response.simps append.simps)
    finally show False using that(1) by (simp add: own_reason_def)
  qed
  have "frame_server gpu_flags (gpu_handle alloc clock (wtop_collect libs vendor) reason vendor)
      (\<lambda>d. gpu_wire_valid d \<and> (\<exists>t. decode_frame d = Some [LTab t]))
      (\<lambda>d. reason_ok (unat (vendor_code vendor)) d \<and> d \<noteq> bytes_of (invalid_response vendor))"
    by (rule server_mono [OF vendor_server [OF b]]) (auto simp: collected_def own_reason_client dest: own)
  from frame_server.serve_transcript [OF this run] v show ?thesis by auto
qed

section \<open>A concrete run\<close>

text \<open>A machine with none of the libraries: the first request is answered and ends the process.\<close>

definition sample_nvml :: nvml_driver where
  "sample_nvml =
     \<lparr>loader = \<lparr>library_opens = False, library_symbol = (\<lambda>_. None), init_status = (\<lambda>_. 0)\<rparr>,
      count_answer = (\<lambda>_ _. (1, 0)), handle_answer = (\<lambda>_ _. (1, 0)), text_answer = (\<lambda>_ _ _. (1, [])),
      pci_answer = (\<lambda>_ _. (1, \<lparr>pci_bus_id_legacy = [], pci_domain = 0, pci_bus = 0, pci_device = 0,
        pci_device_id = 0, pci_bus_id = []\<rparr>)),
      utilization_answer = (\<lambda>_ _. (1, 0, 0)), memory_answer = (\<lambda>_ _. (1, 0, 0)),
      sensor_answer = (\<lambda>_ _ _. (1, 0)), value_answer = (\<lambda>_ _. (1, 0)),
      processes_answer = (\<lambda>_ _. (1, 0, \<lambda>_. \<lparr>np_pid = 0, np_memory = 0, np_gpu_instance = 0, np_compute_instance = 0\<rparr>)),
      processes_v1_answer = (\<lambda>_ _. (1, 0, \<lambda>_. (0, 0))),
      samples_answer = (\<lambda>_ _ _. (1, 0, \<lambda>_. \<lparr>ns_pid = 0, ns_timestamp = 0, ns_sm = 0, ns_memory = 0,
        ns_encoder = 0, ns_decoder = 0\<rparr>)),
      mask_answer = (\<lambda>_ _. (1, 0)),
      fields_answer = (\<lambda>_ _. let f = \<lparr>field_id = 0, field_scope = 0, field_timestamp = 0, field_type = 0,
        field_status = 1, field_value = 0\<rparr> in (1, f, f)),
      realtime_us = (\<lambda>_ _. None)\<rparr>"

definition sample_amd :: amd_driver where
  "sample_amd =
     \<lparr>amd_loader = \<lparr>amd_dlopen = (\<lambda>_. False), amd_dlsym = (\<lambda>_. False)\<rparr>,
      init_answer = 1, shutdown_answer = 0, version_answer = (1, 0, 0, 0, 0),
      sockets_answer = (\<lambda>_. (1, 0, \<lambda>_. 0)), processors_answer = (\<lambda>_ _. (1, 0, \<lambda>_. 0)),
      type_answer = (\<lambda>_ _. (1, 0)), asic_name_answer = (\<lambda>_. (1, [])), driver_info_answer = (\<lambda>_. (1, [])),
      driver_answer = (\<lambda>_. (1, 0, [])), uuid_answer = (\<lambda>_. (1, 0, [])), bdf_answer = (\<lambda>_. (1, 0)),
      activity_answer = (\<lambda>_. (1, 0, 0)), memory_total_answer = (\<lambda>_. (1, 0)), memory_used_answer = (\<lambda>_. (1, 0)),
      temperature_answer = (\<lambda>_. (1, 0)), power_answer = (\<lambda>_. (1, 0, 0)), cap_answer = (\<lambda>_. (1, 0)),
      clock_answer = (\<lambda>_ _. (1, 0, 0)), fan_answer = (\<lambda>_. (1, 0)), fan_max_answer = (\<lambda>_. (1, 0))\<rparr>"

definition sample_l0 :: l0_driver where
  "sample_l0 =
     \<lparr>l0_drivers_answer = (\<lambda>_. (1, 0, \<lambda>_. 0)), l0_devices_answer = (\<lambda>_ _. (1, 0, \<lambda>_. 0)),
      l0_properties_answer = (\<lambda>_. (1, \<lparr>lp_type = 0, lp_vendor = 0, lp_device = 0, lp_uuid = [], lp_name = [],
        lp_subdevices = 0, lp_vendor_name = [], lp_driver_version = []\<rparr>)),
      l0_pci_answer = (\<lambda>_. (1, 0, 0, 0, 0)), l0_enum_answer = (\<lambda>_ _ _. (1, 0, \<lambda>_. 0)),
      l0_sensor_answer = (\<lambda>_ _. (1, 0, 0)), l0_temperature_answer = (\<lambda>_ _. (1, 0)),
      l0_frequency_answer = (\<lambda>_ _. (1, \<lparr>fp_type = 0, fp_on_subdevice = 0, fp_subdevice = 0, fp_min = 0, fp_max = 0\<rparr>)),
      l0_state_answer = (\<lambda>_ _. (1, \<lparr>fs_request = 0, fs_actual = 0, fs_throttle = 0\<rparr>)),
      l0_card_answer = (\<lambda>_. (1, 0)),
      l0_power_answer = (\<lambda>_ _. (1, \<lparr>pp_on_subdevice = 0, pp_subdevice = 0\<rparr>, 0)),
      l0_power_again = (\<lambda>_ _. (1, \<lparr>pp_on_subdevice = 0, pp_subdevice = 0\<rparr>)),
      l0_energy_answer = (\<lambda>_ _. (1, 0, 0)),
      l0_ext_answer = (\<lambda>_ _ _. (1, 0, \<lambda>_. \<lparr>lm_level = 0, lm_source = 0, lm_unit = 0, lm_enabled = 0,
        lm_interval = 0, lm_limit = 0\<rparr>)),
      l0_limits_answer = (\<lambda>_ _. (1, \<lparr>sustained_enabled = 0, sustained_power = 0, sustained_interval = 0,
        burst_enabled = 0, burst_power = 0, peak_ac = 0, peak_dc = 0\<rparr>))\<rparr>"

definition no_libraries :: gpu_libraries where
  "no_libraries = \<lparr>nvml_answers = (\<lambda>_. sample_nvml), amd_answers = (\<lambda>_. sample_amd), l0_answers = (\<lambda>_. sample_l0),
     l0_library_of = \<lparr>ll_opens = False, ll_symbol = (\<lambda>_. False), ll_init = (\<lambda>_. 0)\<rparr>\<rparr>"

definition fresh_sessions :: gpu_sessions where
  "fresh_sessions = \<lparr>nvml_session = (nvml_blank, 0), amd_session_count = 0, l0_session = (l0_blank, 0)\<rparr>"

definition sessions_clock :: "gpu_sessions \<Rightarrow> gpu_sessions \<times> (u64 \<times> u64) option" where
  "sessions_clock w = (w, Some (1, 5))"

definition sessions_system :: "gpu_sessions gpu_system" where
  "sessions_system = \<lparr>pdeathsig_failed = False, getppid = 7, environment_failed = False,
     prepare = (\<lambda>_ w. (w, None)), fd_names = None, fd_directory = 0, exec_succeeds = True\<rparr>"

abbreviation sample_gpu_run :: "gpu_sessions gpu_exit option" where
  "sample_gpu_run \<equiv> gpu_main (\<lambda>_. True) sessions_clock (wtop_collect no_libraries)
     (sessions_system\<lparr>prepare := wtop_levelzero_prepare no_libraries\<rparr>)
     (Failed EINTR # replicate 48 (Got 1)) (replicate (24 * 16777280) (Got 1))
     (command_bytes sample_command) fresh_sessions [''reader'', ''7'']"

lemma sample_gpu_run_served: "\<exists>st lib. sample_gpu_run = Some (Served st lib)"
proof -
  let ?sys = "sessions_system\<lparr>prepare := wtop_levelzero_prepare no_libraries\<rparr>"
  have b: "boot ?sys ''7'' GPU_NVML False fresh_sessions = Inr (fresh_sessions, None, [])"
    by (simp add: boot_def)
  have g: "gots (replicate n (Got 1)) = n" for n by (induction n) auto
  have w: "list_all willing (replicate n (Got 1))" for n by (simp add: list_all_length)
  let ?st = "\<lparr>rx = Failed EINTR # replicate 48 (Got 1), tx = replicate (24 * 16777280) (Got 1),
      inbound = command_bytes sample_command, outbound = [], previous = 0,
      world = \<lparr>gbuffer = \<lparr>wdata = [], wcapacity = 0, wfailed = 0\<rparr>, gworld = fresh_sessions\<rparr>\<rparr>"
  have "\<exists>st. serve gpu_flags (gpu_handle (\<lambda>_. True) sessions_clock (wtop_collect no_libraries GPU_NVML) None GPU_NVML)
      (vendor_code GPU_NVML) ?st = Some st"
  proof (rule frame_server.serve_total [OF vendor_server [OF b, where alloc = "\<lambda>_. True" and clock = sessions_clock]])
    show "list_all willing (rx ?st)" "list_all willing (tx ?st)" using w [of 48] w by simp_all
    show "24 + length (inbound ?st) \<le> gots (rx ?st)" using g [of 48] by simp
    show "length (inbound ?st) * 16777280 \<le> gots (tx ?st)"
      by (simp only: reader.select_convs g length_command_bytes)
  qed
  moreover have "parse_vendor (drop 2 [''reader'', ''7'']) = Some (GPU_NVML, False)" by (simp add: parse_vendor_def)
  ultimately show ?thesis using b
    by (auto simp: gpu_main_def parse_parent_7 sessions_system_def simp del: vendor_code.simps)
qed

theorem gpu_collectors_answer_witness:
  "\<exists>st lib vendor legacy log. sample_gpu_run = Some (Served st lib)
    \<and> parse_vendor (drop 2 [''reader'', ''7'']) = Some (vendor, legacy)
    \<and> transcript gpu_flags
        (reply_ok (\<lambda>d. gpu_wire_valid d \<and> (\<exists>t. decode_frame d = Some [LTab t]))
          (\<lambda>d. reason_ok (unat (vendor_code vendor)) d \<and> d \<noteq> bytes_of (invalid_response vendor)))
        (vendor_code vendor) 0 (command_bytes sample_command) (outbound st) log"
proof -
  from sample_gpu_run_served obtain st lib where run: "sample_gpu_run = Some (Served st lib)" by blast
  from gpu_collectors_answer [OF run] run show ?thesis by blast
qed

end
