(* ===== verification/CText.thy ===== *)
theory CText imports Prelude "HOL-Library.Sublist" begin

text \<open>
  Text scanning as the C code does it: blanks, words, decimal numerals and the C library's
  \<open>strtol\<close> and \<open>strtoull\<close>, the bounded read loop of the file readers, and what the
  parsers rely on when they read back a printed number.
\<close>

section \<open>Numerals\<close>

definition numeral_value :: "string \<Rightarrow> nat" where
  "numeral_value s = fold (\<lambda>c n. n * 10 + digit c) s 0"

definition signed_decimal :: "int \<Rightarrow> string" where
  "signed_decimal v = (if v < 0 then CHR ''-'' # decimal (nat (- v)) else decimal (nat v))"

lemma digit_loop_value:
  "digit_loop ok n s = Some v \<Longrightarrow> v = fold (\<lambda>c n. n * 10 + digit c) s n \<and> list_all is_digit s"
  by (induction s arbitrary: n) (auto split: if_splits)

lemma fold_digits_ge: "n \<le> fold (\<lambda>c n. n * 10 + digit c) s n"
proof (induction s arbitrary: n)
  case (Cons c s)
  have "n \<le> n * 10 + digit c" by simp
  also have "\<dots> \<le> fold (\<lambda>c n. n * 10 + digit c) s (n * 10 + digit c)" by (rule Cons)
  finally show ?case by simp
qed simp

text \<open>A loop guarded by a limit reads exactly the numerals up to the limit.\<close>

lemma digit_loop_limit:
  assumes "\<And>m d. d < 10 \<Longrightarrow> ok m d \<longleftrightarrow> m * 10 + d \<le> limit"
  shows "digit_loop ok n s = (if list_all is_digit s \<and> (s = [] \<or> fold (\<lambda>c n. n * 10 + digit c) s n \<le> limit)
    then Some (fold (\<lambda>c n. n * 10 + digit c) s n) else None)"
proof (induction s arbitrary: n)
  case (Cons c s)
  let ?m = "n * 10 + digit c"
  show ?case
  proof (cases "is_digit c")
    case True
    have "?m \<le> fold (\<lambda>c n. n * 10 + digit c) s ?m" by (rule fold_digits_ge)
    then show ?thesis using True assms [OF digit_less [OF True], of n] Cons [of ?m]
      by (cases s) (auto simp: list_all_iff)
  qed simp
qed simp

lemma limit_guard: "9 \<le> limit \<Longrightarrow> d < 10 \<Longrightarrow> m \<le> (limit - d) div 10 \<longleftrightarrow> m * 10 + d \<le> (limit :: nat)"
  by (auto simp: less_eq_div_iff_mult_less_eq)

lemma decimal_digits: "list_all is_digit (decimal n)"
  using digit_loop_value [OF decimal_parse [of n "\<lambda>_ _. True"]] by simp

lemma decimal_value: "numeral_value (decimal n) = n"
  using digit_loop_value [OF decimal_parse [of n "\<lambda>_ _. True"]] by (simp add: numeral_value_def)

lemma decimal_parse_limit:
  "(\<And>m d. d < 10 \<Longrightarrow> ok m d \<longleftrightarrow> m * 10 + d \<le> limit) \<Longrightarrow> n \<le> limit \<Longrightarrow> digit_loop ok 0 (decimal n) = Some n"
  by (rule decimal_parse) simp

section \<open>Blanks and words\<close>

abbreviation skip_space :: "string \<Rightarrow> string" where "skip_space \<equiv> dropWhile is_space"

lemma while_stops:
  assumes "\<And>c. c \<in> set xs \<Longrightarrow> P c" "\<not> P y"
  shows "takeWhile P (xs @ y # ys) = xs" "dropWhile P (xs @ y # ys) = y # ys"
  using assms by (simp_all add: takeWhile_append2 dropWhile_append2)

text \<open>The words of a text, at most \<open>n\<close> of them.\<close>

fun take_words :: "nat \<Rightarrow> string \<Rightarrow> string list" where
  "take_words 0 s = []"
| "take_words (Suc n) s =
     (case skip_space s of [] \<Rightarrow> []
      | t \<Rightarrow> takeWhile (Not \<circ> is_space) t # take_words n (dropWhile (Not \<circ> is_space) t))"

definition is_word :: "string \<Rightarrow> bool" where
  "is_word w \<longleftrightarrow> w \<noteq> [] \<and> list_all (Not \<circ> is_space) w"

lemma space_chars [simp]: "is_space CHR '' ''" "\<not> is_space CHR ''-''"
  by (simp_all add: is_space_def code_def)

lemma drop_word: "is_word w \<Longrightarrow> rest = [] \<or> is_space (hd rest) \<Longrightarrow>
    takeWhile (Not \<circ> is_space) (w @ rest) = w \<and> dropWhile (Not \<circ> is_space) (w @ rest) = rest
    \<and> skip_space (w @ rest) = w @ rest"
proof -
  assume w: "is_word w" and r: "rest = [] \<or> is_space (hd rest)"
  have "takeWhile (Not \<circ> is_space) rest = []" "dropWhile (Not \<circ> is_space) rest = rest"
    using r by (cases rest; auto)+
  then show ?thesis using w
    by (cases w) (auto simp: is_word_def list_all_iff takeWhile_append2 dropWhile_append2)
qed

lemma take_words_printed:
  "list_all is_word ws \<Longrightarrow> take_words n (concat (map (\<lambda>w. CHR '' '' # w) ws)) = take n ws"
proof (induction ws arbitrary: n)
  case Nil
  show ?case by (cases n) auto
next
  case (Cons w ws)
  show ?case
  proof (cases n)
    case (Suc m)
    let ?rest = "concat (map (\<lambda>w. CHR '' '' # w) ws)"
    have r: "?rest = [] \<or> is_space (hd ?rest)" by (cases ws) auto
    have w: "is_word w" using Cons.prems by simp
    note d = drop_word [OF w r]
    have "w @ ?rest \<noteq> []" using w by (simp add: is_word_def)
    then obtain c t where ct: "w @ ?rest = c # t" by (meson neq_Nil_conv)
    show ?thesis using d Cons Suc by (simp add: ct)
  qed simp
qed

lemma decimal_word: "is_word (decimal n)"
  using decimal_digits [of n] is_digit_not_space by (auto simp: is_word_def list_all_iff)

lemma signed_decimal_word: "is_word (signed_decimal v)"
  using decimal_word by (auto simp: signed_decimal_def is_word_def)

section \<open>The C library's numerals\<close>

text \<open>\<open>strtoull\<close> in base 10: the value, the rest and whether \<open>errno\<close> is \<open>ERANGE\<close>. A minus
  sign negates the value in the word; no digits leave the text where it is.\<close>

definition scan_sign :: "string \<Rightarrow> bool \<times> string" where
  "scan_sign s = (case s of [] \<Rightarrow> (False, [])
     | c # r \<Rightarrow> if c = CHR ''-'' then (True, r) else if c = CHR ''+'' then (False, r) else (False, s))"

definition strtoull :: "string \<Rightarrow> u64 \<times> string \<times> bool" where
  "strtoull s = (let (negative, t) = scan_sign (skip_space s); digits = takeWhile is_digit t in
     if digits = [] then (0, s, False)
     else let v = numeral_value digits; rest = dropWhile is_digit t in
       if 18446744073709551615 < v then (- 1, rest, True)
       else (if negative then - word_of_nat v else word_of_nat v, rest, False))"

definition strtol :: "string \<Rightarrow> int \<times> string \<times> bool" where
  "strtol s = (let (negative, t) = scan_sign (skip_space s); digits = takeWhile is_digit t in
     if digits = [] then (0, s, False)
     else let v = int (numeral_value digits); v = (if negative then - v else v); rest = dropWhile is_digit t in
       if LUA_MAXINTEGER < v then (LUA_MAXINTEGER, rest, True)
       else if v < LUA_MININTEGER then (LUA_MININTEGER, rest, True) else (v, rest, False))"

lemma scan_decimal: "scan_sign (skip_space (decimal n @ rest)) = (False, decimal n @ rest)"
proof -
  obtain c r where cr: "decimal n = c # r" by (meson decimal_not_Nil neq_Nil_conv)
  have "is_digit c" using decimal_digits [of n] by (simp add: cr)
  then have "\<not> is_space c" "c \<noteq> CHR ''-''" "c \<noteq> CHR ''+''"
    by (auto simp: is_digit_not_space is_digit_def code_def)
  then show ?thesis by (simp add: cr scan_sign_def)
qed

lemma digits_of_decimal:
  assumes "rest = [] \<or> \<not> is_digit (hd rest)"
  shows "takeWhile is_digit (decimal n @ rest) = decimal n" "dropWhile is_digit (decimal n @ rest) = rest"
proof -
  have "takeWhile is_digit rest = []" "dropWhile is_digit rest = rest" using assms by (cases rest; auto)+
  then show "takeWhile is_digit (decimal n @ rest) = decimal n" "dropWhile is_digit (decimal n @ rest) = rest"
    using decimal_digits [of n] by (simp_all add: list_all_iff takeWhile_append2 dropWhile_append2)
qed

lemma strtoull_decimal:
  "n \<le> 18446744073709551615 \<Longrightarrow> rest = [] \<or> \<not> is_digit (hd rest) \<Longrightarrow>
     strtoull (decimal n @ rest) = (word_of_nat n, rest, False)"
  by (simp add: strtoull_def scan_decimal digits_of_decimal decimal_value)

lemma strtol_decimal:
  "n \<le> 9223372036854775807 \<Longrightarrow> rest = [] \<or> \<not> is_digit (hd rest) \<Longrightarrow>
     strtol (decimal n @ rest) = (int n, rest, False)"
  by (simp add: strtol_def scan_decimal digits_of_decimal decimal_value)

section \<open>Bounded reads\<close>

text \<open>
  The read loop of the file readers into a buffer of \<open>room\<close> bytes: it ends when the buffer
  is full, at the end of the file or with an error other than an interruption. A reader
  makes the buffer one byte larger than what it accepts, so that a full buffer means that
  the file is too long.
\<close>

fun read_loop :: "nat answer list \<Rightarrow> string \<Rightarrow> nat \<Rightarrow> (errno + string) option" where
  "read_loop ans content 0 = Some (Inr [])"
| "read_loop [] content (Suc k) = None"
| "read_loop (Failed e # ans) content (Suc k) =
     (if e = EINTR then read_loop ans content (Suc k) else Some (Inl e))"
| "read_loop (Got c # ans) content (Suc k) =
     (let n = moved c (Suc k) content in
      if n = 0 then Some (Inr [])
      else map_option (map_sum id ((@) (take n content))) (read_loop ans (drop n content) (Suc k - n)))"

text \<open>In whatever pieces the file arrives, the buffer receives its first bytes.\<close>

lemma read_loop_total:
  "list_all willing ans \<Longrightarrow> room \<le> gots ans \<Longrightarrow> read_loop ans content room = Some (Inr (take room content))"
proof (induction ans content room rule: read_loop.induct)
  case (4 c ans content k)
  let ?n = "moved c (Suc k) content"
  show ?case
  proof (cases "content = []")
    case True
    then show ?thesis by (simp add: moved_def)
  next
    case False
    then have pos: "?n \<noteq> 0" using "4.prems" moved_pos [of c "Suc k" content] by simp
    have le: "?n \<le> Suc k" by (simp add: moved_le)
    have "read_loop ans (drop ?n content) (Suc k - ?n) = Some (Inr (take (Suc k - ?n) (drop ?n content)))"
      using "4.prems" pos by (intro "4.IH" [OF refl pos]) auto
    then show ?thesis using pos le take_add [of ?n "Suc k - ?n" content] by (simp add: Let_def)
  qed
qed auto

lemma read_loop_sound:
  "read_loop ans content room = Some (Inr data) \<Longrightarrow> prefix data content \<and> length data \<le> room"
proof (induction ans content room arbitrary: data rule: read_loop.induct)
  case (4 c ans content k)
  let ?n = "moved c (Suc k) content"
  show ?case
  proof (cases "?n = 0")
    case False
    then obtain r where r: "read_loop ans (drop ?n content) (Suc k - ?n) = Some r"
        "map_sum id ((@) (take ?n content)) r = Inr data" using "4.prems" by (auto simp: Let_def)
    then obtain d where d: "r = Inr d" "data = take ?n content @ d" by (cases r) auto
    have "prefix d (drop ?n content)" "length d \<le> Suc k - ?n" using "4.IH" [OF refl False] r(1) d(1) by simp_all
    moreover have "?n \<le> Suc k" "?n \<le> length content" by (simp_all add: moved_le)
    moreover have "prefix (take ?n content @ d) (take ?n content @ drop ?n content)"
      using calculation(1) by (simp only: same_prefix_prefix)
    ultimately show ?thesis using d(2) by simp
  qed (use "4.prems" in \<open>auto simp: Let_def\<close>)
qed (auto split: if_splits)

lemma read_loop_step:
  "0 < room \<Longrightarrow> read_loop (Got c # ans) content room = (let n = moved c room content in
      if n = 0 then Some (Inr [])
      else map_option (map_sum id ((@) (take n content))) (read_loop ans (drop n content) (room - n)))"
  "0 < room \<Longrightarrow> read_loop (Failed e # ans) content room = (if e = EINTR then read_loop ans content room else Some (Inl e))"
proof -
  assume "0 < room"
  then obtain k where k: "room = Suc k" by (cases room) auto
  show "read_loop (Got c # ans) content room = (let n = moved c room content in
      if n = 0 then Some (Inr [])
      else map_option (map_sum id ((@) (take n content))) (read_loop ans (drop n content) (room - n)))"
    "read_loop (Failed e # ans) content room = (if e = EINTR then read_loop ans content room else Some (Inl e))"
    unfolding k by (simp_all only: read_loop.simps)
qed

end
