(* ===== verification/LuaApi.thy ===== *)
theory LuaApi imports CText begin

text \<open>
  What the functions of the native module share: how they return to Lua, how they check
  their arguments, and the descriptors they open and close on the way.
\<close>

section \<open>Returning to Lua\<close>

text \<open>
  A function of the module refuses an argument (\<open>luaL_argerror\<close>), raises an error
  (\<open>luaL_error\<close>), or returns a list of values. A failed call returns three values: nil, a message and the error number. The
  messages of \<open>strerror\<close> belong to the C library and are a parameter.
\<close>

datatype lua_return = Bad_argument nat string | Raises string | Returns "lua list"

definition push_errno :: "(errno \<Rightarrow> string) \<Rightarrow> string \<Rightarrow> errno \<Rightarrow> lua_return" where
  "push_errno strerror operation e = Returns [LNil, LStr (operation @ '': '' @ strerror e), LInt e]"

definition succeeds :: "lua_return \<Rightarrow> bool" where
  "succeeds r = (case r of Returns (v # _) \<Rightarrow> v \<noteq> LNil | _ \<Rightarrow> False)"

lemma push_errno_fails [simp]: "\<not> succeeds (push_errno strerror operation e)"
  by (simp add: push_errno_def succeeds_def)

lemma succeeds_values [simp]: "succeeds (Returns (v # vs)) \<longleftrightarrow> v \<noteq> LNil" "\<not> succeeds (Returns [])"
  by (simp_all add: succeeds_def)

lemma argument_fails [simp]: "\<not> succeeds (Bad_argument n s)" "\<not> succeeds (Raises s)"
  by (simp_all add: succeeds_def)

text \<open>A C string ends at its first NUL.\<close>

abbreviation NUL :: char where "NUL \<equiv> CHR 0x00"

definition c_string :: "string \<Rightarrow> string" where
  "c_string = takeWhile (\<lambda>c. c \<noteq> NUL)"

lemma c_string_id: "NUL \<notin> set s \<Longrightarrow> c_string s = s"
  by (auto simp: c_string_def takeWhile_eq_all_conv)

definition check_path :: "nat \<Rightarrow> string \<Rightarrow> (lua_return + string)" where
  "check_path argument path =
     (if length (c_string path) = length path then Inr path
      else Inl (Bad_argument argument ''path cannot contain NUL bytes''))"

definition check_fd :: "nat \<Rightarrow> int \<Rightarrow> (lua_return + int)" where
  "check_fd argument v =
     (if 0 \<le> v \<and> v \<le> INT_MAX then Inr v
      else Inl (Bad_argument argument ''file descriptor must be in 0..INT_MAX''))"

abbreviation (input) NS_PER_SECOND :: int where "NS_PER_SECOND \<equiv> 1000000000"

definition push_timespec_ns :: "(errno \<Rightarrow> string) \<Rightarrow> int \<times> int \<Rightarrow> lua_return" where
  "push_timespec_ns strerror ts =
     (let (seconds, ns) = ts in
      if seconds < 0 \<or> (LUA_MAXINTEGER - ns) div NS_PER_SECOND < seconds
      then push_errno strerror ''clock value out of range'' EOVERFLOW
      else Returns [LInt (seconds * NS_PER_SECOND + ns)])"

section \<open>Tables by field\<close>

text \<open>A field of a table holds what was set last.\<close>

lemma tab_get_fold_fields:
  "tab_get (fold (\<lambda>(k, v). tab_set (KStr k) v) kvs t) (KStr k) =
     (case map_of (rev kvs) k of Some v \<Rightarrow> v | None \<Rightarrow> tab_get t (KStr k))"
  by (induction kvs arbitrary: t) (auto simp: tab_get_set map_add_def split: option.splits)

lemma field_mk_tab: "field (mk_tab kvs) k = (case map_of (rev kvs) k of Some v \<Rightarrow> v | None \<Rightarrow> LNil)"
  by (simp add: mk_tab_def tab_get_fold_fields cong: option.case_cong)

section \<open>Array tables\<close>

text \<open>A table filled at the positions 1, 2, ... from a list, with holes where \<open>v\<close> gives nil.\<close>

lemma tab_get_fold_array:
  "tab_get (fold (\<lambda>(i, v). tab_set (KInt (int i + 1)) v) (enumerate n vs) t) (KInt (int j + 1)) =
     (if n \<le> j \<and> j < n + length vs then vs ! (j - n) else tab_get t (KInt (int j + 1)))"
  by (induction vs arbitrary: n t) (auto simp: tab_get_set nth_Cons')

definition array_get :: "lua \<Rightarrow> nat \<Rightarrow> lua" where
  "array_get a i = (case a of LTab t \<Rightarrow> tab_get t (KInt (int i + 1)) | _ \<Rightarrow> LNil)"

lemma array_get_mk_array: "array_get (mk_array vs) i = (if i < length vs then vs ! i else LNil)"
  by (simp add: array_get_def mk_array_def tab_get_fold_array)

section \<open>Descriptors\<close>

text \<open>
  A run of a function leaves a trace of the descriptors it opens and closes, each named by
  what it is open on. \<open>held\<close> is what is open after the trace.
\<close>

datatype fd_event = Opens string | Closes string

fun hold :: "string list \<Rightarrow> fd_event list \<Rightarrow> string list" where
  "hold fds [] = fds"
| "hold fds (Opens d # es) = hold (d # fds) es"
| "hold fds (Closes d # es) = hold (remove1 d fds) es"

abbreviation held :: "fd_event list \<Rightarrow> string list" where "held \<equiv> hold []"

lemma hold_append [simp]: "hold fds (es @ fs) = hold (hold fds es) fs"
  by (induction fds es rule: hold.induct) auto

lemma hold_concat: "\<forall>es \<in> set ess. hold fds es = fds \<Longrightarrow> hold fds (concat ess) = fds"
  by (induction ess) auto

end
