(* ===== verification/Cpuid.thy ===== *)
theory Cpuid imports GpuProtocol LuaApi begin

text \<open>
  The bounded enumeration of the x86 CPUID instruction,
  \<^verbatim>\<open>native/wtop_cpuid_protocol.h\<close> and \<^verbatim>\<open>native/wtop_cpuid_capture.h\<close>: the records of the
  packet and \<open>wtop_cpuid_snapshot\<close>, which both the Linux reader and the Windows helper run.

  The count of leaves of a processor is the length of \<open>cc_leaves\<close>. The processor, the clock
  and the watch of the parent are parameters that answer moment by moment: \<open>cc_moment\<close> counts
  the questions asked so far, so no two questions need to get the same answer.
\<close>

section \<open>The records\<close>

abbreviation (input) CPUID_CPUS :: nat where "CPUID_CPUS \<equiv> 512"
abbreviation (input) CPUID_LEAVES :: nat where "CPUID_LEAVES \<equiv> 96"
abbreviation (input) CPUID_BYTES :: nat where "CPUID_BYTES \<equiv> 2097152"
abbreviation (input) CPUID_MAGIC :: u32 where "CPUID_MAGIC \<equiv> 0x50435457"
abbreviation (input) CPUID_VERSION :: u32 where "CPUID_VERSION \<equiv> 1"
abbreviation (input) CPUID_LINUX_VERSION :: u32 where "CPUID_LINUX_VERSION \<equiv> 2"

abbreviation (input) FLAG_XCR0 :: u32 where "FLAG_XCR0 \<equiv> 1"
abbreviation (input) FLAG_XMM :: u32 where "FLAG_XMM \<equiv> 2"
abbreviation (input) FLAG_SSE2 :: u32 where "FLAG_SSE2 \<equiv> 4"
abbreviation (input) FLAG_OS_ID :: u32 where "FLAG_OS_ID \<equiv> 8"
abbreviation (input) FLAG_RESTORED :: u32 where "FLAG_RESTORED \<equiv> 16"
abbreviation (input) FLAG_TRUNCATED :: u32 where "FLAG_TRUNCATED \<equiv> 32"
abbreviation (input) FLAG_GROUP_PIN :: u32 where "FLAG_GROUP_PIN \<equiv> 64"
abbreviation (input) FLAG_CPUID :: u32 where "FLAG_CPUID \<equiv> 128"

abbreviation (input) STATUS_OK :: u32 where "STATUS_OK \<equiv> 0"
abbreviation (input) STATUS_AFFINITY :: u32 where "STATUS_AFFINITY \<equiv> 1"
abbreviation (input) STATUS_UNSUPPORTED :: u32 where "STATUS_UNSUPPORTED \<equiv> 2"
abbreviation (input) STATUS_WRONG_CPU :: u32 where "STATUS_WRONG_CPU \<equiv> 3"
abbreviation (input) STATUS_RESTORE :: u32 where "STATUS_RESTORE \<equiv> 4"
abbreviation (input) STATUS_UNSTABLE :: u32 where "STATUS_UNSTABLE \<equiv> 5"
abbreviation (input) STATUS_BAD_RANGE :: u32 where "STATUS_BAD_RANGE \<equiv> 6"

record cpuid_target =
  ct_id :: u32
  ct_group :: u16
  ct_index :: u16

record cpuid_leaf =
  cl_leaf :: u32
  cl_subleaf :: u32
  cl_eax :: u32
  cl_ebx :: u32
  cl_ecx :: u32
  cl_edx :: u32

record cpuid_cpu =
  cc_id :: u32
  cc_group :: u32
  cc_index :: u32
  cc_status :: u32
  cc_max_basic :: u32
  cc_max_extended :: u32
  cc_flags :: u32
  cc_xcr0_low :: u32
  cc_xcr0_high :: u32
  cc_signature_after :: u32
  cc_initial_apic_after :: u32
  cc_leaves :: "cpuid_leaf list"
  cc_moment :: nat

definition cpuid_checksum :: "byte list \<Rightarrow> u32" where
  "cpuid_checksum data = fold fnv_step data 2166136261"

section \<open>The enumeration\<close>

text \<open>
  The answers of the reader's deadline check (\<open>cpuid_alive\<close>), of the compiler's
  \<open>__get_cpuid_max\<close> with the vendor word, of the instruction and of \<open>xgetbv\<close>.
\<close>

record machine =
  mc_alive :: "nat \<Rightarrow> bool"
  mc_max :: "nat \<Rightarrow> u32 \<times> u32"
  mc_cpuid :: "nat \<Rightarrow> u32 \<Rightarrow> u32 \<Rightarrow> u32 \<times> u32 \<times> u32 \<times> u32"
  mc_xgetbv :: "nat \<Rightarrow> u32 \<times> u32"

definition tick :: "cpuid_cpu \<Rightarrow> cpuid_cpu" where
  "tick c = c\<lparr>cc_moment := Suc (cc_moment c)\<rparr>"

definition raise_flag :: "u32 \<Rightarrow> cpuid_cpu \<Rightarrow> cpuid_cpu" where
  "raise_flag f c = c\<lparr>cc_flags := cc_flags c OR f\<rparr>"

definition truncated :: "cpuid_cpu \<Rightarrow> bool" where
  "truncated c \<longleftrightarrow> cc_flags c AND FLAG_TRUNCATED \<noteq> 0"

definition cpuid :: "machine \<Rightarrow> u32 \<Rightarrow> u32 \<Rightarrow> nat \<Rightarrow> cpuid_leaf" where
  "cpuid m leaf sub t = (case mc_cpuid m t leaf sub of (a, b, c, d) \<Rightarrow>
     \<lparr>cl_leaf = leaf, cl_subleaf = sub, cl_eax = a, cl_ebx = b, cl_ecx = c, cl_edx = d\<rparr>)"

definition add_leaf :: "machine \<Rightarrow> u32 \<Rightarrow> u32 \<Rightarrow> cpuid_cpu \<Rightarrow> bool \<times> cpuid_cpu" where
  "add_leaf m leaf sub c =
     (if length (cc_leaves c) = CPUID_LEAVES then (False, raise_flag FLAG_TRUNCATED c)
      else if \<not> mc_alive m (cc_moment c) then (False, tick c)
      else let d = tick c in (True, (tick d)\<lparr>cc_leaves := cc_leaves d @ [cpuid m leaf sub (cc_moment d)]\<rparr>))"

abbreviation probe :: "machine \<Rightarrow> u32 \<Rightarrow> u32 \<Rightarrow> cpuid_cpu \<Rightarrow> cpuid_cpu" where
  "probe m leaf sub c \<equiv> snd (add_leaf m leaf sub c)"

definition latest :: "cpuid_cpu \<Rightarrow> cpuid_leaf" where
  "latest c = List.last (cc_leaves c)"

text \<open>An enumeration ends at the first entry that says so; the flag says that it did.\<close>

definition terminator :: "bool \<Rightarrow> cpuid_leaf \<Rightarrow> bool" where
  "terminator cache v \<longleftrightarrow> (if cache then cl_eax v AND 31 = 0
     else cl_ebx v AND 0xffff = 0 \<or> drop_bit 8 (cl_ecx v) AND 255 = 0)"

fun enumerate_loop :: "machine \<Rightarrow> u32 \<Rightarrow> bool \<Rightarrow> nat list \<Rightarrow> cpuid_cpu \<Rightarrow> bool \<times> cpuid_cpu" where
  "enumerate_loop m leaf cache [] c = (False, c)"
| "enumerate_loop m leaf cache (sub # subs) c =
     (case add_leaf m leaf (word_of_nat sub) c of
        (False, d) \<Rightarrow> (False, d)
      | (True, d) \<Rightarrow> if terminator cache (latest d) then (True, d) else enumerate_loop m leaf cache subs d)"

definition enumerate_leaf :: "machine \<Rightarrow> u32 \<Rightarrow> bool \<Rightarrow> cpuid_cpu \<Rightarrow> cpuid_cpu" where
  "enumerate_leaf m leaf cache c =
     (case enumerate_loop m leaf cache [0..<if cache then 32 else 16] c of
        (terminated, d) \<Rightarrow> if terminated then d else raise_flag FLAG_TRUNCATED d)"

text \<open>The opening of the snapshot: \<open>Inl\<close> is an early return.\<close>

definition snapshot_open :: "machine \<Rightarrow> cpuid_cpu \<Rightarrow> (cpuid_cpu + cpuid_cpu)" where
  "snapshot_open m c =
     (case mc_max m (cc_moment c) of (basic, vendor) \<Rightarrow>
      let c = (tick c)\<lparr>cc_max_basic := basic\<rparr> in
      if basic = 0 \<and> vendor = 0 then Inl (c\<lparr>cc_status := STATUS_UNSUPPORTED\<rparr>)
      else case add_leaf m 0 0 (raise_flag FLAG_CPUID c) of
        (False, c) \<Rightarrow> Inl (c\<lparr>cc_status := STATUS_UNSTABLE\<rparr>)
      | (True, c) \<Rightarrow> (case add_leaf m 0x80000000 0 c of
          (False, c) \<Rightarrow> Inl (c\<lparr>cc_status := STATUS_UNSTABLE\<rparr>)
        | (True, c) \<Rightarrow>
            let extended = (if cl_eax (latest c) < 0x80000000 then 0 else cl_eax (latest c));
                c = c\<lparr>cc_max_extended := extended\<rparr> in
            if 0xffff < basic \<or> 0x8000ffff < extended then Inl (c\<lparr>cc_status := STATUS_BAD_RANGE\<rparr>)
            else Inr c))"

definition no_leaf :: cpuid_leaf where
  "no_leaf = \<lparr>cl_leaf = 0, cl_subleaf = 0, cl_eax = 0, cl_ebx = 0, cl_ecx = 0, cl_edx = 0\<rparr>"

definition snapshot_first :: "machine \<Rightarrow> cpuid_cpu \<Rightarrow> (cpuid_cpu + cpuid_leaf \<times> cpuid_cpu)" where
  "snapshot_first m c =
     (if 1 \<le> cc_max_basic c
      then case add_leaf m 1 0 c of
        (False, c) \<Rightarrow> Inl (c\<lparr>cc_status := STATUS_UNSTABLE\<rparr>)
      | (True, c) \<Rightarrow> Inr (latest c, c)
      else Inr (no_leaf, c))"

definition structured :: "machine \<Rightarrow> u32 \<Rightarrow> cpuid_cpu \<Rightarrow> cpuid_cpu" where
  "structured m maximum c = fold (\<lambda>sub c. if sub \<le> maximum then probe m 7 sub c else c) [1, 2] c"

fun basic_loop :: "machine \<Rightarrow> u32 list \<Rightarrow> cpuid_cpu \<Rightarrow> cpuid_cpu" where
  "basic_loop m [] c = c"
| "basic_loop m (leaf # leaves) c =
     (if cc_max_basic c < leaf then basic_loop m leaves c
      else case add_leaf m leaf 0 c of
        (False, c) \<Rightarrow> c
      | (True, c) \<Rightarrow>
          let maximum = cl_eax (latest c);
              c = (if leaf = 2 \<and> 1 < maximum AND 255 then raise_flag FLAG_TRUNCATED c else c) in
          basic_loop m leaves (if leaf = 7 then structured m maximum c else c))"

abbreviation (input) basic_leaves :: "u32 list" where "basic_leaves \<equiv> [2, 5, 6, 7, 0x15, 0x16, 0x1a]"

fun extended_loop :: "machine \<Rightarrow> u32 list \<Rightarrow> u32 \<Rightarrow> cpuid_cpu \<Rightarrow> u32 \<times> cpuid_cpu" where
  "extended_loop m [] features c = (features, c)"
| "extended_loop m (leaf # leaves) features c =
     (if cc_max_extended c < leaf then (features, c)
      else case add_leaf m leaf 0 c of
        (False, c) \<Rightarrow> (features, c)
      | (True, c) \<Rightarrow> extended_loop m leaves (if leaf = 0x80000001 then cl_ecx (latest c) else features) c)"

abbreviation (input) extended_leaves :: "u32 list" where
  "extended_leaves \<equiv> [0x80000001, 0x80000002, 0x80000003, 0x80000004, 0x80000005, 0x80000006, 0x80000007, 0x80000008]"

definition vendor_name :: "cpuid_cpu \<Rightarrow> string" where
  "vendor_name c = (let v = hd (cc_leaves c) in
     c_string (text_of (put_le 4 (cl_ebx v) @ put_le 4 (cl_edx v) @ put_le 4 (cl_ecx v))))"

definition provided :: "bool \<Rightarrow> ('a \<Rightarrow> 'a) \<Rightarrow> 'a \<Rightarrow> 'a" where
  "provided b f c = (if b then f c else c)"

definition snapshot_basic :: "machine \<Rightarrow> cpuid_leaf \<Rightarrow> cpuid_cpu \<Rightarrow> u32 \<times> cpuid_cpu" where
  "snapshot_basic m first c =
     (let c = basic_loop m basic_leaves c;
          c = provided (0xd \<le> cc_max_basic c \<and> bit (cl_ecx first) 26) (\<lambda>c. probe m 0xd 1 (probe m 0xd 0 c)) c;
          (features, c) = extended_loop m extended_leaves 0 c in
      (features, provided (bit (cl_ecx first) 31) (probe m 0x40000000 0) c))"

definition snapshot_topology :: "machine \<Rightarrow> u32 \<Rightarrow> cpuid_cpu \<Rightarrow> cpuid_cpu" where
  "snapshot_topology m features c =
     (let name = vendor_name c;
          c = provided (name = ''GenuineIntel'' \<and> 4 \<le> cc_max_basic c) (enumerate_leaf m 4 True) c;
          c = provided (0xb \<le> cc_max_basic c) (enumerate_leaf m 0xb False) c;
          c = provided (0x1f \<le> cc_max_basic c) (enumerate_leaf m 0x1f False) c;
          amd = (name = ''AuthenticAMD'');
          c = provided (amd \<and> bit features 22 \<and> 0x8000001d \<le> cc_max_extended c) (enumerate_leaf m 0x8000001d True) c;
          c = provided (amd \<and> bit features 22 \<and> 0x8000001e \<le> cc_max_extended c) (probe m 0x8000001e 0) c in
      provided (amd \<and> 0x80000026 \<le> cc_max_extended c) (enumerate_leaf m 0x80000026 False) c)"

definition snapshot_close :: "machine \<Rightarrow> cpuid_leaf \<Rightarrow> cpuid_cpu \<Rightarrow> cpuid_cpu" where
  "snapshot_close m first c =
     (let c = provided (bit (cl_ecx first) 26 \<and> bit (cl_ecx first) 27)
            (\<lambda>c. case mc_xgetbv m (cc_moment c) of (low, high) \<Rightarrow>
               raise_flag FLAG_XCR0 ((tick c)\<lparr>cc_xcr0_low := low, cc_xcr0_high := high\<rparr>)) c;
          checked = 1 \<le> cc_max_basic c;
          v = (if checked then cpuid m 1 0 (cc_moment c) else no_leaf);
          c = provided checked tick c;
          c = c\<lparr>cc_signature_after := cl_eax v, cc_initial_apic_after := drop_bit 24 (cl_ebx v)\<rparr> in
      c\<lparr>cc_status := if checked \<and> (cl_eax v \<noteq> cl_eax first \<or> drop_bit 24 (cl_ebx v) \<noteq> drop_bit 24 (cl_ebx first))
          then STATUS_UNSTABLE else STATUS_OK\<rparr>)"

definition cpuid_snapshot :: "machine \<Rightarrow> cpuid_cpu \<Rightarrow> cpuid_cpu" where
  "cpuid_snapshot m c =
     (case snapshot_open m c of Inl c \<Rightarrow> c
      | Inr c \<Rightarrow> (case snapshot_first m c of Inl c \<Rightarrow> c
        | Inr (first, c) \<Rightarrow> (case snapshot_basic m first c of (features, c) \<Rightarrow>
            snapshot_close m first (snapshot_topology m features c))))"


section \<open>What a snapshot holds\<close>

text \<open>
  Every step of the enumeration only grows the record: new leaves at the end, each an answer
  of the processor to the question it names and only for leaves \<open>ok\<close> allows, at most 96 in
  all, with no flag changed but the one for truncation.
\<close>

definition genuine :: "machine \<Rightarrow> cpuid_leaf \<Rightarrow> bool" where
  "genuine m v \<longleftrightarrow> (\<exists>t. v = cpuid m (cl_leaf v) (cl_subleaf v) t)"

definition grown :: "machine \<Rightarrow> (u32 \<Rightarrow> bool) \<Rightarrow> cpuid_cpu \<Rightarrow> cpuid_cpu \<Rightarrow> bool" where
  "grown m ok c d \<longleftrightarrow>
     (\<exists>new. cc_leaves d = cc_leaves c @ new \<and> (\<forall>v \<in> set new. genuine m v \<and> ok (cl_leaf v)))
     \<and> (length (cc_leaves c) \<le> CPUID_LEAVES \<longrightarrow> length (cc_leaves d) \<le> CPUID_LEAVES)
     \<and> cc_moment c \<le> cc_moment d
     \<and> (cc_flags d = cc_flags c \<or> cc_flags d = cc_flags c OR FLAG_TRUNCATED)
     \<and> cc_id d = cc_id c \<and> cc_group d = cc_group c \<and> cc_index d = cc_index c \<and> cc_status d = cc_status c
     \<and> cc_max_basic d = cc_max_basic c \<and> cc_max_extended d = cc_max_extended c"

lemma grown_refl [simp]: "grown m ok c c"
  by (simp add: grown_def)

lemma grown_trans: "grown m ok c d \<Longrightarrow> grown m ok d e \<Longrightarrow> grown m ok c e"
  unfolding grown_def by (elim conjE exE disjE) (auto simp: or.assoc)

lemma grown_keeps:
  assumes "grown m ok c d"
  shows "cc_max_basic d = cc_max_basic c" "cc_max_extended d = cc_max_extended c"
    "cc_status d = cc_status c" "cc_moment c \<le> cc_moment d"
    "set (cc_leaves c) \<subseteq> set (cc_leaves d)" "cc_leaves c \<noteq> [] \<Longrightarrow> hd (cc_leaves d) = hd (cc_leaves c)"
  using assms by (auto simp: grown_def)

lemma tick_select [simp]:
  "cc_leaves (tick c) = cc_leaves c" "cc_moment (tick c) = Suc (cc_moment c)" "cc_flags (tick c) = cc_flags c"
  "cc_status (tick c) = cc_status c" "cc_max_basic (tick c) = cc_max_basic c"
  "cc_max_extended (tick c) = cc_max_extended c" "cc_id (tick c) = cc_id c" "cc_group (tick c) = cc_group c"
  "cc_index (tick c) = cc_index c"
  by (simp_all add: tick_def)

lemma raise_flag_select [simp]:
  "cc_leaves (raise_flag f c) = cc_leaves c" "cc_moment (raise_flag f c) = cc_moment c"
  "cc_flags (raise_flag f c) = cc_flags c OR f" "cc_status (raise_flag f c) = cc_status c"
  "cc_max_basic (raise_flag f c) = cc_max_basic c" "cc_max_extended (raise_flag f c) = cc_max_extended c"
  "cc_id (raise_flag f c) = cc_id c" "cc_group (raise_flag f c) = cc_group c" "cc_index (raise_flag f c) = cc_index c"
  by (simp_all add: raise_flag_def)

lemma cpuid_select [simp]: "cl_leaf (cpuid m l s t) = l" "cl_subleaf (cpuid m l s t) = s"
  by (simp_all add: cpuid_def split: prod.splits)

lemma genuine_cpuid [simp]: "genuine m (cpuid m l s t)"
  by (auto simp: genuine_def)

lemma grown_flag [simp]: "grown m ok c (raise_flag FLAG_TRUNCATED c)" "grown m ok c (tick c)"
  by (simp_all add: grown_def)

lemma add_grown: "ok leaf \<Longrightarrow> add_leaf m leaf sub c = (b, d) \<Longrightarrow> grown m ok c d"
  by (auto simp: add_leaf_def Let_def grown_def split: if_splits)

lemma add_probed: "add_leaf m leaf sub c = (True, d) \<Longrightarrow> latest d = cpuid m leaf sub (Suc (cc_moment c)) \<and> cc_leaves d = cc_leaves c @ [latest d]"
  by (auto simp: add_leaf_def Let_def latest_def split: if_splits)

lemma probe_grown: "ok leaf \<Longrightarrow> grown m ok c (probe m leaf sub c)"
  by (cases "add_leaf m leaf sub c") (auto intro: add_grown)

lemma provided_grown: "(b \<Longrightarrow> grown m ok c (f c)) \<Longrightarrow> grown m ok c (provided b f c)"
  by (simp add: provided_def)

lemma enumerate_loop_grown: "ok leaf \<Longrightarrow> enumerate_loop m leaf cache subs c = (b, d) \<Longrightarrow> grown m ok c d"
  by (induction m leaf cache subs c rule: enumerate_loop.induct)
    (auto split: prod.splits bool.splits if_splits intro: add_grown grown_trans)

lemma enumerate_grown: "ok leaf \<Longrightarrow> grown m ok c (enumerate_leaf m leaf cache c)"
  by (auto simp: enumerate_leaf_def split: prod.splits intro: enumerate_loop_grown grown_trans [OF _ grown_flag(1)])

lemma structured_grown: "ok 7 \<Longrightarrow> grown m ok c (structured m maximum c)"
  by (auto simp: structured_def intro: probe_grown grown_trans)


lemma basic_loop_grown:
  assumes "\<And>l. l \<le> cc_max_basic c \<Longrightarrow> ok l"
  shows "grown m ok c (basic_loop m ls c)"
  using assms
proof (induction m ls c rule: basic_loop.induct)
  case (2 m leaf leaves c)
  show ?case
  proof (cases "cc_max_basic c < leaf")
    case False
    then have leaf: "leaf \<le> cc_max_basic c" by simp
    obtain b d where add: "add_leaf m leaf 0 c = (b, d)" by fastforce
    have d: "grown m ok c d" using add "2.prems" leaf by (auto intro: add_grown)
    note basic = grown_keeps(1) [OF d]
    define e where "e = (if leaf = 2 \<and> 1 < cl_eax (latest d) AND 255 then raise_flag FLAG_TRUNCATED d else d)"
    define g where "g = (if leaf = 7 then structured m (cl_eax (latest d)) e else e)"
    have e: "grown m ok c e" using d by (auto simp: e_def intro: grown_trans [OF _ grown_flag(1)])
    have "leaf = 7 \<Longrightarrow> ok 7" using "2.prems" leaf by blast
    then have g: "grown m ok c g" using e by (auto simp: g_def intro: grown_trans [OF _ structured_grown])
    have "grown m ok g (basic_loop m leaves g)" if b
    proof -
      note IH = "2.IH"(2) [OF False add [symmetric] _ refl refl, folded e_def, folded g_def]
      show ?thesis by (rule IH) (use that "2.prems" grown_keeps(1) [OF g] in auto)
    qed
    moreover have "basic_loop m (leaf # leaves) c = (if b then basic_loop m leaves g else d)"
      using False add by (cases b) (simp_all add: g_def e_def Let_def)
    ultimately show ?thesis using d by (auto intro: grown_trans [OF g])
  qed (use 2 in simp)
qed simp

lemma extended_loop_grown:
  assumes "\<And>l. 0x80000000 < l \<Longrightarrow> l \<le> cc_max_extended c \<Longrightarrow> ok l" and "\<forall>l \<in> set ls. 0x80000000 < l"
    and "extended_loop m ls f c = (g, d)"
  shows "grown m ok c d"
  using assms
proof (induction m ls f c rule: extended_loop.induct)
  case (2 m leaf leaves f c)
  show ?case
  proof (cases "cc_max_extended c < leaf")
    case False
    obtain b e where add: "add_leaf m leaf 0 c = (b, e)" by fastforce
    have "ok leaf" using "2.prems"(1,2) False by auto
    then have e: "grown m ok c e" using add by (rule add_grown)
    show ?thesis
    proof (cases b)
      case True
      have "grown m ok e d" using "2.prems" add False True grown_keeps(2) [OF e]
        by (intro "2.IH" [OF False add [symmetric]]) auto
      then show ?thesis by (rule grown_trans [OF e])
    next
      case False
      then show ?thesis using "2.prems"(3) add e \<open>\<not> cc_max_extended c < leaf\<close> by auto
    qed
  qed (use 2 in simp)
qed simp

text \<open>
  Without a truncation and with every deadline check passed, nothing is missing: each leaf
  asked for is there, and each enumeration has reached its end.
\<close>

definition undisturbed :: "machine \<Rightarrow> cpuid_cpu \<Rightarrow> bool" where
  "undisturbed m c \<longleftrightarrow> \<not> truncated c \<and> (\<forall>t < cc_moment c. mc_alive m t)"

abbreviation leaf_numbers :: "cpuid_cpu \<Rightarrow> u32 set" where
  "leaf_numbers c \<equiv> cl_leaf ` set (cc_leaves c)"

definition enumerated :: "cpuid_cpu \<Rightarrow> u32 \<Rightarrow> bool \<Rightarrow> bool" where
  "enumerated c leaf cache \<longleftrightarrow> (\<exists>v \<in> set (cc_leaves c). cl_leaf v = leaf \<and> terminator cache v)"

lemma truncated_raise [simp]: "truncated (raise_flag FLAG_TRUNCATED c)"
proof -
  have "bit ((cc_flags c OR 32) AND 32) 5" by (simp add: bit_and_iff bit_or_iff)
  then have "(cc_flags c OR 32) AND 32 \<noteq> 0" by (metis bit_0_eq bot_apply bot_bool_def)
  then show ?thesis by (simp add: truncated_def)
qed

lemma undisturbed_back: "grown m ok c d \<Longrightarrow> undisturbed m d \<Longrightarrow> undisturbed m c"
  using truncated_raise [of c] by (auto simp: undisturbed_def grown_def truncated_def)

lemma numbers_grown: "grown m ok c d \<Longrightarrow> l \<in> leaf_numbers c \<Longrightarrow> l \<in> leaf_numbers d"
  using grown_keeps(5) by blast

lemma enumerated_grown: "grown m ok c d \<Longrightarrow> enumerated c l cache \<Longrightarrow> enumerated d l cache"
  unfolding enumerated_def using grown_keeps(5) by blast

lemma add_undisturbed:
  assumes "add_leaf m leaf sub c = (b, d)" and "undisturbed m d"
  shows "b \<and> leaf \<in> leaf_numbers d"
  using assms
  by (auto simp: add_leaf_def Let_def undisturbed_def image_iff split: if_splits)

lemma enumerate_loop_undisturbed:
  "enumerate_loop m leaf cache subs c = (b, d) \<Longrightarrow> undisturbed m d \<Longrightarrow> b \<Longrightarrow> enumerated d leaf cache"
proof (induction m leaf cache subs c rule: enumerate_loop.induct)
  case (2 m leaf cache sub subs c)
  obtain ok e where add: "add_leaf m leaf (word_of_nat sub) c = (ok, e)" by fastforce
  show ?case
  proof (cases ok)
    case True
    note probed = add_probed [OF add [unfolded eqTrueI [OF True]]]
    show ?thesis
    proof (cases "terminator cache (latest e)")
      case True
      then show ?thesis using "2.prems" add \<open>ok\<close> probed by (auto simp: enumerated_def intro!: bexI [of _ "latest e"])
    qed (use 2 add \<open>ok\<close> in auto)
  qed (use 2 add in auto)
qed simp

lemma enumerate_undisturbed:
  assumes "undisturbed m (enumerate_leaf m leaf cache c)"
  shows "enumerated (enumerate_leaf m leaf cache c) leaf cache"
proof -
  obtain b d where loop: "enumerate_loop m leaf cache [0..<if cache then 32 else 16] c = (b, d)" by fastforce
  then show ?thesis using assms enumerate_loop_undisturbed [OF loop]
    by (cases b) (auto simp: enumerate_leaf_def undisturbed_def)
qed


lemma structured_undisturbed_back: "undisturbed m (structured m maximum c) \<Longrightarrow> undisturbed m c"
  using undisturbed_back [OF structured_grown [of "\<lambda>_. True"]] by simp

lemma basic_loop_undisturbed:
  assumes "undisturbed m (basic_loop m ls c)" and "l \<in> set ls" and "l \<le> cc_max_basic c"
  shows "l \<in> leaf_numbers (basic_loop m ls c)"
  using assms
proof (induction m ls c rule: basic_loop.induct)
  case (2 m leaf leaves c)
  let ?all = "\<lambda>_. True"
  show ?case
  proof (cases "cc_max_basic c < leaf")
    case False
    obtain b d where add: "add_leaf m leaf 0 c = (b, d)" by fastforce
    define e where "e = (if leaf = 2 \<and> 1 < cl_eax (latest d) AND 255 then raise_flag FLAG_TRUNCATED d else d)"
    define g where "g = (if leaf = 7 then structured m (cl_eax (latest d)) e else e)"
    have dg: "grown m ?all d g"
      by (auto simp: g_def e_def intro: grown_trans [OF grown_flag(1)] structured_grown)
    have loop: "grown m ?all g (basic_loop m leaves g)" by (rule basic_loop_grown) simp
    have result: "basic_loop m (leaf # leaves) c = (if b then basic_loop m leaves g else d)"
      using False add by (cases b) (simp_all add: g_def e_def Let_def)
    have "undisturbed m d"
      using "2.prems"(1) undisturbed_back [OF grown_trans [OF dg loop]] unfolding result by (auto split: if_splits)
    then have b: b and leaf: "leaf \<in> leaf_numbers d" using add_undisturbed [OF add] by auto
    have basic: "cc_max_basic g = cc_max_basic c"
      using grown_keeps(1) [OF dg] grown_keeps(1) [OF add_grown [OF _ add, of ?all]] by simp
    show ?thesis
    proof (cases "l = leaf")
      case True
      then show ?thesis using numbers_grown [OF grown_trans [OF dg loop] leaf] b result by simp
    next
      case l: False
      note IH = "2.IH"(2) [OF False add [symmetric] _ refl refl, folded e_def, folded g_def]
      have "l \<in> leaf_numbers (basic_loop m leaves g)"
        by (rule IH) (use "2.prems" [unfolded result] l b basic in auto)
      then show ?thesis using b result by simp
    qed
  qed (use 2 in auto)
qed simp

lemma extended_loop_undisturbed:
  assumes "extended_loop m ls f c = (g, d)" and "undisturbed m d" and "sorted ls" and "\<forall>l \<in> set ls. 0x80000000 < l"
    and "l \<in> set ls" and "l \<le> cc_max_extended c"
  shows "l \<in> leaf_numbers d"
  using assms
proof (induction m ls f c rule: extended_loop.induct)
  case (2 m leaf leaves f c)
  have le: "leaf \<le> l" using "2.prems" by auto
  then have False': "\<not> cc_max_extended c < leaf" using "2.prems"(6) by simp
  obtain b e where add: "add_leaf m leaf 0 c = (b, e)" by fastforce
  show ?case
  proof (cases b)
    case True
    let ?f = "if leaf = 0x80000001 then cl_ecx (latest e) else f"
    have loop: "extended_loop m leaves ?f e = (g, d)" using "2.prems"(1) False' add True by simp
    have grown: "grown m (\<lambda>_. True) e d" by (rule extended_loop_grown [OF _ _ loop]) (use "2.prems"(4) in auto)
    have e: "leaf \<in> leaf_numbers e" using add_undisturbed [OF add undisturbed_back [OF grown "2.prems"(2)]] by simp
    have extended: "cc_max_extended e = cc_max_extended c" using grown_keeps(2) [OF add_grown [OF _ add, of "\<lambda>_. True"]] by simp
    show ?thesis
    proof (cases "l = leaf")
      case True
      then show ?thesis using numbers_grown [OF grown e] by simp
    next
      case False
      show ?thesis
        by (rule "2.IH" [OF False' add [symmetric] eqTrueI [OF True] loop "2.prems"(2)])
          (use "2.prems" extended False in auto)
    qed
  next
    case False
    then have "d = e" using "2.prems"(1) add False' by simp
    then show ?thesis using add_undisturbed [OF add] "2.prems"(2) False by simp
  qed
qed simp


section \<open>The snapshot\<close>

definition allowed :: "u32 \<Rightarrow> u32 \<Rightarrow> bool \<Rightarrow> u32 \<Rightarrow> bool" where
  "allowed basic extended hypervisor l \<longleftrightarrow>
     l \<le> basic \<or> l = 0x80000000 \<or> (0x80000000 < l \<and> l \<le> extended) \<or> (hypervisor \<and> l = 0x40000000)"

lemma snapshot_open_returns:
  assumes "snapshot_open m c = Inl d" and "cc_leaves c = []"
  shows "cc_status d \<in> {STATUS_UNSUPPORTED, STATUS_UNSTABLE, STATUS_BAD_RANGE}"
    "\<forall>v \<in> set (cc_leaves d). genuine m v \<and> cl_leaf v \<in> {0, 0x80000000}" "length (cc_leaves d) \<le> 2"
    "cc_id d = cc_id c" "cc_group d = cc_group c" "cc_index d = cc_index c"
    "cc_flags d = cc_flags c \<or> cc_flags d = cc_flags c OR FLAG_CPUID"
  using assms by (auto simp: snapshot_open_def add_leaf_def Let_def split: prod.splits if_splits)

lemma snapshot_open_continues:
  assumes "snapshot_open m c = Inr d" and "cc_leaves c = []"
  shows "\<forall>v \<in> set (cc_leaves d). genuine m v \<and> cl_leaf v \<in> {0, 0x80000000}" "length (cc_leaves d) = 2"
    "cc_id d = cc_id c" "cc_group d = cc_group c" "cc_index d = cc_index c" "cc_status d = cc_status c"
    "cc_flags d = cc_flags c OR FLAG_CPUID" "cc_max_basic d \<le> 0xffff" "cc_max_extended d \<le> 0x8000ffff"
  using assms by (auto simp: snapshot_open_def add_leaf_def Let_def split: prod.splits if_splits)

lemma snapshot_first_returns:
  "snapshot_first m c = Inl d \<Longrightarrow> \<exists>e. grown m (\<lambda>l. l = 1 \<and> 1 \<le> cc_max_basic c) c e \<and> d = e\<lparr>cc_status := STATUS_UNSTABLE\<rparr>"
  by (auto simp: snapshot_first_def split: prod.splits bool.splits if_splits
      intro!: exI [where P = "\<lambda>e. grown _ _ _ e \<and> _ e"] add_grown)

lemma snapshot_first_continues:
  assumes "snapshot_first m c = Inr (first, d)"
  shows "grown m (\<lambda>l. l = 1 \<and> 1 \<le> cc_max_basic c) c d"
    "1 \<le> cc_max_basic d \<Longrightarrow> first \<in> set (cc_leaves d) \<and> cl_leaf first = 1"
    "\<not> 1 \<le> cc_max_basic d \<Longrightarrow> first = no_leaf"
proof -
  show g: "grown m (\<lambda>l. l = 1 \<and> 1 \<le> cc_max_basic c) c d"
    using assms by (auto simp: snapshot_first_def split: prod.splits bool.splits if_splits intro: add_grown)
  show "1 \<le> cc_max_basic d \<Longrightarrow> first \<in> set (cc_leaves d) \<and> cl_leaf first = 1"
    using assms grown_keeps(1) [OF g] add_probed [of m 1 0 c d]
    by (auto simp: snapshot_first_def split: prod.splits bool.splits if_splits)
  show "\<not> 1 \<le> cc_max_basic d \<Longrightarrow> first = no_leaf"
    using assms grown_keeps(1) [OF g] by (auto simp: snapshot_first_def split: prod.splits bool.splits if_splits)
qed

lemma snapshot_basic_grown:
  assumes "\<And>l. allowed (cc_max_basic c) (cc_max_extended c) (bit (cl_ecx first) 31) l \<Longrightarrow> ok l"
    and "snapshot_basic m first c = (features, d)"
  shows "grown m ok c d"
proof -
  have basic: "l \<le> cc_max_basic c \<Longrightarrow> ok l" for l using assms(1) by (simp add: allowed_def)
  define a where "a = basic_loop m basic_leaves c"
  define b where "b = provided (0xd \<le> cc_max_basic a \<and> bit (cl_ecx first) 26) (\<lambda>c. probe m 0xd 1 (probe m 0xd 0 c)) a"
  obtain f e where loop: "extended_loop m extended_leaves 0 b = (f, e)" by fastforce
  have a: "grown m ok c a" unfolding a_def by (rule basic_loop_grown) (rule basic)
  have b: "grown m ok c b"
    unfolding b_def using grown_keeps(1) [OF a]
    by (intro grown_trans [OF a] provided_grown grown_trans [OF probe_grown probe_grown]) (auto intro: basic)
  have e: "grown m ok c e"
    by (rule grown_trans [OF b extended_loop_grown [OF _ _ loop]])
      (simp_all add: grown_keeps(2) [OF b] assms(1) allowed_def)
  have "d = provided (bit (cl_ecx first) 31) (probe m 0x40000000 0) e"
    using assms(2) loop [unfolded b_def a_def] by (simp add: snapshot_basic_def Let_def del: basic_loop.simps extended_loop.simps)
  then show ?thesis by (auto simp: allowed_def intro!: grown_trans [OF e] provided_grown probe_grown assms(1))
qed

lemma provided_keeps [simp]:
  "cc_max_basic (provided b (enumerate_leaf m l cache) c) = cc_max_basic c"
  "cc_max_extended (provided b (enumerate_leaf m l cache) c) = cc_max_extended c"
  "cc_max_basic (provided b (probe m l sub) c) = cc_max_basic c"
  "cc_max_extended (provided b (probe m l sub) c) = cc_max_extended c"
  using grown_keeps(1,2) [OF enumerate_grown [of "\<lambda>_. True"]] grown_keeps(1,2) [OF probe_grown [of "\<lambda>_. True"]]
  by (simp_all add: provided_def)

lemma snapshot_topology_grown:
  assumes "\<And>l. allowed (cc_max_basic c) (cc_max_extended c) False l \<Longrightarrow> ok l"
  shows "grown m ok c (snapshot_topology m features c)"
proof -
  have basic: "l \<le> cc_max_basic c \<Longrightarrow> ok l" and extended: "0x80000000 < l \<Longrightarrow> l \<le> cc_max_extended c \<Longrightarrow> ok l" for l
    using assms by (auto simp: allowed_def)
  have step: "grown m ok c (provided b (enumerate_leaf m l cache) d)" "grown m ok c (provided b (probe m l sub) d)"
    if "grown m ok c d" and "b \<Longrightarrow> ok l" for b l cache sub d
    using that by (auto intro!: grown_trans [OF that(1)] provided_grown enumerate_grown probe_grown)
  show ?thesis unfolding snapshot_topology_def Let_def
    by (intro step grown_refl) (auto intro: basic extended)
qed


lemma snapshot_basic_undisturbed:
  assumes "snapshot_basic m first c = (features, d)" and "undisturbed m d"
  shows "l \<in> set basic_leaves \<Longrightarrow> l \<le> cc_max_basic c \<Longrightarrow> l \<in> leaf_numbers d"
    and "l \<in> set extended_leaves \<Longrightarrow> l \<le> cc_max_extended c \<Longrightarrow> l \<in> leaf_numbers d"
proof -
  let ?all = "\<lambda>_. True"
  define a where "a = basic_loop m basic_leaves c"
  define b where "b = provided (0xd \<le> cc_max_basic a \<and> bit (cl_ecx first) 26) (\<lambda>c. probe m 0xd 1 (probe m 0xd 0 c)) a"
  obtain f e where loop: "extended_loop m extended_leaves 0 b = (f, e)" by fastforce
  have ca: "grown m ?all c a" unfolding a_def by (rule basic_loop_grown) simp
  have ab: "grown m ?all a b" unfolding b_def
    by (intro provided_grown grown_trans [OF probe_grown probe_grown]) simp_all
  have be: "grown m ?all b e" by (rule extended_loop_grown [OF _ _ loop]) simp_all
  have "d = provided (bit (cl_ecx first) 31) (probe m 0x40000000 0) e"
    using assms(1) loop [unfolded b_def a_def] by (simp add: snapshot_basic_def Let_def del: basic_loop.simps extended_loop.simps)
  then have ed: "grown m ?all e d" by (simp add: provided_grown probe_grown)
  note ad = grown_trans [OF grown_trans [OF ab be] ed]
  show "l \<in> leaf_numbers d" if "l \<in> set basic_leaves" "l \<le> cc_max_basic c"
    using basic_loop_undisturbed [OF undisturbed_back [OF ad assms(2), unfolded a_def] that]
    by (intro numbers_grown [OF ad]) (simp only: a_def)
  show "l \<in> leaf_numbers d" if "l \<in> set extended_leaves" "l \<le> cc_max_extended c"
    using grown_keeps(2) [OF grown_trans [OF ca ab]] that
    by (intro numbers_grown [OF ed] extended_loop_undisturbed [OF loop undisturbed_back [OF ed assms(2)]]) auto
qed

text \<open>What a complete snapshot holds, by the ranges and the vendor the processor names.\<close>

definition cpuid_complete :: "cpuid_cpu \<Rightarrow> bool" where
  "cpuid_complete c \<longleftrightarrow>
     (\<forall>l \<in> set (1 # basic_leaves). l \<le> cc_max_basic c \<longrightarrow> l \<in> leaf_numbers c)
     \<and> (\<forall>l \<in> set extended_leaves. l \<le> cc_max_extended c \<longrightarrow> l \<in> leaf_numbers c)
     \<and> (0xb \<le> cc_max_basic c \<longrightarrow> enumerated c 0xb False)
     \<and> (0x1f \<le> cc_max_basic c \<longrightarrow> enumerated c 0x1f False)
     \<and> (vendor_name c = ''GenuineIntel'' \<and> 4 \<le> cc_max_basic c \<longrightarrow> enumerated c 4 True)
     \<and> (vendor_name c = ''AuthenticAMD'' \<and> 0x80000026 \<le> cc_max_extended c \<longrightarrow> enumerated c 0x80000026 False)"

lemma provided_enumerated:
  assumes "grown m ok (provided b (enumerate_leaf m l cache) c) d" and "undisturbed m d" and b
  shows "enumerated d l cache"
  using enumerated_grown [OF assms(1)] enumerate_undisturbed [OF undisturbed_back [OF assms(1,2)[unfolded provided_def if_P [OF assms(3)]]]] assms(3)
  by (simp add: provided_def)

lemma snapshot_topology_undisturbed:
  assumes "undisturbed m (snapshot_topology m features c)" (is "undisturbed m ?d")
  shows "0xb \<le> cc_max_basic c \<Longrightarrow> enumerated ?d 0xb False"
    and "0x1f \<le> cc_max_basic c \<Longrightarrow> enumerated ?d 0x1f False"
    and "vendor_name c = ''GenuineIntel'' \<Longrightarrow> 4 \<le> cc_max_basic c \<Longrightarrow> enumerated ?d 4 True"
    and "vendor_name c = ''AuthenticAMD'' \<Longrightarrow> 0x80000026 \<le> cc_max_extended c \<Longrightarrow> enumerated ?d 0x80000026 False"
proof -
  let ?all = "\<lambda>_. True"
  let ?amd = "vendor_name c = ''AuthenticAMD''"
  define c1 where "c1 = provided (vendor_name c = ''GenuineIntel'' \<and> 4 \<le> cc_max_basic c) (enumerate_leaf m 4 True) c"
  define c2 where "c2 = provided (0xb \<le> cc_max_basic c1) (enumerate_leaf m 0xb False) c1"
  define c3 where "c3 = provided (0x1f \<le> cc_max_basic c2) (enumerate_leaf m 0x1f False) c2"
  define c4 where "c4 = provided (?amd \<and> bit features 22 \<and> 0x8000001d \<le> cc_max_extended c3) (enumerate_leaf m 0x8000001d True) c3"
  define c5 where "c5 = provided (?amd \<and> bit features 22 \<and> 0x8000001e \<le> cc_max_extended c4) (probe m 0x8000001e 0) c4"
  have d: "?d = provided (?amd \<and> 0x80000026 \<le> cc_max_extended c5) (enumerate_leaf m 0x80000026 False) c5"
    by (simp add: snapshot_topology_def Let_def c1_def c2_def c3_def c4_def c5_def)
  note growing = provided_grown enumerate_grown [of ?all] probe_grown [of ?all]
  have g5: "grown m ?all c5 ?d" unfolding d by (intro growing) simp_all
  have g4: "grown m ?all c4 ?d" by (rule grown_trans [OF _ g5]) (auto simp: c5_def intro!: growing)
  have g3: "grown m ?all c3 ?d" by (rule grown_trans [OF _ g4]) (auto simp: c4_def intro!: growing)
  have g2: "grown m ?all c2 ?d" by (rule grown_trans [OF _ g3]) (auto simp: c3_def intro!: growing)
  have g1: "grown m ?all c1 ?d" by (rule grown_trans [OF _ g2]) (auto simp: c2_def intro!: growing)
  have mb: "cc_max_basic c1 = cc_max_basic c" "cc_max_basic c2 = cc_max_basic c" "cc_max_extended c5 = cc_max_extended c"
    by (simp_all add: c1_def c2_def c3_def c4_def c5_def)
  show "0xb \<le> cc_max_basic c \<Longrightarrow> enumerated ?d 0xb False"
    by (rule provided_enumerated [OF g2 [unfolded c2_def] assms]) (simp add: mb)
  show "0x1f \<le> cc_max_basic c \<Longrightarrow> enumerated ?d 0x1f False"
    by (rule provided_enumerated [OF g3 [unfolded c3_def] assms]) (simp add: mb)
  show "vendor_name c = ''GenuineIntel'' \<Longrightarrow> 4 \<le> cc_max_basic c \<Longrightarrow> enumerated ?d 4 True"
    by (rule provided_enumerated [OF g1 [unfolded c1_def] assms]) simp
  show "vendor_name c = ''AuthenticAMD'' \<Longrightarrow> 0x80000026 \<le> cc_max_extended c \<Longrightarrow> enumerated ?d 0x80000026 False"
    by (rule provided_enumerated [OF grown_refl [of m ?all ?d, unfolded d] assms [unfolded d], folded d]) (simp add: mb)
qed


declare bit_numeral_word_iff [simp del]

lemma flag_bits [simp]:
  "bit (FLAG_XCR0) n \<longleftrightarrow> n = 0" "bit (FLAG_XMM) n \<longleftrightarrow> n = 1" "bit (FLAG_SSE2) n \<longleftrightarrow> n = 2"
  "bit (FLAG_OS_ID) n \<longleftrightarrow> n = 3" "bit (FLAG_RESTORED) n \<longleftrightarrow> n = 4" "bit (FLAG_TRUNCATED) n \<longleftrightarrow> n = 5"
  "bit (FLAG_GROUP_PIN) n \<longleftrightarrow> n = 6" "bit (FLAG_CPUID) n \<longleftrightarrow> n = 7"
proof -
  have "bit (2 ^ k :: u32) n \<longleftrightarrow> n = k" if "k < 32" for k
    using that by (auto simp: bit_exp_iff)
  from this [of 1] this [of 2] this [of 3] this [of 4] this [of 5] this [of 6] this [of 7]
  show "bit (FLAG_XCR0) n \<longleftrightarrow> n = 0" "bit (FLAG_XMM) n \<longleftrightarrow> n = 1" "bit (FLAG_SSE2) n \<longleftrightarrow> n = 2"
    "bit (FLAG_OS_ID) n \<longleftrightarrow> n = 3" "bit (FLAG_RESTORED) n \<longleftrightarrow> n = 4" "bit (FLAG_TRUNCATED) n \<longleftrightarrow> n = 5"
    "bit (FLAG_GROUP_PIN) n \<longleftrightarrow> n = 6" "bit (FLAG_CPUID) n \<longleftrightarrow> n = 7"
    by (simp_all add: bit_1_iff)
qed

lemma and_flag: "k < 32 \<Longrightarrow> x AND 2 ^ k \<noteq> 0 \<longleftrightarrow> bit (x :: u32) k"
  by (metis and_exp_eq_0_iff_not_bit)

lemma truncated_bit: "truncated c \<longleftrightarrow> bit (cc_flags c) 5"
  using and_flag [where x = "cc_flags c" and k = 5] by (simp add: truncated_def)

lemma grown_flags: "grown m ok c d \<Longrightarrow> bit (cc_flags d) n \<Longrightarrow> bit (cc_flags c) n \<or> n = 5"
  and grown_flags_kept: "grown m ok c d \<Longrightarrow> bit (cc_flags c) n \<Longrightarrow> bit (cc_flags d) n"
  by (auto simp: grown_def bit_or_iff)

lemma snapshot_close_facts:
  fixes m first c
  defines "d \<equiv> snapshot_close m first c"
  shows "cc_leaves d = cc_leaves c" "cc_max_basic d = cc_max_basic c" "cc_max_extended d = cc_max_extended c"
    "cc_id d = cc_id c" "cc_group d = cc_group c" "cc_index d = cc_index c" "cc_moment c \<le> cc_moment d"
    "cc_flags d = cc_flags c \<or> cc_flags d = cc_flags c OR FLAG_XCR0" "cc_status d \<in> {STATUS_OK, STATUS_UNSTABLE}"
    "cc_status d = STATUS_OK \<Longrightarrow> 1 \<le> cc_max_basic c \<Longrightarrow>
       cc_signature_after d = cl_eax first \<and> cc_initial_apic_after d = drop_bit 24 (cl_ebx first)"
  by (auto simp: d_def snapshot_close_def provided_def Let_def tick_def raise_flag_def split: prod.splits if_splits)

lemma vendor_name_leaves: "hd (cc_leaves d) = hd (cc_leaves c) \<Longrightarrow> vendor_name d = vendor_name c"
  by (simp add: vendor_name_def)

text \<open>
  The parts of a snapshot that ran to its end: the states after the opening, leaf 1, the
  fixed leaves and the enumerations.
\<close>

lemma snapshot_cases:
  obtains (ended) "snapshot_open m c = Inl (cpuid_snapshot m c)"
  | (unstable) c1 where "snapshot_open m c = Inr c1" "snapshot_first m c1 = Inl (cpuid_snapshot m c)"
  | (whole) c1 first c2 features c3 where "snapshot_open m c = Inr c1" "snapshot_first m c1 = Inr (first, c2)"
      "snapshot_basic m first c2 = (features, c3)"
      "cpuid_snapshot m c = snapshot_close m first (snapshot_topology m features c3)"
proof (cases "snapshot_open m c")
  case open_: (Inr c1)
  show thesis
  proof (cases "snapshot_first m c1")
    case (Inr p)
    obtain first c2 where p: "p = (first, c2)" by fastforce
    obtain features c3 where "snapshot_basic m first c2 = (features, c3)" by fastforce
    then show thesis using whole open_ Inr p by (simp add: cpuid_snapshot_def)
  qed (use unstable open_ in \<open>simp add: cpuid_snapshot_def\<close>)
qed (use ended in \<open>simp add: cpuid_snapshot_def\<close>)

lemma grown_new:
  assumes "grown m ok c d" and "v \<in> set (cc_leaves d)"
  shows "v \<in> set (cc_leaves c) \<or> (genuine m v \<and> ok (cl_leaf v))"
  using assms by (auto simp: grown_def)

lemma snapshot_whole:
  assumes "cc_leaves c = []" and "snapshot_open m c = Inr c1" and "snapshot_first m c1 = Inr (first, c2)"
    and "snapshot_basic m first c2 = (features, c3)"
  defines "ok \<equiv> allowed (cc_max_basic c1) (cc_max_extended c1) (bit (cl_ecx first) 31)"
  defines "d \<equiv> snapshot_topology m features c3"
  shows "grown m ok c1 c2" "grown m ok c2 c3" "grown m ok c3 d" "grown m ok c1 d"
    "\<And>v. v \<in> set (cc_leaves d) \<Longrightarrow> genuine m v \<and> ok (cl_leaf v)" "length (cc_leaves d) \<le> CPUID_LEAVES"
proof -
  note first = snapshot_first_continues [OF assms(3)]
  have "grown m (\<lambda>l. l = 1 \<and> 1 \<le> cc_max_basic c1) c1 c2" by (rule first(1))
  then show g1: "grown m ok c1 c2" by (auto simp: grown_def ok_def allowed_def)
  show g2: "grown m ok c2 c3"
    by (rule snapshot_basic_grown [OF _ assms(4)]) (simp add: ok_def grown_keeps [OF g1])
  note g12 = grown_trans [OF g1 g2]
  show g3: "grown m ok c3 d" unfolding d_def
    by (rule snapshot_topology_grown) (auto simp: ok_def allowed_def grown_keeps [OF g12])
  show g: "grown m ok c1 d" by (rule grown_trans [OF g12 g3])
  note opened = snapshot_open_continues [OF assms(2,1)]
  show "length (cc_leaves d) \<le> CPUID_LEAVES" using g opened(2) by (simp add: grown_def)
  show "v \<in> set (cc_leaves d) \<Longrightarrow> genuine m v \<and> ok (cl_leaf v)" for v
    using grown_new [OF g] opened(1) by (fastforce simp: ok_def allowed_def)
qed


text \<open>What holds of every snapshot, in terms of the record it is.\<close>

definition snapshot_ok :: "machine \<Rightarrow> cpuid_cpu \<Rightarrow> cpuid_cpu \<Rightarrow> bool" where
  "snapshot_ok m c d \<longleftrightarrow>
     length (cc_leaves d) \<le> CPUID_LEAVES
     \<and> (\<forall>v \<in> set (cc_leaves d). genuine m v
        \<and> allowed (cc_max_basic d) (cc_max_extended d)
            (\<exists>w \<in> set (cc_leaves d). cl_leaf w = 1 \<and> bit (cl_ecx w) 31) (cl_leaf v))
     \<and> cc_id d = cc_id c \<and> cc_group d = cc_group c \<and> cc_index d = cc_index c
     \<and> cc_status d \<in> {STATUS_OK, STATUS_UNSUPPORTED, STATUS_UNSTABLE, STATUS_BAD_RANGE}
     \<and> (\<forall>n. bit (cc_flags c) n \<longrightarrow> bit (cc_flags d) n)
     \<and> (\<forall>n. bit (cc_flags d) n \<longrightarrow> bit (cc_flags c) n \<or> n \<in> {0, 5, 7})
     \<and> (cc_status d = STATUS_OK \<longrightarrow> bit (cc_flags d) 7
        \<and> (1 \<le> cc_max_basic d \<longrightarrow> (\<exists>v \<in> set (cc_leaves d). cl_leaf v = 1
             \<and> cl_eax v = cc_signature_after d \<and> drop_bit 24 (cl_ebx v) = cc_initial_apic_after d)))"

lemma snapshot_whole_ok:
  assumes "cc_leaves c = []" and "snapshot_open m c = Inr c1" and "snapshot_first m c1 = Inr (first, c2)"
    and "snapshot_basic m first c2 = (features, c3)"
  shows "snapshot_ok m c (snapshot_close m first (snapshot_topology m features c3))"
proof -
  define e where "e = snapshot_topology m features c3"
  note opened = snapshot_open_continues [OF assms(2,1)] and first = snapshot_first_continues [OF assms(3)]
  note parts = snapshot_whole [OF assms, folded e_def]
  note kept = grown_keeps [OF parts(4)] and close = snapshot_close_facts [where m = m and first = first and c = e]
  have keeps: "cc_id e = cc_id c" "cc_group e = cc_group c" "cc_index e = cc_index c"
    using parts(4) opened by (simp_all add: grown_def)
  have hyper: "bit (cl_ecx first) 31 \<Longrightarrow> \<exists>w \<in> set (cc_leaves e). cl_leaf w = 1 \<and> bit (cl_ecx w) 31"
    and leaf1: "1 \<le> cc_max_basic e \<Longrightarrow> first \<in> set (cc_leaves e) \<and> cl_leaf first = 1"
  proof -
    note later = grown_keeps(1,5) [OF grown_trans [OF parts(2,3)]]
    show leaf1: "1 \<le> cc_max_basic e \<Longrightarrow> first \<in> set (cc_leaves e) \<and> cl_leaf first = 1"
      using first(2) later by auto
    show "\<exists>w \<in> set (cc_leaves e). cl_leaf w = 1 \<and> bit (cl_ecx w) 31" if "bit (cl_ecx first) 31"
    proof (cases "1 \<le> cc_max_basic e")
      case False
      then have "first = no_leaf" using first(3) later by simp
      then show ?thesis using that by (simp add: no_leaf_def)
    qed (use leaf1 that in blast)
  qed
  have leaves: "\<forall>v \<in> set (cc_leaves e). genuine m v \<and> allowed (cc_max_basic e) (cc_max_extended e)
      (\<exists>w \<in> set (cc_leaves e). cl_leaf w = 1 \<and> bit (cl_ecx w) 31) (cl_leaf v)"
    using parts(5) hyper kept(1,2) by (fastforce simp: allowed_def)
  have flags: "bit (cc_flags e) n \<longleftrightarrow> bit (cc_flags c) n \<or> n = 7 \<or> (n = 5 \<and> bit (cc_flags e) n)" for n
    using grown_flags [OF parts(4), of n] grown_flags_kept [OF parts(4), of n] opened(7) by (auto simp: bit_or_iff)
  have closed: "bit (cc_flags (snapshot_close m first e)) n \<longleftrightarrow> bit (cc_flags e) n \<or> (n = 0 \<and> bit (cc_flags (snapshot_close m first e)) 0)" for n
    using close(8) by (auto simp: bit_or_iff bit_1_iff)
  have up: "bit (cc_flags c) n \<Longrightarrow> bit (cc_flags (snapshot_close m first e)) n"
    and down: "bit (cc_flags (snapshot_close m first e)) n \<Longrightarrow> bit (cc_flags c) n \<or> n \<in> {0, 5, 7}" for n
    using flags [of n] closed [of n] by auto
  have present: "bit (cc_flags (snapshot_close m first e)) 7" using flags [of 7] closed [of 7] by simp
  have signature: "cc_status (snapshot_close m first e) = STATUS_OK \<Longrightarrow> 1 \<le> cc_max_basic e \<Longrightarrow>
      \<exists>v \<in> set (cc_leaves e). cl_leaf v = 1 \<and> cl_eax v = cc_signature_after (snapshot_close m first e)
        \<and> drop_bit 24 (cl_ebx v) = cc_initial_apic_after (snapshot_close m first e)"
    using close(10) leaf1 by (intro bexI [of _ first]) simp_all
  have status: "cc_status (snapshot_close m first e) \<in> {STATUS_OK, STATUS_UNSUPPORTED, STATUS_UNSTABLE, STATUS_BAD_RANGE}"
    using close(9) by blast
  show ?thesis
    unfolding snapshot_ok_def e_def [symmetric] close(1-6) keeps
    using parts(6) leaves status up down present signature by (intro conjI impI allI) simp_all
qed

lemma snapshot_is_ok:
  assumes "cc_leaves c = []"
  shows "snapshot_ok m c (cpuid_snapshot m c)"
proof (cases rule: snapshot_cases [of m c])
  case ended
  note early = snapshot_open_returns [OF ended assms]
  show ?thesis unfolding snapshot_ok_def using early
    by (auto simp: allowed_def bit_or_iff)
next
  case (unstable c1)
  note opened = snapshot_open_continues [OF unstable(1) assms]
  obtain e where e: "grown m (\<lambda>l. l = 1 \<and> 1 \<le> cc_max_basic c1) c1 e"
    and d: "cpuid_snapshot m c = e\<lparr>cc_status := STATUS_UNSTABLE\<rparr>"
    using snapshot_first_returns [OF unstable(2)] by blast
  have "\<forall>v \<in> set (cc_leaves e). genuine m v \<and> (cl_leaf v \<in> {0, 0x80000000} \<or> cl_leaf v = 1 \<and> 1 \<le> cc_max_basic e)"
    using grown_new [OF e] opened(1) grown_keeps(1) [OF e] by fastforce
  then have "\<forall>v \<in> set (cc_leaves e). genuine m v \<and> allowed (cc_max_basic e) (cc_max_extended e) b (cl_leaf v)" for b
    by (auto simp: allowed_def)
  moreover have "length (cc_leaves e) \<le> CPUID_LEAVES" "cc_id e = cc_id c" "cc_group e = cc_group c" "cc_index e = cc_index c"
    using e opened by (simp_all add: grown_def)
  moreover have "bit (cc_flags c) n \<longrightarrow> bit (cc_flags e) n" "bit (cc_flags e) n \<longrightarrow> bit (cc_flags c) n \<or> n \<in> {0, 5, 7}" for n
    using grown_flags [OF e, of n] grown_flags_kept [OF e, of n] opened(7) by (auto simp: bit_or_iff)
  ultimately show ?thesis unfolding snapshot_ok_def d by simp
next
  case (whole c1 first c2 features c3)
  then show ?thesis using snapshot_whole_ok [OF assms whole(1-3)] by simp
qed

lemma snapshot_complete_lemma:
  assumes "cc_leaves c = []" and "cc_status (cpuid_snapshot m c) = STATUS_OK" and "undisturbed m (cpuid_snapshot m c)"
  shows "cpuid_complete (cpuid_snapshot m c)"
proof (cases rule: snapshot_cases [of m c])
  case ended
  then show ?thesis using snapshot_open_returns(1) [OF ended assms(1)] assms(2) by simp
next
  case (unstable c1)
  then show ?thesis using snapshot_first_returns [OF unstable(2)] assms(2) by auto
next
  case (whole c1 first c2 features c3)
  define e where "e = snapshot_topology m features c3"
  note parts = snapshot_whole [OF assms(1) whole(1-3), folded e_def] and close = snapshot_close_facts [where m = m and first = first and c = e]
  have d: "cpuid_snapshot m c = snapshot_close m first e" by (simp add: whole(4) e_def)
  have e: "undisturbed m e" using assms(3) close(7,8) unfolding d undisturbed_def truncated_bit
    by (auto simp: bit_or_iff bit_1_iff)
  note basic = snapshot_basic_undisturbed [OF whole(3) undisturbed_back [OF parts(3) e]]
  note topology = snapshot_topology_undisturbed [OF e [unfolded e_def], folded e_def]
  have keeps: "cc_max_basic e = cc_max_basic c2" "cc_max_extended e = cc_max_extended c2"
      "cc_max_basic c3 = cc_max_basic c2" "cc_max_extended c3 = cc_max_extended c2"
    using grown_keeps(1,2) [OF parts(2)] grown_keeps(1,2) [OF parts(3)] by simp_all
  have "cc_leaves c1 \<noteq> []" using snapshot_open_continues(2) [OF whole(1) assms(1)] by auto
  then have "cc_leaves c3 \<noteq> []" using grown_trans [OF parts(1,2)] by (auto simp: grown_def)
  then have vendor: "vendor_name c3 = vendor_name e" by (intro vendor_name_leaves) (simp add: grown_keeps(6) [OF parts(3)])
  have leaf1: "1 \<le> cc_max_basic c2 \<Longrightarrow> 1 \<in> leaf_numbers e"
    using snapshot_first_continues(2) [OF whole(2)] numbers_grown [OF grown_trans [OF parts(2,3)]] by force
  have "vendor_name (snapshot_close m first e) = vendor_name e" by (rule vendor_name_leaves) (simp add: close)
  moreover have "enumerated (snapshot_close m first e) l cache = enumerated e l cache" for l cache
    by (simp add: enumerated_def close)
  moreover have "\<forall>l \<in> set (1 # basic_leaves). l \<le> cc_max_basic c2 \<longrightarrow> l \<in> leaf_numbers e"
    using leaf1 numbers_grown [OF parts(3) basic(1)] by (metis set_ConsD)
  moreover have "\<forall>l \<in> set extended_leaves. l \<le> cc_max_extended c2 \<longrightarrow> l \<in> leaf_numbers e"
    using numbers_grown [OF parts(3) basic(2)] by blast
  ultimately show ?thesis
    unfolding cpuid_complete_def d close(1-3) keeps
    using topology [unfolded keeps vendor] by (intro conjI) simp_all
qed


definition sample_cpuid :: machine where
  "sample_cpuid = \<lparr>mc_alive = \<lambda>_. True, mc_max = \<lambda>_. (2, 1),
     mc_cpuid = \<lambda>t leaf sub. if leaf = 0 then (2, 0, 0, 0) else if leaf = 1 then (0xa0, 0x0400, 0x0c000000, 0) else (0, 0, 0, 0),
     mc_xgetbv = \<lambda>_. (7, 0)\<rparr>"

definition blank_cpu :: "u32 \<Rightarrow> u32 \<Rightarrow> u32 \<Rightarrow> nat \<Rightarrow> cpuid_cpu" where
  "blank_cpu ident grp index t = \<lparr>cc_id = ident, cc_group = grp, cc_index = index, cc_status = STATUS_AFFINITY,
     cc_max_basic = 0, cc_max_extended = 0, cc_flags = 0, cc_xcr0_low = 0, cc_xcr0_high = 0, cc_signature_after = 0,
     cc_initial_apic_after = 0, cc_leaves = [], cc_moment = t\<rparr>"









definition sample_opened :: cpuid_cpu where
  "sample_opened = (blank_cpu 3 0 3 5)\<lparr>cc_max_basic := 2, cc_flags := FLAG_CPUID,
     cc_leaves := [cpuid sample_cpuid 0 0 2, cpuid sample_cpuid 0x80000000 0 4]\<rparr>"

definition sample_identified :: cpuid_cpu where
  "sample_identified = sample_opened\<lparr>cc_leaves := cc_leaves sample_opened @ [cpuid sample_cpuid 1 0 6], cc_moment := 7\<rparr>"

definition sample_enumerated :: cpuid_cpu where
  "sample_enumerated = sample_identified\<lparr>cc_leaves := cc_leaves sample_identified @ [cpuid sample_cpuid 2 0 8], cc_moment := 9\<rparr>"

lemma sample_snapshot:
  "cpuid_snapshot sample_cpuid (blank_cpu 3 0 3 0) = snapshot_close sample_cpuid (cpuid sample_cpuid 1 0 6) sample_enumerated"
proof -
  have "snapshot_open sample_cpuid (blank_cpu 3 0 3 0) = Inr sample_opened" by code_simp
  moreover have "snapshot_first sample_cpuid sample_opened = Inr (cpuid sample_cpuid 1 0 6, sample_identified)" by code_simp
  moreover have "snapshot_basic sample_cpuid (cpuid sample_cpuid 1 0 6) sample_identified = (0, sample_enumerated)" by code_simp
  moreover have "snapshot_topology sample_cpuid 0 sample_enumerated = sample_enumerated" by code_simp
  ultimately show ?thesis by (simp add: cpuid_snapshot_def)
qed


end
