(* ===== verification/CpuidReaders.thy ===== *)
theory CpuidReaders imports Cpuid begin

text \<open>
  The two readers of CPUID and the packets they write: \<open>wtop_linux_read_cpuid\<close> of
  \<^verbatim>\<open>native/wtop_linux_cpuid.c\<close> (the x86-64 build) and the Windows helper process
  \<^verbatim>\<open>native/wtop_cpuid_helper.c\<close>, with the check \<open>valid_packet\<close> of
  \<^verbatim>\<open>native/wtop_windows_cpuid.c\<close> that the host makes of the helper's answer.
\<close>

section \<open>Packets\<close>

text \<open>The packed structs on a little-endian machine, written into a zeroed buffer.\<close>

definition words_le :: "u32 list \<Rightarrow> byte list" where
  "words_le ws = concat (map (put_le 4) ws)"

definition encode_leaf :: "cpuid_leaf \<Rightarrow> byte list" where
  "encode_leaf v = words_le [cl_leaf v, cl_subleaf v, cl_eax v, cl_ebx v, cl_ecx v, cl_edx v]"

definition cpu_words :: "cpuid_cpu \<Rightarrow> u32 list" where
  "cpu_words c = [cc_id c, cc_group c, cc_index c, cc_status c, word_of_nat (length (cc_leaves c)),
     cc_max_basic c, cc_max_extended c, cc_flags c, cc_xcr0_low c, cc_xcr0_high c, cc_signature_after c,
     cc_initial_apic_after c]"

definition encode_cpu :: "cpuid_cpu \<Rightarrow> byte list" where
  "encode_cpu c = words_le (cpu_words c) @ concat (map encode_leaf (cc_leaves c))"

definition cpu_partial :: "cpuid_cpu \<Rightarrow> bool" where
  "cpu_partial c \<longleftrightarrow> cc_status c \<noteq> 0 \<or> truncated c"

definition cpuid_packet :: "u32 \<Rightarrow> u32 \<Rightarrow> cpuid_cpu list \<Rightarrow> byte list" where
  "cpuid_packet version bits cs =
     (let body = concat (map encode_cpu cs) in
      words_le [CPUID_MAGIC, version, word_of_nat (32 + length body), word_of_nat (length cs), bits,
        (if list_ex cpu_partial cs then 1 else 0), cpuid_checksum body, 0] @ body)"

lemma length_words_le [simp]: "length (words_le ws) = 4 * length ws"
  by (induction ws) (simp_all add: words_le_def)

lemma length_encode_cpu: "length (encode_cpu c) = 48 + 24 * length (cc_leaves c)"
proof -
  have "length (concat (map encode_leaf vs)) = 24 * length vs" for vs
    by (induction vs) (simp_all add: encode_leaf_def)
  then show ?thesis by (simp add: encode_cpu_def cpu_words_def)
qed

text \<open>The packet fits the two mebibytes of the buffer: 512 processors of 96 leaves need less.\<close>

lemma packet_fits:
  assumes "length cs \<le> CPUID_CPUS" and "\<forall>c \<in> set cs. length (cc_leaves c) \<le> CPUID_LEAVES"
  shows "length (concat (map encode_cpu cs)) \<le> 1204224"
proof -
  have "length (concat (map encode_cpu cs)) \<le> 2352 * length cs"
    using assms(2) by (induction cs) (auto simp: length_encode_cpu)
  then show ?thesis using assms(1) by simp
qed

section \<open>The check of a packet\<close>

definition word_at :: "byte list \<Rightarrow> nat \<Rightarrow> nat \<Rightarrow> u32" where
  "word_at data offset i = get_le (take 4 (drop (offset + 4 * i) data))"

lemma word_at_words:
  "i < length ws \<Longrightarrow> word_at (pre @ words_le ws @ post) (length pre) i = ws ! i"
proof (induction ws arbitrary: pre i)
  case (Cons w ws)
  show ?case
  proof (cases i)
    case 0
    then show ?thesis by (simp add: word_at_def words_le_def get_le_put_le)
  next
    case (Suc j)
    have "word_at (pre @ words_le (w # ws) @ post) (length pre) i = word_at ((pre @ put_le 4 w) @ words_le ws @ post) (length (pre @ put_le 4 w)) j"
      by (simp add: Suc word_at_def words_le_def)
    then show ?thesis using Cons.IH [of j "pre @ put_le 4 w"] Cons.prems Suc by simp
  qed
qed simp

text \<open>The loop over the targets: the offset and the partial flag, or \<open>None\<close> for a refusal.\<close>

fun valid_cpus :: "byte list \<Rightarrow> cpuid_target list \<Rightarrow> nat \<Rightarrow> bool \<Rightarrow> (nat \<times> bool) option" where
  "valid_cpus data [] offset partial = Some (offset, partial)"
| "valid_cpus data (t # ts) offset partial =
     (if length data < offset \<or> length data - offset < 48 then None
      else let word = word_at data offset; count = unat (word 4); status = word 3; flags = word 7; offset = offset + 48 in
        if word 0 \<noteq> ct_id t \<or> word 1 \<noteq> ucast (ct_group t) \<or> word 2 \<noteq> ucast (ct_index t)
           \<or> CPUID_LEAVES < count \<or> STATUS_BAD_RANGE < status \<or> 255 < flags
           \<or> (length data - offset) div 24 < count then None
        else if status = STATUS_OK \<and> flags AND (FLAG_CPUID OR FLAG_RESTORED) \<noteq> FLAG_CPUID OR FLAG_RESTORED then None
        else valid_cpus data ts (offset + count * 24)
          (partial \<or> status \<noteq> 0 \<or> flags AND FLAG_TRUNCATED \<noteq> 0))"

definition valid_packet :: "u32 \<Rightarrow> cpuid_target list \<Rightarrow> byte list \<Rightarrow> bool" where
  "valid_packet bits targets data \<longleftrightarrow>
     32 \<le> length data
     \<and> word_at data 0 0 = CPUID_MAGIC \<and> word_at data 0 1 = CPUID_VERSION
     \<and> word_at data 0 2 = word_of_nat (length data) \<and> word_at data 0 3 = word_of_nat (length targets)
     \<and> word_at data 0 4 = bits \<and> word_at data 0 7 = 0 \<and> word_at data 0 5 \<le> 1
     \<and> word_at data 0 6 = cpuid_checksum (drop 32 data)
     \<and> (case valid_cpus data targets 32 False of None \<Rightarrow> False
        | Some (offset, partial) \<Rightarrow> offset = length data \<and> word_at data 0 5 = (if partial then 1 else 0))"

text \<open>What the check asks of each processor's record.\<close>

definition cpu_for :: "cpuid_target \<Rightarrow> cpuid_cpu \<Rightarrow> bool" where
  "cpu_for t c \<longleftrightarrow> cc_id c = ct_id t \<and> cc_group c = ucast (ct_group t) \<and> cc_index c = ucast (ct_index t)
     \<and> length (cc_leaves c) \<le> CPUID_LEAVES \<and> cc_status c \<le> STATUS_BAD_RANGE \<and> (\<forall>n. bit (cc_flags c) n \<longrightarrow> n < 8)
     \<and> (cc_status c = STATUS_OK \<longrightarrow> bit (cc_flags c) 7 \<and> bit (cc_flags c) 4)"

lemma small_flags: "(\<forall>n. bit (w :: u32) n \<longrightarrow> n < 8) \<Longrightarrow> w \<le> 255"
proof -
  assume h: "\<forall>n. bit w n \<longrightarrow> n < 8"
  have "take_bit 8 w = w" using h by (auto simp: bit_eq_iff bit_take_bit_iff)
  moreover have "take_bit 8 w AND mask 8 = take_bit 8 w" by (simp add: take_bit_eq_mask and.assoc)
  ultimately have "w = w AND 255" by (simp add: mask_eq_exp_minus_1)
  then show ?thesis by (metis word_and_le1)
qed

lemma both_flags: "bit (w :: u32) 7 \<Longrightarrow> bit w 4 \<Longrightarrow> w AND (FLAG_CPUID OR FLAG_RESTORED) = FLAG_CPUID OR FLAG_RESTORED"
  by (rule bit_eqI) (auto simp only: bit_and_iff bit_or_iff flag_bits)

lemma valid_cpus_accepts:
  assumes "list_all2 cpu_for ts cs"
  shows "valid_cpus (pre @ concat (map encode_cpu cs) @ post) ts (length pre) partial =
    Some (length pre + length (concat (map encode_cpu cs)), partial \<or> list_ex cpu_partial cs)"
  using assms
proof (induction ts cs arbitrary: pre partial rule: list_all2_induct)
  case (Cons t ts c cs)
  let ?data = "pre @ concat (map encode_cpu (c # cs)) @ post"
  have word: "i < 12 \<Longrightarrow> word_at (pre @ encode_cpu c @ concat (map encode_cpu cs) @ post) (length pre) i = cpu_words c ! i" for i
    using word_at_words [of i "cpu_words c" pre] by (simp add: cpu_words_def encode_cpu_def)
  have count: "unat (word_of_nat (length (cc_leaves c)) :: u32) = length (cc_leaves c)"
    using Cons(1) by (simp add: cpu_for_def unat_of_nat)
  have rest: "?data = (pre @ encode_cpu c) @ concat (map encode_cpu cs) @ post" by simp
  note IH = Cons.IH [of "pre @ encode_cpu c" "partial \<or> cpu_partial c"]
  have room: "length (pre @ encode_cpu c @ concat (map encode_cpu cs) @ post) - (length pre + 48) = 24 * length (cc_leaves c) + length (concat (map encode_cpu cs)) + length post"
    by (simp add: length_encode_cpu)
  show ?case
    using Cons(1) IH small_flags [of "cc_flags c"] both_flags [of "cc_flags c"]
    unfolding valid_cpus.simps Let_def rest
    by (simp add: word count cpu_words_def cpu_for_def length_encode_cpu cpu_partial_def truncated_def
        add.assoc not_less disj_assoc) (simp add: add.commute add.left_commute mult.commute)
qed simp

lemma packet_accepted:
  assumes "list_all2 cpu_for ts cs" and "length cs \<le> CPUID_CPUS"
  shows "valid_packet bits ts (cpuid_packet CPUID_VERSION bits cs)"
proof -
  define body where "body = concat (map encode_cpu cs)"
  define head where "head = [CPUID_MAGIC, CPUID_VERSION, word_of_nat (32 + length body), word_of_nat (length cs), bits,
        (if list_ex cpu_partial cs then 1 else 0), cpuid_checksum body, 0]"
  have packet: "cpuid_packet CPUID_VERSION bits cs = words_le head @ body"
    by (simp add: cpuid_packet_def head_def body_def Let_def)
  have word: "i < 8 \<Longrightarrow> word_at (words_le head @ body) 0 i = head ! i" for i
    using word_at_words [of i head "[]" body] by (simp add: head_def)
  have "valid_cpus (words_le head @ body) ts 32 False = Some (32 + length body, list_ex cpu_partial cs)"
    using valid_cpus_accepts [OF assms(1), of "words_le head" "[]" False] by (simp add: head_def body_def)
  moreover have "length ts = length cs" using assms(1) by (rule list_all2_lengthD)
  ultimately show ?thesis by (simp add: valid_packet_def packet word) (simp add: head_def)
qed

section \<open>The Linux reader\<close>

text \<open>
  The answers of the kernel: the clock, the CPUID-faulting query, the allocations, the calls
  on the affinity mask and the current processor, and the processor itself. The mask of the
  thread is the state; a failed \<open>sched_setaffinity\<close> leaves it alone, a successful one sets
  the mask the kernel answers, and \<open>sched_getaffinity\<close> answers how many bytes of it it wrote.
\<close>

record linux_kernel =
  lk_faulting :: bool
  lk_clock :: "nat \<Rightarrow> u64"
  lk_alloc :: bool
  lk_get :: "nat \<Rightarrow> nat \<Rightarrow> nat answer"
  lk_set :: "nat \<Rightarrow> byte list \<Rightarrow> byte list answer"
  lk_getcpu :: "nat \<Rightarrow> int"
  lk_max :: "nat \<Rightarrow> u32 \<times> u32"
  lk_cpuid :: "nat \<Rightarrow> u32 \<Rightarrow> u32 \<Rightarrow> u32 \<times> u32 \<times> u32 \<times> u32"
  lk_xgetbv :: "nat \<Rightarrow> u32 \<times> u32"
  lk_copy :: bool

definition linux_machine :: "linux_kernel \<Rightarrow> u64 \<Rightarrow> machine" where
  "linux_machine k began = \<lparr>mc_alive = \<lambda>t. began \<le> lk_clock k t \<and> lk_clock k t - began < 1500000000,
     mc_max = lk_max k, mc_cpuid = lk_cpuid k, mc_xgetbv = lk_xgetbv k\<rparr>"

definition mask_read :: "nat \<Rightarrow> byte list \<Rightarrow> byte list" where
  "mask_read n affinity = take n (affinity @ replicate n 0)"

definition contains :: "byte list \<Rightarrow> nat \<Rightarrow> nat \<Rightarrow> bool" where
  "contains m bytes ident \<longleftrightarrow> ident div 8 < bytes \<and> bit (m ! (ident div 8)) (ident mod 8)"

definition only_cpu :: "nat \<Rightarrow> nat \<Rightarrow> byte list" where
  "only_cpu bytes ident = (replicate bytes 0)[ident div 8 := push_bit (ident mod 8) 1]"

text \<open>The sizes tried for the mask; only \<open>EINVAL\<close> goes on.\<close>

abbreviation (input) mask_sizes :: "nat list" where
  "mask_sizes \<equiv> [128, 256, 512, 1024, 2048, 4096, 8192, 16384, 32768, 65536, 131072]"

fun affinity_loop :: "linux_kernel \<Rightarrow> nat list \<Rightarrow> nat \<Rightarrow> (nat \<times> nat) option \<times> nat" where
  "affinity_loop k [] t = (None, t)"
| "affinity_loop k (s # ss) t =
     (case lk_get k t s of
        Got n \<Rightarrow> (Some (s, n), Suc t)
      | Failed e \<Rightarrow> if e = EINVAL then affinity_loop k ss (Suc t) else (None, Suc t))"

text \<open>One processor, with the mask as it is afterwards and the flag \<open>restore_failed\<close>.\<close>

definition linux_restore :: "linux_kernel \<Rightarrow> nat \<Rightarrow> byte list \<Rightarrow> cpuid_cpu \<times> byte list \<Rightarrow> cpuid_cpu \<times> bool \<times> byte list" where
  "linux_restore k bytes original p =
     (case p of (c, affinity) \<Rightarrow>
      let give_up = (\<lambda>c affinity. (c\<lparr>cc_status := STATUS_RESTORE\<rparr>, True, affinity)) in
      case lk_set k (cc_moment c) original of
        Failed e \<Rightarrow> give_up (tick c) affinity
      | Got affinity \<Rightarrow> (case lk_get k (cc_moment (tick c)) bytes of
          Got n \<Rightarrow> if n = bytes \<and> mask_read bytes affinity = original
            then (raise_flag FLAG_RESTORED (tick (tick c)), False, affinity)
            else give_up (tick (tick c)) affinity
        | Failed e \<Rightarrow> give_up (tick (tick c)) affinity))"

definition linux_pinned :: "linux_kernel \<Rightarrow> u64 \<Rightarrow> nat \<Rightarrow> cpuid_cpu \<Rightarrow> cpuid_cpu" where
  "linux_pinned k began ident c =
     (let actual = lk_getcpu k (cc_moment c); c = provided (0 \<le> actual) (raise_flag FLAG_OS_ID) (tick c) in
      if actual = int ident
      then let c = raise_flag (FLAG_XMM OR FLAG_SSE2) (cpuid_snapshot (linux_machine k began) c) in
        if cc_status c = STATUS_OK
        then (let moved = lk_getcpu k (cc_moment c) \<noteq> int ident; c = tick c in
          provided moved (\<lambda>c. c\<lparr>cc_status := STATUS_UNSTABLE\<rparr>) c)
        else c
      else c\<lparr>cc_status := STATUS_WRONG_CPU\<rparr>)"

definition linux_cpu :: "linux_kernel \<Rightarrow> u64 \<Rightarrow> nat \<Rightarrow> byte list \<Rightarrow> nat \<Rightarrow> bool \<times> byte list \<times> nat \<Rightarrow> cpuid_cpu \<times> bool \<times> byte list" where
  "linux_cpu k began bytes original ident s =
     (case s of (restore_failed, affinity, t) \<Rightarrow>
      let c = blank_cpu (word_of_nat ident) 0 (word_of_nat ident) t in
      if restore_failed \<or> \<not> contains original bytes ident then (c, restore_failed, affinity)
      else case lk_set k t (only_cpu bytes ident) of
        Failed e \<Rightarrow> (tick c, restore_failed, affinity)
      | Got affinity \<Rightarrow> linux_restore k bytes original (linux_pinned k began ident (tick c), affinity))"

text \<open>The loop ends early, with \<open>None\<close>, when the deadline has passed before a processor.\<close>

fun linux_cpus :: "linux_kernel \<Rightarrow> u64 \<Rightarrow> nat \<Rightarrow> byte list \<Rightarrow> nat list \<Rightarrow> bool \<times> byte list \<times> nat
    \<Rightarrow> cpuid_cpu list option \<times> bool \<times> byte list \<times> nat" where
  "linux_cpus k began bytes original [] s = (Some [], s)"
| "linux_cpus k began bytes original (ident # ids) (restore_failed, affinity, t) =
     (if \<not> mc_alive (linux_machine k began) t then (None, restore_failed, affinity, Suc t)
      else case linux_cpu k began bytes original ident (restore_failed, affinity, Suc t) of
        (c, failed, affinity) \<Rightarrow>
          (case linux_cpus k began bytes original ids (failed, affinity, cc_moment c) of
             (cs, s) \<Rightarrow> (map_option ((#) c) cs, s)))"

fun cpuid_ids :: "(lua \<Rightarrow> int option) \<Rightarrow> nat list \<Rightarrow> lua list \<Rightarrow> (lua_return + nat list)" where
  "cpuid_ids to_integer seen [] = Inr (rev seen)"
| "cpuid_ids to_integer seen (row # rows) =
     (case to_integer (field row ''id'') of None \<Rightarrow> Inl (Raises ''number expected'')
      | Some v \<Rightarrow>
         if \<not> (0 \<le> v \<and> v < 1048576) then Inl (Bad_argument 1 ''invalid CPUID CPU id'')
         else if nat v \<in> set seen then Inl (Bad_argument 1 ''duplicate CPUID CPU id'')
         else cpuid_ids to_integer (nat v # seen) rows)"

abbreviation cpuid_failure :: "string \<Rightarrow> lua_return" where
  "cpuid_failure reason \<equiv> Returns [LNil, LStr reason]"

text \<open>What the reader answers, and the mask of the thread when it returns.\<close>

definition linux_packet :: "linux_kernel \<Rightarrow> u64 \<Rightarrow> nat list \<Rightarrow> byte list \<Rightarrow> nat \<Rightarrow> lua_return \<times> byte list" where
  "linux_packet k began ids affinity t =
     (case affinity_loop k mask_sizes t of
        (None, t) \<Rightarrow> (cpuid_failure ''cpuid_affinity_unavailable'', affinity)
      | (Some (asked, actual), t) \<Rightarrow>
         if actual = 0 \<or> asked < actual then (cpuid_failure ''cpuid_affinity_unavailable'', affinity)
         else (case linux_cpus k began actual (mask_read actual affinity) ids (False, affinity, t) of
            (None, failed, affinity, t) \<Rightarrow> (cpuid_failure ''cpuid_probe_timeout'', affinity)
          | (Some cs, failed, affinity, t) \<Rightarrow>
              if \<not> mc_alive (linux_machine k began) t \<and> \<not> failed then (cpuid_failure ''cpuid_probe_timeout'', affinity)
              else if failed then (cpuid_failure ''cpuid_affinity_restore_failed'', affinity)
              else if lk_copy k then (Returns [LStr (text_of (cpuid_packet CPUID_LINUX_VERSION 64 cs))], affinity)
              else (Raises ''not enough memory'', affinity)))"

definition linux_read_cpuid :: "linux_kernel \<Rightarrow> (lua \<Rightarrow> int option) \<Rightarrow> lua list \<Rightarrow> byte list \<Rightarrow> lua_return \<times> byte list" where
  "linux_read_cpuid k to_integer rows affinity =
     (if rows = [] \<or> CPUID_CPUS < length rows then (Bad_argument 1 ''invalid CPUID target count'', affinity)
      else case cpuid_ids to_integer [] rows of Inl r \<Rightarrow> (r, affinity)
      | Inr ids \<Rightarrow>
         if lk_faulting k then (cpuid_failure ''cpuid_disabled'', affinity)
         else let began = lk_clock k 0 in
           if began = 0 then (cpuid_failure ''cpuid_helper_failed'', affinity)
           else if \<not> lk_alloc k then (cpuid_failure ''cpuid_allocation_failed'', affinity)
           else linux_packet k began ids affinity 1)"

section \<open>What the Linux reader leaves behind\<close>

lemma linux_restore_restores:
  assumes "linux_restore k bytes original (c, a) = (d, failed, b)"
  shows "\<not> failed \<Longrightarrow> mask_read bytes b = original \<and> cc_status d = cc_status c \<and> bit (cc_flags d) 4"
    "failed \<Longrightarrow> cc_status d = STATUS_RESTORE" "cc_moment c \<le> cc_moment d" "cc_leaves d = cc_leaves c"
    "cc_id d = cc_id c" "cc_max_basic d = cc_max_basic c" "cc_max_extended d = cc_max_extended c"
    "bit (cc_flags d) n \<longleftrightarrow> bit (cc_flags c) n \<or> (n = 4 \<and> \<not> failed)"
  using assms by (auto simp: linux_restore_def Let_def bit_or_iff split: answer.splits if_splits)

lemma sse_bits [simp]: "bit (6 :: u32) n \<longleftrightarrow> n = 1 \<or> n = 2"
proof -
  have "(6 :: u32) = FLAG_XMM OR FLAG_SSE2" by simp
  then show ?thesis by (simp only: bit_or_iff flag_bits)
qed

lemma snapshot_open_moment:
  "snapshot_open m c = Inl d \<Longrightarrow> cc_moment c \<le> cc_moment d" "snapshot_open m c = Inr d \<Longrightarrow> cc_moment c \<le> cc_moment d"
  by (auto simp: snapshot_open_def add_leaf_def Let_def split: prod.splits if_splits)

lemma snapshot_moment: "cc_leaves c = [] \<Longrightarrow> cc_moment c \<le> cc_moment (cpuid_snapshot m c)"
proof (cases rule: snapshot_cases [of m c])
  case ended
  then show ?thesis by (rule snapshot_open_moment)
next
  case (unstable c1)
  have "cc_moment c \<le> cc_moment c1"
    using unstable(1) by (rule snapshot_open_moment)
  also have "cc_moment c1 \<le> cc_moment (cpuid_snapshot m c)"
    using snapshot_first_returns [OF unstable(2)] by (auto dest: grown_keeps(4))
  finally show ?thesis .
next
  case (whole c1 first c2 features c3)
  assume fresh: "cc_leaves c = []"
  have "cc_moment c \<le> cc_moment c1"
    using whole(1) by (rule snapshot_open_moment)
  also have "cc_moment c1 \<le> cc_moment (snapshot_topology m features c3)"
    by (rule grown_keeps(4) [OF snapshot_whole(4) [OF fresh whole(1-3)]])
  also have "\<dots> \<le> cc_moment (cpuid_snapshot m c)" unfolding whole(4) by (rule snapshot_close_facts(7))
  finally show ?thesis .
qed

text \<open>A record that says it is good is the good snapshot of the processor, taken before it.\<close>

definition good_record :: "machine \<Rightarrow> cpuid_cpu \<Rightarrow> bool" where
  "good_record m c \<longleftrightarrow> length (cc_leaves c) \<le> CPUID_LEAVES
     \<and> (cc_status c = STATUS_OK \<longrightarrow> bit (cc_flags c) 7
        \<and> (\<not> truncated c \<and> (\<forall>t < cc_moment c. mc_alive m t) \<longrightarrow> cpuid_complete c))"

lemma cpuid_complete_cong:
  assumes "cc_leaves c = cc_leaves d" "cc_max_basic c = cc_max_basic d" "cc_max_extended c = cc_max_extended d"
  shows "cpuid_complete c = cpuid_complete d"
  by (simp add: cpuid_complete_def enumerated_def vendor_name_def assms)

lemma linux_pinned_good:
  assumes "cc_leaves c = []"
  shows "good_record (linux_machine k began) (linux_pinned k began ident c)"
    "cc_id (linux_pinned k began ident c) = cc_id c" "cc_moment c \<le> cc_moment (linux_pinned k began ident c)"
proof -
  let ?m = "linux_machine k began"
  define e where "e = provided (0 \<le> lk_getcpu k (cc_moment c)) (raise_flag FLAG_OS_ID) (tick c)"
  define d where "d = cpuid_snapshot ?m e"
  have e: "cc_leaves e = []" "cc_id e = cc_id c" "cc_moment c \<le> cc_moment e"
    using assms by (simp_all add: e_def provided_def)
  note ok = snapshot_is_ok [OF e(1), of ?m, folded d_def] and moment = snapshot_moment [OF e(1), of ?m, folded d_def]
  note complete = snapshot_complete_lemma [OF e(1), of ?m, folded d_def]
  define r where "r = linux_pinned k began ident c"
  show "good_record ?m r" "cc_id r = cc_id c" "cc_moment c \<le> cc_moment r"
  proof -
    have body: "r = (if lk_getcpu k (cc_moment c) = int ident
        then let c = raise_flag (FLAG_XMM OR FLAG_SSE2) d in
          if cc_status c = STATUS_OK
          then provided (lk_getcpu k (cc_moment c) \<noteq> int ident) (\<lambda>c. c\<lparr>cc_status := STATUS_UNSTABLE\<rparr>) (tick c) else c
        else e\<lparr>cc_status := STATUS_WRONG_CPU\<rparr>)"
      unfolding r_def linux_pinned_def Let_def e_def d_def by (rule refl)
    show "good_record ?m r" "cc_id r = cc_id c" "cc_moment c \<le> cc_moment r"
    proof (atomize (full), cases "lk_getcpu k (cc_moment c) = int ident")
      case False
      then show "good_record ?m r \<and> cc_id r = cc_id c \<and> cc_moment c \<le> cc_moment r"
        using e by (simp add: body good_record_def)
    next
      case True
      then have here: "cc_leaves r = cc_leaves d" "cc_max_basic r = cc_max_basic d" "cc_max_extended r = cc_max_extended d"
        "cc_id r = cc_id d" "cc_flags r = cc_flags d OR (FLAG_XMM OR FLAG_SSE2)" "cc_moment d \<le> cc_moment r"
        "cc_status r = STATUS_OK \<Longrightarrow> cc_status d = STATUS_OK"
        unfolding body by (simp_all add: Let_def provided_def split: if_splits)
      have "truncated r = truncated d" by (simp add: truncated_bit here(5) bit_or_iff)
      then have "cpuid_complete r"
        if "cc_status r = STATUS_OK" "\<not> truncated r" "\<forall>t < cc_moment r. mc_alive ?m t"
        using complete that here(6,7) by (simp add: cpuid_complete_cong [OF here(1-3)] undisturbed_def)
      then show "good_record ?m r \<and> cc_id r = cc_id c \<and> cc_moment c \<le> cc_moment r"
        using ok here e(2,3) moment by (auto simp: good_record_def snapshot_ok_def bit_or_iff)
    qed
  qed
qed

lemma linux_cpu_good:
  assumes "linux_cpu k began bytes original ident (failed, a, t) = (c, failed', b)"
  shows "good_record (linux_machine k began) c" "cc_id c = word_of_nat ident" "t \<le> cc_moment c"
    "failed \<Longrightarrow> failed'" "\<not> failed' \<Longrightarrow> cc_status c = STATUS_OK \<Longrightarrow> bit (cc_flags c) 4"
    "\<not> failed' \<Longrightarrow> mask_read bytes a = original \<Longrightarrow> mask_read bytes b = original"
proof -
  let ?m = "linux_machine k began" and ?c = "blank_cpu (word_of_nat ident) 0 (word_of_nat ident) t"
  have blank: "good_record ?m ?c" "good_record ?m (tick ?c)" "cc_id ?c = word_of_nat ident" "cc_moment ?c = t"
    "cc_leaves ?c = []" "cc_status ?c = STATUS_AFFINITY"
    by (simp_all add: blank_cpu_def good_record_def)
  consider (idle) "c \<in> {?c, tick ?c}" "failed' = failed" "b = a"
    | (pinned) a' where "linux_restore k bytes original (linux_pinned k began ident (tick ?c), a') = (c, failed', b)" "\<not> failed"
    using assms by (auto simp: linux_cpu_def Let_def split: if_splits answer.splits)
  then have "good_record ?m c \<and> cc_id c = word_of_nat ident \<and> t \<le> cc_moment c \<and> (failed \<longrightarrow> failed')
      \<and> (\<not> failed' \<longrightarrow> cc_status c = STATUS_OK \<longrightarrow> bit (cc_flags c) 4)
      \<and> (\<not> failed' \<longrightarrow> mask_read bytes a = original \<longrightarrow> mask_read bytes b = original)"
  proof cases
    case idle
    then show ?thesis using blank by auto
  next
    case pinned
    note restored = linux_restore_restores [OF pinned(1)]
    note good = linux_pinned_good [of "tick ?c" k began ident]
    have "truncated c = truncated (linux_pinned k began ident (tick ?c))" by (simp add: truncated_bit restored(8))
    then have "good_record ?m c"
      using good(1) restored(1,2,3,4,8) blank(5)
      by (cases failed') (auto simp: good_record_def cpuid_complete_cong [OF restored(4,6,7)])
    then show ?thesis using restored good(2,3) blank pinned(2) by auto
  qed
  then show "good_record ?m c" "cc_id c = word_of_nat ident" "t \<le> cc_moment c"
    "failed \<Longrightarrow> failed'" "\<not> failed' \<Longrightarrow> cc_status c = STATUS_OK \<Longrightarrow> bit (cc_flags c) 4"
    "\<not> failed' \<Longrightarrow> mask_read bytes a = original \<Longrightarrow> mask_read bytes b = original"
    by blast+
qed

lemma linux_cpus_good:
  assumes "linux_cpus k began bytes original ids (failed, a, t) = (r, failed', b, t')"
  shows "t \<le> t'" "failed \<Longrightarrow> failed'"
    "\<not> failed' \<Longrightarrow> mask_read bytes a = original \<Longrightarrow> mask_read bytes b = original"
    "r = Some cs \<Longrightarrow> list_all2 (\<lambda>ident c. cc_id c = word_of_nat ident \<and> cc_moment c \<le> t'
       \<and> good_record (linux_machine k began) c \<and> (\<not> failed' \<longrightarrow> cc_status c = STATUS_OK \<longrightarrow> bit (cc_flags c) 4)) ids cs"
proof -
  let ?m = "linux_machine k began"
  let ?good = "\<lambda>failed' t' ident c. cc_id c = word_of_nat ident \<and> cc_moment c \<le> t'
       \<and> good_record ?m c \<and> (\<not> failed' \<longrightarrow> cc_status c = STATUS_OK \<longrightarrow> bit (cc_flags c) 4)"
  have "t \<le> t' \<and> (failed \<longrightarrow> failed') \<and> (\<not> failed' \<longrightarrow> mask_read bytes a = original \<longrightarrow> mask_read bytes b = original)
      \<and> (\<forall>cs. r = Some cs \<longrightarrow> list_all2 (?good failed' t') ids cs)"
    using assms
  proof (induction ids arbitrary: failed a t r)
    case (Cons ident ids)
    show ?case
    proof (cases "mc_alive ?m t")
      case True
      obtain c f d where one: "linux_cpu k began bytes original ident (failed, a, Suc t) = (c, f, d)"
        by (metis prod_cases3)
      obtain r' where rest: "linux_cpus k began bytes original ids (f, d, cc_moment c) = (r', failed', b, t')"
        and r: "r = map_option ((#) c) r'"
        using Cons.prems True one by (auto split: prod.splits)
      note good = linux_cpu_good [OF one]
      note IH = Cons.IH [OF rest]
      have c: "?good failed' t' ident c" using good(1,2,5) IH by auto
      have "t \<le> t'" using good(3) IH by linarith
      moreover have "failed \<longrightarrow> failed'" "\<not> failed' \<longrightarrow> mask_read bytes a = original \<longrightarrow> mask_read bytes b = original"
        using good(4,6) IH by auto
      moreover have "list_all2 (?good failed' t') (ident # ids) cs" if "r = Some cs" for cs
        using that r c IH by auto
      ultimately show ?thesis by blast
    qed (use Cons.prems in auto)
  qed auto
  then show "t \<le> t'" "failed \<Longrightarrow> failed'"
    "\<not> failed' \<Longrightarrow> mask_read bytes a = original \<Longrightarrow> mask_read bytes b = original"
    "r = Some cs \<Longrightarrow> list_all2 (?good failed' t') ids cs"
    by blast+
qed

lemma cpuid_ids_range:
  "cpuid_ids to_integer seen rows = Inr ids \<Longrightarrow> \<forall>i \<in> set seen. i < 1048576 \<Longrightarrow> \<forall>i \<in> set ids. i < 1048576"
  by (induction to_integer seen rows rule: cpuid_ids.induct) (auto split: option.splits if_splits)

lemma cpuid_ids_refuses: "cpuid_ids to_integer seen rows = Inl r \<Longrightarrow> r \<noteq> Returns vs"
  by (induction to_integer seen rows rule: cpuid_ids.induct) (auto split: option.splits if_splits)

lemma linux_alive_back:
  assumes "\<forall>s t. s \<le> t \<longrightarrow> lk_clock k s \<le> lk_clock k t" and "mc_alive (linux_machine k (lk_clock k 0)) t" and "s \<le> t"
  shows "mc_alive (linux_machine k (lk_clock k 0)) s"
proof -
  have "lk_clock k 0 \<le> lk_clock k s" "lk_clock k s \<le> lk_clock k t" using assms(1,3) by simp_all
  then have "lk_clock k s - lk_clock k 0 \<le> lk_clock k t - lk_clock k 0"
    by (simp add: word_le_nat_alt unat_sub)
  then show ?thesis using assms(2) \<open>lk_clock k 0 \<le> lk_clock k s\<close>
    by (auto simp: linux_machine_def intro: le_less_trans)
qed

text \<open>What a record of a returned packet holds of the processor it is for.\<close>

definition faithful_record :: "nat \<Rightarrow> cpuid_cpu \<Rightarrow> bool" where
  "faithful_record ident c \<longleftrightarrow> unat (cc_id c) = ident \<and> length (cc_leaves c) \<le> CPUID_LEAVES
     \<and> (cc_status c = STATUS_OK \<longrightarrow> bit (cc_flags c) 7 \<and> bit (cc_flags c) 4 \<and> (\<not> truncated c \<longrightarrow> cpuid_complete c))"

lemma linux_packet_outcome:
  assumes "linux_packet k (lk_clock k 0) ids a t = (r, b)"
    and "\<forall>s t. s \<le> t \<longrightarrow> lk_clock k s \<le> lk_clock k t" and "\<forall>i \<in> set ids. i < 1048576"
  shows "r \<noteq> cpuid_failure ''cpuid_probe_timeout'' \<Longrightarrow> r \<noteq> cpuid_failure ''cpuid_affinity_restore_failed'' \<Longrightarrow>
      b = a \<or> (\<exists>asked n u. affinity_loop k mask_sizes t = (Some (asked, n), u) \<and> 0 < n \<and> mask_read n b = mask_read n a)"
    and "r = Returns [LStr p] \<Longrightarrow> \<exists>cs. p = text_of (cpuid_packet CPUID_LINUX_VERSION 64 cs) \<and> list_all2 faithful_record ids cs"
proof -
  let ?m = "linux_machine k (lk_clock k 0)"
  obtain l u where loop: "affinity_loop k mask_sizes t = (l, u)" by fastforce
  have "(r \<noteq> cpuid_failure ''cpuid_probe_timeout'' \<longrightarrow> r \<noteq> cpuid_failure ''cpuid_affinity_restore_failed'' \<longrightarrow>
      b = a \<or> (\<exists>asked n. l = Some (asked, n) \<and> 0 < n \<and> mask_read n b = mask_read n a))
    \<and> (r = Returns [LStr p] \<longrightarrow> (\<exists>cs. p = text_of (cpuid_packet CPUID_LINUX_VERSION 64 cs) \<and> list_all2 faithful_record ids cs))"
  proof (cases "\<exists>asked n. l = Some (asked, n) \<and> n \<noteq> 0 \<and> n \<le> asked")
    case False
    then show ?thesis using assms(1) loop by (cases l) (auto simp: linux_packet_def split: if_splits)
  next
    case True
    then obtain asked n where l: "l = Some (asked, n)" "n \<noteq> 0" "n \<le> asked" by blast
    obtain res f d v where cpus: "linux_cpus k (lk_clock k 0) n (mask_read n a) ids (False, a, u) = (res, f, d, v)"
      by (metis prod_cases4)
    note good = linux_cpus_good [OF cpus]
    show ?thesis
    proof (cases "\<exists>cs. res = Some cs \<and> \<not> f \<and> mc_alive ?m v")
      case False
      then show ?thesis using assms(1) loop l cpus
        by (cases res) (auto simp: linux_packet_def split: if_splits)
    next
      case True
      then obtain cs where cs: "res = Some cs" "\<not> f" "mc_alive ?m v" by blast
      have b: "b = d" and r: "r = (if lk_copy k then Returns [LStr (text_of (cpuid_packet CPUID_LINUX_VERSION 64 cs))]
          else Raises ''not enough memory'')"
        using assms(1) loop l cpus cs by (auto simp: linux_packet_def split: if_splits)
      have mask: "mask_read n b = mask_read n a" using good(3) cs(2) b by simp
      have alive: "mc_alive ?m s" if "s \<le> v" for s by (rule linux_alive_back [OF assms(2) cs(3) that])
      have record_: "faithful_record i c"
        if "i \<in> set ids" "cc_id c = word_of_nat i" "cc_moment c \<le> v" "good_record ?m c"
          "cc_status c = STATUS_OK \<longrightarrow> bit (cc_flags c) 4" for i c
        using that assms(3) alive by (auto simp: faithful_record_def good_record_def unat_of_nat)
      have "list_all2 faithful_record ids cs"
        by (rule list.rel_mono_strong [OF good(4) [OF cs(1)]]) (use record_ cs(2) in auto)
      then show ?thesis using mask l r by auto
    qed
  qed
  then show "r \<noteq> cpuid_failure ''cpuid_probe_timeout'' \<Longrightarrow> r \<noteq> cpuid_failure ''cpuid_affinity_restore_failed'' \<Longrightarrow>
      b = a \<or> (\<exists>asked n u. affinity_loop k mask_sizes t = (Some (asked, n), u) \<and> 0 < n \<and> mask_read n b = mask_read n a)"
    "r = Returns [LStr p] \<Longrightarrow> \<exists>cs. p = text_of (cpuid_packet CPUID_LINUX_VERSION 64 cs) \<and> list_all2 faithful_record ids cs"
    using loop by auto
qed


definition sample_linux_kernel :: "(nat \<Rightarrow> u64) \<Rightarrow> nat \<Rightarrow> linux_kernel" where
  "sample_linux_kernel clock refused = \<lparr>lk_faulting = False, lk_clock = clock, lk_alloc = True, lk_get = \<lambda>t n. if n = 128 then Failed EINVAL else Got 2,
     lk_set = \<lambda>t m. if t = refused then Failed EPERM else Got m, lk_getcpu = \<lambda>t. 3, lk_max = \<lambda>t. (0, 0),
     lk_cpuid = \<lambda>t l s. (0, 0, 0, 0), lk_xgetbv = \<lambda>t. (0, 0), lk_copy = True\<rparr>"

definition sample_cpu_rows :: "lua list" where
  "sample_cpu_rows = [mk_tab [(''id'', LInt 3)], mk_tab [(''id'', LInt 0)]]"

definition plain_to_integer :: "lua \<Rightarrow> int option" where
  "plain_to_integer v = (case v of LInt i \<Rightarrow> Some i | _ \<Rightarrow> None)"


lemma snapshot_unsupported:
  "mc_max m (cc_moment c) = (0, 0) \<Longrightarrow> cpuid_snapshot m c = (tick c)\<lparr>cc_max_basic := 0, cc_status := STATUS_UNSUPPORTED\<rparr>"
  by (simp add: cpuid_snapshot_def snapshot_open_def)

lemmas sample_run = linux_read_cpuid_def sample_linux_kernel_def sample_cpu_rows_def plain_to_integer_def linux_packet_def
  linux_cpu_def linux_pinned_def linux_restore_def Let_def provided_def snapshot_unsupported linux_machine_def mask_read_def
  contains_def only_cpu_def blank_cpu_def tick_def raise_flag_def field_mk_tab bit_numeral_word_iff


text \<open>
  A mask that could not be restored is reported as a mere timeout when the deadline passes
  before the next processor, and the thread stays pinned.
\<close>

lemma timeout_hides_restore:
  "linux_read_cpuid (sample_linux_kernel (\<lambda>t. if t < 8 then 5 else 5000000000) 7) plain_to_integer sample_cpu_rows [0x0f, 0] =
    (cpuid_failure ''cpuid_probe_timeout'', [0x08, 0])"
  by (simp add: sample_run) (simp add: numeral_2_eq_2)

end
