(* ===== verification/CpuidHelper.thy ===== *)
theory CpuidHelper imports CpuidReaders begin

text \<open>
  The Windows helper process \<^verbatim>\<open>native/wtop_cpuid_helper.c\<close>: its command line, the capture of
  one processor with the thread's affinity, and the packet it writes; and the command line as
  \<open>cpuid_worker\<close> of \<^verbatim>\<open>native/wtop_windows_cpuid.c\<close> builds it.
\<close>

section \<open>One processor\<close>

text \<open>
  The word size of the build, which entry points the system has, and the answers of the
  calls moment by moment; \<open>wc_machine\<close> holds the watch of parent and time and the processor.
\<close>

record windows_cpu =
  wc_bits :: nat
  wc_group_api :: bool
  wc_set_group :: "nat \<Rightarrow> bool"
  wc_set_mask :: "nat \<Rightarrow> nat"
  wc_ex_api :: bool
  wc_ex :: "nat \<Rightarrow> nat \<times> nat"
  wc_current_api :: bool
  wc_current :: "nat \<Rightarrow> nat"
  wc_xmm :: bool
  wc_sse2 :: bool
  wc_machine :: machine

definition on_target :: "windows_cpu \<Rightarrow> cpuid_target \<Rightarrow> nat \<Rightarrow> bool" where
  "on_target w t m =
     (if wc_ex_api w then wc_ex w m = (unat (ct_group t), unat (ct_index t))
      else \<not> wc_current_api w \<or> (ct_group t = 0 \<and> wc_current w m = unat (ct_index t)))"

text \<open>Pinning the thread: \<open>None\<close> when it fails.\<close>

definition capture_pin :: "windows_cpu \<Rightarrow> cpuid_cpu \<Rightarrow> cpuid_cpu option" where
  "capture_pin w c =
     (if wc_group_api w
      then if wc_set_group w (cc_moment c) then Some (raise_flag FLAG_GROUP_PIN (tick c)) else None
      else if wc_set_mask w (cc_moment c) = 0 then None else Some (tick c))"

definition capture_here :: "windows_cpu \<Rightarrow> cpuid_target \<Rightarrow> cpuid_cpu \<Rightarrow> cpuid_cpu" where
  "capture_here w t c =
     (let c = provided (wc_ex_api w \<or> wc_current_api w) (raise_flag FLAG_OS_ID) c in
      if \<not> on_target w t (cc_moment c) then (tick c)\<lparr>cc_status := STATUS_WRONG_CPU\<rparr>
      else let c = cpuid_snapshot (wc_machine w) (tick c);
          c = provided (wc_xmm w) (raise_flag FLAG_XMM) c;
          c = provided (wc_sse2 w) (raise_flag FLAG_SSE2) c in
        if cc_status c = STATUS_OK
        then (let moved = \<not> on_target w t (cc_moment c); c = tick c in provided moved (\<lambda>c. c\<lparr>cc_status := STATUS_UNSTABLE\<rparr>) c)
        else c)"

definition capture_restore :: "windows_cpu \<Rightarrow> cpuid_cpu \<Rightarrow> cpuid_cpu" where
  "capture_restore w c =
     (let ok = (if wc_group_api w then wc_set_group w (cc_moment c) else wc_set_mask w (cc_moment c) \<noteq> 0); c = tick c in
      if ok then raise_flag FLAG_RESTORED c else c\<lparr>cc_status := STATUS_RESTORE\<rparr>)"

definition capture_cpu :: "windows_cpu \<Rightarrow> cpuid_target \<Rightarrow> nat \<Rightarrow> cpuid_cpu" where
  "capture_cpu w t m =
     (let c = blank_cpu (ct_id t) (ucast (ct_group t)) (ucast (ct_index t)) m in
      if wc_bits w \<le> unat (ct_index t) \<or> (\<not> wc_group_api w \<and> ct_group t \<noteq> 0) then c
      else case capture_pin w c of None \<Rightarrow> tick c
        | Some c \<Rightarrow> capture_restore w (capture_here w t c))"

section \<open>The command line\<close>

definition wide_hex :: "char \<Rightarrow> nat option" where
  "wide_hex c =
     (if code CHR ''0'' \<le> code c \<and> code c \<le> code CHR ''9'' then Some (code c - code CHR ''0'')
      else if code CHR ''a'' \<le> code c \<and> code c \<le> code CHR ''f'' then Some (code c - code CHR ''a'' + 10)
      else if code CHR ''A'' \<le> code c \<and> code c \<le> code CHR ''F'' then Some (code c - code CHR ''A'' + 10)
      else None)"

fun guard_loop :: "nat \<Rightarrow> string \<Rightarrow> nat option" where
  "guard_loop g [] = Some g"
| "guard_loop g (c # cs) = (case wide_hex c of None \<Rightarrow> None | Some d \<Rightarrow> guard_loop (g * 16 + d) cs)"

definition parse_guard :: "nat \<Rightarrow> string \<Rightarrow> nat option" where
  "parse_guard bits s =
     (if s = [] \<or> bits div 8 * 2 < length s then None
      else case guard_loop 0 s of None \<Rightarrow> None | Some g \<Rightarrow> if g = 0 then None else Some g)"

fun hex_pairs :: "string \<Rightarrow> byte list option" where
  "hex_pairs (a # b # cs) =
     (case (wide_hex a, wide_hex b, hex_pairs cs) of
        (Some x, Some y, Some bs) \<Rightarrow> Some (word_of_nat (x * 16 + y) # bs)
      | _ \<Rightarrow> None)"
| "hex_pairs _ = Some []"

fun targets_of :: "byte list \<Rightarrow> cpuid_target list" where
  "targets_of (a # b # c # d # e # f # g # h # bs) =
     \<lparr>ct_id = get_le [a, b, c, d], ct_group = get_le [e, f], ct_index = get_le [g, h]\<rparr> # targets_of bs"
| "targets_of _ = []"

fun targets_ok :: "u32 list \<Rightarrow> cpuid_target list \<Rightarrow> bool" where
  "targets_ok seen [] \<longleftrightarrow> True"
| "targets_ok seen (t # ts) \<longleftrightarrow>
     ct_group t < 64 \<and> ct_index t < 64 \<and> ct_id t = ucast (ct_group t) * 64 + ucast (ct_index t)
     \<and> ct_id t \<notin> set seen \<and> targets_ok (ct_id t # seen) ts"

definition parse_targets :: "string \<Rightarrow> cpuid_target list option" where
  "parse_targets s =
     (if s = [] \<or> length s mod 16 \<noteq> 0 \<or> CPUID_CPUS * 16 < length s then None
      else case hex_pairs s of None \<Rightarrow> None
        | Some bs \<Rightarrow> if targets_ok [] (targets_of bs) then Some (targets_of bs) else None)"

section \<open>The process\<close>

text \<open>
  The capture of all targets, with the offset in the buffer: \<open>Inl\<close> is an exit, when the
  watch ends the process or another record might not fit.
\<close>

fun capture_all :: "windows_cpu \<Rightarrow> cpuid_target list \<Rightarrow> nat \<Rightarrow> nat \<Rightarrow> (nat + cpuid_cpu list)" where
  "capture_all w [] offset m = Inr []"
| "capture_all w (t # ts) offset m =
     (if \<not> mc_alive (wc_machine w) m then Inl 3
      else if CPUID_BYTES - 48 - CPUID_LEAVES * 24 < offset then Inl 4
      else let c = capture_cpu w t (Suc m) in
        map_sum id ((#) c) (capture_all w ts (offset + 48 + length (cc_leaves c) * 24) (cc_moment c)))"

text \<open>
  The write loop over the answers of the watch and of \<open>WriteFile\<close>; the exit status, 0 for
  success, and what was written. Without an answer left it has not ended.
\<close>

fun write_packet :: "(bool \<times> nat option) list \<Rightarrow> byte list \<Rightarrow> (nat \<times> byte list) option" where
  "write_packet ans [] = Some (0, [])"
| "write_packet [] (b # bs) = None"
| "write_packet ((alive, amount) # ans) (b # bs) =
     (case amount of
        None \<Rightarrow> Some (5, [])
      | Some n \<Rightarrow> let n = min n (length (b # bs)) in
          if \<not> alive \<or> n = 0 then Some (5, [])
          else map_option (\<lambda>(e, w). (e, take n (b # bs) @ w)) (write_packet ans (drop n (b # bs))))"

definition cpuid_helper :: "windows_cpu \<Rightarrow> bool \<Rightarrow> (bool \<times> nat option) list \<Rightarrow> string list \<Rightarrow> (nat \<times> byte list) option" where
  "cpuid_helper w allocated ans argv =
     (case argv of
        [_, guard, targets] \<Rightarrow>
          (case parse_guard (wc_bits w) guard of None \<Rightarrow> Some (2, [])
           | Some g \<Rightarrow>
              if \<not> mc_alive (wc_machine w) 0 then Some (3, [])
              else case parse_targets targets of None \<Rightarrow> Some (2, [])
              | Some ts \<Rightarrow>
                 if \<not> allocated then Some (4, [])
                 else case capture_all w ts 32 1 of Inl e \<Rightarrow> Some (e, [])
                 | Inr cs \<Rightarrow> write_packet ans (cpuid_packet CPUID_VERSION (word_of_nat (wc_bits w)) cs))
      | _ \<Rightarrow> Some (2, []))"

section \<open>The command line the host builds\<close>

definition target_bytes :: "cpuid_target \<Rightarrow> byte list" where
  "target_bytes t = put_le 4 (ct_id t) @ put_le 2 (ct_group t) @ put_le 2 (ct_index t)"

definition small_hex :: "nat \<Rightarrow> char" where
  "small_hex n = ''0123456789abcdef'' ! n"

definition hex_of_byte :: "byte \<Rightarrow> string" where
  "hex_of_byte b = [small_hex (unat (drop_bit 4 b)), small_hex (unat (b AND 15))]"

text \<open>What \<open>%lx\<close> prints.\<close>

fun hex_number :: "nat \<Rightarrow> string" where
  "hex_number n = (if n < 16 then [small_hex n] else hex_number (n div 16) @ [small_hex (n mod 16)])"

declare hex_number.simps [simp del]

definition targets_text :: "cpuid_target list \<Rightarrow> string" where
  "targets_text ts = concat (map hex_of_byte (concat (map target_bytes ts)))"

definition helper_arguments :: "string \<Rightarrow> nat \<Rightarrow> cpuid_target list \<Rightarrow> string list" where
  "helper_arguments path guard ts = [path, hex_number guard, targets_text ts]"

section \<open>The helper reads what the host writes\<close>

lemma wide_hex_small [simp]: "n < 16 \<Longrightarrow> wide_hex (small_hex n) = Some n"
proof -
  have "\<forall>n \<in> set [0..<16]. wide_hex (small_hex n) = Some n" by code_simp
  then show "n < 16 \<Longrightarrow> wide_hex (small_hex n) = Some n" by simp
qed

lemma guard_loop_append:
  "guard_loop g (s @ r) = (case guard_loop g s of None \<Rightarrow> None | Some h \<Rightarrow> guard_loop h r)"
  by (induction g s rule: guard_loop.induct) (auto split: option.splits)

lemma guard_loop_number: "guard_loop 0 (hex_number n) = Some n"
proof (induction n rule: hex_number.induct)
  case (1 n)
  then show ?case by (subst hex_number.simps) (auto simp: guard_loop_append)
qed

lemma hex_number_length: "n < 16 ^ Suc k \<Longrightarrow> length (hex_number n) \<le> Suc k"
proof (induction k arbitrary: n)
  case (Suc k)
  have "length (hex_number (n div 16)) \<le> Suc k" using Suc.prems by (intro Suc.IH) (simp add: less_mult_imp_div_less)
  then show ?case by (subst hex_number.simps) simp
qed (subst hex_number.simps, simp)

lemma parse_guard_number:
  assumes "0 < g" and "g < 2 ^ 32" and "32 \<le> bits"
  shows "parse_guard bits (hex_number g) = Some g"
proof -
  have "length (hex_number g) \<le> Suc 7" by (rule hex_number_length) (use assms(2) in simp)
  moreover have "8 \<le> bits div 8 * 2" using assms(3) by simp
  moreover have "hex_number g \<noteq> []" by (subst hex_number.simps) simp
  ultimately show ?thesis using assms(1) by (simp add: parse_guard_def guard_loop_number)
qed

lemma byte_halves: "drop_bit 4 b * 16 + (b AND 15) = (b :: byte)"
proof -
  have "b AND 15 = take_bit 4 b" by (simp add: take_bit_eq_mask mask_eq_exp_minus_1)
  moreover have "drop_bit 4 b * 16 = push_bit 4 (drop_bit 4 b)" by (simp add: push_bit_eq_mult)
  ultimately show ?thesis by (metis bits_ident)
qed

lemma half_less: "unat (drop_bit 4 (b :: byte)) < 16" "unat (b AND 15) < 16"
proof -
  have "unat b < 256" using unsigned_less [of b, where ?'a = nat] by simp
  moreover have "unat (drop_bit 4 b) = unat b div 16" by (simp only: unat_drop_bit_eq) (simp add: drop_bit_eq_div)
  ultimately show "unat (drop_bit 4 b) < 16" by simp
  have "b AND 15 \<le> 15" by (rule word_and_le1)
  then show "unat (b AND 15) < 16" by (simp add: word_le_nat_alt)
qed

lemma hex_pairs_bytes: "hex_pairs (concat (map hex_of_byte bs)) = Some bs"
  by (induction bs) (simp_all add: hex_of_byte_def half_less byte_halves)

lemma targets_of_bytes: "targets_of (concat (map target_bytes ts)) = ts"
proof (induction ts)
  case (Cons t ts)
  have "get_le (put_le 4 (ct_id t)) = ct_id t" "get_le (put_le 2 (ct_group t)) = ct_group t" "get_le (put_le 2 (ct_index t)) = ct_index t"
    by (simp_all add: get_le_put_le)
  then show ?case using Cons
    by (simp add: target_bytes_def eval_nat_numeral put_le_Suc del: get_le.simps)
qed simp

lemma targets_text_length: "length (targets_text ts) = 16 * length ts"
proof -
  have "length (concat (map hex_of_byte bs)) = 2 * length bs" for bs by (induction bs) (simp_all add: hex_of_byte_def)
  moreover have "length (concat (map target_bytes ts)) = 8 * length ts" by (induction ts) (simp_all add: target_bytes_def)
  ultimately show ?thesis by (simp add: targets_text_def)
qed

lemma parse_targets_text:
  assumes "ts \<noteq> []" and "length ts \<le> CPUID_CPUS" and "targets_ok [] ts"
  shows "parse_targets (targets_text ts) = Some ts"
proof -
  have "targets_text ts \<noteq> []" using assms(1) targets_text_length [of ts] by auto
  then show ?thesis using assms
    by (simp add: parse_targets_def targets_text_length) (simp add: targets_text_def hex_pairs_bytes targets_of_bytes)
qed

section \<open>What the helper captures\<close>

lemma capture_here_for:
  fixes w t c
  assumes "cc_leaves c = []" and "\<forall>n. bit (cc_flags c) n \<longrightarrow> n = 6"
  defines "d \<equiv> capture_here w t c"
  shows "cc_id d = cc_id c" "cc_group d = cc_group c" "cc_index d = cc_index c" "length (cc_leaves d) \<le> CPUID_LEAVES"
    "cc_status d \<le> STATUS_BAD_RANGE" "bit (cc_flags d) n \<Longrightarrow> n < 8 \<and> n \<noteq> 4" "cc_status d = STATUS_OK \<Longrightarrow> bit (cc_flags d) 7"
proof -
  define e where "e = provided (wc_ex_api w \<or> wc_current_api w) (raise_flag FLAG_OS_ID) c"
  define s where "s = cpuid_snapshot (wc_machine w) (tick e)"
  have e: "cc_leaves e = []" "cc_id e = cc_id c" "cc_group e = cc_group c" "cc_index e = cc_index c"
    "bit (cc_flags e) n \<Longrightarrow> n = 6 \<or> n = 3" for n
    using assms(1,2) by (auto simp: e_def provided_def bit_or_iff split: if_splits)
  have "cc_leaves (tick e) = []" using e(1) by simp
  note ok = snapshot_is_ok [OF this, of "wc_machine w", folded s_def, unfolded snapshot_ok_def]
  consider (wrong) "d = (tick e)\<lparr>cc_status := STATUS_WRONG_CPU\<rparr>"
    | (here) "cc_leaves d = cc_leaves s" "cc_id d = cc_id s" "cc_group d = cc_group s" "cc_index d = cc_index s"
      "\<And>n. bit (cc_flags d) n \<Longrightarrow> bit (cc_flags s) n \<or> n = 1 \<or> n = 2" "\<And>n. bit (cc_flags s) n \<Longrightarrow> bit (cc_flags d) n"
      "cc_status d \<in> {cc_status s, STATUS_UNSTABLE}"
  proof (cases "on_target w t (cc_moment e)")
    case True
    have d: "d = (let c = provided (wc_sse2 w) (raise_flag FLAG_SSE2) (provided (wc_xmm w) (raise_flag FLAG_XMM) s) in
        if cc_status c = STATUS_OK
        then provided (\<not> on_target w t (cc_moment c)) (\<lambda>c. c\<lparr>cc_status := STATUS_UNSTABLE\<rparr>) (tick c) else c)"
      using True by (simp add: d_def capture_here_def e_def s_def Let_def)
    show ?thesis by (rule here) (auto simp: d Let_def provided_def bit_or_iff split: if_splits)
  qed (use wrong in \<open>simp add: d_def capture_here_def e_def Let_def\<close>)
  then have "cc_id d = cc_id c \<and> cc_group d = cc_group c \<and> cc_index d = cc_index c \<and> length (cc_leaves d) \<le> CPUID_LEAVES
      \<and> cc_status d \<le> STATUS_BAD_RANGE \<and> (bit (cc_flags d) n \<longrightarrow> n < 8 \<and> n \<noteq> 4) \<and> (cc_status d = STATUS_OK \<longrightarrow> bit (cc_flags d) 7)" for n
  proof cases
    case wrong
    then show ?thesis using e(1-4) e(5) [of n] by auto
  next
    case here
    have flags: "bit (cc_flags s) n \<Longrightarrow> n \<in> {0, 3, 5, 6, 7}" using ok e(5) [of n] by auto
    have status: "cc_status s \<in> {STATUS_OK, STATUS_UNSUPPORTED, STATUS_UNSTABLE, STATUS_BAD_RANGE}" using ok by blast
    have keeps: "cc_id s = cc_id c" "cc_group s = cc_group c" "cc_index s = cc_index c" "length (cc_leaves s) \<le> CPUID_LEAVES"
      "cc_status s = STATUS_OK \<Longrightarrow> bit (cc_flags s) 7"
      using ok e by simp_all
    have "bit (cc_flags d) n \<longrightarrow> n < 8 \<and> n \<noteq> 4" using here(5) [of n] flags by auto
    moreover have "cc_status d \<le> STATUS_BAD_RANGE" "cc_status d = STATUS_OK \<longrightarrow> bit (cc_flags d) 7"
      using here(6,7) status keeps(5) by auto
    ultimately show ?thesis using here keeps by simp
  qed
  then show "cc_id d = cc_id c" "cc_group d = cc_group c" "cc_index d = cc_index c" "length (cc_leaves d) \<le> CPUID_LEAVES"
    "cc_status d \<le> STATUS_BAD_RANGE" "bit (cc_flags d) n \<Longrightarrow> n < 8 \<and> n \<noteq> 4" "cc_status d = STATUS_OK \<Longrightarrow> bit (cc_flags d) 7"
    by blast+
qed

lemma capture_for: "cpu_for t (capture_cpu w t m)"
proof -
  let ?c = "blank_cpu (ct_id t) (ucast (ct_group t)) (ucast (ct_index t)) m"
  have blank: "cpu_for t ?c" "cpu_for t (tick ?c)" by (simp_all add: cpu_for_def blank_cpu_def)
  consider (left) "capture_cpu w t m \<in> {?c, tick ?c}"
    | (pinned) e where "capture_pin w ?c = Some e" "capture_cpu w t m = capture_restore w (capture_here w t e)"
  proof -
    have "capture_cpu w t m \<in> {?c, tick ?c} \<or> (\<exists>e. capture_pin w ?c = Some e \<and> capture_cpu w t m = capture_restore w (capture_here w t e))"
      by (simp add: capture_cpu_def Let_def split: option.split)
    then show thesis using left pinned by blast
  qed
  then show ?thesis
  proof cases
    case pinned
    have e: "cc_leaves e = []" "\<forall>n. bit (cc_flags e) n \<longrightarrow> n = 6" "cc_id e = ct_id t" "cc_group e = ucast (ct_group t)" "cc_index e = ucast (ct_index t)"
      using pinned(1) by (auto simp: capture_pin_def blank_cpu_def bit_or_iff split: if_splits)
    note here = capture_here_for [OF e(1,2), where w = w and t = t]
    show ?thesis using here e
      by (auto simp: pinned(2) capture_restore_def Let_def cpu_for_def bit_or_iff)
  qed (use blank in auto)
qed

lemma capture_all_for:
  "capture_all w ts offset m = Inr cs \<Longrightarrow> list_all2 cpu_for ts cs"
  by (induction w ts offset m arbitrary: cs rule: capture_all.induct)
    (auto simp: Let_def capture_for map_sum_def split: if_splits sum.splits)

text \<open>The buffer has room for every target: the second exit is never taken.\<close>

lemma capture_all_fits:
  "offset + 2352 * length ts \<le> 32 + 2352 * CPUID_CPUS \<Longrightarrow> capture_all w ts offset m \<noteq> Inl 4"
proof (induction w ts offset m rule: capture_all.induct)
  case (2 w t ts offset m)
  have "length (cc_leaves (capture_cpu w t (Suc m))) \<le> CPUID_LEAVES" using capture_for [of t w "Suc m"] by (simp add: cpu_for_def)
  then show ?case using 2 by (auto simp: Let_def map_sum_def split: sum.splits)
qed simp

lemma write_packet_whole: "write_packet ans bs = Some (e, out) \<Longrightarrow> e \<in> {0, 5} \<and> (e = 0 \<longrightarrow> out = bs)"
proof (induction ans bs arbitrary: out rule: write_packet.induct)
  case (3 alive amount ans b bs)
  then show ?case
    by (cases amount) (fastforce simp: Let_def simp del: take_Suc_Cons drop_Suc_Cons split: if_splits)+
qed auto

text \<open>
  C39. Run with the command line the host builds for its targets, the helper never refuses
  its arguments and never runs out of buffer, and when it exits with zero what it wrote is a
  packet that the host's check accepts for exactly these targets.
\<close>

theorem helper_answer_accepted:
  assumes "cpuid_helper w allocated ans (helper_arguments path guard ts) = Some (e, out)"
    and "wc_bits w \<in> {32, 64}" and "0 < guard" and "guard < 2 ^ 32"
    and "ts \<noteq> []" and "length ts \<le> CPUID_CPUS" and "targets_ok [] ts"
  shows "e \<in> {0, 3, 4, 5} \<and> (e = 4 \<longrightarrow> \<not> allocated) \<and> (e = 0 \<longrightarrow> valid_packet (word_of_nat (wc_bits w)) ts out)"
proof -
  let ?bits = "word_of_nat (wc_bits w) :: u32"
  have guard: "parse_guard (wc_bits w) (hex_number guard) = Some guard"
    using assms(2-4) by (intro parse_guard_number) auto
  note targets = parse_targets_text [OF assms(5-7)]
  have fits: "capture_all w ts 32 1 \<noteq> Inl 4" by (rule capture_all_fits) (use assms(6) in simp)
  have exits: "capture_all w ts 32 1 = Inl x \<Longrightarrow> x = 3 \<or> x = 4" for x
  proof -
    have "capture_all w ts offset m = Inl x \<Longrightarrow> x = 3 \<or> x = 4" for offset m
      by (induction w ts offset m rule: capture_all.induct) (auto simp: Let_def map_sum_def split: if_splits sum.splits)
    then show "capture_all w ts 32 1 = Inl x \<Longrightarrow> x = 3 \<or> x = 4" .
  qed
  have accepted: "valid_packet ?bits ts (cpuid_packet CPUID_VERSION ?bits cs)" if "capture_all w ts 32 1 = Inr cs" for cs
    using capture_all_for [OF that] assms(6) by (intro packet_accepted) (simp_all add: list_all2_lengthD)
  show ?thesis
    using assms(1) exits fits accepted
    by (auto dest!: write_packet_whole simp: cpuid_helper_def helper_arguments_def guard targets split: if_splits sum.splits)
qed

definition sample_windows_cpu :: windows_cpu where
  "sample_windows_cpu = \<lparr>wc_bits = 64, wc_group_api = True, wc_set_group = \<lambda>m. True, wc_set_mask = \<lambda>m. 1,
     wc_ex_api = True, wc_ex = \<lambda>m. (0, 1), wc_current_api = True, wc_current = \<lambda>m. 1, wc_xmm = True, wc_sse2 = False,
     wc_machine = \<lparr>mc_alive = \<lambda>_. True, mc_max = \<lambda>_. (0, 0), mc_cpuid = \<lambda>_ _ _. (0, 0, 0, 0), mc_xgetbv = \<lambda>_. (0, 0)\<rparr>\<rparr>"


definition sample_target :: cpuid_target where
  "sample_target = \<lparr>ct_id = 1, ct_group = 0, ct_index = 1\<rparr>"

definition sample_captured :: cpuid_cpu where
  "sample_captured = (blank_cpu 1 0 1 6)\<lparr>cc_status := STATUS_UNSUPPORTED, cc_flags := 0x5a\<rparr>"

lemma sample_capture: "capture_cpu sample_windows_cpu sample_target 2 = sample_captured"
  by (simp add: capture_cpu_def sample_windows_cpu_def sample_target_def sample_captured_def blank_cpu_def capture_pin_def
      capture_here_def capture_restore_def on_target_def Let_def provided_def snapshot_unsupported tick_def raise_flag_def)

lemma helper_answer_accepted_witness:
  "\<exists>out. cpuid_helper sample_windows_cpu True [(True, Some 40), (True, Some 60)] (helper_arguments ''wtc.tmp'' 0x1a8 [sample_target]) = Some (0, out)
    \<and> valid_packet 64 [sample_target] out"
proof -
  let ?run = "cpuid_helper sample_windows_cpu True [(True, Some 40), (True, Some 60)] (helper_arguments ''wtc.tmp'' 0x1a8 [sample_target])"
  have targets: "targets_ok [] [sample_target]" by (simp add: sample_target_def)
  have "capture_all sample_windows_cpu [sample_target] 32 (Suc 0) = Inr [sample_captured]"
    by (simp add: sample_capture [unfolded numeral_2_eq_2] Let_def) (simp add: sample_windows_cpu_def)
  moreover have "parse_guard 64 (hex_number 0x1a8) = Some 0x1a8" by (rule parse_guard_number) simp_all
  moreover have "parse_targets (targets_text [sample_target]) = Some [sample_target]"
    by (rule parse_targets_text) (use targets in simp_all)
  moreover have "map_option fst (write_packet [(True, Some 40), (True, Some 60)] (cpuid_packet CPUID_VERSION 64 [sample_captured])) = Some 0"
    by code_simp
  ultimately have "map_option fst ?run = Some 0"
    by (simp add: cpuid_helper_def helper_arguments_def) (simp add: sample_windows_cpu_def)
  then obtain out where out: "?run = Some (0, out)" by (cases ?run) auto
  show ?thesis using helper_answer_accepted [OF out] out targets
    by (simp add: sample_windows_cpu_def)
qed

end
