(* ===== verification/CpuidSession.thy ===== *)
theory CpuidSession imports CpuidHelper begin

text \<open>
  The host's side of CPUID on Windows, \<^verbatim>\<open>native/wtop_windows_cpuid.c\<close>: the targets and the
  fingerprint of the roster that a query is for, the worker thread that runs the helper and
  collects its packet, and the jobs that the Lua states and their workers share.
\<close>

section \<open>The query\<close>

text \<open>The 64-bit FNV fingerprint, over the bytes as a 32-bit host stores them.\<close>

definition fingerprint :: "u64 \<Rightarrow> byte list \<Rightarrow> u64" where
  "fingerprint hash bytes = fold (\<lambda>b h. (h XOR ucast b) * 1099511628211) bytes hash"

definition lua_type :: "lua \<Rightarrow> u32" where
  "lua_type v = (case v of LNil \<Rightarrow> 0 | LBool b \<Rightarrow> 1 | LInt i \<Rightarrow> 3 | LNum d \<Rightarrow> 3 | LStr s \<Rightarrow> 4 | LTab t \<Rightarrow> 5)"

definition roster_value :: "(lua \<Rightarrow> int option) \<Rightarrow> lua \<Rightarrow> u64 \<Rightarrow> (lua_return + u64)" where
  "roster_value to_integer v hash =
     (let hash = fingerprint hash (put_le 4 (lua_type v)); bad = Raises ''invalid CPUID roster metadata'';
          number = (case to_integer v of None \<Rightarrow> Inl (Raises ''number has no integer representation'')
            | Some i \<Rightarrow> Inr (fingerprint hash (put_le 8 (word_of_int i :: u64)))) in
      case v of
        LStr s \<Rightarrow> if 128 < length s then Inl bad
          else Inr (fingerprint (fingerprint hash (put_le 4 (word_of_nat (length s) :: u32))) (bytes_of s))
      | LInt i \<Rightarrow> number
      | LNum d \<Rightarrow> number
      | LBool b \<Rightarrow> Inr (fingerprint hash (put_le 4 (if b then 1 else 0 :: u32)))
      | LNil \<Rightarrow> Inr hash
      | LTab t \<Rightarrow> Inl bad)"

abbreviation (input) roster_fields :: "string list" where
  "roster_fields \<equiv> [''cpu_set_id'', ''core_id'', ''core_key'', ''package_id'', ''core_id_known'',
     ''package_id_known'', ''efficiency_class'', ''source'', ''core_source'', ''package_source'']"

fun target_roster :: "(lua \<Rightarrow> int option) \<Rightarrow> lua \<Rightarrow> string list \<Rightarrow> u64 \<Rightarrow> (lua_return + u64)" where
  "target_roster to_integer row [] hash = Inr hash"
| "target_roster to_integer row (k # ks) hash =
     (case roster_value to_integer (field row k) hash of Inl r \<Rightarrow> Inl r
      | Inr hash \<Rightarrow> target_roster to_integer row ks hash)"

definition row_integer :: "(lua \<Rightarrow> int option) \<Rightarrow> lua \<Rightarrow> string \<Rightarrow> (lua_return + int)" where
  "row_integer to_integer row k = (case to_integer (field row k) of None \<Rightarrow> Inl (Raises ''number expected'') | Some i \<Rightarrow> Inr i)"

definition row_target :: "(lua \<Rightarrow> int option) \<Rightarrow> lua \<Rightarrow> (lua_return + int \<times> int \<times> int)" where
  "row_target to_integer row =
     (case row_integer to_integer row ''id'' of Inl r \<Rightarrow> Inl r | Inr ident \<Rightarrow>
      (case row_integer to_integer row ''processor_group'' of Inl r \<Rightarrow> Inl r | Inr grp \<Rightarrow>
       (case row_integer to_integer row ''logical_processor_index'' of Inl r \<Rightarrow> Inl r | Inr index \<Rightarrow>
          Inr (ident, grp, index))))"

fun collect_targets :: "(lua \<Rightarrow> int option) \<Rightarrow> cpuid_target list \<Rightarrow> u64 \<Rightarrow> lua list \<Rightarrow> (lua_return + cpuid_target list \<times> u64)" where
  "collect_targets to_integer seen hash [] = Inr (rev seen, hash)"
| "collect_targets to_integer seen hash (row # rows) =
     (case row of
        LTab t \<Rightarrow>
          (case target_roster to_integer row roster_fields hash of Inl r \<Rightarrow> Inl r | Inr hash \<Rightarrow>
           (case row_target to_integer row of Inl r \<Rightarrow> Inl r | Inr (ident, grp, index) \<Rightarrow>
              if grp < 0 \<or> 64 \<le> grp \<or> index < 0 \<or> 64 \<le> index \<or> ident \<noteq> grp * 64 + index
              then Inl (Raises ''invalid CPUID target identity'')
              else if word_of_int ident \<in> ct_id ` set seen then Inl (Raises ''duplicate CPUID target identity'')
              else collect_targets to_integer
                (\<lparr>ct_id = word_of_int ident, ct_group = word_of_int grp, ct_index = word_of_int index\<rparr> # seen) hash rows))
      | _ \<Rightarrow> Inl (Bad_argument 1 ''table expected''))"

text \<open>The targets that pass the host's checks pass the helper's, too.\<close>

lemma targets_ok_snoc:
  "targets_ok seen (ts @ [t]) \<longleftrightarrow> targets_ok seen ts \<and> ct_group t < 64 \<and> ct_index t < 64
     \<and> ct_id t = ucast (ct_group t) * 64 + ucast (ct_index t) \<and> ct_id t \<notin> set seen \<and> ct_id t \<notin> ct_id ` set ts"
  by (induction seen ts rule: targets_ok.induct) auto

lemma row_target_words:
  assumes "0 \<le> grp" "grp < 64" "0 \<le> index" "index < 64"
  shows "(word_of_int grp :: u16) < 64" "(word_of_int index :: u16) < 64"
    "(word_of_int (grp * 64 + index) :: u32) = ucast (word_of_int grp :: u16) * 64 + ucast (word_of_int index :: u16)"
proof -
  show "(word_of_int grp :: u16) < 64" "(word_of_int index :: u16) < 64"
    using assms by (simp_all add: word_less_def uint_word_of_int_eq take_bit_int_eq_self)
  show "(word_of_int (grp * 64 + index) :: u32) = ucast (word_of_int grp :: u16) * 64 + ucast (word_of_int index :: u16)"
    using assms by (simp add: unsigned_of_int take_bit_int_eq_self)
qed

lemma collect_targets_ok:
  "collect_targets to_integer seen hash rows = Inr (ts, hash') \<Longrightarrow> targets_ok [] (rev seen) \<Longrightarrow>
    targets_ok [] ts \<and> length ts = length seen + length rows"
proof (induction rows arbitrary: seen hash)
  case (Cons row rows)
  obtain t hash1 grp index where row: "row = LTab t"
    and "row_target to_integer row = Inr (grp * 64 + index, grp, index)"
    and range: "0 \<le> grp" "grp < 64" "0 \<le> index" "index < 64" and fresh: "word_of_int (grp * 64 + index) \<notin> ct_id ` set seen"
    and rest: "collect_targets to_integer
      (\<lparr>ct_id = word_of_int (grp * 64 + index), ct_group = word_of_int grp, ct_index = word_of_int index\<rparr> # seen) hash1 rows = Inr (ts, hash')"
    using Cons.prems(1) by (auto simp del: target_roster.simps of_int_add of_int_mult split: lua.splits sum.splits if_splits prod.splits)
  show ?case using Cons.IH [OF rest] Cons.prems(2) fresh row_target_words [OF range]
    by (simp add: targets_ok_snoc del: of_int_add of_int_mult)
qed auto

section \<open>The worker\<close>

text \<open>The answers of the system to one run of \<open>cpuid_worker\<close>, the last ones turn by turn.\<close>

record poll_turn =
  pt_running :: bool
  pt_peek :: "nat answer"
  pt_read :: "byte list option"
  pt_exited :: bool
  pt_code :: "nat option"

record worker_run =
  wr_temp_name :: bool
  wr_create_file :: bool
  wr_write :: bool
  wr_pipe :: bool
  wr_no_inherit :: bool
  wr_guard :: bool
  wr_command :: bool
  wr_printed :: bool
  wr_running :: bool
  wr_spawned :: bool
  wr_buffer :: bool
  wr_turns :: "poll_turn list"
  wr_still_running :: bool
  wr_error :: u32

abbreviation (input) ERROR_BROKEN_PIPE :: int where "ERROR_BROKEN_PIPE \<equiv> 109"

definition cpuid_failed :: string where "cpuid_failed = ''cpuid_helper_failed''"
definition cpuid_timeout :: string where "cpuid_timeout = ''cpuid_probe_timeout''"
definition cpuid_invalid :: string where "cpuid_invalid = ''cpuid_invalid_response''"
definition cpuid_memory :: string where "cpuid_memory = ''cpuid_allocation_failed''"

text \<open>The reading loop: the reason, \<open>None\<close> for success, and the data. Without a turn left it has not ended.\<close>

fun worker_loop :: "u32 \<Rightarrow> cpuid_target list \<Rightarrow> poll_turn list \<Rightarrow> byte list \<Rightarrow> (string option \<times> byte list) option" where
  "worker_loop bits targets [] data = None"
| "worker_loop bits targets (p # ps) data =
     (if \<not> pt_running p then Some (Some cpuid_timeout, data)
      else let ended = (if pt_code p = Some 0 \<and> valid_packet bits targets data then None else Some cpuid_invalid) in
        case pt_peek p of
          Got n \<Rightarrow>
            if 0 < n
            then if CPUID_BYTES - length data < n then Some (Some cpuid_invalid, data)
              else case pt_read p of None \<Rightarrow> Some (Some cpuid_failed, data)
              | Some bs \<Rightarrow> if take n bs = [] then Some (Some cpuid_failed, data)
                  else worker_loop bits targets ps (data @ take n bs)
            else if pt_exited p then Some (ended, data)
            else worker_loop bits targets ps data
        | Failed e \<Rightarrow>
            if pt_exited p then Some (ended, data)
            else if e = ERROR_BROKEN_PIPE then worker_loop bits targets ps data
            else Some (Some cpuid_failed, data))"

text \<open>
  The stages up to the loop: each opens what it opens and goes on or gives the reason. The
  trace names the handles, the temporary file and the child by what they are.
\<close>

fun stages :: "(bool \<times> string \<times> fd_event list) list \<Rightarrow> string option \<times> fd_event list" where
  "stages [] = (None, [])"
| "stages ((ok, reason, es) # ss) =
     (if ok then (case stages ss of (r, fs) \<Rightarrow> (r, es @ fs)) else (Some reason, []))"

definition worker_stages :: "worker_run \<Rightarrow> (bool \<times> string \<times> fd_event list) list" where
  "worker_stages w =
     [(wr_temp_name w, cpuid_failed, [Opens ''path'']),
      (wr_create_file w, cpuid_failed, [Opens ''file'']),
      (wr_write w, cpuid_failed, [Closes ''file'']),
      (wr_pipe w, cpuid_failed, [Opens ''reader'', Opens ''writer'']),
      (wr_no_inherit w, cpuid_failed, []),
      (wr_guard w, cpuid_failed, [Opens ''guard'']),
      (wr_command w, cpuid_memory, [Opens ''command'']),
      (wr_printed w, cpuid_failed, []),
      (wr_running w, cpuid_timeout, []),
      (wr_spawned w, cpuid_failed, [Opens ''process'', Opens ''thread'', Closes ''thread'', Closes ''writer'', Closes ''guard'', Closes ''command'']),
      (wr_buffer w, cpuid_memory, [])]"

text \<open>What the end of the worker closes: whatever it still holds, the child ended first.\<close>

definition worker_finish :: "string list \<Rightarrow> fd_event list" where
  "worker_finish opened =
     concat (map (\<lambda>n. if n \<in> set opened then [Closes n] else [])
       [''process'', ''thread'', ''reader'', ''writer'', ''guard'', ''file'', ''path'', ''command''])"

definition terminates_child :: "worker_run \<Rightarrow> string list \<Rightarrow> bool" where
  "terminates_child w opened \<longleftrightarrow> ''process'' \<in> set opened \<and> wr_still_running w"

definition reason_error :: "u32 \<Rightarrow> string option \<Rightarrow> u32" where
  "reason_error error reason =
     (case reason of None \<Rightarrow> 0
      | Some r \<Rightarrow> if r = cpuid_timeout then 1460 else if r = cpuid_invalid then 13 else if r = cpuid_memory then 8 else error)"

definition cpuid_worker :: "u32 \<Rightarrow> cpuid_target list \<Rightarrow> worker_run \<Rightarrow> (string option \<times> byte list \<times> u32 \<times> bool \<times> fd_event list) option" where
  "cpuid_worker bits targets w =
     (case stages (worker_stages w) of (reason, es) \<Rightarrow>
      let finish = (\<lambda>reason data. (reason, data, reason_error (wr_error w) reason, terminates_child w (held es), es @ worker_finish (held es))) in
      case reason of Some r \<Rightarrow> Some (finish (Some r) [])
      | None \<Rightarrow> map_option (\<lambda>(reason, data). finish reason data) (worker_loop bits targets (wr_turns w) []))"

text \<open>
  The end of the child is asked for after the pipe, and taken as the end of its output: what
  arrives between the two questions is never read, and a good packet counts as invalid.
\<close>

lemma exit_hides_output:
  "worker_loop bits targets (\<lparr>pt_running = True, pt_peek = Got 0, pt_read = Some packet, pt_exited = True, pt_code = Some 0\<rparr> # ps) []
    = Some (Some cpuid_invalid, [])"
  by (simp add: valid_packet_def)

lemma worker_loop_valid:
  "worker_loop bits targets ps data = Some (None, out) \<Longrightarrow> valid_packet bits targets out"
  by (induction bits targets ps data rule: worker_loop.induct)
    (auto simp: Let_def split: if_splits answer.splits option.splits)

lemma worker_loop_bounded:
  "worker_loop bits targets ps data = Some (r, out) \<Longrightarrow> length data \<le> CPUID_BYTES \<Longrightarrow> length out \<le> CPUID_BYTES"
proof (induction bits targets ps data rule: worker_loop.induct)
  case (2 bits targets p ps data)
  show ?case
  proof (cases "pt_running p")
    case True
    show ?thesis
    proof (cases "pt_peek p")
      case (Got n)
      consider "out = data" | "worker_loop bits targets ps data = Some (r, out)" "\<not> 0 < n" "\<not> pt_exited p"
        | bs where "worker_loop bits targets ps (data @ take n bs) = Some (r, out)" "0 < n" "\<not> CPUID_BYTES - length data < n"
            "pt_read p = Some bs" "take n bs \<noteq> []"
        using "2.prems"(1) True Got by (simp add: Let_def split: if_splits option.splits)
      then show ?thesis
      proof cases
        case 2
        then show ?thesis using "2.IH"(2) [OF _ refl Got] True "2.prems"(2) by simp
      next
        case (3 bs)
        have "length (data @ take n bs) \<le> CPUID_BYTES"
          using 3(3) "2.prems"(2) by (simp only: length_append length_take)
        then show ?thesis using "2.IH"(1) [OF _ refl Got] 3 True by simp
      qed (use "2.prems" in simp)
    next
      case (Failed e)
      then show ?thesis using "2.prems" "2.IH"(3) True by (auto simp: Let_def split: if_splits)
    qed
  qed (use 2 in simp)
qed simp

lemma stages_held:
  "stages (worker_stages w) = (r, es) \<Longrightarrow>
    held es \<in> set [[], [''path''], [''file'', ''path''], [''writer'', ''reader'', ''path''], [''guard'', ''writer'', ''reader'', ''path''],
      [''command'', ''guard'', ''writer'', ''reader'', ''path''], [''process'', ''reader'', ''path'']]"
  by (auto simp: worker_stages_def split: if_splits)

lemma worker_closes:
  assumes "stages (worker_stages w) = (r, es)"
  shows "held (es @ worker_finish (held es)) = []"
proof -
  have "\<forall>h \<in> set [[], [''path''], [''file'', ''path''], [''writer'', ''reader'', ''path''], [''guard'', ''writer'', ''reader'', ''path''],
      [''command'', ''guard'', ''writer'', ''reader'', ''path''], [''process'', ''reader'', ''path'']]. hold h (worker_finish h) = []"
    by code_simp
  then show ?thesis using stages_held [OF assms] by (simp only: hold_append)
qed

text \<open>
  However the system answers, the worker closes every handle, frees its command and
  deletes its temporary file on every path; it succeeds exactly with a packet that the check
  accepts for its job, and never takes more than two mebibytes.
\<close>

theorem worker_cleans_up:
  assumes "cpuid_worker bits targets w = Some (reason, data, error, killed, es)"
  shows "held es = [] \<and> length data \<le> CPUID_BYTES \<and> (reason = None \<longrightarrow> valid_packet bits targets data \<and> error = 0)"
proof -
  obtain r fs where st: "stages (worker_stages w) = (r, fs)" by fastforce
  show ?thesis
    using assms st worker_closes [OF st] worker_loop_valid worker_loop_bounded
    by (auto simp: cpuid_worker_def reason_error_def Let_def split: option.splits)
qed

definition sample_packet :: "byte list" where
  "sample_packet = cpuid_packet CPUID_VERSION 64 [sample_captured]"

definition sample_worker_run :: worker_run where
  "sample_worker_run = \<lparr>wr_temp_name = True, wr_create_file = True, wr_write = True, wr_pipe = True, wr_no_inherit = True,
     wr_guard = True, wr_command = True, wr_printed = True, wr_running = True, wr_spawned = True, wr_buffer = True,
     wr_turns = [\<lparr>pt_running = True, pt_peek = Got 0, pt_read = None, pt_exited = False, pt_code = None\<rparr>,
       \<lparr>pt_running = True, pt_peek = Got 200, pt_read = Some sample_packet, pt_exited = False, pt_code = None\<rparr>,
       \<lparr>pt_running = True, pt_peek = Failed ERROR_BROKEN_PIPE, pt_read = None, pt_exited = True, pt_code = Some 0\<rparr>],
     wr_still_running = False, wr_error = 0\<rparr>"

lemma sample_packet_valid: "valid_packet 64 [sample_target] sample_packet"
  unfolding sample_packet_def
  by (rule packet_accepted) (use capture_for [of sample_target sample_windows_cpu 2] in \<open>simp_all add: sample_capture\<close>)

lemma sample_packet_length: "length sample_packet = 80"
  by (simp add: sample_packet_def cpuid_packet_def Let_def length_encode_cpu) (simp add: sample_captured_def blank_cpu_def)

lemma sample_worker_result:
  "\<exists>killed es. cpuid_worker 64 [sample_target] sample_worker_run = Some (None, sample_packet, 0, killed, es)"
proof -
  have "sample_packet \<noteq> []" using sample_packet_length by auto
  then show ?thesis
    by (simp add: cpuid_worker_def worker_stages_def sample_worker_run_def sample_packet_length sample_packet_valid reason_error_def Let_def)
qed

lemma worker_cleans_up_witness:
  "\<exists>killed es. cpuid_worker 64 [sample_target] sample_worker_run = Some (None, sample_packet, 0, killed, es)
    \<and> held es = [] \<and> valid_packet 64 [sample_target] sample_packet"
proof -
  obtain killed es where run: "cpuid_worker 64 [sample_target] sample_worker_run = Some (None, sample_packet, 0, killed, es)"
    using sample_worker_result by blast
  show ?thesis using worker_cleans_up [OF run] run by simp
qed

section \<open>Jobs\<close>

text \<open>
  Where a worker is: running, its result published, its place among the two workers given
  back, its reference given back. The three steps at its end are three moments, between
  which the Lua threads run.
\<close>

datatype worker_phase = Working | Published | Discounted | Departed

record cpuid_job =
  jb_refs :: nat
  jb_done :: bool
  jb_cancelled :: bool
  jb_targets :: "cpuid_target list"
  jb_bits :: u32
  jb_roster :: u64
  jb_started :: u32
  jb_finished :: u32
  jb_error :: u32
  jb_data :: "byte list"
  jb_reason :: "string option"

text \<open>
  The jobs by number, \<open>None\<close> for one that was freed; the phase of each one's worker; the job
  of each Lua state; the shared count of workers; and whether freed memory was ever used.
\<close>

record cpuid_state =
  cs_jobs :: "cpuid_job option list"
  cs_phases :: "worker_phase list"
  cs_contexts :: "nat option list"
  cs_workers :: nat
  cs_fault :: bool

definition job_of :: "nat \<Rightarrow> cpuid_state \<Rightarrow> cpuid_job option" where
  "job_of j st = (if j < length (cs_jobs st) then cs_jobs st ! j else None)"

definition change_job :: "nat \<Rightarrow> (cpuid_job \<Rightarrow> cpuid_job option) \<Rightarrow> cpuid_state \<Rightarrow> cpuid_state" where
  "change_job j f st =
     (case job_of j st of None \<Rightarrow> st\<lparr>cs_fault := True\<rparr>
      | Some job \<Rightarrow> st\<lparr>cs_jobs := (cs_jobs st)[j := f job]\<rparr>)"

definition cpuid_release :: "nat \<Rightarrow> cpuid_state \<Rightarrow> cpuid_state" where
  "cpuid_release j = change_job j (\<lambda>job. if jb_refs job = 1 then None else Some (job\<lparr>jb_refs := jb_refs job - 1\<rparr>))"

definition cancel_job :: "nat \<Rightarrow> cpuid_state \<Rightarrow> cpuid_state" where
  "cancel_job j = change_job j (\<lambda>job. Some (job\<lparr>jb_cancelled := True\<rparr>))"

definition set_phase :: "nat \<Rightarrow> worker_phase \<Rightarrow> cpuid_state \<Rightarrow> cpuid_state" where
  "set_phase j p st = st\<lparr>cs_phases := (cs_phases st)[j := p]\<rparr>"

text \<open>A step of a worker: its whole run and publication, or one of the two steps that follow.\<close>

datatype worker_event = Publish nat worker_run u32 | Discount nat | Depart nat

definition phase_of :: "nat \<Rightarrow> cpuid_state \<Rightarrow> worker_phase" where
  "phase_of j st = (if j < length (cs_phases st) then cs_phases st ! j else Departed)"

fun worker_step :: "worker_event \<Rightarrow> cpuid_state \<Rightarrow> cpuid_state" where
  "worker_step (Publish j w now) st =
     (if phase_of j st \<noteq> Working then st
      else case job_of j st of None \<Rightarrow> st\<lparr>cs_fault := True\<rparr>
      | Some job \<Rightarrow> (case cpuid_worker (jb_bits job) (jb_targets job) w of None \<Rightarrow> st
        | Some (reason, data, error, killed, es) \<Rightarrow>
            set_phase j Published (change_job j (\<lambda>job. Some (job\<lparr>jb_done := True, jb_finished := now, jb_error := error,
              jb_data := data, jb_reason := reason\<rparr>)) st)))"
| "worker_step (Discount j) st =
     (if phase_of j st \<noteq> Published then st
      else set_phase j Discounted (st\<lparr>cs_workers := cs_workers st - 1\<rparr>))"
| "worker_step (Depart j) st =
     (if phase_of j st \<noteq> Discounted then st else set_phase j Departed (cpuid_release j st))"

definition interleave :: "worker_event list \<Rightarrow> cpuid_state \<Rightarrow> cpuid_state" where
  "interleave es st = fold worker_step es st"

text \<open>The Lua side: closing a state, and one query with what the workers do in between.\<close>

definition set_context :: "nat \<Rightarrow> nat option \<Rightarrow> cpuid_state \<Rightarrow> cpuid_state" where
  "set_context vm c st = st\<lparr>cs_contexts := (cs_contexts st)[vm := c]\<rparr>"

definition context_of :: "nat \<Rightarrow> cpuid_state \<Rightarrow> nat option" where
  "context_of vm st = (if vm < length (cs_contexts st) then cs_contexts st ! vm else None)"

definition close_context :: "nat \<Rightarrow> cpuid_state \<Rightarrow> cpuid_state" where
  "close_context vm st =
     (case context_of vm st of None \<Rightarrow> st | Some j \<Rightarrow> set_context vm None (cpuid_release j (cancel_job j st)))"

record cpuid_query =
  cq_targets :: "cpuid_target list"
  cq_roster :: u64
  cq_bits :: u32
  cq_module :: bool
  cq_alloc :: bool
  cq_thread :: bool
  cq_now :: u32
  cq_start :: u32
  cq_later :: u32
  cq_between :: "nat \<Rightarrow> worker_event list"

definition same_targets :: "cpuid_query \<Rightarrow> cpuid_job \<Rightarrow> bool" where
  "same_targets q job \<longleftrightarrow> length (jb_targets job) = length (cq_targets q) \<and> jb_bits job = cq_bits q
     \<and> jb_roster job = cq_roster q \<and> jb_targets job = cq_targets q"

abbreviation (input) CPUID_CACHE_MS :: u32 where "CPUID_CACHE_MS \<equiv> 60000"
abbreviation (input) CPUID_RETRY_MS :: u32 where "CPUID_RETRY_MS \<equiv> 5000"
abbreviation (input) CPUID_DEADLINE_MS :: u32 where "CPUID_DEADLINE_MS \<equiv> 3500"

definition cpuid_expired :: "u32 \<Rightarrow> cpuid_job \<Rightarrow> bool" where
  "cpuid_expired now job \<longleftrightarrow> jb_done job
     \<and> (if jb_reason job = None then CPUID_CACHE_MS else CPUID_RETRY_MS) \<le> now - jb_finished job"

definition keep_running :: "u32 \<Rightarrow> cpuid_job \<Rightarrow> bool" where
  "keep_running now job \<longleftrightarrow> \<not> jb_cancelled job \<and> now - jb_started job < CPUID_DEADLINE_MS"

definition job_report :: "cpuid_query \<Rightarrow> cpuid_job \<Rightarrow> lua" where
  "job_report q job =
     (let base = [(''source'', LStr (if cq_bits q = 64 then ''native-x64 CPUID worker'' else ''native-x86 CPUID worker'')),
            (''architecture_bits'', LInt (uint (cq_bits q)))] in
      mk_tab (base @
        (if \<not> same_targets q job then [(''status'', LStr ''gap''), (''reason'', LStr ''cpuid_roster_changed'')]
         else if \<not> jb_done job then
           (if CPUID_DEADLINE_MS \<le> cq_later q - jb_started job
            then [(''status'', LStr ''error''), (''reason'', LStr cpuid_timeout), (''error_code'', LInt 1460)]
            else [(''status'', LStr ''pending''), (''reason'', LStr ''cpuid_probe_pending'')])
         else case jb_reason job of
           Some r \<Rightarrow> [(''status'', LStr ''error''), (''reason'', LStr r), (''error_code'', LInt (uint (jb_error job)))]
         | None \<Rightarrow> [(''status'', LStr ''ok''), (''raw'', LStr (text_of (jb_data job))),
             (''age_ms'', LInt (uint (cq_later q - jb_finished job)))])))"

definition report_job :: "nat \<Rightarrow> cpuid_query \<Rightarrow> cpuid_state \<Rightarrow> lua_return \<times> cpuid_state" where
  "report_job j q st =
     (let st = interleave (cq_between q 3) st in
      case job_of j st of None \<Rightarrow> (cpuid_failure [], st\<lparr>cs_fault := True\<rparr>)
      | Some job \<Rightarrow> (Returns [job_report q job], st))"

definition new_cpuid_job :: "cpuid_query \<Rightarrow> cpuid_job" where
  "new_cpuid_job q = \<lparr>jb_refs = 2, jb_done = False, jb_cancelled = False, jb_targets = cq_targets q, jb_bits = cq_bits q,
     jb_roster = cq_roster q, jb_started = cq_start q, jb_finished = 0, jb_error = 0, jb_data = [], jb_reason = None\<rparr>"

definition start_job :: "nat \<Rightarrow> cpuid_query \<Rightarrow> cpuid_state \<Rightarrow> lua_return \<times> cpuid_state" where
  "start_job vm q st =
     (if \<not> cq_module q then (cpuid_failure cpuid_failed, st)
      else if 2 < Suc (cs_workers st) then (cpuid_failure ''cpuid_probe_busy'', st)
      else if \<not> cq_alloc q then (cpuid_failure cpuid_memory, st)
      else if \<not> cq_thread q then (cpuid_failure cpuid_failed, st)
      else let j = length (cs_jobs st);
          st = set_context vm (Some j) (st\<lparr>cs_jobs := cs_jobs st @ [Some (new_cpuid_job q)],
            cs_phases := cs_phases st @ [Working], cs_workers := Suc (cs_workers st)\<rparr>) in
        report_job j q (interleave (cq_between q 2) st))"

definition collect_cpuid :: "nat \<Rightarrow> cpuid_query \<Rightarrow> cpuid_state \<Rightarrow> lua_return \<times> cpuid_state" where
  "collect_cpuid vm q st =
     (if cq_bits q = 0 then (cpuid_failure ''cpuid_unsupported_architecture'', st)
      else case context_of vm st of None \<Rightarrow> start_job vm q st
      | Some j \<Rightarrow> (case job_of j st of None \<Rightarrow> (cpuid_failure [], st\<lparr>cs_fault := True\<rparr>)
        | Some job \<Rightarrow>
            if same_targets q job \<and> \<not> cpuid_expired (cq_now q) job then report_job j q st
            else let st = interleave (cq_between q 0) st;
                finished = (\<lambda>st. case job_of j st of None \<Rightarrow> False | Some job \<Rightarrow> jb_done job);
                st = interleave (cq_between q 1) (if finished st then st else cancel_job j st) in
              if finished st then start_job vm q (set_context vm None (cpuid_release j st))
              else report_job j q st))"

text \<open>The whole of \<open>wtop_collect_cpuid\<close>, from the rows of the roster.\<close>

definition collect_rows :: "(lua \<Rightarrow> int option) \<Rightarrow> lua list \<Rightarrow> nat \<Rightarrow> cpuid_query \<Rightarrow> cpuid_state \<Rightarrow> lua_return \<times> cpuid_state" where
  "collect_rows to_integer rows vm q st =
     (if rows = [] \<or> CPUID_CPUS < length rows then (cpuid_failure ''cpuid_invalid_targets'', st)
      else case collect_targets to_integer [] 14695981039346656037 rows of Inl r \<Rightarrow> (r, st)
      | Inr (targets, roster) \<Rightarrow> collect_cpuid vm (q\<lparr>cq_targets := targets, cq_roster := roster\<rparr>) st)"

text \<open>Every query that gets past its arguments is one of \<open>collect_cpuid\<close>, for targets the helper takes.\<close>

lemma collect_rows_query:
  "(\<exists>r. collect_rows to_integer rows vm q st = (r, st))
   \<or> (\<exists>targets roster. collect_rows to_integer rows vm q st = collect_cpuid vm (q\<lparr>cq_targets := targets, cq_roster := roster\<rparr>) st
        \<and> targets_ok [] targets \<and> targets \<noteq> [] \<and> length targets \<le> CPUID_CPUS)"
proof (cases "collect_targets to_integer [] 14695981039346656037 rows")
  case (Inr p)
  obtain targets roster where p: "p = (targets, roster)" by fastforce
  have "targets_ok [] targets \<and> length targets = length rows" using collect_targets_ok [OF Inr [unfolded p]] by simp
  then show ?thesis using Inr p by (auto simp: collect_rows_def)
qed (auto simp: collect_rows_def)

datatype cpuid_event = Collect nat cpuid_query | Close nat | Worker worker_event

fun cpuid_step :: "cpuid_event \<Rightarrow> cpuid_state \<Rightarrow> cpuid_state" where
  "cpuid_step (Collect vm q) st = (if vm < length (cs_contexts st) then snd (collect_cpuid vm q st) else st)"
| "cpuid_step (Close vm) st = close_context vm st"
| "cpuid_step (Worker e) st = worker_step e st"

definition no_cpuid_jobs :: "nat \<Rightarrow> cpuid_state" where
  "no_cpuid_jobs vms = \<lparr>cs_jobs = [], cs_phases = [], cs_contexts = replicate vms None, cs_workers = 0, cs_fault = False\<rparr>"

section \<open>Who holds a job\<close>

lemma worker_valid:
  assumes "cpuid_worker bits targets w = Some (reason, data, error, killed, es)" and "reason = None"
  shows "valid_packet bits targets data"
proof -
  obtain r fs where "stages (worker_stages w) = (r, fs)" by fastforce
  then show ?thesis using assms worker_loop_valid by (cases r) (auto simp: cpuid_worker_def Let_def)
qed

definition holders :: "cpuid_state \<Rightarrow> nat \<Rightarrow> nat" where
  "holders st j = count_list (cs_contexts st) (Some j) + (if phase_of j st = Departed then 0 else 1)"

definition working :: "worker_phase list \<Rightarrow> nat" where
  "working ps = length (filter (\<lambda>p. p = Working \<or> p = Published) ps)"

definition slot_ok :: "cpuid_state \<Rightarrow> nat \<Rightarrow> bool" where
  "slot_ok st j \<longleftrightarrow>
     (case job_of j st of None \<Rightarrow> holders st j = 0
      | Some job \<Rightarrow> jb_refs job = holders st j \<and> 0 < holders st j \<and> (jb_done job \<longleftrightarrow> phase_of j st \<noteq> Working)
          \<and> (jb_done job \<and> jb_reason job = None \<longrightarrow> valid_packet (jb_bits job) (jb_targets job) (jb_data job)))"

definition cpuid_inv :: "cpuid_state \<Rightarrow> bool" where
  "cpuid_inv st \<longleftrightarrow> \<not> cs_fault st \<and> length (cs_phases st) = length (cs_jobs st)
     \<and> cs_workers st = working (cs_phases st) \<and> cs_workers st \<le> 2 \<and> (\<forall>j. slot_ok st j)"

lemma count_list_update:
  "i < length xs \<Longrightarrow> count_list (xs[i := y]) z + of_bool (xs ! i = z) = count_list xs z + of_bool (y = z)"
proof (induction xs arbitrary: i)
  case (Cons x xs)
  then show ?case by (cases i) auto
qed simp

lemma working_update:
  "j < length ps \<Longrightarrow> working (ps[j := p]) + of_bool (ps ! j = Working \<or> ps ! j = Published)
     = working ps + of_bool (p = Working \<or> p = Published)"
proof (induction ps arbitrary: j)
  case (Cons q ps)
  then show ?case by (cases j) (auto simp: working_def)
qed simp

lemma job_of_change:
  "job_of j st = Some job \<Longrightarrow> job_of i (change_job j f st) = (if i = j then f job else job_of i st)"
  by (auto simp: job_of_def change_job_def split: if_splits)

lemma change_job_keeps:
  "job_of j st = Some job \<Longrightarrow> cs_phases (change_job j f st) = cs_phases st"
  "job_of j st = Some job \<Longrightarrow> cs_contexts (change_job j f st) = cs_contexts st"
  "job_of j st = Some job \<Longrightarrow> cs_workers (change_job j f st) = cs_workers st"
  "job_of j st = Some job \<Longrightarrow> cs_fault (change_job j f st) = cs_fault st"
  "job_of j st = Some job \<Longrightarrow> length (cs_jobs (change_job j f st)) = length (cs_jobs st)"
  "job_of j st = Some job \<Longrightarrow> phase_of i (change_job j f st) = phase_of i st"
  by (simp_all add: change_job_def phase_of_def)

lemma set_phase_keeps [simp]:
  "cs_jobs (set_phase j p st) = cs_jobs st" "cs_contexts (set_phase j p st) = cs_contexts st"
  "cs_workers (set_phase j p st) = cs_workers st" "cs_fault (set_phase j p st) = cs_fault st"
  "cs_phases (set_phase j p st) = (cs_phases st)[j := p]" "job_of i (set_phase j p st) = job_of i st"
  by (simp_all add: set_phase_def job_of_def)

lemma phase_of_set: "phase_of j st \<noteq> Departed \<Longrightarrow> phase_of i (set_phase j p st) = (if i = j then p else phase_of i st)"
  by (auto simp: phase_of_def set_phase_def split: if_splits)

lemma set_context_keeps [simp]:
  "cs_jobs (set_context vm c st) = cs_jobs st" "cs_phases (set_context vm c st) = cs_phases st"
  "cs_workers (set_context vm c st) = cs_workers st" "cs_fault (set_context vm c st) = cs_fault st"
  "cs_contexts (set_context vm c st) = (cs_contexts st)[vm := c]" "job_of i (set_context vm c st) = job_of i st"
  "phase_of i (set_context vm c st) = phase_of i st"
  by (simp_all add: set_context_def job_of_def phase_of_def)

lemma inv_held:
  assumes "cpuid_inv st" and "0 < holders st j"
  obtains job where "job_of j st = Some job" "jb_refs job = holders st j"
    "jb_done job \<longleftrightarrow> phase_of j st \<noteq> Working"
    "jb_done job \<Longrightarrow> jb_reason job = None \<Longrightarrow> valid_packet (jb_bits job) (jb_targets job) (jb_data job)"
proof -
  have "slot_ok st j" using assms(1) by (simp add: cpuid_inv_def)
  then show thesis using that assms(2) by (cases "job_of j st") (auto simp: slot_ok_def)
qed

text \<open>A job changed in place, with its holders as they were.\<close>

lemma inv_change:
  assumes "cpuid_inv st" and "job_of j st = Some job"
    and "jb_refs (g job) = jb_refs job" and "jb_done (g job) = jb_done job" and "jb_reason (g job) = jb_reason job"
    and "jb_bits (g job) = jb_bits job" and "jb_targets (g job) = jb_targets job" and "jb_data (g job) = jb_data job"
  shows "cpuid_inv (change_job j (\<lambda>job. Some (g job)) st)"
proof -
  note keep = change_job_keeps [OF assms(2)]
  have "slot_ok (change_job j (\<lambda>job. Some (g job)) st) i" for i
  proof -
    have "slot_ok st i" using assms(1) by (simp add: cpuid_inv_def)
    then show ?thesis using assms(2-) by (auto simp: slot_ok_def holders_def keep job_of_change [OF assms(2)] split: option.splits)
  qed
  then show ?thesis using assms(1) by (simp add: cpuid_inv_def keep)
qed

lemma publish_inv: "cpuid_inv st \<Longrightarrow> cpuid_inv (worker_step (Publish j w now) st)"
proof (cases "phase_of j st = Working")
  case True
  assume inv: "cpuid_inv st"
  have "0 < holders st j" using True by (simp add: holders_def)
  then obtain job where job: "job_of j st = Some job" "jb_refs job = holders st j"
    using inv_held [OF inv] by metis
  show ?thesis
  proof (cases "cpuid_worker (jb_bits job) (jb_targets job) w")
    case (Some r)
    obtain reason data error killed es where r: "r = (reason, data, error, killed, es)" by (cases r)
    let ?g = "\<lambda>job. Some (job\<lparr>jb_done := True, jb_finished := now, jb_error := error, jb_data := data, jb_reason := reason\<rparr>)"
    let ?st = "set_phase j Published (change_job j ?g st)"
    have step: "worker_step (Publish j w now) st = ?st" using True job(1) Some r by simp
    note keep = change_job_keeps [OF job(1)]
    have phase: "phase_of i ?st = (if i = j then Published else phase_of i st)" for i
      using True by (subst phase_of_set) (simp_all add: keep)
    have j: "j < length (cs_phases st)" "cs_phases st ! j = Working" using True by (auto simp: phase_of_def split: if_splits)
    have holders: "holders ?st i = holders st i" for i
      using True by (simp add: holders_def phase keep)
    have valid: "reason = None \<Longrightarrow> valid_packet (jb_bits job) (jb_targets job) data"
      by (rule worker_valid [OF Some [unfolded r]])
    have "slot_ok ?st i" for i
    proof -
      have "slot_ok st i" using inv by (simp add: cpuid_inv_def)
      then show ?thesis using job valid by (auto simp: slot_ok_def holders phase job_of_change [OF job(1)] split: option.splits)
    qed
    then show ?thesis
      using inv working_update [OF j(1), of Published] j(2) unfolding step by (simp add: cpuid_inv_def keep)
  qed (use inv True job in simp)
qed simp

lemma discount_inv: "cpuid_inv st \<Longrightarrow> cpuid_inv (worker_step (Discount j) st)"
proof (cases "phase_of j st = Published")
  case True
  assume inv: "cpuid_inv st"
  let ?st = "set_phase j Discounted (st\<lparr>cs_workers := cs_workers st - 1\<rparr>)"
  have j: "j < length (cs_phases st)" "cs_phases st ! j = Published" using True by (auto simp: phase_of_def split: if_splits)
  have phase: "phase_of i ?st = (if i = j then Discounted else phase_of i st)" for i
    using j by (auto simp: phase_of_def)
  have "slot_ok ?st i" for i
  proof -
    have "slot_ok st i" using inv by (simp add: cpuid_inv_def)
    moreover have "job_of i ?st = job_of i st" by (simp add: job_of_def)
    moreover have "holders ?st i = holders st i" using True phase [of i] by (simp add: holders_def)
    moreover have "phase_of i ?st \<noteq> Working \<longleftrightarrow> phase_of i st \<noteq> Working" using True phase [of i] by simp
    ultimately show ?thesis by (simp only: slot_ok_def)
  qed
  moreover have "cs_workers ?st = working (cs_phases ?st)" "cs_workers ?st \<le> 2"
    using inv working_update [OF j(1), of Discounted] j(2) unfolding cpuid_inv_def
    by (simp_all del: One_nat_def) linarith+
  moreover have "worker_step (Discount j) st = ?st" using True by simp
  moreover have "\<not> cs_fault ?st" "length (cs_phases ?st) = length (cs_jobs ?st)" using inv by (simp_all add: cpuid_inv_def)
  ultimately show ?thesis unfolding cpuid_inv_def by (metis (no_types))
qed simp


text \<open>A reference given back: the job is freed exactly when it was the last one.\<close>

lemma release_inv:
  assumes "cpuid_inv st" and "job_of j st = Some job" and "0 < holders st j"
    and "cs_jobs st' = cs_jobs (cpuid_release j st)" and "cs_fault st' = cs_fault (cpuid_release j st)"
    and "cs_workers st' = cs_workers st" and "working (cs_phases st') = working (cs_phases st)"
    and "length (cs_phases st') = length (cs_phases st)"
    and "\<And>i. holders st' i = (if i = j then holders st j - 1 else holders st i)"
    and "\<And>i. phase_of i st' = Working \<longleftrightarrow> phase_of i st = Working"
  shows "cpuid_inv st'"
proof -
  note keep = change_job_keeps [OF assms(2)]
  have refs: "jb_refs job = holders st j" using inv_held [OF assms(1,3)] assms(2) by auto
  have job: "job_of i st' = (if i = j then (if jb_refs job = 1 then None else Some (job\<lparr>jb_refs := jb_refs job - 1\<rparr>)) else job_of i st)" for i
  proof -
    have "job_of i st' = job_of i (cpuid_release j st)" by (simp add: job_of_def assms(4))
    then show ?thesis using job_of_change [OF assms(2), of i] by (simp add: cpuid_release_def)
  qed
  have "slot_ok st' i" for i
  proof -
    have "slot_ok st i" using assms(1) by (simp add: cpuid_inv_def)
    then show ?thesis using assms(2,3,9,10) refs job [of i] by (auto simp: slot_ok_def split: option.splits if_splits)
  qed
  moreover have "cs_fault st' = cs_fault st" "length (cs_jobs st') = length (cs_jobs st)"
    using assms(4,5) by (simp_all add: cpuid_release_def keep)
  ultimately show ?thesis using assms(1,6-8) by (simp add: cpuid_inv_def)
qed

lemma depart_inv: "cpuid_inv st \<Longrightarrow> cpuid_inv (worker_step (Depart j) st)"
proof (cases "phase_of j st = Discounted")
  case True
  assume inv: "cpuid_inv st"
  have pos: "0 < holders st j" using True by (simp add: holders_def)
  then obtain job where job: "job_of j st = Some job" using inv_held [OF inv] by metis
  note keep = change_job_keeps [OF job]
  let ?st = "set_phase j Departed (cpuid_release j st)"
  have j: "j < length (cs_phases st)" "cs_phases st ! j = Discounted" using True by (auto simp: phase_of_def split: if_splits)
  have phase: "phase_of i ?st = (if i = j then Departed else phase_of i st)" for i
    using True by (subst phase_of_set) (simp_all add: keep cpuid_release_def)
  have "cpuid_inv ?st"
  proof (rule release_inv [OF inv job pos])
    show "working (cs_phases ?st) = working (cs_phases st)"
      using working_update [OF j(1), of Departed] j(2) by (simp add: cpuid_release_def keep)
    show "holders ?st i = (if i = j then holders st j - 1 else holders st i)" for i
      using True by (simp add: holders_def phase) (simp add: cpuid_release_def keep)
    show "phase_of i ?st = Working \<longleftrightarrow> phase_of i st = Working" for i using True by (simp add: phase)
  qed (simp_all add: cpuid_release_def keep)
  then show ?thesis using True by simp
qed simp

lemma worker_step_inv: "cpuid_inv st \<Longrightarrow> cpuid_inv (worker_step e st)"
  using publish_inv discount_inv depart_inv by (cases e) blast+

lemma interleave_inv: "cpuid_inv st \<Longrightarrow> cpuid_inv (interleave es st)"
  unfolding interleave_def by (induction es arbitrary: st) (simp_all add: worker_step_inv)

lemma context_holds: "context_of vm st = Some j \<Longrightarrow> 0 < holders st j"
proof -
  assume "context_of vm st = Some j"
  then have "Some j \<in> set (cs_contexts st)" by (auto simp: context_of_def split: if_splits) (metis nth_mem)
  then have "count_list (cs_contexts st) (Some j) \<noteq> 0" by (simp add: count_list_0_iff)
  then show ?thesis by (simp add: holders_def)
qed

lemma drop_context_inv:
  assumes "cpuid_inv st" and "context_of vm st = Some j"
  shows "cpuid_inv (set_context vm None (cpuid_release j st))"
proof -
  have pos: "0 < holders st j" by (rule context_holds [OF assms(2)])
  then obtain job where job: "job_of j st = Some job" using inv_held [OF assms(1)] by metis
  note keep = change_job_keeps [OF job]
  have vm: "vm < length (cs_contexts st)" "cs_contexts st ! vm = Some j" using assms(2) by (auto simp: context_of_def split: if_splits)
  have "count_list ((cs_contexts st)[vm := None]) (Some i) + of_bool (i = j) = count_list (cs_contexts st) (Some i)" for i
    using count_list_update [OF vm(1), of None "Some i"] vm(2) by (auto split: if_splits)
  note count = this
  show ?thesis
  proof (rule release_inv [OF assms(1) job pos])
    show "holders (set_context vm None (cpuid_release j st)) i = (if i = j then holders st j - 1 else holders st i)" for i
      using count [of i] count [of j] by (cases "i = j") (simp_all add: holders_def cpuid_release_def keep del: One_nat_def)
  qed (simp_all add: cpuid_release_def keep)
qed

lemma cancel_inv: "cpuid_inv st \<Longrightarrow> 0 < holders st j \<Longrightarrow> cpuid_inv (cancel_job j st)"
proof -
  assume inv: "cpuid_inv st" and "0 < holders st j"
  then obtain job where "job_of j st = Some job" using inv_held by metis
  then show ?thesis unfolding cancel_job_def by (intro inv_change [OF inv]) simp_all
qed

lemma worker_step_contexts: "cpuid_inv st \<Longrightarrow> cs_contexts (worker_step e st) = cs_contexts st"
proof -
  assume inv: "cpuid_inv st"
  have "cs_contexts (change_job j f st) = cs_contexts st" for j f
    by (simp add: change_job_def split: option.split)
  then show ?thesis by (cases e) (auto simp: cpuid_release_def split: option.split)
qed

lemma interleave_contexts: "cpuid_inv st \<Longrightarrow> cs_contexts (interleave es st) = cs_contexts st"
  unfolding interleave_def
  by (induction es arbitrary: st) (simp_all add: worker_step_inv worker_step_contexts)

text \<open>
  What a query gives: a state that keeps the invariant, and a table about a job that exists
  or one of the refusals.
\<close>

definition answer_ok :: "cpuid_query \<Rightarrow> lua_return \<Rightarrow> bool" where
  "answer_ok q r \<longleftrightarrow> (\<exists>reason. r = cpuid_failure reason)
     \<or> (\<exists>job. r = Returns [job_report q job]
         \<and> (jb_done job \<and> jb_reason job = None \<longrightarrow> valid_packet (jb_bits job) (jb_targets job) (jb_data job)))"

lemma context_of_cong: "cs_contexts a = cs_contexts b \<Longrightarrow> context_of vm a = context_of vm b"
  by (simp add: context_of_def)

lemma report_inv:
  assumes "cpuid_inv st" and "context_of vm st = Some j"
  shows "cpuid_inv (snd (report_job j q st)) \<and> answer_ok q (fst (report_job j q st))"
proof -
  let ?st = "interleave (cq_between q 3) st"
  have inv: "cpuid_inv ?st" by (rule interleave_inv [OF assms(1)])
  have "context_of vm ?st = Some j"
    using assms(2) context_of_cong [OF interleave_contexts [OF assms(1)]] by simp
  from inv_held [OF inv context_holds [OF this]] obtain job where "job_of j ?st = Some job"
    "jb_done job \<Longrightarrow> jb_reason job = None \<Longrightarrow> valid_packet (jb_bits job) (jb_targets job) (jb_data job)" by metis
  then show ?thesis using inv by (auto simp: report_job_def Let_def answer_ok_def)
qed

lemma new_cpuid_job_inv:
  assumes "cpuid_inv st" and "context_of vm st = None" and "vm < length (cs_contexts st)" and "Suc (cs_workers st) \<le> 2"
  shows "cpuid_inv (set_context vm (Some (length (cs_jobs st))) (st\<lparr>cs_jobs := cs_jobs st @ [Some (new_cpuid_job q)],
    cs_phases := cs_phases st @ [Working], cs_workers := Suc (cs_workers st)\<rparr>))" (is "cpuid_inv ?st")
proof -
  define j where "j = length (cs_jobs st)"
  define s where "s = ?st"
  have vm: "cs_contexts st ! vm = None" using assms(2,3) by (simp add: context_of_def)
  have len: "length (cs_phases st) = j" using assms(1) by (simp add: cpuid_inv_def j_def)
  have job: "job_of i s = (if i = j then Some (new_cpuid_job q) else job_of i st)" for i
    by (auto simp: s_def job_of_def nth_append j_def)
  have phase: "phase_of i s = (if i = j then Working else phase_of i st)" for i
    using len by (auto simp: s_def phase_of_def nth_append)
  have count: "count_list (cs_contexts s) (Some i) = count_list (cs_contexts st) (Some i) + of_bool (i = j)" for i
    using count_list_update [OF assms(3), of "Some j" "Some i"] vm by (auto simp: s_def j_def)
  have "slot_ok st j" using assms(1) by (simp add: cpuid_inv_def)
  then have none: "count_list (cs_contexts st) (Some j) = 0" by (simp add: slot_ok_def job_of_def holders_def j_def)
  have "slot_ok s i" for i
  proof (cases "i = j")
    case True
    then show ?thesis using none count [of j] by (simp add: slot_ok_def holders_def new_cpuid_job_def job phase)
  next
    case False
    have "job_of i s = job_of i st" "phase_of i s = phase_of i st" "holders s i = holders st i"
      using False by (simp_all add: job phase count holders_def)
    moreover have "slot_ok st i" using assms(1) by (simp add: cpuid_inv_def)
    ultimately show ?thesis by (simp only: slot_ok_def)
  qed
  moreover have "\<not> cs_fault s" "length (cs_phases s) = length (cs_jobs s)" "cs_workers s = working (cs_phases s)" "cs_workers s \<le> 2"
    using assms(1,4) by (simp_all add: s_def cpuid_inv_def working_def)
  ultimately have "cpuid_inv s" unfolding cpuid_inv_def by blast
  then show ?thesis by (simp add: s_def)
qed

lemma start_inv:
  assumes "cpuid_inv st" and "context_of vm st = None" and "vm < length (cs_contexts st)"
  shows "cpuid_inv (snd (start_job vm q st)) \<and> answer_ok q (fst (start_job vm q st))"
proof (cases "cq_module q \<and> Suc (cs_workers st) \<le> 2 \<and> cq_alloc q \<and> cq_thread q")
  case True
  define s where "s = set_context vm (Some (length (cs_jobs st))) (st\<lparr>cs_jobs := cs_jobs st @ [Some (new_cpuid_job q)],
    cs_phases := cs_phases st @ [Working], cs_workers := Suc (cs_workers st)\<rparr>)"
  have inv: "cpuid_inv s" unfolding s_def by (rule new_cpuid_job_inv [OF assms]) (use True in simp)
  have "context_of vm (interleave (cq_between q 2) s) = Some (length (cs_jobs st))"
    using assms(3) by (simp add: context_of_def interleave_contexts [OF inv]) (simp add: s_def)
  from report_inv [OF interleave_inv [OF inv] this, of q]
  show ?thesis using True by (simp add: start_job_def Let_def s_def)
next
  case False
  have "cq_module q \<Longrightarrow> Suc (cs_workers st) \<le> 2 \<Longrightarrow> \<not> cq_alloc q \<or> \<not> cq_thread q" using False by blast
  then show ?thesis using assms(1) by (auto simp: start_job_def answer_ok_def)
qed

lemma change_job_contexts: "cs_contexts (change_job j f st) = cs_contexts st"
  by (simp add: change_job_def split: option.split)

lemma collect_inv:
  assumes "cpuid_inv st" and "vm < length (cs_contexts st)"
  shows "cpuid_inv (snd (collect_cpuid vm q st)) \<and> answer_ok q (fst (collect_cpuid vm q st))"
proof (cases "cq_bits q = 0 \<or> context_of vm st = None")
  case True
  show ?thesis
  proof (cases "cq_bits q = 0")
    case unsupported: True
    then have "answer_ok q (fst (collect_cpuid vm q st))" by (auto simp: collect_cpuid_def answer_ok_def)
    then show ?thesis using unsupported assms(1) by (simp add: collect_cpuid_def)
  next
    case False
    then show ?thesis using True start_inv [OF assms(1) _ assms(2)] by (simp add: collect_cpuid_def)
  qed
next
  case False
  then obtain j where j: "context_of vm st = Some j" by auto
  then obtain job where job: "job_of j st = Some job" using inv_held [OF assms(1) context_holds [OF j]] by metis
  show ?thesis
  proof (cases "same_targets q job \<and> \<not> cpuid_expired (cq_now q) job")
    case True
    then show ?thesis using False j job report_inv [OF assms(1) j, of q] by (simp add: collect_cpuid_def)
  next
    case renew: False
    let ?done = "\<lambda>st. case job_of j st of None \<Rightarrow> False | Some job \<Rightarrow> jb_done job"
    define s1 where "s1 = interleave (cq_between q 0) st"
    define s2 where "s2 = (if ?done s1 then s1 else cancel_job j s1)"
    define s3 where "s3 = interleave (cq_between q 1) s2"
    have i1: "cpuid_inv s1" and c1: "cs_contexts s1 = cs_contexts st"
      using assms(1) by (simp_all add: s1_def interleave_inv interleave_contexts)
    then have "context_of vm s1 = Some j" using j context_of_cong by metis
    then have i2: "cpuid_inv s2" using i1 cancel_inv [OF i1 context_holds] by (simp add: s2_def)
    have c2: "cs_contexts s2 = cs_contexts st" using c1 by (simp add: s2_def cancel_job_def change_job_contexts)
    have i3: "cpuid_inv s3" and c3: "cs_contexts s3 = cs_contexts st"
      using i2 c2 by (simp_all add: s3_def interleave_inv interleave_contexts)
    then have j3: "context_of vm s3 = Some j" using j context_of_cong by metis
    have c4: "cs_contexts (cpuid_release j s3) = cs_contexts st"
      using c3 by (simp add: cpuid_release_def change_job_contexts)
    have collect: "collect_cpuid vm q st = (if ?done s3 then start_job vm q (set_context vm None (cpuid_release j s3)) else report_job j q s3)"
    proof -
      have "collect_cpuid vm q st = (if same_targets q job \<and> \<not> cpuid_expired (cq_now q) job then report_job j q st
          else if ?done s3 then start_job vm q (set_context vm None (cpuid_release j s3)) else report_job j q s3)"
        unfolding s3_def s2_def s1_def collect_cpuid_def Let_def using False j job by simp
      then show ?thesis by (simp only: if_not_P [OF renew])
    qed
    have "cpuid_inv (set_context vm None (cpuid_release j s3))" by (rule drop_context_inv [OF i3 j3])
    then show ?thesis unfolding collect
      using start_inv [of "set_context vm None (cpuid_release j s3)" vm q] report_inv [OF i3 j3, of q] assms(2) c4
      by (simp add: context_of_def)
  qed
qed

lemma close_inv: "cpuid_inv st \<Longrightarrow> cpuid_inv (close_context vm st)"
proof (cases "context_of vm st")
  case (Some j)
  assume inv: "cpuid_inv st"
  have "cs_contexts (cancel_job j st) = cs_contexts st" by (simp add: cancel_job_def change_job_contexts)
  then have "context_of vm (cancel_job j st) = Some j" using Some context_of_cong by metis
  then show ?thesis using drop_context_inv [OF cancel_inv [OF inv context_holds [OF Some]]] Some by (simp add: close_context_def)
qed (simp add: close_context_def)

lemma cpuid_step_inv: "cpuid_inv st \<Longrightarrow> cpuid_inv (cpuid_step e st)"
  using collect_inv close_inv worker_step_inv by (cases e) auto

lemma no_cpuid_jobs_inv: "cpuid_inv (no_cpuid_jobs vms)"
proof -
  have "count_list (replicate vms None) (Some j) = 0" for j :: nat by (simp add: count_list_0_iff)
  then show ?thesis
    by (simp add: cpuid_inv_def no_cpuid_jobs_def working_def slot_ok_def job_of_def holders_def phase_of_def)
qed

lemma cpuid_run_inv: "cpuid_inv (fold cpuid_step es (no_cpuid_jobs vms))"
proof -
  have "cpuid_inv st \<Longrightarrow> cpuid_inv (fold cpuid_step es st)" for st
    by (induction es arbitrary: st) (simp_all add: cpuid_step_inv)
  then show ?thesis using no_cpuid_jobs_inv by blast
qed

lemma job_report_status:
  assumes "field (job_report q job) ''status'' = LStr ''ok''"
  shows "same_targets q job \<and> jb_done job \<and> jb_reason job = None
    \<and> field (job_report q job) ''raw'' = LStr (text_of (jb_data job))"
proof -
  consider "\<not> same_targets q job" | "same_targets q job" "\<not> jb_done job" "CPUID_DEADLINE_MS \<le> cq_later q - jb_started job"
    | "same_targets q job" "\<not> jb_done job" "\<not> CPUID_DEADLINE_MS \<le> cq_later q - jb_started job"
    | r where "same_targets q job" "jb_done job" "jb_reason job = Some r"
    | "same_targets q job" "jb_done job" "jb_reason job = None" by (cases "jb_reason job") auto
  then show ?thesis
    by cases (use assms in \<open>simp_all add: job_report_def Let_def field_mk_tab\<close>)
qed

text \<open>
  C40. In every sequence of queries and closings of any number of Lua states, with the steps
  of the workers anywhere between and inside them, no operation uses a freed job; the shared
  counter is the number of workers that have not given their place back, at most two; and a
  job is there exactly as long as a Lua state or its worker holds it, with as many references
  as holders. A query that says \<open>ok\<close> gives a packet the check accepts for its own targets.
\<close>

theorem cpuid_jobs_sound:
  fixes es vms
  defines "st \<equiv> fold cpuid_step es (no_cpuid_jobs vms)"
  shows "\<not> cs_fault st \<and> cs_workers st = working (cs_phases st) \<and> cs_workers st \<le> 2
    \<and> (\<forall>j. (case job_of j st of None \<Rightarrow> holders st j = 0 | Some job \<Rightarrow> jb_refs job = holders st j \<and> 0 < holders st j))
    \<and> (\<forall>vm q v. vm < length (cs_contexts st) \<longrightarrow> fst (collect_cpuid vm q st) = Returns [v] \<longrightarrow> field v ''status'' = LStr ''ok'' \<longrightarrow>
        (\<exists>data. field v ''raw'' = LStr (text_of data) \<and> valid_packet (cq_bits q) (cq_targets q) data))"
proof -
  have inv: "cpuid_inv st" unfolding st_def by (rule cpuid_run_inv)
  have slot: "slot_ok st j" for j using inv by (simp add: cpuid_inv_def)
  have "case job_of j st of None \<Rightarrow> holders st j = 0 | Some job \<Rightarrow> jb_refs job = holders st j \<and> 0 < holders st j" for j
    using slot [of j] by (cases "job_of j st") (simp_all add: slot_ok_def)
  moreover have "\<exists>data. field v ''raw'' = LStr (text_of data) \<and> valid_packet (cq_bits q) (cq_targets q) data"
    if vm: "vm < length (cs_contexts st)" and result: "fst (collect_cpuid vm q st) = Returns [v]"
      and status: "field v ''status'' = LStr ''ok''" for vm q v
  proof -
    obtain job where v: "v = job_report q job"
      and valid: "jb_done job \<and> jb_reason job = None \<longrightarrow> valid_packet (jb_bits job) (jb_targets job) (jb_data job)"
      using collect_inv [OF inv vm, of q] result by (auto simp: answer_ok_def)
    note ok = job_report_status [OF status [unfolded v]]
    then show ?thesis using valid unfolding v same_targets_def by auto
  qed
  ultimately show ?thesis using inv by (simp add: cpuid_inv_def)
qed

definition sample_cpuid_query :: cpuid_query where
  "sample_cpuid_query = \<lparr>cq_targets = [sample_target], cq_roster = 7, cq_bits = 64, cq_module = True, cq_alloc = True,
     cq_thread = True, cq_now = 150, cq_start = 100, cq_later = 160, cq_between = \<lambda>_. []\<rparr>"

definition sample_cpuid_events :: "cpuid_event list" where
  "sample_cpuid_events = [Collect 0 sample_cpuid_query, Worker (Publish 0 sample_worker_run 120), Worker (Discount 0), Worker (Depart 0)]"

definition sample_cpuid_job :: cpuid_job where
  "sample_cpuid_job = (new_cpuid_job sample_cpuid_query)\<lparr>jb_refs := 1, jb_done := True, jb_finished := 120, jb_data := sample_packet\<rparr>"

lemma sample_cpuid_run:
  "fold cpuid_step sample_cpuid_events (no_cpuid_jobs 1) =
     \<lparr>cs_jobs = [Some sample_cpuid_job], cs_phases = [Departed], cs_contexts = [Some 0], cs_workers = 0, cs_fault = False\<rparr>"
proof -
  obtain killed es where worker: "cpuid_worker 64 [sample_target] sample_worker_run = Some (None, sample_packet, 0, killed, es)"
    using sample_worker_result by blast
  show ?thesis
    by (simp add: sample_cpuid_events_def no_cpuid_jobs_def collect_cpuid_def context_of_def start_job_def report_job_def Let_def
        sample_cpuid_query_def new_cpuid_job_def interleave_def job_of_def phase_of_def change_job_def set_phase_def
        set_context_def cpuid_release_def worker sample_cpuid_job_def)
qed

lemma cpuid_jobs_sound_witness:
  "cs_workers (fold cpuid_step sample_cpuid_events (no_cpuid_jobs 1)) \<le> 2
    \<and> (\<exists>v data. fst (collect_cpuid 0 sample_cpuid_query (fold cpuid_step sample_cpuid_events (no_cpuid_jobs 1))) = Returns [v]
        \<and> field v ''raw'' = LStr (text_of data) \<and> valid_packet 64 [sample_target] data)"
proof -
  let ?st = "fold cpuid_step sample_cpuid_events (no_cpuid_jobs 1)"
  let ?v = "job_report sample_cpuid_query sample_cpuid_job"
  have result: "fst (collect_cpuid 0 sample_cpuid_query ?st) = Returns [?v]"
    unfolding sample_cpuid_run
    by (simp add: collect_cpuid_def context_of_def job_of_def report_job_def Let_def interleave_def sample_cpuid_job_def
        same_targets_def cpuid_expired_def new_cpuid_job_def) (simp add: sample_cpuid_query_def)
  have status: "field ?v ''status'' = LStr ''ok''"
    by (simp add: job_report_def Let_def field_mk_tab same_targets_def sample_cpuid_job_def new_cpuid_job_def)
  have vms: "0 < length (cs_contexts ?st)" unfolding sample_cpuid_run by simp
  have "\<exists>data. field ?v ''raw'' = LStr (text_of data) \<and> valid_packet (cq_bits sample_cpuid_query) (cq_targets sample_cpuid_query) data"
    using cpuid_jobs_sound [of sample_cpuid_events 1] vms result status by blast
  moreover have "cs_workers ?st \<le> 2" unfolding sample_cpuid_run by simp
  ultimately show ?thesis using result by (simp add: sample_cpuid_query_def)
qed

end
