(* ===== verification/Terminal.thy ===== *)
theory Terminal imports LuaApi begin

text \<open>
  The terminal of \<^verbatim>\<open>native/wtop_native.c\<close>: raw mode and its restoration, the signal
  handlers with the mailbox of \<^verbatim>\<open>native/wtop_terminal_signal.h\<close>, polling and writing.
\<close>

section \<open>The signal mailbox\<close>

datatype term_signal = Winch | Interrupt | Terminate | Hangup | Other_signal

definition signal_bit :: "term_signal \<Rightarrow> u32" where
  "signal_bit s = (case s of Winch \<Rightarrow> 1 | Interrupt \<Rightarrow> 2 | Terminate \<Rightarrow> 4 | Hangup \<Rightarrow> 8 | Other_signal \<Rightarrow> 0)"

definition signal_notify :: "term_signal \<Rightarrow> u32 \<Rightarrow> u32" where
  "signal_notify s signals = (let pending = signal_bit s in if pending \<noteq> 0 then signals OR pending else signals)"

definition signal_pending :: "u32 \<Rightarrow> u32" where "signal_pending signals = signals"

definition signal_take :: "u32 \<Rightarrow> u32 \<times> u32" where "signal_take signals = (signals, 0)"

definition signal_reset :: "u32 \<Rightarrow> u32 \<Rightarrow> u32" where "signal_reset pending signals = pending"

section \<open>The terminal's settings\<close>

record termios =
  c_iflag :: u32
  c_oflag :: u32
  c_cflag :: u32
  c_lflag :: u32
  c_vmin :: byte
  c_vtime :: byte
  c_other_cc :: "byte list"

text \<open>Raw input: no signals, echo or line editing, eight bits, reads that do not wait.\<close>

definition raw_mode :: "termios \<Rightarrow> termios" where
  "raw_mode t = t\<lparr>
     c_iflag := c_iflag t AND NOT (0x2 OR 0x100 OR 0x10 OR 0x20 OR 0x400),
     c_oflag := c_oflag t AND NOT 0x1,
     c_cflag := c_cflag t OR 0x30,
     c_lflag := c_lflag t AND NOT (0x8 OR 0x2 OR 0x8000 OR 0x1),
     c_vmin := 0, c_vtime := 0\<rparr>"

text \<open>
  What the module keeps, and what it changes outside: the settings and status flags of the
  descriptors, the dispositions of the four signals (an earlier one is a number), the bytes
  written to the terminal, and the mailbox.
\<close>

datatype disposition = Notify | Earlier nat

record terminal =
  tm_active :: bool
  tm_input :: int
  tm_output :: int
  tm_flags :: int
  tm_saved :: termios
  tm_old :: "term_signal \<Rightarrow> disposition"
  tm_handlers :: nat
  tm_atexit :: bool

record tty_world =
  tw_settings :: "int \<Rightarrow> termios"
  tw_flags :: "int \<Rightarrow> int"
  tw_disposition :: "term_signal \<Rightarrow> disposition"
  tw_output :: string
  tw_signals :: u32

text \<open>
  The answers of the calls of one operation: the terminal test, reading and writing the
  settings, the flags, installing each handler, and registering the exit handler; and
  whether the calls of a restoration work, with the answers of its writes.
\<close>

record tty_answers =
  ta_isatty :: "int \<Rightarrow> bool"
  ta_get :: "unit answer"
  ta_set :: "unit answer"
  ta_getfl :: "unit answer"
  ta_sigaction :: "term_signal \<Rightarrow> unit answer"
  ta_atexit :: bool
  ta_restore_set :: bool
  ta_restore_flags :: bool
  ta_restore_handler :: "term_signal \<Rightarrow> bool"
  ta_writes :: "nat answer list"

type_synonym tty = "terminal \<times> tty_world"

fun write_best_effort :: "nat answer list \<Rightarrow> string \<Rightarrow> string" where
  "write_best_effort ans [] = []"
| "write_best_effort [] (c # cs) = []"
| "write_best_effort (Failed e # ans) (c # cs) = (if e = EINTR then write_best_effort ans (c # cs) else [])"
| "write_best_effort (Got n # ans) (c # cs) =
     (let m = min n (length (c # cs)) in
      if m = 0 then [] else take m (c # cs) @ write_best_effort ans (drop m (c # cs)))"

text \<open>Mouse and paste reporting off, wrapping on, attributes reset, cursor shown, main screen.\<close>

definition restore_sequence :: string where
  "restore_sequence = CHR 0x1B # ''[?1000l'' @ CHR 0x1B # ''[?1006l'' @ CHR 0x1B # ''[?2004l'' @ CHR 0x1B # ''[?7h''
     @ CHR 0x1B # ''[0m'' @ CHR 0x1B # ''[?25h'' @ CHR 0x1B # ''[?1049l''"

definition emergency_restore :: "tty_answers \<Rightarrow> tty \<Rightarrow> tty" where
  "emergency_restore a = (\<lambda>(t, w).
     if \<not> tm_active t then (t, w)
     else let fd = tm_input t;
         w = (if ta_restore_set a then w\<lparr>tw_settings := (tw_settings w)(fd := tm_saved t)\<rparr> else w);
         w = (if 0 \<le> tm_flags t \<and> ta_restore_flags a then w\<lparr>tw_flags := (tw_flags w)(fd := tm_flags t)\<rparr> else w);
         w = (if tm_output t < 0 then w else w\<lparr>tw_output := tw_output w @ write_best_effort (ta_writes a) restore_sequence\<rparr>) in
       (t\<lparr>tm_active := False\<rparr>, w))"

definition restore_one :: "tty_answers \<Rightarrow> nat \<Rightarrow> term_signal \<Rightarrow> tty \<Rightarrow> tty" where
  "restore_one a n s = (\<lambda>(t, w). (t, if n \<le> tm_handlers t \<and> ta_restore_handler a s
     then w\<lparr>tw_disposition := (tw_disposition w)(s := tm_old t s)\<rparr> else w))"

definition restore_handlers :: "tty_answers \<Rightarrow> tty \<Rightarrow> tty" where
  "restore_handlers a tw =
     (let (t, w) = restore_one a 4 Hangup (restore_one a 3 Terminate (restore_one a 2 Interrupt (restore_one a 1 Winch tw))) in
      (t\<lparr>tm_handlers := 0\<rparr>, w))"

definition install_one :: "nat \<Rightarrow> term_signal \<Rightarrow> tty \<Rightarrow> tty" where
  "install_one n s = (\<lambda>(t, w). (t\<lparr>tm_old := (tm_old t)(s := tw_disposition w s), tm_handlers := n\<rparr>,
     w\<lparr>tw_disposition := (tw_disposition w)(s := Notify)\<rparr>))"

definition install_handlers :: "tty_answers \<Rightarrow> tty \<Rightarrow> tty \<times> errno option" where
  "install_handlers a tw =
     (case ta_sigaction a Winch of Failed e \<Rightarrow> (tw, Some e)
      | Got _ \<Rightarrow> let tw = install_one 1 Winch tw in
     (case ta_sigaction a Interrupt of Failed e \<Rightarrow> (restore_handlers a tw, Some e)
      | Got _ \<Rightarrow> let tw = install_one 2 Interrupt tw in
     (case ta_sigaction a Terminate of Failed e \<Rightarrow> (restore_handlers a tw, Some e)
      | Got _ \<Rightarrow> let tw = install_one 3 Terminate tw in
     (case ta_sigaction a Hangup of Failed e \<Rightarrow> (restore_handlers a tw, Some e)
      | Got _ \<Rightarrow> (install_one 4 Hangup tw, None)))))"

definition enter_raw :: "(errno \<Rightarrow> string) \<Rightarrow> tty_answers \<Rightarrow> int \<Rightarrow> int \<Rightarrow> tty \<Rightarrow> tty \<times> lua_return option" where
  "enter_raw strerror a input output = (\<lambda>(t, w).
     case ta_get a of Failed e \<Rightarrow> ((t, w), Some (push_errno strerror ''tcgetattr'' e))
     | Got _ \<Rightarrow>
        (let saved = tw_settings w input; t = t\<lparr>tm_saved := saved\<rparr> in
         case ta_set a of Failed e \<Rightarrow> ((t, w), Some (push_errno strerror ''tcsetattr'' e))
         | Got _ \<Rightarrow>
            (let raw = w\<lparr>tw_settings := (tw_settings w)(input := raw_mode saved)\<rparr> in
             case ta_getfl a of
               Failed e \<Rightarrow> ((t, if ta_restore_set a then raw\<lparr>tw_settings := (tw_settings raw)(input := saved)\<rparr> else raw),
                 Some (push_errno strerror ''fcntl'' e))
             | Got _ \<Rightarrow> ((t\<lparr>tm_input := input, tm_output := output, tm_flags := tw_flags w input, tm_active := True\<rparr>,
                 raw\<lparr>tw_signals := signal_reset 1 (tw_signals raw)\<rparr>), None))))"

definition terminal_start :: "(errno \<Rightarrow> string) \<Rightarrow> tty_answers \<Rightarrow> int \<Rightarrow> int \<Rightarrow> tty \<Rightarrow> tty \<times> lua_return" where
  "terminal_start strerror a input output tw =
     (case (check_fd 1 input, check_fd 2 output) of
        (Inl b, _) \<Rightarrow> (tw, b)
      | (_, Inl b) \<Rightarrow> (tw, b)
      | (Inr input, Inr output) \<Rightarrow>
         if tm_active (fst tw) then (tw, Returns [LBool True])
         else if \<not> ta_isatty a input \<or> \<not> ta_isatty a output
         then (tw, Returns [LNil, LStr ''stdin and stdout must be TTYs'', LInt ENOTTY])
         else case enter_raw strerror a input output tw of
           (tw, Some r) \<Rightarrow> (tw, r)
         | (tw, None) \<Rightarrow>
            (case install_handlers a tw of
               (tw, Some e) \<Rightarrow> (emergency_restore a tw, push_errno strerror ''sigaction'' e)
             | ((t, w), None) \<Rightarrow>
                if tm_atexit t then ((t, w), Returns [LBool True])
                else if \<not> ta_atexit a
                then (emergency_restore a (restore_handlers a (t, w)),
                  Returns [LNil, LStr ''atexit registration failed'', LInt EINVAL])
                else ((t\<lparr>tm_atexit := True\<rparr>, w), Returns [LBool True])))"

definition terminal_stop :: "tty_answers \<Rightarrow> tty \<Rightarrow> tty \<times> lua_return" where
  "terminal_stop a tw = (emergency_restore a (restore_handlers a tw), Returns [LBool True])"

definition terminal_extent :: "(errno \<Rightarrow> string) \<Rightarrow> (int \<Rightarrow> (nat \<times> nat) answer) \<Rightarrow> terminal \<Rightarrow> lua_return" where
  "terminal_extent strerror winsize t =
     (case winsize (if tm_active t then tm_output t else 1) of Failed e \<Rightarrow> push_errno strerror ''ioctl(TIOCGWINSZ)'' e
      | Got (columns, rows) \<Rightarrow> Returns [LInt (if 0 < columns then int columns else 80), LInt (if 0 < rows then int rows else 24)])"

section \<open>Polling and writing\<close>

text \<open>
  A poll gives whether input is ready and whether the other side hung up; with an
  interruption comes what the mailbox holds then.
\<close>

fun poll_loop :: "((bool \<times> bool) answer \<times> u32) list \<Rightarrow> (bool \<times> bool) answer option" where
  "poll_loop [] = None"
| "poll_loop ((Got r, _) # polls) = Some (Got r)"
| "poll_loop ((Failed e, signals) # polls) =
     (if e = EINTR \<and> signal_pending signals = 0 then poll_loop polls else Some (Failed e))"

fun tty_read :: "string answer list \<Rightarrow> string answer option" where
  "tty_read [] = None"
| "tty_read (Got s # ans) = Some (Got (take 4096 s))"
| "tty_read (Failed e # ans) = (if e = EINTR then tty_read ans else Some (Failed e))"

definition poll_table :: "string \<Rightarrow> u32 \<Rightarrow> bool \<Rightarrow> lua" where
  "poll_table data pending hung =
     mk_tab ((if data \<noteq> [] then [(''data'', LStr data)] else [])
       @ [(''resize'', LBool (pending AND 1 \<noteq> 0)), (''interrupt'', LBool (pending AND 2 \<noteq> 0)),
          (''terminate'', LBool (pending AND 4 \<noteq> 0)), (''hangup'', LBool (pending AND 8 \<noteq> 0 \<or> hung))])"

text \<open>The result and the mailbox afterwards, which held \<open>signals\<close> when it was emptied.\<close>

definition terminal_poll :: "(errno \<Rightarrow> string) \<Rightarrow> ((bool \<times> bool) answer \<times> u32) list \<Rightarrow> string answer list \<Rightarrow> u32 \<Rightarrow> int
    \<Rightarrow> (lua_return \<times> u32) option" where
  "terminal_poll strerror polls reads signals timeout =
     (if \<not> (- 1 \<le> timeout \<and> timeout \<le> 60000) then Some (Bad_argument 1 ''timeout must be in -1..60000'', signals)
      else let finish = (\<lambda>data hung. let (pending, left) = signal_take signals in
          Some (Returns [poll_table data pending hung], left)) in
        case poll_loop polls of None \<Rightarrow> None
        | Some (Failed e) \<Rightarrow> if e \<noteq> EINTR then Some (push_errno strerror ''poll'' e, signals) else finish [] False
        | Some (Got (ready, hung)) \<Rightarrow>
            if \<not> ready then finish [] hung
            else (case tty_read reads of None \<Rightarrow> None
              | Some (Got data) \<Rightarrow> finish data hung
              | Some (Failed e) \<Rightarrow> if e \<noteq> EAGAIN then Some (push_errno strerror ''read'' e, signals) else finish [] hung))"

text \<open>Waiting for room: whether the poll failed, the other side is gone, or writing goes on.\<close>

datatype awaited = Poll_failed errno | Broken | Writable

fun await_output :: "bool answer list \<Rightarrow> (awaited \<times> bool answer list) option" where
  "await_output [] = None"
| "await_output (Failed e # polls) = (if e = EINTR then await_output polls else Some (Poll_failed e, polls))"
| "await_output (Got broken # polls) = Some (if broken then Broken else Writable, polls)"

text \<open>The result and the bytes that reached the terminal.\<close>

fun write_out :: "(errno \<Rightarrow> string) \<Rightarrow> nat answer list \<Rightarrow> bool answer list \<Rightarrow> string \<Rightarrow> (lua_return \<times> string) option" where
  "write_out strerror ans polls [] = Some (Returns [LBool True], [])"
| "write_out strerror [] polls (c # cs) = None"
| "write_out strerror (Failed e # ans) polls (c # cs) =
     (if e = EINTR then write_out strerror ans polls (c # cs)
      else if e = EAGAIN then
        (case await_output polls of None \<Rightarrow> None
         | Some (Poll_failed e', _) \<Rightarrow> Some (push_errno strerror ''poll(write)'' e', [])
         | Some (Broken, _) \<Rightarrow> Some (push_errno strerror ''write'' EIO, [])
         | Some (Writable, polls) \<Rightarrow> write_out strerror ans polls (c # cs))
      else Some (push_errno strerror ''write'' e, []))"
| "write_out strerror (Got n # ans) polls (c # cs) =
     (let m = min n (length (c # cs)) in
      if m = 0 then Some (push_errno strerror ''write'' EIO, [])
      else map_option (map_prod id ((@) (take m (c # cs)))) (write_out strerror ans polls (drop m (c # cs))))"

definition terminal_write :: "(errno \<Rightarrow> string) \<Rightarrow> nat answer list \<Rightarrow> bool answer list \<Rightarrow> string \<Rightarrow> int \<Rightarrow> (lua_return \<times> string) option" where
  "terminal_write strerror ans polls data fd =
     (case check_fd 2 fd of Inl b \<Rightarrow> Some (b, []) | Inr _ \<Rightarrow> write_out strerror ans polls data)"

section \<open>The terminal is given back\<close>

text \<open>What other programs see of the terminal and of the process's signals.\<close>

definition same_tty :: "tty_world \<Rightarrow> tty_world \<Rightarrow> bool" where
  "same_tty w w' \<longleftrightarrow> tw_settings w' = tw_settings w \<and> tw_flags w' = tw_flags w \<and> tw_disposition w' = tw_disposition w"

definition handled :: "term_signal list" where "handled = [Winch, Interrupt, Terminate, Hangup]"

definition tty_inv :: "tty_world \<Rightarrow> tty \<Rightarrow> bool" where
  "tty_inv w0 = (\<lambda>(t, w). tw_flags w = tw_flags w0
     \<and> (if tm_active t then tm_saved t = tw_settings w0 (tm_input t) \<and> tm_flags t = tw_flags w0 (tm_input t)
            \<and> tw_settings w = (tw_settings w0)(tm_input t := raw_mode (tm_saved t))
            \<and> tm_handlers t = 4 \<and> (\<forall>s. tm_old t s = tw_disposition w0 s \<or> s = Other_signal)
            \<and> (\<forall>s. tw_disposition w s = (if s = Other_signal then tw_disposition w0 s else Notify))
        else tw_settings w = tw_settings w0 \<and> tm_handlers t = 0 \<and> tw_disposition w = tw_disposition w0))"

text \<open>The restoring calls work.\<close>

definition restores :: "tty_answers \<Rightarrow> bool" where
  "restores a \<longleftrightarrow> ta_restore_set a \<and> ta_restore_flags a \<and> (\<forall>s. ta_restore_handler a s)"

lemma restore_handlers_all:
  "restores a \<Longrightarrow> tm_handlers t = n \<Longrightarrow> n = 4 \<Longrightarrow> restore_handlers a (t, w) = (t\<lparr>tm_handlers := 0\<rparr>,
     w\<lparr>tw_disposition := (tw_disposition w)(Winch := tm_old t Winch, Interrupt := tm_old t Interrupt,
       Terminate := tm_old t Terminate, Hangup := tm_old t Hangup)\<rparr>)"
  by (simp add: restore_handlers_def restore_one_def restores_def)

lemma restore_handlers_none: "tm_handlers t = 0 \<Longrightarrow> restore_handlers a (t, w) = (t, w)"
  by (simp add: restore_handlers_def restore_one_def)

lemma dispositions_back:
  "\<forall>s. old s = d0 s \<or> s = Other_signal \<Longrightarrow> \<forall>s. d s = (if s = Other_signal then d0 s else Notify) \<Longrightarrow>
     d(Winch := old Winch, Interrupt := old Interrupt, Terminate := old Terminate, Hangup := old Hangup) = d0"
  by (rule ext, rename_tac s) (case_tac s; force)

lemma emergency_restore_active:
  "restores a \<Longrightarrow> tm_active t \<Longrightarrow> \<exists>out. emergency_restore a (t, w) = (t\<lparr>tm_active := False\<rparr>,
     w\<lparr>tw_settings := (tw_settings w)(tm_input t := tm_saved t),
       tw_flags := (if 0 \<le> tm_flags t then (tw_flags w)(tm_input t := tm_flags t) else tw_flags w), tw_output := out\<rparr>)"
  by (rule exI [of _ "if tm_output t < 0 then tw_output w else tw_output w @ write_best_effort (ta_writes a) restore_sequence"])
    (simp add: emergency_restore_def restores_def Let_def)

lemma emergency_restore_idle: "\<not> tm_active t \<Longrightarrow> emergency_restore a (t, w) = (t, w)"
  by (simp add: emergency_restore_def)

lemma terminal_stop_restores:
  assumes "restores a" "tty_inv w0 (t, w)" "terminal_stop a (t, w) = ((t', w'), r)"
  shows "same_tty w0 w' \<and> tty_inv w0 (t', w') \<and> \<not> tm_active t'"
proof (cases "tm_active t")
  case True
  let ?t = "t\<lparr>tm_handlers := 0\<rparr>" and ?w = "w\<lparr>tw_disposition := tw_disposition w0\<rparr>"
  have "restore_handlers a (t, w) = (?t, ?w)"
    using assms(2) True dispositions_back [of "tm_old t" "tw_disposition w0" "tw_disposition w"]
    by (subst restore_handlers_all [OF assms(1) refl]) (auto simp: tty_inv_def)
  moreover obtain out where "emergency_restore a (?t, ?w) = (?t\<lparr>tm_active := False\<rparr>,
     ?w\<lparr>tw_settings := (tw_settings ?w)(tm_input ?t := tm_saved ?t),
       tw_flags := (if 0 \<le> tm_flags ?t then (tw_flags ?w)(tm_input ?t := tm_flags ?t) else tw_flags ?w), tw_output := out\<rparr>)"
    using emergency_restore_active [OF assms(1), of ?t ?w] True by auto
  ultimately show ?thesis using assms(2,3) True by (auto simp: terminal_stop_def same_tty_def tty_inv_def)
next
  case False
  then have "tm_handlers t = 0" using assms(2) by (simp add: tty_inv_def)
  then show ?thesis using assms(2,3) False
    by (auto simp: terminal_stop_def restore_handlers_none emergency_restore_idle same_tty_def tty_inv_def)
qed

lemma install_handlers_result:
  assumes "restores a" "tm_handlers t = 0" "install_handlers a (t, w) = ((t', w'), e)"
  shows "tm_active t' = tm_active t \<and> tm_input t' = tm_input t \<and> tm_saved t' = tm_saved t \<and> tm_flags t' = tm_flags t
    \<and> tm_output t' = tm_output t \<and> tw_settings w' = tw_settings w \<and> tw_flags w' = tw_flags w
    \<and> (if e = None then tm_handlers t' = 4 \<and> (\<forall>s. tm_old t' s = tw_disposition w s \<or> s = Other_signal)
          \<and> (\<forall>s. tw_disposition w' s = (if s = Other_signal then tw_disposition w s else Notify))
       else tm_handlers t' = 0 \<and> tw_disposition w' = tw_disposition w)"
proof (cases "e = None")
  case True
  have other: "s = Other_signal" if "s \<noteq> Winch" "s \<noteq> Interrupt" "s \<noteq> Terminate" "s \<noteq> Hangup" for s
    using that by (cases s) auto
  show ?thesis using assms True
    by (simp add: install_handlers_def install_one_def Let_def split: answer.splits) (auto dest: other)
next
  case False
  then show ?thesis using assms
    by (auto simp: install_handlers_def install_one_def restore_handlers_def restore_one_def restores_def Let_def fun_eq_iff
        split: answer.splits)
qed

lemma terminal_start_result:
  assumes "restores a" "tty_inv w0 (t, w)" "terminal_start strerror a input output (t, w) = ((t', w'), r)"
  shows "tty_inv w0 (t', w') \<and> (succeeds r \<longleftrightarrow> tm_active t') \<or> tm_active t \<and> (t', w') = (t, w)"
proof (cases "tm_active t \<or> check_fd 1 input \<noteq> Inr input \<or> check_fd 2 output \<noteq> Inr output \<or> \<not> ta_isatty a input \<or> \<not> ta_isatty a output")
  case True
  then show ?thesis using assms(2,3)
    by (auto simp: terminal_start_def check_fd_def split: if_splits)
next
  case False
  then have start: "\<not> tm_active t" "check_fd 1 input = Inr input" "check_fd 2 output = Inr output"
    "ta_isatty a input" "ta_isatty a output" by auto
  have idle: "tw_settings w = tw_settings w0" "tm_handlers t = 0" "tw_disposition w = tw_disposition w0" "tw_flags w = tw_flags w0"
    using assms(2) start(1) by (simp_all add: tty_inv_def)
  obtain t1 w1 o1 where raw: "enter_raw strerror a input output (t, w) = ((t1, w1), o1)"
    by (cases "enter_raw strerror a input output (t, w)") auto
  show ?thesis
  proof (cases o1)
    case (Some r1)
    then have "tty_inv w0 (t1, w1) \<and> \<not> tm_active t1 \<and> \<not> succeeds r1"
      using raw idle start(1) assms(1) by (auto simp: enter_raw_def tty_inv_def restores_def Let_def split: answer.splits)
    then show ?thesis using assms(3) start raw Some by (auto simp: terminal_start_def)
  next
    case None
    then have t1: "tm_active t1" "tm_input t1 = input" "tm_saved t1 = tw_settings w0 input" "tm_flags t1 = tw_flags w0 input"
      "tw_settings w1 = (tw_settings w0)(input := raw_mode (tw_settings w0 input))" "tw_flags w1 = tw_flags w0"
      "tw_disposition w1 = tw_disposition w0" "tm_handlers t1 = 0"
      using raw idle by (auto simp: enter_raw_def Let_def split: answer.splits)
    obtain t2 w2 e where ih: "install_handlers a (t1, w1) = ((t2, w2), e)" by (cases "install_handlers a (t1, w1)") auto
    note i = install_handlers_result [OF assms(1) t1(8) ih]
    show ?thesis
    proof (cases e)
      case (Some e')
      have act: "tm_active t2" using i t1 by simp
      obtain out where er: "emergency_restore a (t2, w2) = (t2\<lparr>tm_active := False\<rparr>,
         w2\<lparr>tw_settings := (tw_settings w2)(tm_input t2 := tm_saved t2),
           tw_flags := (if 0 \<le> tm_flags t2 then (tw_flags w2)(tm_input t2 := tm_flags t2) else tw_flags w2), tw_output := out\<rparr>)"
        using emergency_restore_active [OF assms(1) act] by blast
      have "t' = t2\<lparr>tm_active := False\<rparr>" "r = push_errno strerror ''sigaction'' e'"
        "w' = w2\<lparr>tw_settings := (tw_settings w2)(tm_input t2 := tm_saved t2),
           tw_flags := (if 0 \<le> tm_flags t2 then (tw_flags w2)(tm_input t2 := tm_flags t2) else tw_flags w2), tw_output := out\<rparr>"
        using assms(3) start raw None ih Some er by (auto simp: terminal_start_def)
      then show ?thesis using i t1 Some by (auto simp: tty_inv_def)
    next
      case None
      have inv: "tty_inv w0 (t2, w2)" "tm_active t2" using i t1 None by (auto simp: tty_inv_def)
      show ?thesis
      proof (cases "\<not> tm_atexit t2 \<and> \<not> ta_atexit a")
        case True
        then have "terminal_stop a (t2, w2) = ((t', w'), Returns [LBool True])" "\<not> succeeds r"
          using assms(3) start raw \<open>o1 = None\<close> ih None by (auto simp: terminal_start_def terminal_stop_def)
        from terminal_stop_restores [OF assms(1) inv(1) this(1)] this(2) show ?thesis by blast
      next
        case False
        then have "w' = w2" "t' = t2 \<or> t' = t2\<lparr>tm_atexit := True\<rparr>" "succeeds r"
          using assms(3) start raw \<open>o1 = None\<close> ih None by (auto simp: terminal_start_def split: if_splits)
        then show ?thesis using inv by (auto simp: tty_inv_def)
      qed
    qed
  qed
qed

text \<open>The operations of a session in any order, each with its own answers, and signals.\<close>

inductive tty_reach :: "tty \<Rightarrow> tty \<Rightarrow> bool" for start :: tty where
  tty_refl: "tty_reach start start"
| tty_begin: "tty_reach start tw \<Longrightarrow> restores a \<Longrightarrow> terminal_start strerror a input output tw = (tw', r) \<Longrightarrow> tty_reach start tw'"
| tty_stop: "tty_reach start tw \<Longrightarrow> restores a \<Longrightarrow> terminal_stop a tw = (tw', r) \<Longrightarrow> tty_reach start tw'"
| tty_signal: "tty_reach start (t, w) \<Longrightarrow> tty_reach start (t, w\<lparr>tw_signals := signals\<rparr>)"

lemma tty_reach_inv:
  "tty_reach start tw \<Longrightarrow> start = (t0, w0) \<Longrightarrow> \<not> tm_active t0 \<Longrightarrow> tm_handlers t0 = 0 \<Longrightarrow> tty_inv w0 tw"
proof (induction rule: tty_reach.induct)
  case (tty_begin tw a strerror i out tw' r)
  obtain t w t' w' where tw: "tw = (t, w)" "tw' = (t', w')" by (cases tw, cases tw')
  then show ?case using tty_begin terminal_start_result [of a w0 t w strerror i out t' w' r] by auto
next
  case (tty_stop tw a tw' r)
  obtain t w t' w' where tw: "tw = (t, w)" "tw' = (t', w')" by (cases tw, cases tw')
  then show ?case using tty_stop terminal_stop_restores [of a w0 t w t' w' r] by auto
qed (auto simp: tty_inv_def)

text \<open>
  C33. The terminal is given back: after any sequence of starting, failing to start,
  stopping and signals, the terminal is either as it was found, with every signal
  disposition as before, or in raw mode with its old settings kept; stopping gives back
  settings, flags and dispositions exactly, and the exit handler gives back the settings.
\<close>

theorem terminal_restored:
  assumes "tty_reach (t0, w0) (t, w)" "\<not> tm_active t0" "tm_handlers t0 = 0" "restores a"
  shows "(if tm_active t then tw_settings w = (tw_settings w0)(tm_input t := raw_mode (tw_settings w0 (tm_input t)))
      else same_tty w0 w)
    \<and> same_tty w0 (snd (fst (terminal_stop a (t, w))))
    \<and> tw_settings (snd (emergency_restore a (t, w))) = tw_settings w0"
proof -
  have inv: "tty_inv w0 (t, w)" by (rule tty_reach_inv [OF assms(1) refl assms(2,3)])
  obtain t' w' r where s: "terminal_stop a (t, w) = ((t', w'), r)" by (cases "terminal_stop a (t, w)") auto
  have "tw_settings (snd (emergency_restore a (t, w))) = tw_settings w0"
  proof (cases "tm_active t")
    case True
    then show ?thesis using emergency_restore_active [OF assms(4) True, of w] inv by (auto simp: tty_inv_def)
  qed (use inv in \<open>simp add: emergency_restore_idle tty_inv_def\<close>)
  then show ?thesis using terminal_stop_restores [OF assms(4) inv s] s inv by (auto simp: tty_inv_def same_tty_def)
qed

text \<open>A terminal that is started.\<close>

definition sample_termios :: termios where
  "sample_termios = \<lparr>c_iflag = 0x500, c_oflag = 5, c_cflag = 0xBF, c_lflag = 0x8A3B, c_vmin = 1, c_vtime = 0, c_other_cc = []\<rparr>"

definition sample_tty :: tty where
  "sample_tty = (\<lparr>tm_active = False, tm_input = 0, tm_output = 0, tm_flags = 0, tm_saved = sample_termios,
       tm_old = (\<lambda>_. Earlier 0), tm_handlers = 0, tm_atexit = False\<rparr>,
     \<lparr>tw_settings = (\<lambda>_. sample_termios), tw_flags = (\<lambda>_. 2), tw_disposition = (\<lambda>_. Earlier 7), tw_output = [], tw_signals = 0\<rparr>)"

definition sample_tty_answers :: tty_answers where
  "sample_tty_answers = \<lparr>ta_isatty = (\<lambda>_. True), ta_get = Got (), ta_set = Got (), ta_getfl = Got (),
     ta_sigaction = (\<lambda>_. Got ()), ta_atexit = True, ta_restore_set = True, ta_restore_flags = True,
     ta_restore_handler = (\<lambda>_. True), ta_writes = [Got 99]\<rparr>"

lemma sample_start:
  "\<exists>t w. terminal_start (\<lambda>_. '''') sample_tty_answers 0 1 sample_tty = ((t, w), Returns [LBool True]) \<and> tm_active t"
  by (simp add: terminal_start_def check_fd_def sample_tty_def sample_tty_answers_def enter_raw_def install_handlers_def
      install_one_def Let_def)

lemma terminal_restored_witness:
  "\<exists>t w. tm_active t \<and> tw_settings w 0 = raw_mode sample_termios
     \<and> tw_settings (snd (fst (terminal_stop sample_tty_answers (t, w)))) 0 = sample_termios"
proof -
  obtain t w where s: "terminal_start (\<lambda>_. '''') sample_tty_answers 0 1 sample_tty = ((t, w), Returns [LBool True])" "tm_active t"
    using sample_start by blast
  have ok: "restores sample_tty_answers" by (simp add: restores_def sample_tty_answers_def)
  obtain t0 w0 where st: "sample_tty = (t0, w0)" "\<not> tm_active t0" "tm_handlers t0 = 0" "tw_settings w0 = (\<lambda>_. sample_termios)"
    by (simp add: sample_tty_def)
  have "tty_reach (t0, w0) (t, w)" using tty_begin [OF tty_refl ok s(1)] by (simp add: st(1))
  from terminal_restored [OF this st(2,3) ok] have
    "tw_settings w = (tw_settings w0)(tm_input t := raw_mode (tw_settings w0 (tm_input t)))"
    "tw_settings (snd (fst (terminal_stop sample_tty_answers (t, w)))) = tw_settings w0"
    using s(2) by (simp_all add: same_tty_def)
  moreover have "tm_input t = 0" using s(1)
    by (auto simp: terminal_start_def check_fd_def sample_tty_def sample_tty_answers_def enter_raw_def install_handlers_def
      install_one_def Let_def)
  ultimately show ?thesis using s(2) st(4) by (intro exI [of _ t] exI [of _ w]) simp
qed

section \<open>No notification is lost\<close>

text \<open>Notifications and takes in any order: what the takes gave, and what is left.\<close>

datatype mail = Notified term_signal | Taken

fun mail_run :: "u32 \<Rightarrow> mail list \<Rightarrow> u32 list \<times> u32" where
  "mail_run m [] = ([], m)"
| "mail_run m (Notified s # es) = mail_run (signal_notify s m) es"
| "mail_run m (Taken # es) = (let (got, m') = signal_take m in map_prod ((#) got) id (mail_run m' es))"

lemma mail_kept:
  "fold (OR) (fst (mail_run m es)) (snd (mail_run m es)) = fold (\<lambda>e m. case e of Notified s \<Rightarrow> m OR signal_bit s | Taken \<Rightarrow> m) es m"
proof -
  have comm: "fold (OR) xs (a OR b) = fold (OR) xs a OR b" for xs and a b :: u32
    by (induction xs arbitrary: a) (simp_all add: or.assoc [symmetric])
  have mono: "fold (\<lambda>e m. case e of Notified s \<Rightarrow> m OR signal_bit s | Taken \<Rightarrow> m) es (a OR b) =
      fold (\<lambda>e m. case e of Notified s \<Rightarrow> m OR signal_bit s | Taken \<Rightarrow> m) es a OR b" for es and a b :: u32
  proof (induction es arbitrary: a)
    case (Cons e es)
    have "(a OR b) OR signal_bit s = (a OR signal_bit s) OR b" for s by (simp add: ac_simps)
    then show ?case using Cons [of a] Cons [of "a OR signal_bit s" for s] by (cases e) (simp_all only: fold.simps o_apply mail.case)
  qed simp
  show ?thesis
  proof (induction m es rule: mail_run.induct)
    case (2 m s es)
    then show ?case by (cases "signal_bit s = 0") (simp_all add: signal_notify_def Let_def)
  next
    case (3 m es)
    have "mail_run m (Taken # es) = (m # fst (mail_run 0 es), snd (mail_run 0 es))"
      by (simp add: signal_take_def map_prod_def split: prod.splits)
    then show ?case using "3" [of "(m, 0)" m 0] comm [of _ "snd (mail_run 0 es)" m]
      mono [of es 0 m] by (simp add: signal_take_def ac_simps)
  qed simp
qed

end
