(* ===== verification/Runner.thy ===== *)
theory Runner imports Terminal begin

text \<open>
  Running other programs in \<^verbatim>\<open>native/wtop_native.c\<close>: the bounded runner (\<open>l_run\<close>) with its
  captured streams, the child up to its \<open>execve\<close>, and the replacement of the whole process
  (\<open>l_execve\<close>).
\<close>

section \<open>Captured streams\<close>

record capture =
  cp_open :: bool
  cp_data :: string
  cp_capacity :: nat
  cp_truncated :: bool

definition capture_init :: "nat \<Rightarrow> capture" where
  "capture_init capacity = \<lparr>cp_open = True, cp_data = [], cp_capacity = capacity, cp_truncated = False\<rparr>"

definition capture_store :: "string \<Rightarrow> capture \<Rightarrow> capture" where
  "capture_store bs c = (let available = cp_capacity c - length (cp_data c); n = min (length bs) available in
     c\<lparr>cp_data := cp_data c @ take n bs, cp_truncated := cp_truncated c \<or> n < length bs\<rparr>)"

text \<open>The answers are those of successive reads; the result says whether draining worked.\<close>

fun capture_drain :: "string answer list \<Rightarrow> capture \<Rightarrow> (bool \<times> capture) option" where
  "capture_drain [] c = (if cp_open c then None else Some (True, c))"
| "capture_drain (Got bs # ans) c =
     (if \<not> cp_open c then Some (True, c)
      else if bs = [] then Some (True, c\<lparr>cp_open := False\<rparr>)
      else capture_drain ans (capture_store bs c))"
| "capture_drain (Failed e # ans) c =
     (if \<not> cp_open c then Some (True, c)
      else if e = EINTR then capture_drain ans c
      else if e = EAGAIN then Some (True, c)
      else Some (False, c))"

section \<open>Waiting for the child\<close>

text \<open>A call that is repeated while it is interrupted.\<close>

fun retry :: "'a answer list \<Rightarrow> 'a answer option" where
  "retry [] = None"
| "retry (Got v # ans) = Some (Got v)"
| "retry (Failed e # ans) = (if e = EINTR then retry ans else Some (Failed e))"

datatype wait_status = Exited nat | Signaled nat

datatype child_event = Kill_group | Kill_child | Reaped

record run_state =
  rs_out :: capture
  rs_err :: capture
  rs_done :: bool
  rs_status :: wait_status
  rs_timed_out :: bool
  rs_cancelled :: bool
  rs_error :: "string option"
  rs_trace :: "child_event list"

text \<open>
  What one round of the loop meets: the clock (-1 when it fails), the value of the cancel
  callback (nothing when it raised an error), whether the child has ended, its status, the
  events of the poll, and what the reads of the two streams give.
\<close>

record run_turn =
  rt_now :: int
  rt_cancel :: "bool option"
  rt_ended :: "bool answer list"
  rt_reap :: "wait_status answer list"
  rt_poll :: "(bool \<times> bool) answer"
  rt_out :: "string answer list"
  rt_err :: "string answer list"

definition run_fails :: "string \<Rightarrow> run_state \<Rightarrow> run_state" where
  "run_fails reason s = s\<lparr>rs_error := Some reason\<rparr>"

definition traced :: "child_event \<Rightarrow> run_state \<Rightarrow> run_state" where
  "traced e s = s\<lparr>rs_trace := rs_trace s @ [e]\<rparr>"

definition run_reaped :: "wait_status \<Rightarrow> run_state \<Rightarrow> run_state" where
  "run_reaped st s = (traced Reaped s)\<lparr>rs_status := st, rs_done := True\<rparr>"

text \<open>The parts of a round: \<open>Inl\<close> leaves the loop, \<open>Inr\<close> goes on, nothing has not returned.\<close>

definition turn_cancel :: "bool \<Rightarrow> run_turn \<Rightarrow> run_state \<Rightarrow> run_state + run_state" where
  "turn_cancel cancellable t s =
     (if \<not> cancellable then Inr s
      else case rt_cancel t of None \<Rightarrow> Inl (run_fails ''cancel_callback_failed'' s)
      | Some c \<Rightarrow> if c then Inl (s\<lparr>rs_cancelled := True\<rparr>) else Inr s)"

definition turn_wait :: "run_turn \<Rightarrow> run_state \<Rightarrow> (run_state + run_state) option" where
  "turn_wait t s =
     (if rs_done s then Some (Inr s)
      else case retry (rt_ended t) of None \<Rightarrow> None
      | Some (Failed _) \<Rightarrow> Some (Inl (run_fails ''waitid_failed'' s))
      | Some (Got ended) \<Rightarrow>
          if \<not> ended then Some (Inr s)
          else let s = traced Kill_group s in
            (case retry (rt_reap t) of None \<Rightarrow> None
             | Some (Failed _) \<Rightarrow> Some (Inl (run_fails ''waitpid_failed'' s))
             | Some (Got st) \<Rightarrow> Some (Inr (run_reaped st s))))"

definition turn_poll :: "run_turn \<Rightarrow> run_state \<Rightarrow> (run_state + run_state) option" where
  "turn_poll t s =
     (case rt_poll t of
        Failed e \<Rightarrow> Some (if e = EINTR then Inr s else Inl (run_fails ''poll_failed'' s))
      | Got (out_ready, err_ready) \<Rightarrow>
          (case (if out_ready then capture_drain (rt_out t) (rs_out s) else Some (True, rs_out s)) of None \<Rightarrow> None
           | Some (ok, c) \<Rightarrow>
              let s = s\<lparr>rs_out := c\<rparr> in
              if \<not> ok then Some (Inl (run_fails ''read_failed'' s))
              else (case (if err_ready then capture_drain (rt_err t) (rs_err s) else Some (True, rs_err s)) of None \<Rightarrow> None
                | Some (ok, c) \<Rightarrow>
                   let s = s\<lparr>rs_err := c\<rparr> in
                   if \<not> ok then Some (Inl (run_fails ''read_failed'' s)) else Some (Inr s))))"

definition run_round :: "int \<Rightarrow> int \<Rightarrow> bool \<Rightarrow> run_turn \<Rightarrow> run_state \<Rightarrow> (run_state + run_state) option" where
  "run_round timeout started cancellable t s =
     (let elapsed = (if 0 \<le> rt_now t \<and> 0 \<le> started then rt_now t - started else 0);
          remaining = timeout - elapsed div 1000000 in
      case turn_cancel cancellable t s of Inl s \<Rightarrow> Some (Inl s)
      | Inr s \<Rightarrow>
         (case turn_wait t s of None \<Rightarrow> None
          | Some (Inl s) \<Rightarrow> Some (Inl s)
          | Some (Inr s) \<Rightarrow> if remaining \<le> 0 then Some (Inl (s\<lparr>rs_timed_out := True\<rparr>)) else turn_poll t s))"

definition run_over :: "run_state \<Rightarrow> bool" where
  "run_over s \<longleftrightarrow> rs_done s \<and> \<not> cp_open (rs_out s) \<and> \<not> cp_open (rs_err s)"

fun run_loop :: "int \<Rightarrow> int \<Rightarrow> bool \<Rightarrow> run_turn list \<Rightarrow> run_state \<Rightarrow> run_state option" where
  "run_loop timeout started cancellable [] s = (if run_over s then Some s else None)"
| "run_loop timeout started cancellable (t # ts) s =
     (if run_over s then Some s
      else case run_round timeout started cancellable t s of None \<Rightarrow> None
      | Some (Inl s) \<Rightarrow> Some s
      | Some (Inr s) \<Rightarrow> run_loop timeout started cancellable ts s)"

text \<open>After the loop: killing, reaping, and what is left in the pipes.\<close>

record run_final =
  rf_reap :: "wait_status answer list"
  rf_out :: "string answer list"
  rf_err :: "string answer list"
  rf_now :: int

definition run_stop :: "run_state \<Rightarrow> run_state" where
  "run_stop s = (if rs_timed_out s \<or> rs_cancelled s \<or> rs_error s \<noteq> None then traced Kill_child (traced Kill_group s) else s)"

definition run_fails_first :: "string \<Rightarrow> run_state \<Rightarrow> run_state" where
  "run_fails_first reason s = (if rs_error s = None then run_fails reason s else s)"

definition run_reap :: "run_final \<Rightarrow> run_state \<Rightarrow> run_state option" where
  "run_reap f s = (if rs_done s then Some s
     else case retry (rf_reap f) of None \<Rightarrow> None
     | Some (Got st) \<Rightarrow> Some (run_reaped st s)
     | Some (Failed _) \<Rightarrow> Some (run_fails_first ''waitpid_failed'' s))"

definition run_last :: "run_final \<Rightarrow> run_state \<Rightarrow> run_state option" where
  "run_last f s =
     (case capture_drain (rf_out f) (rs_out s) of None \<Rightarrow> None
      | Some (ok, c) \<Rightarrow>
         let s = (if ok then s\<lparr>rs_out := c\<rparr> else run_fails_first ''read_failed'' (s\<lparr>rs_out := c\<rparr>)) in
         (case capture_drain (rf_err f) (rs_err s) of None \<Rightarrow> None
          | Some (ok, c) \<Rightarrow>
             let s = (if ok then s\<lparr>rs_err := c\<rparr> else run_fails_first ''read_failed'' (s\<lparr>rs_err := c\<rparr>)) in
             Some (s\<lparr>rs_out := (rs_out s)\<lparr>cp_open := False\<rparr>, rs_err := (rs_err s)\<lparr>cp_open := False\<rparr>\<rparr>)))"

definition run_end :: "run_final \<Rightarrow> run_state \<Rightarrow> run_state option" where
  "run_end f s = Option.bind (run_reap f (run_stop s)) (run_last f)"

definition run_status :: "run_state \<Rightarrow> string" where
  "run_status s = (if rs_timed_out s then ''timeout'' else if rs_cancelled s then ''cancelled''
     else if rs_error s \<noteq> None then ''error'' else if rs_status s = Exited 0 then ''ok'' else ''error'')"

definition run_table :: "int \<Rightarrow> int \<Rightarrow> run_state \<Rightarrow> lua" where
  "run_table started finished s = mk_tab
     ([(''status'', LStr (run_status s))]
      @ (if rs_timed_out s then [(''reason'', LStr ''timeout''), (''timed_out'', LBool True)]
         else if rs_cancelled s then [(''reason'', LStr ''cancelled'')]
         else (case rs_error s of Some r \<Rightarrow> [(''reason'', LStr r)] | None \<Rightarrow> []))
      @ (if rs_done s then (case rs_status s of Exited n \<Rightarrow> [(''exit_code'', LInt (int n))]
           | Signaled n \<Rightarrow> [(''signal'', LInt (int n))]) else [])
      @ [(''stdout'', LStr (cp_data (rs_out s))), (''stderr'', LStr (cp_data (rs_err s))),
         (''truncated'', LBool (cp_truncated (rs_out s) \<or> cp_truncated (rs_err s)))]
      @ (if 0 \<le> started \<and> started \<le> finished then [(''duration_ns'', LInt (finished - started))] else []))"

text \<open>The supervision of a child that was started.\<close>

definition run_first :: "nat \<Rightarrow> run_state" where
  "run_first capacity = \<lparr>rs_out = capture_init capacity, rs_err = capture_init capacity, rs_done = False,
     rs_status = Exited 0, rs_timed_out = False, rs_cancelled = False, rs_error = None, rs_trace = []\<rparr>"

definition supervise :: "int \<Rightarrow> nat \<Rightarrow> bool \<Rightarrow> int \<Rightarrow> run_turn list \<Rightarrow> run_final \<Rightarrow> (run_state \<times> lua) option" where
  "supervise timeout capacity cancellable started ts f =
     map_option (\<lambda>s. (s, run_table started (rf_now f) s))
       (Option.bind (run_loop timeout started cancellable ts (run_first capacity)) (run_end f))"

section \<open>What is captured\<close>

text \<open>The bytes a drain takes from the stream: up to its end, an empty pipe or an error.\<close>

fun drained :: "string answer list \<Rightarrow> string" where
  "drained [] = []"
| "drained (Got bs # ans) = (if bs = [] then [] else bs @ drained ans)"
| "drained (Failed e # ans) = (if e = EINTR then drained ans else [])"

definition capture_ok :: "capture \<Rightarrow> bool" where
  "capture_ok c \<longleftrightarrow> length (cp_data c) \<le> cp_capacity c \<and> (if cp_truncated c then length (cp_data c) = cp_capacity c else True)"

lemma capture_ok_simps:
  "capture_ok c \<Longrightarrow> length (cp_data c) \<le> cp_capacity c" "capture_ok (c\<lparr>cp_open := b\<rparr>) = capture_ok c"
  "capture_ok (capture_init n)"
  by (simp_all add: capture_ok_def capture_init_def)

lemma capture_store_ok: "capture_ok c \<Longrightarrow> capture_ok (capture_store bs c) \<and> cp_capacity (capture_store bs c) = cp_capacity c"
  by (auto simp: capture_ok_def capture_store_def Let_def min_def)

lemma capture_drain_ok:
  "capture_drain ans c = Some (ok, c') \<Longrightarrow> capture_ok c \<Longrightarrow> capture_ok c' \<and> cp_capacity c' = cp_capacity c"
  by (induction ans c arbitrary: ok c' rule: capture_drain.induct)
    (auto split: if_splits simp: capture_ok_simps capture_store_ok)

text \<open>A drain keeps as much as fits of exactly what was read, and marks what did not.\<close>

lemma capture_drain_exact:
  "capture_drain ans c = Some (ok, c') \<Longrightarrow> cp_open c \<Longrightarrow> length (cp_data c) \<le> cp_capacity c \<Longrightarrow>
     cp_data c' = take (cp_capacity c) (cp_data c @ drained ans)
     \<and> (cp_truncated c' \<longleftrightarrow> cp_truncated c \<or> cp_capacity c < length (cp_data c @ drained ans))"
proof (induction ans c arbitrary: ok c' rule: capture_drain.induct)
  case (2 bs ans c)
  show ?case
  proof (cases "bs = []")
    case False
    let ?c = "capture_store bs c"
    have c: "cp_open ?c" "cp_capacity ?c = cp_capacity c" "length (cp_data ?c) \<le> cp_capacity c"
      "cp_data ?c = take (cp_capacity c) (cp_data c @ bs)"
      "cp_truncated ?c \<longleftrightarrow> cp_truncated c \<or> cp_capacity c < length (cp_data c @ bs)"
      using "2.prems"(2,3) by (auto simp: capture_store_def Let_def min_def)
    have "capture_drain ans ?c = Some (ok, c')" using "2.prems"(1,2) False by simp
    then have "cp_data c' = take (cp_capacity c) (cp_data ?c @ drained ans)
        \<and> (cp_truncated c' \<longleftrightarrow> cp_truncated ?c \<or> cp_capacity c < length (cp_data ?c @ drained ans))"
      using "2.IH" [of ok c'] "2.prems"(2) False c by simp
    then show ?thesis using False c(4,5) by (auto simp: min_def)
  qed (use "2.prems" in auto)
qed (auto split: if_splits)

section \<open>The outcome\<close>

definition run_ok :: "nat \<Rightarrow> run_state \<Rightarrow> bool" where
  "run_ok capacity s \<longleftrightarrow> capture_ok (rs_out s) \<and> capture_ok (rs_err s) \<and> cp_capacity (rs_out s) = capacity
     \<and> cp_capacity (rs_err s) = capacity"

text \<open>Inside the loop: the child's group is signalled before it is reaped.\<close>

definition loop_trace :: "run_state \<Rightarrow> bool" where
  "loop_trace s \<longleftrightarrow> (if rs_done s then rs_trace s = [Kill_group, Reaped]
     else rs_trace s = [] \<or> rs_trace s = [Kill_group] \<and> rs_error s \<noteq> None)"

definition calm :: "run_state \<Rightarrow> bool" where
  "calm s \<longleftrightarrow> \<not> rs_timed_out s \<and> \<not> rs_cancelled s \<and> rs_error s = None"

lemma turn_wait_inv:
  assumes "turn_wait t s = Some r" "run_ok capacity s" "loop_trace s" "calm s"
  shows "case r of Inl s' \<Rightarrow> run_ok capacity s' \<and> loop_trace s' \<and> \<not> calm s' | Inr s' \<Rightarrow> run_ok capacity s' \<and> loop_trace s' \<and> calm s'"
  using assms
  by (auto simp: turn_wait_def run_ok_def loop_trace_def calm_def run_fails_def traced_def run_reaped_def Let_def
      split: if_splits option.splits answer.splits)

lemma turn_poll_inv:
  assumes "turn_poll t s = Some r" "run_ok capacity s" "loop_trace s" "calm s"
  shows "case r of Inl s' \<Rightarrow> run_ok capacity s' \<and> loop_trace s' \<and> \<not> calm s' | Inr s' \<Rightarrow> run_ok capacity s' \<and> loop_trace s' \<and> calm s'"
proof (cases "rt_poll t")
  case (Failed e)
  then show ?thesis using assms by (auto simp: turn_poll_def run_ok_def loop_trace_def calm_def run_fails_def)
next
  case (Got ev)
  obtain o_ready e_ready where ev: "ev = (o_ready, e_ready)" by (cases ev)
  obtain ok c where o1: "(if o_ready then capture_drain (rt_out t) (rs_out s) else Some (True, rs_out s)) = Some (ok, c)"
    using assms(1) Got ev by (auto simp: turn_poll_def split: option.splits)
  have c: "capture_ok c \<and> cp_capacity c = capacity"
    using o1 assms(2) capture_drain_ok [of "rt_out t" "rs_out s" ok c] by (auto simp: run_ok_def split: if_splits)
  show ?thesis
  proof (cases ok)
    case False
    then show ?thesis using assms Got ev o1 c
      by (auto simp: turn_poll_def Let_def run_ok_def loop_trace_def calm_def run_fails_def split: if_splits)
  next
    case True
    obtain ok' c' where e1: "(if e_ready then capture_drain (rt_err t) (rs_err s) else Some (True, rs_err s)) = Some (ok', c')"
      using assms(1) Got ev o1 True by (auto simp: turn_poll_def Let_def split: option.splits cong: if_cong)
    have c': "capture_ok c' \<and> cp_capacity c' = capacity"
      using e1 assms(2) capture_drain_ok [of "rt_err t" "rs_err s" ok' c'] by (auto simp: run_ok_def split: if_splits)
    have "r = (let s' = s\<lparr>rs_out := c, rs_err := c'\<rparr> in if ok' then Inr s' else Inl (run_fails ''read_failed'' s'))"
      using assms(1) Got ev o1 e1 True by (simp add: turn_poll_def Let_def cong: if_cong split: if_splits)
    then show ?thesis using assms(2-4) c c'
      by (auto simp: Let_def run_ok_def loop_trace_def calm_def run_fails_def)
  qed
qed

lemma run_round_inv:
  assumes "run_round timeout started cancellable t s = Some r" "run_ok capacity s" "loop_trace s" "calm s"
  shows "case r of Inl s' \<Rightarrow> run_ok capacity s' \<and> loop_trace s' \<and> \<not> calm s' | Inr s' \<Rightarrow> run_ok capacity s' \<and> loop_trace s' \<and> calm s'"
proof (cases "turn_cancel cancellable t s")
  case (Inl s1)
  then have "run_ok capacity s1 \<and> loop_trace s1 \<and> \<not> calm s1" using assms(2-4)
    by (auto simp: turn_cancel_def run_ok_def loop_trace_def calm_def run_fails_def split: if_splits option.splits)
  moreover have "r = Inl s1" using Inl assms(1) by (simp add: run_round_def Let_def)
  ultimately show ?thesis by simp
next
  case (Inr s1)
  then have s1: "s1 = s" by (auto simp: turn_cancel_def split: if_splits option.splits)
  obtain q where q: "turn_wait t s = Some q" using assms(1) Inr s1 by (auto simp: run_round_def Let_def split: option.splits)
  note w = turn_wait_inv [OF q assms(2-4)]
  show ?thesis
  proof (cases q)
    case (Inl s2)
    then show ?thesis using w assms(1) Inr s1 q by (auto simp: run_round_def Let_def)
  next
    case (Inr s2)
    note s2 = w [unfolded Inr sum.case]
    have "r = Inl (s2\<lparr>rs_timed_out := True\<rparr>) \<or> turn_poll t s2 = Some r"
      using assms(1) \<open>turn_cancel cancellable t s = Inr s1\<close> s1 q Inr by (auto simp: run_round_def Let_def split: if_splits)
    then show ?thesis using s2 turn_poll_inv [of t s2 r capacity]
      by (auto simp: run_ok_def loop_trace_def calm_def split: if_splits)
  qed
qed

lemma run_loop_inv:
  "run_loop timeout started cancellable ts s = Some s' \<Longrightarrow> run_ok capacity s \<Longrightarrow> loop_trace s \<Longrightarrow> calm s \<Longrightarrow>
     run_ok capacity s' \<and> loop_trace s' \<and> (calm s' \<longrightarrow> run_over s')"
proof (induction timeout started cancellable ts s rule: run_loop.induct)
  case (2 timeout started cancellable t ts s)
  show ?case
  proof (cases "run_over s")
    case False
    then obtain r where r: "run_round timeout started cancellable t s = Some r"
      using "2.prems"(1) by (auto split: option.splits)
    note i = run_round_inv [OF r "2.prems"(2-4)]
    show ?thesis
    proof (cases r)
      case (Inl s1)
      then show ?thesis using "2.prems"(1) False r i by auto
    next
      case (Inr s1)
      then show ?thesis using "2.IH" [OF False r Inr] "2.prems"(1) False r i by auto
    qed
  qed (use "2.prems" in auto)
qed (auto split: if_splits)


lemma run_end_result:
  assumes "run_end f s = Some s'" "run_ok capacity s" "loop_trace s"
  shows "run_ok capacity s' \<and> \<not> cp_open (rs_out s') \<and> \<not> cp_open (rs_err s')
    \<and> rs_timed_out s' = rs_timed_out s \<and> rs_cancelled s' = rs_cancelled s \<and> (calm s' \<longrightarrow> calm s) \<and> (rs_done s \<longrightarrow> rs_done s')
    \<and> (rs_done s' \<or> rs_error s' \<noteq> None)
    \<and> rs_trace s' = rs_trace s @ (if calm s then [] else [Kill_group, Kill_child]) @ (if rs_done s' \<and> \<not> rs_done s then [Reaped] else [])"
proof -
  obtain q where q: "run_reap f (run_stop s) = Some q" "run_last f q = Some s'"
    using assms(1) unfolding run_end_def bind_eq_Some_conv by blast
  have r: "run_ok capacity q \<and> rs_timed_out q = rs_timed_out s \<and> rs_cancelled q = rs_cancelled s \<and> (calm q \<longrightarrow> calm s)
    \<and> (rs_done s \<longrightarrow> rs_done q) \<and> (rs_done q \<or> rs_error q \<noteq> None)
    \<and> rs_trace q = rs_trace s @ (if calm s then [] else [Kill_group, Kill_child]) @ (if rs_done q \<and> \<not> rs_done s then [Reaped] else [])"
  proof (cases "rs_done s")
    case True
    then show ?thesis using q(1) assms(2) by (auto simp: run_reap_def run_stop_def run_ok_def calm_def traced_def)
  next
    case False
    obtain st where st: "rs_done (run_stop s) = False" "rs_timed_out (run_stop s) = rs_timed_out s"
      "rs_cancelled (run_stop s) = rs_cancelled s" "rs_error (run_stop s) = rs_error s" "run_ok capacity (run_stop s)"
      "rs_trace (run_stop s) = rs_trace s @ (if calm s then [] else [Kill_group, Kill_child])"
      using False assms(2) by (auto simp: run_stop_def calm_def traced_def run_ok_def)
    have "(\<exists>w. q = run_reaped w (run_stop s)) \<or> q = run_fails_first ''waitpid_failed'' (run_stop s)"
      using q(1) st(1) by (auto simp: run_reap_def split: option.splits answer.splits)
    then consider w where "q = run_reaped w (run_stop s)" | "q = run_fails_first ''waitpid_failed'' (run_stop s)" by blast
    then show ?thesis
    proof cases
      case 1
      then show ?thesis using st False by (simp add: run_reaped_def traced_def run_ok_def calm_def)
    next
      case 2
      then have "rs_error q \<noteq> None" "rs_trace q = rs_trace (run_stop s)" "rs_done q = rs_done (run_stop s)" "run_ok capacity q"
        "rs_timed_out q = rs_timed_out (run_stop s)" "rs_cancelled q = rs_cancelled (run_stop s)"
        using st(5) by (simp_all add: run_fails_first_def run_fails_def run_ok_def)
      then show ?thesis using st False by (auto simp: calm_def)
    qed
  qed
  obtain ok c ok' c' where d: "capture_drain (rf_out f) (rs_out q) = Some (ok, c)"
      "capture_drain (rf_err f) (rs_err q) = Some (ok', c')"
    using q(2) by (auto simp: run_last_def run_fails_first_def run_fails_def Let_def split: option.splits if_splits)
  have c: "capture_ok c \<and> cp_capacity c = capacity" "capture_ok c' \<and> cp_capacity c' = capacity"
    using r capture_drain_ok [OF d(1)] capture_drain_ok [OF d(2)] by (auto simp: run_ok_def)
  have "rs_out s' = c\<lparr>cp_open := False\<rparr> \<and> rs_err s' = c'\<lparr>cp_open := False\<rparr> \<and> rs_done s' = rs_done q
      \<and> rs_timed_out s' = rs_timed_out q \<and> rs_cancelled s' = rs_cancelled q \<and> rs_trace s' = rs_trace q
      \<and> (rs_error s' = None \<longrightarrow> rs_error q = None)"
    using q(2) d by (auto simp: run_last_def run_fails_first_def run_fails_def Let_def cong: if_cong split: if_splits)
  then have l: "rs_out s' = c\<lparr>cp_open := False\<rparr>" "rs_err s' = c'\<lparr>cp_open := False\<rparr>" "rs_done s' = rs_done q"
      "rs_timed_out s' = rs_timed_out q" "rs_cancelled s' = rs_cancelled q" "rs_trace s' = rs_trace q"
      "rs_error s' = None \<Longrightarrow> rs_error q = None" by blast+
  have "run_ok capacity s'" "\<not> cp_open (rs_out s')" "\<not> cp_open (rs_err s')"
    using c by (simp_all add: run_ok_def l(1,2) capture_ok_simps)
  moreover have "calm s' \<Longrightarrow> calm q" using l(4,5,7) by (simp add: calm_def)
  ultimately show ?thesis using r l(7) unfolding l(3-6) by (intro conjI; metis)
qed

lemma run_status_field: "field (run_table started finished s) ''status'' = LStr (run_status s)"
  by (auto simp: run_table_def field_mk_tab map_add_def split: option.splits wait_status.splits if_splits)

lemma run_status_ok: "run_status s = ''ok'' \<longleftrightarrow> calm s \<and> rs_status s = Exited 0"
  by (auto simp: run_status_def calm_def)

text \<open>
  C34. A run reports truthfully and leaves nothing running or open: when it returns, both
  streams are closed; the child was reaped, after its whole process group had been
  killed, or an error says it could not be; neither output exceeds the limit, and one marked
  truncated fills it; the status is ok exactly for a child that exited with zero and was
  neither cut off nor disturbed; and a run that timed out or was cancelled killed the child.
\<close>

theorem run_reports_truthfully:
  assumes "supervise timeout capacity cancellable started ts f = Some (s, v)"
  shows "\<not> cp_open (rs_out s) \<and> \<not> cp_open (rs_err s)
    \<and> length (cp_data (rs_out s)) \<le> capacity \<and> length (cp_data (rs_err s)) \<le> capacity
    \<and> (cp_truncated (rs_out s) \<longrightarrow> length (cp_data (rs_out s)) = capacity)
    \<and> (cp_truncated (rs_err s) \<longrightarrow> length (cp_data (rs_err s)) = capacity)
    \<and> (field v ''status'' = LStr ''ok'' \<longleftrightarrow> rs_done s \<and> rs_status s = Exited 0 \<and> calm s)
    \<and> (if rs_done s then (\<exists>es. rs_trace s = Kill_group # es \<and> Reaped \<in> set es) \<and> count_list (rs_trace s) Reaped = 1
       else rs_error s \<noteq> None)
    \<and> (rs_timed_out s \<or> rs_cancelled s \<longrightarrow> Kill_child \<in> set (rs_trace s))
    \<and> (calm s \<longrightarrow> rs_trace s = [Kill_group, Reaped])"
proof -
  obtain s1 where s1: "run_loop timeout started cancellable ts (run_first capacity) = Some s1" "run_end f s1 = Some s"
      "v = run_table started (rf_now f) s"
    using assms unfolding supervise_def by (auto simp: bind_eq_Some_conv)
  have first: "run_ok capacity (run_first capacity)" "loop_trace (run_first capacity)" "calm (run_first capacity)"
    by (simp_all add: run_ok_def run_first_def capture_ok_simps loop_trace_def calm_def capture_init_def capture_ok_def)
  note l = run_loop_inv [OF s1(1) first]
  note e = run_end_result [OF s1(2) conjunct1 [OF l] conjunct1 [OF conjunct2 [OF l]]]
  have fin: "rs_done s1" if "calm s1" using l that by (simp add: run_over_def)
  have tr: "if rs_done s1 then rs_trace s1 = [Kill_group, Reaped] else rs_trace s1 = [] \<or> rs_trace s1 = [Kill_group]"
    using l by (auto simp: loop_trace_def split: if_splits)
  have "rs_timed_out s = rs_timed_out s1" "rs_cancelled s = rs_cancelled s1" using e by blast+
  then have calm: "\<not> calm s1" if "rs_timed_out s \<or> rs_cancelled s" using that by (auto simp: calm_def)
  have "capture_ok (rs_out s)" "capture_ok (rs_err s)" "cp_capacity (rs_out s) = capacity" "cp_capacity (rs_err s) = capacity"
    using e by (simp_all add: run_ok_def)
  then have caps: "length (cp_data (rs_out s)) \<le> capacity" "length (cp_data (rs_err s)) \<le> capacity"
    "cp_truncated (rs_out s) \<Longrightarrow> length (cp_data (rs_out s)) = capacity"
    "cp_truncated (rs_err s) \<Longrightarrow> length (cp_data (rs_err s)) = capacity" by (simp_all add: capture_ok_def)
  have done_s: "rs_done s" if "calm s" using e fin that by blast
  have status: "field v ''status'' = LStr ''ok'' \<longleftrightarrow> rs_done s \<and> rs_status s = Exited 0 \<and> calm s"
    using done_s by (auto simp: s1(3) run_status_field run_status_ok)
  have trace: "rs_trace s = rs_trace s1 @ (if calm s1 then [] else [Kill_group, Kill_child]) @ (if rs_done s \<and> \<not> rs_done s1 then [Reaped] else [])"
    using e by blast
  have "if rs_done s then (\<exists>es. rs_trace s = Kill_group # es \<and> Reaped \<in> set es) \<and> count_list (rs_trace s) Reaped = 1
      else rs_error s \<noteq> None"
  proof (cases "rs_done s")
    case True
    then show ?thesis using tr fin trace by (cases "rs_done s1"; cases "calm s1") auto
  next
    case False
    then show ?thesis using e by simp
  qed
  moreover have "Kill_child \<in> set (rs_trace s)" if "rs_timed_out s \<or> rs_cancelled s" using calm [OF that] trace by simp
  moreover have "rs_trace s = [Kill_group, Reaped]" if "calm s"   proof -
    have "calm s1" using that e by blast
    then show ?thesis using fin tr trace by simp
  qed
  ultimately show ?thesis using e caps status by blast
qed


text \<open>A child that prints two bytes and ends.\<close>

definition quiet_turn :: "int \<Rightarrow> run_turn" where
  "quiet_turn now = \<lparr>rt_now = now, rt_cancel = Some False, rt_ended = [Got False], rt_reap = [], rt_poll = Got (False, False),
     rt_out = [], rt_err = []\<rparr>"

definition sample_turns :: "run_turn list" where
  "sample_turns = [(quiet_turn 0)\<lparr>rt_poll := Got (True, False), rt_out := [Failed EINTR, Got ''ok'', Failed EAGAIN]\<rparr>,
     (quiet_turn 1)\<lparr>rt_ended := [Got True], rt_reap := [Got (Exited 0)], rt_poll := Got (True, True), rt_out := [Got []], rt_err := [Got []]\<rparr>]"

definition sample_final :: run_final where
  "sample_final = \<lparr>rf_reap = [Got (Signaled 9)], rf_out = [Failed EAGAIN], rf_err = [Failed EAGAIN], rf_now = 2\<rparr>"

lemmas run_defs = supervise_def run_round_def turn_cancel_def turn_wait_def turn_poll_def run_over_def run_first_def
  run_end_def run_stop_def run_reap_def run_last_def run_fails_def run_fails_first_def traced_def run_reaped_def
  capture_init_def capture_store_def quiet_turn_def sample_final_def

lemma sample_supervised:
  "\<exists>s v. supervise 1000 8 True 0 sample_turns sample_final = Some (s, v) \<and> rs_trace s = [Kill_group, Reaped]
     \<and> cp_data (rs_out s) = ''ok'' \<and> rs_status s = Exited 0 \<and> rs_done s \<and> calm s"
  by (simp add: run_defs sample_turns_def Let_def calm_def)

lemma run_reports_truthfully_witness:
  "\<exists>s v. supervise 1000 8 True 0 sample_turns sample_final = Some (s, v) \<and> field v ''status'' = LStr ''ok''
     \<and> length (cp_data (rs_out s)) \<le> 8"
proof -
  obtain s v where s: "supervise 1000 8 True 0 sample_turns sample_final = Some (s, v)" "rs_status s = Exited 0" "rs_done s" "calm s"
    using sample_supervised by blast
  then show ?thesis using run_reports_truthfully [OF s(1)] by blast
qed

section \<open>Two defects\<close>

text \<open>
  A child that ended while a descendant outside its group still holds the pipes: the run
  times out after the child was reaped, and signals its number, and the group of that
  number, although both may belong to others by then.
\<close>

definition orphan_turns :: "run_turn list" where
  "orphan_turns = [(quiet_turn 0)\<lparr>rt_ended := [Got True], rt_reap := [Got (Exited 0)]\<rparr>, quiet_turn 2000000000]"

lemma kill_after_reap:
  "\<exists>s v. supervise 1000 8 False 0 orphan_turns sample_final = Some (s, v)
     \<and> rs_trace s = [Kill_group, Reaped, Kill_group, Kill_child]"
  by (simp add: run_defs orphan_turns_def Let_def)

text \<open>
  A child that writes as fast as it is read: the drain goes on and the deadline is not
  looked at meanwhile.
\<close>

lemma drain_ignores_deadline: "cp_open c \<Longrightarrow> capture_drain (replicate n (Got ''x'')) c = None"
proof (induction n arbitrary: c)
  case (Suc n)
  have "cp_open (capture_store ''x'' c)" using Suc.prems by (simp add: capture_store_def Let_def)
  then show ?case using Suc by simp
qed simp

section \<open>The deadline holds otherwise\<close>

definition pauses :: "string answer list \<Rightarrow> bool" where
  "pauses ans \<longleftrightarrow> list_ex (\<lambda>a. case a of Got bs \<Rightarrow> bs = [] | Failed e \<Rightarrow> e \<noteq> EINTR) ans"

definition answered :: "'a answer list \<Rightarrow> bool" where
  "answered ans \<longleftrightarrow> list_ex (\<lambda>a. a \<noteq> Failed EINTR) ans"

lemma retry_answered: "answered ans \<Longrightarrow> \<exists>a. retry ans = Some a"
  by (induction ans rule: retry.induct) (auto simp: answered_def)

lemma capture_drain_pauses: "pauses ans \<Longrightarrow> \<exists>ok c'. capture_drain ans c = Some (ok, c')"
  by (induction ans c rule: capture_drain.induct) (auto simp: pauses_def)

definition turn_answers :: "run_turn \<Rightarrow> bool" where
  "turn_answers t \<longleftrightarrow> answered (rt_ended t) \<and> answered (rt_reap t) \<and> pauses (rt_out t) \<and> pauses (rt_err t)"

lemma run_round_returns: "turn_answers t \<Longrightarrow> \<exists>r. run_round timeout started cancellable t s = Some r"
proof -
  assume a: "turn_answers t"
  have w: "\<exists>r. turn_wait t s = Some r" for s
    using a retry_answered [of "rt_ended t"] retry_answered [of "rt_reap t"]
    by (auto simp: turn_wait_def turn_answers_def Let_def split: answer.splits)
  have p: "\<exists>r. turn_poll t s = Some r" for s
  proof (cases "rt_poll t")
    case (Got ev)
    obtain ok c where o1: "capture_drain (rt_out t) (rs_out s) = Some (ok, c)"
      using a capture_drain_pauses [of "rt_out t" "rs_out s"] by (auto simp: turn_answers_def)
    obtain ok' c' where "capture_drain (rt_err t) (rs_err s) = Some (ok', c')"
      using a capture_drain_pauses [of "rt_err t" "rs_err s"] by (auto simp: turn_answers_def)
    then show ?thesis using o1 Got by (cases ev) (simp add: turn_poll_def Let_def)
  qed (simp add: turn_poll_def)
  show ?thesis
  proof (cases "turn_cancel cancellable t s")
    case (Inr s1)
    obtain q where "turn_wait t s1 = Some q" using w by blast
    then show ?thesis using Inr p by (cases q) (auto simp: run_round_def Let_def)
  qed (simp add: run_round_def Let_def)
qed

text \<open>A round after the deadline is the last one.\<close>

lemma run_round_late:
  assumes "turn_answers t" "0 \<le> started" "0 \<le> timeout" "started + timeout * 1000000 \<le> rt_now t"
  shows "\<exists>s'. run_round timeout started cancellable t s = Some (Inl s')"
proof -
  obtain r where r: "run_round timeout started cancellable t s = Some r" using run_round_returns [OF assms(1)] by blast
  have "timeout * 1000000 div 1000000 \<le> (rt_now t - started) div 1000000" by (rule zdiv_mono1) (use assms(4) in auto)
  then have late: "timeout - (rt_now t - started) div 1000000 \<le> 0" by simp
  have "0 \<le> rt_now t" using assms by simp
  then have "\<exists>s'. r = Inl s'" using r late assms(2)
    by (cases "turn_cancel cancellable t s") (auto simp: run_round_def Let_def split: sum.splits option.splits)
  then show ?thesis using r by blast
qed

text \<open>
  C35. A run returns by its deadline: when the calls are answered and the streams are empty
  now and then, the run is over at the latest in the round in which the clock has passed the
  deadline, whatever the child and its descendants do; its result depends on nothing later.
\<close>

theorem run_returns_by_deadline:
  assumes "list_all turn_answers ts" "turn_answers t" "0 \<le> started" "0 \<le> timeout" "started + timeout * 1000000 \<le> rt_now t"
    and "answered (rf_reap f)" "pauses (rf_out f)" "pauses (rf_err f)"
  shows "\<exists>r. \<forall>later. supervise timeout capacity cancellable started (ts @ t # later) f = Some r"
proof -
  have "\<exists>s'. \<forall>later. run_loop timeout started cancellable (ts @ t # later) s = Some s'" for s
    using assms(1)
  proof (induction ts arbitrary: s)
    case Nil
    obtain s' where "run_round timeout started cancellable t s = Some (Inl s')" using run_round_late [OF assms(2-5)] by blast
    then show ?case by (cases "run_over s") auto
  next
    case (Cons u us)
    obtain r where "run_round timeout started cancellable u s = Some r" using Cons.prems run_round_returns by fastforce
    then show ?case using Cons by (cases r) auto
  qed
  then obtain s1 where s1: "\<forall>later. run_loop timeout started cancellable (ts @ t # later) (run_first capacity) = Some s1" by blast
  obtain a where "retry (rf_reap f) = Some a" using retry_answered [OF assms(6)] by blast
  then obtain s2 where s2: "run_reap f (run_stop s1) = Some s2"
    by (cases "rs_done (run_stop s1)"; cases a) (auto simp: run_reap_def)
  obtain ok c ok' c' where d: "capture_drain (rf_out f) (rs_out s2) = Some (ok, c)" "capture_drain (rf_err f) (rs_err s2) = Some (ok', c')"
    using capture_drain_pauses [OF assms(7), of "rs_out s2"] capture_drain_pauses [OF assms(8), of "rs_err s2"] by blast
  have "\<exists>s3. run_last f s2 = Some s3"
    by (cases ok; cases "rs_error s2") (simp_all add: run_last_def run_fails_first_def run_fails_def Let_def d)
  then show ?thesis using s1 s2 by (auto simp: supervise_def run_end_def)
qed

lemma run_returns_by_deadline_witness:
  "\<exists>r. \<forall>later. supervise 1 8 False 0 ([] @ (quiet_turn 1000000)\<lparr>rt_reap := [Got (Exited 0)], rt_out := [Got []], rt_err := [Got []]\<rparr> # later)
     sample_final = Some r"
  by (rule run_returns_by_deadline)
    (simp_all add: quiet_turn_def sample_final_def turn_answers_def answered_def pauses_def)

end
