(* ===== verification/Exec.thy ===== *)
theory Exec imports Runner begin

text \<open>
  Starting programs in \<^verbatim>\<open>native/wtop_native.c\<close>: the options and the set-up of \<open>l_run\<close>, its
  child up to \<open>execve\<close> with the ways of closing what it inherited, and \<open>l_execve\<close>.
\<close>

section \<open>The options of a run\<close>

text \<open>
  Lua's conversions to integers and strings are parameters. The cancel callback is not a
  value of the model: \<open>None\<close> when there is none, and whether it is a function.
\<close>

record run_options =
  ro_timeout :: int
  ro_capacity :: int
  ro_lang :: "string option"
  ro_lc_all :: "string option"
  ro_runtime_dir :: "string option"
  ro_cancel :: bool

definition option_integer :: "(lua \<Rightarrow> int option) \<Rightarrow> lua \<Rightarrow> int \<Rightarrow> (lua_return + int)" where
  "option_integer to_integer v absent =
     (if v = LNil then Inr absent else case to_integer v of None \<Rightarrow> Inl (Raises ''integer expected'') | Some i \<Rightarrow> Inr i)"

definition option_string :: "(lua \<Rightarrow> string option) \<Rightarrow> lua \<Rightarrow> (string \<Rightarrow> bool) \<Rightarrow> string \<Rightarrow> (lua_return + string option)" where
  "option_string to_string v ok message =
     (if v = LNil then Inr None
      else case to_string v of None \<Rightarrow> Inl (Raises ''string expected'')
      | Some s \<Rightarrow> if NUL \<in> set s \<or> 4096 < length s \<or> \<not> ok s then Inl (Bad_argument 2 message) else Inr (Some s))"

definition run_environment :: "(lua \<Rightarrow> string option) \<Rightarrow> lua \<Rightarrow> (lua_return + string option \<times> string option \<times> string option)" where
  "run_environment to_string env =
     (case env of
        LNil \<Rightarrow> Inr (None, None, None)
      | LTab _ \<Rightarrow>
         (case option_string to_string (field env ''LANG'') (\<lambda>_. True) ''LANG must contain at most 4096 non-NUL bytes'' of
            Inl b \<Rightarrow> Inl b
          | Inr lang \<Rightarrow>
         (case option_string to_string (field env ''LC_ALL'') (\<lambda>_. True) ''LC_ALL must contain at most 4096 non-NUL bytes'' of
            Inl b \<Rightarrow> Inl b
          | Inr lc \<Rightarrow>
         (case option_string to_string (field env ''XDG_RUNTIME_DIR'') (\<lambda>s. take 1 s = ''/'')
              ''XDG_RUNTIME_DIR must be an absolute non-NUL path of at most 4096 bytes'' of
            Inl b \<Rightarrow> Inl b
          | Inr dir \<Rightarrow> Inr (lang, lc, dir))))
      | _ \<Rightarrow> Inl (Raises ''table expected''))"

definition run_parse_options :: "(lua \<Rightarrow> int option) \<Rightarrow> (lua \<Rightarrow> string option) \<Rightarrow> lua \<Rightarrow> bool option \<Rightarrow> (lua_return + run_options)" where
  "run_parse_options to_integer to_string options cancel =
     (let start = \<lparr>ro_timeout = 1000, ro_capacity = 1048576, ro_lang = None, ro_lc_all = None, ro_runtime_dir = None, ro_cancel = False\<rparr> in
      case options of
        LNil \<Rightarrow> Inr start
      | LTab _ \<Rightarrow>
         (case option_integer to_integer (field options ''timeout_ms'') 1000 of Inl b \<Rightarrow> Inl b
          | Inr timeout \<Rightarrow>
         (case option_integer to_integer (field options ''max_output_bytes'') 1048576 of Inl b \<Rightarrow> Inl b
          | Inr capacity \<Rightarrow>
         (case run_environment to_string (field options ''env'') of Inl b \<Rightarrow> Inl b
          | Inr (lang, lc, dir) \<Rightarrow>
             if cancel = Some False then Inl (Raises ''function expected'')
             else if timeout < 1 \<or> 60000 < timeout then Inl (Bad_argument 2 ''timeout_ms must be in 1..60000'')
             else if capacity < 1 \<or> 16 * 1024 * 1024 < capacity then Inl (Bad_argument 2 ''max_output_bytes must be in 1..16777216'')
             else Inr \<lparr>ro_timeout = timeout, ro_capacity = capacity, ro_lang = lang, ro_lc_all = lc, ro_runtime_dir = dir,
               ro_cancel = (cancel \<noteq> None)\<rparr>)))
      | _ \<Rightarrow> Inl (Raises ''table expected''))"

text \<open>Only strings are taken as arguments, the first an absolute path.\<close>

fun run_strings :: "lua list \<Rightarrow> (lua_return + string list)" where
  "run_strings [] = Inr []"
| "run_strings (v # vs) =
     (case v of LStr s \<Rightarrow>
        if NUL \<in> set s then Inl (Bad_argument 1 ''argv strings cannot contain NUL bytes'')
        else map_sum id ((#) s) (run_strings vs)
      | _ \<Rightarrow> Inl (Raises ''string expected''))"

definition run_arguments :: "lua list \<Rightarrow> (lua_return + string list)" where
  "run_arguments vs = (case run_strings vs of Inl b \<Rightarrow> Inl b
     | Inr ss \<Rightarrow> if take 1 (hd ss) = ''/'' then Inr ss else Inl (Bad_argument 1 ''argv[1] must be an absolute path''))"

text \<open>\<open>NAME=value\<close>, and the environment of the child.\<close>

definition environment_assignment :: "string \<Rightarrow> string \<Rightarrow> string" where
  "environment_assignment name v = name @ ''='' @ v"

definition child_environment :: "run_options \<Rightarrow> string list" where
  "child_environment opts =
     [environment_assignment ''LANG'' (case ro_lang opts of Some v \<Rightarrow> v | None \<Rightarrow> ''C''),
      environment_assignment ''LC_ALL'' (case ro_lc_all opts of Some v \<Rightarrow> v | None \<Rightarrow> ''C''),
      ''PATH=/usr/sbin:/usr/bin:/sbin:/bin'']
     @ (case ro_runtime_dir opts of Some v \<Rightarrow> [environment_assignment ''XDG_RUNTIME_DIR'' v] | None \<Rightarrow> [])"

section \<open>Starting the child\<close>

text \<open>The answers of the calls that make a pipe, and of all calls up to the child's start.\<close>

record pipe_answers =
  pp_pipe :: "unit answer"
  pp_cloexec_read :: "unit answer"
  pp_cloexec_write :: "unit answer"

record start_answers =
  st_clock :: "int answer"
  st_calloc :: bool
  st_stdout :: pipe_answers
  st_stderr :: pipe_answers
  st_nonblock_stdout :: "unit answer"
  st_nonblock_stderr :: "unit answer"
  st_buffers :: bool
  st_assignments :: bool
  st_fork :: "nat answer"
  st_setpgid :: "unit answer"

definition make_pipe :: "pipe_answers \<Rightarrow> string \<Rightarrow> string \<Rightarrow> fd_event list \<times> errno option" where
  "make_pipe a r w = (case pp_pipe a of Failed e \<Rightarrow> ([], Some e)
     | Got _ \<Rightarrow> (case pp_cloexec_read a of Failed e \<Rightarrow> ([Opens r, Opens w, Closes r, Closes w], Some e)
        | Got _ \<Rightarrow> (case pp_cloexec_write a of Failed e \<Rightarrow> ([Opens r, Opens w, Closes r, Closes w], Some e)
           | Got _ \<Rightarrow> ([Opens r, Opens w], None))))"

abbreviation (input) "OUT_R \<equiv> ''stdout read''"
abbreviation (input) "OUT_W \<equiv> ''stdout write''"
abbreviation (input) "ERR_R \<equiv> ''stderr read''"
abbreviation (input) "ERR_W \<equiv> ''stderr write''"

definition close_pipes :: "fd_event list" where
  "close_pipes = [Closes OUT_R, Closes OUT_W, Closes ERR_R, Closes ERR_W]"

text \<open>The failure or the child with the time it was started; the descriptors; what was done to
  the child.\<close>

definition run_fork :: "(errno \<Rightarrow> string) \<Rightarrow> start_answers \<Rightarrow> int \<Rightarrow> (lua_return + nat \<times> int) \<times> fd_event list \<times> child_event list" where
  "run_fork strerror a started =
     (case st_fork a of Failed e \<Rightarrow> (Inl (push_errno strerror ''fork'' e), close_pipes, [])
      | Got child \<Rightarrow>
         (case st_setpgid a of
            Failed e \<Rightarrow>
              if e \<noteq> EACCES \<and> e \<noteq> ESRCH then (Inl (push_errno strerror ''setpgid'' e), close_pipes, [Kill_child, Reaped])
              else (Inr (child, started), [Closes OUT_W, Closes ERR_W], [])
          | Got _ \<Rightarrow> (Inr (child, started), [Closes OUT_W, Closes ERR_W], [])))"

definition run_pipes :: "(errno \<Rightarrow> string) \<Rightarrow> start_answers \<Rightarrow> int \<Rightarrow> (lua_return + nat \<times> int) \<times> fd_event list \<times> child_event list" where
  "run_pipes strerror a started =
     (let (es, bad) = make_pipe (st_stdout a) OUT_R OUT_W in
      case bad of Some e \<Rightarrow> (Inl (push_errno strerror ''pipe'' e), es, [])
      | None \<Rightarrow>
     (let (fs, bad) = make_pipe (st_stderr a) ERR_R ERR_W in
      case bad of Some e \<Rightarrow> (Inl (push_errno strerror ''pipe'' e), es @ fs @ [Closes OUT_R, Closes OUT_W], [])
      | None \<Rightarrow>
         (case (case st_nonblock_stdout a of Failed e \<Rightarrow> Failed e | Got _ \<Rightarrow> st_nonblock_stderr a) of
            Failed e \<Rightarrow> (Inl (push_errno strerror ''fcntl'' e), es @ fs @ close_pipes, [])
          | Got _ \<Rightarrow>
             if \<not> st_buffers a \<or> \<not> st_assignments a
             then (Inl (Raises ''malloc: out of memory''), es @ fs @ close_pipes, [])
             else let (r, gs, cs) = run_fork strerror a started in (r, es @ fs @ gs, cs))))"

definition run_start :: "(errno \<Rightarrow> string) \<Rightarrow> start_answers \<Rightarrow> lua list \<Rightarrow> (lua_return + nat \<times> int) \<times> fd_event list \<times> child_event list" where
  "run_start strerror a argv =
     (if argv = [] \<or> 128 < length argv then (Inl (Bad_argument 1 ''argv must contain 1..128 strings''), [], [])
      else case st_clock a of Failed e \<Rightarrow> (Inl (push_errno strerror ''clock_gettime(CLOCK_MONOTONIC)'' e), [], [])
      | Got started \<Rightarrow>
         if \<not> st_calloc a then (Inl (Raises ''calloc: out of memory''), [], [])
         else (case run_arguments argv of Inl b \<Rightarrow> (Inl b, [], [])
           | Inr _ \<Rightarrow> run_pipes strerror a started))"

lemma make_pipe_held:
  "make_pipe a r w = (es, bad) \<Longrightarrow> r \<noteq> w \<Longrightarrow> hold fds es = (if bad = None then w # r # fds else fds)"
  by (auto simp: make_pipe_def split: answer.splits)

lemma run_fork_held:
  "run_fork strerror a started = (r, es, cs) \<Longrightarrow>
     hold [ERR_W, ERR_R, OUT_W, OUT_R] es = (if isl r then [] else [ERR_R, OUT_R])
     \<and> (if isl r then cs = [] \<or> cs = [Kill_child, Reaped] else cs = [])"
  by (auto simp: run_fork_def close_pipes_def split: answer.splits if_splits)

text \<open>A start leaves exactly the read ends open when it gives a child, and nothing otherwise.\<close>

lemma run_start_held:
  assumes "run_start strerror a argv = (r, es, cs)"
  shows "held es = (if isl r then [] else [ERR_R, OUT_R])"
proof -
  obtain es1 b1 where p1: "make_pipe (st_stdout a) OUT_R OUT_W = (es1, b1)" by (cases "make_pipe (st_stdout a) OUT_R OUT_W")
  obtain es2 b2 where p2: "make_pipe (st_stderr a) ERR_R ERR_W = (es2, b2)" by (cases "make_pipe (st_stderr a) ERR_R ERR_W")
  have h1: "hold fds es1 = (if b1 = None then OUT_W # OUT_R # fds else fds)" for fds by (rule make_pipe_held [OF p1]) simp
  have h2: "hold fds es2 = (if b2 = None then ERR_W # ERR_R # fds else fds)" for fds by (rule make_pipe_held [OF p2]) simp
  have pipes: "held es = (if isl r then [] else [ERR_R, OUT_R])" if "run_pipes strerror a started = (r, es, cs)" for started r es cs
  proof -
    obtain r' gs ds where f: "run_fork strerror a started = (r', gs, ds)" by (cases "run_fork strerror a started")
    show ?thesis using that p1 p2 f h1 h2 run_fork_held [OF f]
      by (auto simp: run_pipes_def close_pipes_def split: option.splits answer.splits if_splits)
  qed
  show ?thesis using assms pipes by (auto simp: run_start_def split: if_splits answer.splits sum.splits)
qed


section \<open>The child\<close>

text \<open>The descriptors of a process, each with what it is open on.\<close>

type_synonym fds = "nat \<Rightarrow> string option"

text \<open>The number a directory entry stands for.\<close>

fun descriptor_digits :: "string \<Rightarrow> nat \<Rightarrow> nat option" where
  "descriptor_digits [] v = Some v"
| "descriptor_digits (c # cs) v =
     (if \<not> is_digit c then None
      else let v = v * 10 + digit c in if 0x7fffffff < v then None else descriptor_digits cs v)"

definition descriptor_name :: "string \<Rightarrow> nat option" where
  "descriptor_name s = (if s = [] then None else descriptor_digits s 0)"

text \<open>One buffer of directory entries: each has its length at byte 16 and its name from byte 19.\<close>

function close_entries :: "nat \<Rightarrow> byte list \<Rightarrow> fds \<Rightarrow> fds option" where
  "close_entries dir buf fds =
     (if buf = [] then Some fds
      else let n = unat (get_le (take 2 (drop 16 buf)) :: u16) in
        if n = 0 \<or> length buf < n then None
        else close_entries dir (drop n buf)
          (case descriptor_name (c_string (text_of (drop 19 buf))) of
             Some d \<Rightarrow> if 3 \<le> d \<and> d \<noteq> dir then fds(d := None) else fds
           | None \<Rightarrow> fds))"
  by pat_completeness auto
termination by (relation "measure (\<lambda>(_, buf, _). length buf)") auto

declare close_entries.simps [simp del]

text \<open>Whether everything listed was closed; the directory itself is closed on every way out.\<close>

fun close_listed :: "nat \<Rightarrow> byte list answer list \<Rightarrow> fds \<Rightarrow> (bool \<times> fds) option" where
  "close_listed dir [] fds = None"
| "close_listed dir (Failed e # ans) fds =
     (if e = EINTR then close_listed dir ans fds else Some (False, fds(dir := None)))"
| "close_listed dir (Got buf # ans) fds =
     (if buf = [] then Some (True, fds(dir := None))
      else case close_entries dir buf fds of None \<Rightarrow> Some (False, fds(dir := None))
      | Some fds \<Rightarrow> close_listed dir ans fds)"

definition close_from_proc :: "nat answer \<Rightarrow> byte list answer list \<Rightarrow> fds \<Rightarrow> (bool \<times> fds) option" where
  "close_from_proc opened ans fds = (case opened of Failed _ \<Rightarrow> Some (False, fds)
     | Got dir \<Rightarrow> close_listed dir ans (fds(dir \<mapsto> ''/proc/self/fd'')))"

record child_answers =
  ch_setpgid :: "unit answer"
  ch_null :: "nat answer"
  ch_dup :: "nat \<Rightarrow> bool"
  ch_close_range :: bool
  ch_directory :: "nat answer"
  ch_entries :: "byte list answer list"
  ch_exec :: errno

definition close_inherited_fds :: "child_answers \<Rightarrow> int \<Rightarrow> fds \<Rightarrow> fds option" where
  "close_inherited_fds a maximum fds =
     (if ch_close_range a then Some (\<lambda>d. if 3 \<le> d then None else fds d)
      else map_option (\<lambda>(ok, fds).
          if ok then fds
          else let limit = (if maximum < 0 then 65536 else min maximum 1048576) in
            (\<lambda>d. if 3 \<le> d \<and> int d < limit then None else fds d))
        (close_from_proc (ch_directory a) (ch_entries a) fds))"

text \<open>The child exits with a code before \<open>execve\<close>, or is left with the descriptors it starts
  the program with.\<close>

definition child_input :: "nat \<Rightarrow> fds \<Rightarrow> fds" where
  "child_input null fds = (let fds = fds(0 := fds null) in if null \<noteq> 0 then fds(null := None) else fds)"

definition child_outputs :: "nat \<Rightarrow> nat \<Rightarrow> fds \<Rightarrow> fds" where
  "child_outputs out_w err_w fds =
     (let fds = fds(1 := fds out_w); fds = fds(2 := fds err_w) in fds(out_w := None, err_w := None))"

definition child_fds :: "child_answers \<Rightarrow> int \<Rightarrow> nat \<Rightarrow> nat \<Rightarrow> nat \<Rightarrow> nat \<Rightarrow> fds \<Rightarrow> (nat + fds) option" where
  "child_fds a maximum out_r out_w err_r err_w fds =
     (case ch_setpgid a of Failed _ \<Rightarrow> Some (Inl 126)
      | Got _ \<Rightarrow>
         (let fds = fds(out_r := None, err_r := None) in
          case ch_null a of Failed _ \<Rightarrow> Some (Inl 126)
          | Got null \<Rightarrow>
              if \<not> ch_dup a 0 \<or> \<not> ch_dup a 1 \<or> \<not> ch_dup a 2 then Some (Inl 126)
              else map_option Inr (close_inherited_fds a maximum
                (child_outputs out_w err_w (child_input null (fds(null \<mapsto> ''/dev/null'')))))))"

definition exec_failure :: "errno \<Rightarrow> nat" where
  "exec_failure e = (if e = ENOENT then 127 else 126)"

text \<open>What a program is started with: standard input that is empty, and the two pipes.\<close>

definition standard_fds :: fds where
  "standard_fds = [0 \<mapsto> ''/dev/null'', 1 \<mapsto> ''stdout'', 2 \<mapsto> ''stderr'']"

lemma close_entries_only:
  "close_entries dir buf fds = Some fds' \<Longrightarrow> fds' d = fds d \<or> 3 \<le> d \<and> d \<noteq> dir \<and> fds' d = None"
proof (induction dir buf fds rule: close_entries.induct)
  case (1 dir buf fds)
  show ?case
  proof (cases "buf = []")
    case False
    let ?n = "unat (get_le (take 2 (drop 16 buf)) :: u16)"
    let ?fds = "case descriptor_name (c_string (text_of (drop 19 buf))) of
       Some d \<Rightarrow> if 3 \<le> d \<and> d \<noteq> dir then fds(d := None) else fds | None \<Rightarrow> fds"
    have n: "\<not> (?n = 0 \<or> length buf < ?n)" "close_entries dir (drop ?n buf) ?fds = Some fds'"
      using "1.prems" False by (subst (asm) close_entries.simps, simp add: Let_def split: if_splits)+
    have "?fds d = fds d \<or> 3 \<le> d \<and> d \<noteq> dir \<and> ?fds d = None" by (auto split: option.splits)
    then show ?thesis using "1.IH" [OF False refl n] by auto
  qed (use "1.prems" in \<open>simp add: close_entries.simps\<close>)
qed

lemma close_listed_only:
  "close_listed dir ans fds = Some (ok, fds') \<Longrightarrow> fds' dir = None \<and> (d \<noteq> dir \<longrightarrow> fds' d = fds d \<or> 3 \<le> d \<and> fds' d = None)"
proof (induction dir ans fds rule: close_listed.induct)
  case (3 dir buf ans fds)
  show ?case
  proof (cases "close_entries dir buf fds")
    case (Some fds1)
    then show ?thesis using 3 close_entries_only [OF Some, of d] by (auto split: if_splits)
  qed (use 3 in \<open>auto split: if_splits\<close>)
qed (auto split: if_splits)

lemma close_from_proc_keeps:
  assumes "close_from_proc opened ans fds = Some (ok, fds')" "d < 3" "opened \<noteq> Got d"
  shows "fds' d = fds d"
  using assms close_listed_only [of _ ans _ ok fds' d] by (fastforce simp: close_from_proc_def split: answer.splits)

lemma child_standard:
  assumes "3 \<le> out_w" "3 \<le> err_w" "out_w \<noteq> err_w" "out_w \<noteq> out_r" "out_w \<noteq> err_r" "err_w \<noteq> out_r" "err_w \<noteq> err_r"
    and "fds out_w = Some ''stdout''" "fds err_w = Some ''stderr''" "ch_null a \<noteq> Got out_w" "ch_null a \<noteq> Got err_w"
    and "child_fds a maximum out_r out_w err_r err_w fds = Some (Inr fds')"
  shows "\<exists>g. close_inherited_fds a maximum g = Some fds' \<and> (\<forall>d < 3. g d = standard_fds d)"
proof -
  obtain null where null: "ch_null a = Got null" using assms(12) by (auto simp: child_fds_def Let_def split: answer.splits)
  let ?a = "fds(out_r := None, err_r := None, null \<mapsto> ''/dev/null'')"
  let ?b = "child_input null ?a"
  let ?g = "child_outputs out_w err_w ?b"
  have extra: "close_inherited_fds a maximum ?g = Some fds'" using assms(12) null
    by (simp add: child_fds_def Let_def split: answer.splits if_splits)
  have n: "out_w \<noteq> null" "err_w \<noteq> null" "0 \<noteq> out_w" "1 \<noteq> out_w" "2 \<noteq> out_w" "0 \<noteq> err_w" "1 \<noteq> err_w" "2 \<noteq> err_w"
    using assms(1,2,10,11) null by auto
  have "?b out_w = Some ''stdout''" "?b err_w = Some ''stderr''" "?b 0 = Some ''/dev/null''" using n assms(4-9)
    by (auto simp: child_input_def Let_def)
  moreover have "?g 0 = ?b 0" "?g 1 = ?b out_w" "?g 2 = ?b err_w" using n assms(3) by (auto simp: child_outputs_def Let_def)
  ultimately have "?g 0 = Some ''/dev/null''" "?g 1 = Some ''stdout''" "?g 2 = Some ''stderr''" by simp_all
  moreover have "d = 0 \<or> d = 1 \<or> d = 2" if "d < 3" for d :: nat using that by linarith
  ultimately have "?g d = standard_fds d" if "d < 3" for d using that by (fastforce simp: standard_fds_def)
  then show ?thesis using extra by blast
qed

text \<open>
  C35. A program is started with nothing of this process: whatever descriptors were open
  and whichever way of closing them the kernel offers, when the child reaches its
  \<open>execve\<close> its input is the null device and its outputs are the two pipes; with
  \<open>close_range\<close> nothing else is open at all, and without it and without a list of the open
  descriptors, nothing else below the limit. The pipes must not be standard descriptors
  themselves.
\<close>

theorem child_inherits_only_pipes:
  assumes "child_fds a maximum out_r out_w err_r err_w fds = Some (Inr fds')"
    and "3 \<le> out_w" "3 \<le> err_w" "out_w \<noteq> err_w" "out_w \<noteq> out_r" "out_w \<noteq> err_r" "err_w \<noteq> out_r" "err_w \<noteq> err_r"
    and "fds out_w = Some ''stdout''" "fds err_w = Some ''stderr''" "ch_null a \<noteq> Got out_w" "ch_null a \<noteq> Got err_w"
    and "\<forall>d. ch_directory a = Got d \<longrightarrow> 3 \<le> d"
  shows "(\<forall>d < 3. fds' d = standard_fds d)
    \<and> (ch_close_range a \<longrightarrow> fds' = standard_fds)
    \<and> (\<not> ch_close_range a \<and> (\<exists>e. ch_directory a = Failed e) \<longrightarrow>
        (\<forall>d. 3 \<le> d \<and> int d < (if maximum < 0 then 65536 else min maximum 1048576) \<longrightarrow> fds' d = None))"
proof -
  obtain g where g: "close_inherited_fds a maximum g = Some fds'" "\<forall>d < 3. g d = standard_fds d"
    using child_standard [OF assms(2-12,1)] by blast
  show ?thesis
  proof (cases "ch_close_range a")
    case True
    then have f: "fds' = (\<lambda>d. if 3 \<le> d then None else g d)" using g(1) by (simp add: close_inherited_fds_def)
    have "fds' d = standard_fds d" for d using g(2) by (cases "3 \<le> d") (auto simp: f standard_fds_def)
    then show ?thesis using True by auto
  next
    case False
    obtain ok rest where r: "close_from_proc (ch_directory a) (ch_entries a) g = Some (ok, rest)"
      using g(1) False by (auto simp: close_inherited_fds_def)
    have keep: "rest d = g d" if "d < 3" for d
      using close_from_proc_keeps [OF r that] assms(13) that by (metis not_le)
    have f: "fds' = (if ok then rest else (\<lambda>d. if 3 \<le> d \<and> int d < (if maximum < 0 then 65536 else min maximum 1048576)
        then None else rest d))" using g(1) False r by (cases ok; cases "maximum < 0") (auto simp: close_inherited_fds_def Let_def)
    moreover have "\<not> ok" if "ch_directory a = Failed e" for e using r that by (simp add: close_from_proc_def)
    ultimately show ?thesis using False keep g(2) by auto
  qed
qed

definition sample_child :: child_answers where
  "sample_child = \<lparr>ch_setpgid = Got (), ch_null = Got 3, ch_dup = (\<lambda>_. True), ch_close_range = True, ch_directory = Failed ENOSYS,
     ch_entries = [], ch_exec = ENOENT\<rparr>"

definition sample_fds :: fds where
  "sample_fds = [0 \<mapsto> ''terminal'', 1 \<mapsto> ''terminal'', 2 \<mapsto> ''terminal'', 3 \<mapsto> ''stdout read'', 4 \<mapsto> ''stdout'',
     5 \<mapsto> ''stderr read'', 6 \<mapsto> ''stderr'', 7 \<mapsto> ''secret'']"

lemma child_inherits_only_pipes_witness:
  "child_fds sample_child 1024 3 4 5 6 sample_fds = Some (Inr standard_fds)"
proof -
  obtain fds' where f: "child_fds sample_child 1024 3 4 5 6 sample_fds = Some (Inr fds')"
    by (simp add: child_fds_def child_input_def child_outputs_def sample_child_def close_inherited_fds_def Let_def)
  have "fds' = standard_fds" using child_inherits_only_pipes [OF f] by (simp add: sample_child_def sample_fds_def)
  then show ?thesis using f by simp
qed

text \<open>
  A process that runs with its input and output closed gives the pipe the number 1 for its
  write end; the child then closes its own standard output.
\<close>

lemma child_loses_output:
  "\<exists>fds'. child_fds (sample_child\<lparr>ch_null := Got 0\<rparr>) 1024 0 1 3 4
      [0 \<mapsto> ''stdout read'', 1 \<mapsto> ''stdout'', 2 \<mapsto> ''terminal'', 3 \<mapsto> ''stderr read'', 4 \<mapsto> ''stderr''] = Some (Inr fds') \<and> fds' 1 = None"
  by (simp add: child_fds_def child_input_def child_outputs_def sample_child_def close_inherited_fds_def Let_def)

section \<open>Replacing the process\<close>

definition name_start :: "char \<Rightarrow> bool" where
  "name_start c \<longleftrightarrow> c = CHR ''_'' \<or> (code CHR ''A'' \<le> code c \<and> code c \<le> code CHR ''Z'') \<or> (code CHR ''a'' \<le> code c \<and> code c \<le> code CHR ''z'')"

text \<open>The scan for the separator, at position \<open>separator\<close>.\<close>

fun assignment_scan :: "nat \<Rightarrow> string \<Rightarrow> bool" where
  "assignment_scan separator [] = False"
| "assignment_scan separator (c # cs) =
     (if c = CHR ''='' then 0 < separator
      else if name_start c \<or> (0 < separator \<and> is_digit c) then assignment_scan (separator + 1) cs
      else False)"

definition valid_environment_assignment :: "string \<Rightarrow> bool" where
  "valid_environment_assignment v = (if length v < 2 \<or> \<not> name_start (hd v) then False else assignment_scan 0 v)"

text \<open>The strings of one table, with the bytes counted so far.\<close>

fun exec_strings :: "nat \<Rightarrow> (string \<Rightarrow> bool) \<Rightarrow> string \<Rightarrow> (nat \<Rightarrow> string \<Rightarrow> bool) \<Rightarrow> nat \<Rightarrow> nat \<Rightarrow> lua list
    \<Rightarrow> (lua_return + string list \<times> nat)" where
  "exec_strings argument ok message first_ok i used [] = Inr ([], used)"
| "exec_strings argument ok message first_ok i used (v # vs) =
     (case v of LStr s \<Rightarrow>
        if NUL \<in> set s \<or> \<not> ok s then Inl (Bad_argument argument message)
        else if 1048576 - used < length s then Inl (Bad_argument argument ''argv and environment exceed 1 MiB'')
        else if \<not> first_ok i s then Inl (Bad_argument argument ''argv[1] must be an absolute path'')
        else map_sum id (\<lambda>(ss, n). (s # ss, n)) (exec_strings argument ok message first_ok (i + 1) (used + length s) vs)
      | _ \<Rightarrow> Inl (Raises ''string expected''))"

definition exec_check :: "lua list \<Rightarrow> lua list \<Rightarrow> (lua_return + string list \<times> string list)" where
  "exec_check argv env =
     (if length argv < 1 \<or> 512 < length argv then Inl (Bad_argument 1 ''argv must contain 1..512 strings'')
      else if 64 < length env then Inl (Bad_argument 2 ''environment must contain at most 64 strings'')
      else case exec_strings 1 (\<lambda>_. True) ''argv strings cannot contain NUL bytes'' (\<lambda>i s. 0 < i \<or> take 1 s = ''/'') 0 0 argv of
        Inl b \<Rightarrow> Inl b
      | Inr (args, used) \<Rightarrow>
         (case exec_strings 2 valid_environment_assignment ''environment entries must be NAME=value without NUL bytes''
              (\<lambda>_ _. True) 0 used env of
            Inl b \<Rightarrow> Inl b | Inr (assignments, _) \<Rightarrow> Inr (args, assignments)))"

text \<open>The terminal is given back before the program is replaced; the result is that of a
  replacement that failed, with the program and environment that were tried.\<close>

definition exec_process :: "(errno \<Rightarrow> string) \<Rightarrow> bool \<Rightarrow> tty_answers \<Rightarrow> errno \<Rightarrow> lua list \<Rightarrow> lua list \<Rightarrow> tty
    \<Rightarrow> tty \<times> lua_return \<times> (string list \<times> string list) option" where
  "exec_process strerror memory a failed argv env tw =
     (case exec_check argv env of Inl b \<Rightarrow> (tw, b, None)
      | Inr request \<Rightarrow>
         if \<not> memory then (tw, Raises ''calloc: out of memory'', None)
         else (emergency_restore a (restore_handlers a tw), push_errno strerror ''execve'' failed, Some request))"

section \<open>What may be executed\<close>

text \<open>An environment entry as documented: a C identifier, an equals sign, any value.\<close>

definition c_identifier :: "string \<Rightarrow> bool" where
  "c_identifier s \<longleftrightarrow> s \<noteq> [] \<and> name_start (hd s) \<and> list_all (\<lambda>c. name_start c \<or> is_digit c) (tl s)"

lemma name_start_code: "name_start c \<Longrightarrow> c \<noteq> CHR ''=''" "is_digit c \<Longrightarrow> c \<noteq> CHR ''=''"
  by (auto simp: name_start_def is_digit_def code_def)

lemma split_after_head:
  "c \<noteq> d \<Longrightarrow> (\<exists>x v. c # cs = x @ [d] @ v \<and> P x) \<longleftrightarrow> (\<exists>x v. cs = x @ [d] @ v \<and> P (c # x))"
proof
  assume "\<exists>x v. cs = x @ [d] @ v \<and> P (c # x)"
  then show "\<exists>x v. c # cs = x @ [d] @ v \<and> P x" by (metis append_Cons)
qed (auto simp: Cons_eq_append_conv)

lemma assignment_scan_later:
  "0 < n \<Longrightarrow> assignment_scan n s \<longleftrightarrow> (\<exists>x v. s = x @ ''='' @ v \<and> list_all (\<lambda>c. name_start c \<or> is_digit c) x)"
proof (induction n s rule: assignment_scan.induct)
  case (2 n c cs)
  show ?case
  proof (cases "c = CHR ''=''")
    case True
    then show ?thesis using 2 by (auto intro: exI [of _ "[]"])
  next
    case False
    have "(\<exists>x v. c # cs = x @ ''='' @ v \<and> list_all (\<lambda>c. name_start c \<or> is_digit c) x) \<longleftrightarrow>
        (name_start c \<or> is_digit c) \<and> (\<exists>x v. cs = x @ ''='' @ v \<and> list_all (\<lambda>c. name_start c \<or> is_digit c) x)"
      using split_after_head [OF False, of cs "list_all (\<lambda>c. name_start c \<or> is_digit c)"] by auto
    then show ?thesis using 2 False by auto
  qed
qed simp

lemma valid_assignment_exact:
  "valid_environment_assignment s \<longleftrightarrow> (\<exists>x v. s = x @ ''='' @ v \<and> c_identifier x)"
proof (cases s)
  case (Cons c cs)
  show ?thesis
  proof (cases "name_start c")
    case True
    have "valid_environment_assignment s \<longleftrightarrow> assignment_scan 1 cs"
      using True name_start_code(1) [OF True] by (cases cs) (auto simp: valid_environment_assignment_def Cons)
    also have "\<dots> \<longleftrightarrow> (\<exists>x v. s = x @ ''='' @ v \<and> c_identifier x)"
      using True name_start_code(1) [OF True]
        split_after_head [of c "CHR ''=''" cs c_identifier]
      by (simp add: assignment_scan_later c_identifier_def Cons)
    finally show ?thesis .
  next
    case False
    then show ?thesis by (auto simp: valid_environment_assignment_def c_identifier_def Cons Cons_eq_append_conv)
  qed
qed (simp add: valid_environment_assignment_def)

lemma exec_strings_exact:
  "used \<le> 1048576 \<Longrightarrow> exec_strings argument ok message first_ok i used vs = Inr (ss, n) \<longleftrightarrow>
     vs = map LStr ss \<and> list_all (\<lambda>s. NUL \<notin> set s \<and> ok s) ss \<and> n = used + sum_list (map length ss) \<and> n \<le> 1048576
     \<and> (\<forall>j < length ss. first_ok (i + j) (ss ! j))"
proof (induction vs arbitrary: i used ss)
  case (Cons v vs)
  show ?case
  proof (cases "\<exists>s. v = LStr s \<and> NUL \<notin> set s \<and> ok s \<and> length s \<le> 1048576 - used \<and> first_ok i s")
    case True
    then obtain s where s: "v = LStr s" "NUL \<notin> set s" "ok s" "length s \<le> 1048576 - used" "first_ok i s" by blast
    have t: "used + length s \<le> 1048576" using s(4) Cons.prems by linarith
    have "exec_strings argument ok message first_ok i used (v # vs) = Inr (ss, n) \<longleftrightarrow>
        (\<exists>ss'. ss = s # ss' \<and> exec_strings argument ok message first_ok (i + 1) (used + length s) vs = Inr (ss', n))"
      using s by (cases "exec_strings argument ok message first_ok (i + 1) (used + length s) vs") auto
    also have "\<dots> \<longleftrightarrow> v # vs = map LStr ss \<and> list_all (\<lambda>s. NUL \<notin> set s \<and> ok s) ss \<and> n = used + sum_list (map length ss)
        \<and> n \<le> 1048576 \<and> (\<forall>j < length ss. first_ok (i + j) (ss ! j))"
      using s by (cases ss) (auto simp: Cons.IH [OF t] add.assoc nth_Cons split: nat.splits)
    finally show ?thesis .
  next
    case False
    then have "\<exists>b. exec_strings argument ok message first_ok i used (v # vs) = Inl b" by (cases v) auto
    then show ?thesis using False Cons.prems by (cases ss) fastforce+
  qed
qed auto


lemma exec_check_exact:
  "exec_check argv env = Inr (args, assignments) \<longleftrightarrow>
     argv = map LStr args \<and> env = map LStr assignments \<and> args \<noteq> [] \<and> length args \<le> 512 \<and> length assignments \<le> 64
     \<and> take 1 (hd args) = ''/'' \<and> list_all (\<lambda>s. NUL \<notin> set s) (args @ assignments)
     \<and> list_all (\<lambda>s. \<exists>x v. s = x @ ''='' @ v \<and> c_identifier x) assignments
     \<and> sum_list (map length (args @ assignments)) \<le> 1048576"
  (is "?l \<longleftrightarrow> ?r")
proof -
  let ?first = "\<lambda>i s. 0 < i \<or> take 1 s = ''/''"
  let ?A = "\<lambda>n. exec_strings 1 (\<lambda>_. True) ''argv strings cannot contain NUL bytes'' ?first 0 0 argv = Inr (args, n)"
  let ?B = "\<lambda>n m. exec_strings 2 valid_environment_assignment ''environment entries must be NAME=value without NUL bytes''
      (\<lambda>_ _. True) 0 n env = Inr (assignments, m)"
  have l: "?l \<longleftrightarrow> argv \<noteq> [] \<and> length argv \<le> 512 \<and> length env \<le> 64 \<and> (\<exists>n m. ?A n \<and> ?B n m)"
    by (auto simp: exec_check_def not_less Suc_le_eq split: sum.splits)
  have A: "?A n \<longleftrightarrow> argv = map LStr args \<and> list_all (\<lambda>s. NUL \<notin> set s) args \<and> n = sum_list (map length args) \<and> n \<le> 1048576
      \<and> (\<forall>j < length args. ?first j (args ! j))" for n
    by (subst exec_strings_exact) auto
  have f: "(\<forall>j < length args. ?first j (args ! j)) \<longleftrightarrow> take 1 (hd args) = ''/''" if "args \<noteq> []"
    using that by (cases args) (auto simp: nth_Cons split: nat.splits)
  have B: "?B n m \<longleftrightarrow> env = map LStr assignments \<and> list_all (\<lambda>s. NUL \<notin> set s \<and> valid_environment_assignment s) assignments
      \<and> m = n + sum_list (map length assignments) \<and> m \<le> 1048576" if "n \<le> 1048576" for n m
    using that by (subst exec_strings_exact) auto
  show ?thesis
  proof
    assume ?l
    then obtain n m where nm: "argv \<noteq> []" "length argv \<le> 512" "length env \<le> 64" "?A n" "?B n m" using l by blast
    have n: "n \<le> 1048576" using A nm(4) by blast
    show ?r using nm A [of n] B [OF n, of m] f by (auto simp: valid_assignment_exact list_all_iff)
  next
    assume r: ?r
    let ?n = "sum_list (map length args)" let ?m = "?n + sum_list (map length assignments)"
    have "?A ?n" using r A [of ?n] f by auto
    moreover have "?B ?n ?m" using r B [of ?n ?m] by (auto simp: valid_assignment_exact list_all_iff)
    ultimately show ?l using r l by auto
  qed
qed

definition refusal :: "lua_return \<Rightarrow> bool" where
  "refusal r = (case r of Bad_argument n s \<Rightarrow> True | Raises s \<Rightarrow> True | Returns vs \<Rightarrow> False)"

lemma map_sum_Inl: "map_sum id f q = Inl b \<longleftrightarrow> q = Inl b"
  by (cases q) auto

lemma exec_strings_fails: "exec_strings argument ok message first_ok i used vs = Inl b \<Longrightarrow> refusal b"
  by (induction argument ok message first_ok i used vs rule: exec_strings.induct)
    (auto simp: refusal_def map_sum_Inl split: lua.splits if_splits)

text \<open>
  C36. A process is replaced only on a valid request, and refused requests change nothing:
  \<open>execve\<close> is tried exactly when there is memory and the arguments are 1 to 512 strings
  without NUL, the first an absolute path, the environment at most 64 entries each a C
  identifier, an equals sign and a value, and all together at most one MiB; any other
  request raises an error with the terminal untouched. Before it is tried, the terminal is
  given back as by stopping it.
\<close>

theorem exec_tried_exactly:
  assumes "exec_process strerror memory a failed argv env tw = (tw', r, tried)"
  shows "(tried = Some (args, assignments) \<longleftrightarrow> memory \<and> argv = map LStr args \<and> env = map LStr assignments
        \<and> args \<noteq> [] \<and> length args \<le> 512 \<and> length assignments \<le> 64
        \<and> take 1 (hd args) = ''/'' \<and> list_all (\<lambda>s. NUL \<notin> set s) (args @ assignments)
        \<and> list_all (\<lambda>s. \<exists>x v. s = x @ ''='' @ v \<and> c_identifier x) assignments
        \<and> sum_list (map length (args @ assignments)) \<le> 1048576)
    \<and> (if tried = None then tw' = tw \<and> refusal r
       else tw' = fst (terminal_stop a tw) \<and> r = push_errno strerror ''execve'' failed)"
proof -
  have fails: "refusal b" if "exec_check argv env = Inl b" for b
    using that exec_strings_fails by (auto simp: exec_check_def refusal_def [of "Bad_argument n s" for n s] split: if_splits sum.splits)
  have "tried = Some (args, assignments) \<longleftrightarrow> memory \<and> exec_check argv env = Inr (args, assignments)"
    using assms by (auto simp: exec_process_def split: sum.splits if_splits)
  moreover have "if tried = None then tw' = tw \<and> refusal r
       else tw' = fst (terminal_stop a tw) \<and> r = push_errno strerror ''execve'' failed"
    using assms fails by (auto simp: exec_process_def terminal_stop_def refusal_def [of "Raises s" for s] split: sum.splits if_splits)
  ultimately show ?thesis using exec_check_exact [of argv env args assignments] by blast
qed

lemma sample_exec:
  "exec_check [LStr ''/bin/a'', LStr ''b''] [LStr ''X1=y''] = Inr ([''/bin/a'', ''b''], [''X1=y''])"
  by (simp add: exec_check_def valid_environment_assignment_def name_start_def is_digit_def code_def)

lemma exec_tried_exactly_witness:
  "\<exists>tw' r. exec_process (\<lambda>_. '''') True sample_tty_answers 13 [LStr ''/bin/a'', LStr ''b''] [LStr ''X1=y''] sample_tty
      = (tw', r, Some ([''/bin/a'', ''b''], [''X1=y''])) \<and> tw' = fst (terminal_stop sample_tty_answers sample_tty)"
proof -
  obtain tw' r where run: "exec_process (\<lambda>_. '''') True sample_tty_answers 13 [LStr ''/bin/a'', LStr ''b''] [LStr ''X1=y''] sample_tty
      = (tw', r, Some ([''/bin/a'', ''b''], [''X1=y'']))"
    by (simp add: exec_process_def sample_exec)
  show ?thesis using run exec_tried_exactly [OF run, of "[''/bin/a'', ''b'']" "[''X1=y'']"] by auto
qed

end
