(* ===== verification/Files.thy ===== *)
theory Files imports LuaApi begin

text \<open>
  File operations of \<^verbatim>\<open>native/wtop_native.c\<close>: the atomic replacement of a file
  (\<open>l_atomic_write\<close>), bounded reads (\<open>l_readfile\<close>, \<open>l_readfile_at\<close>), directories and links,
  and the queries about paths.
\<close>

section \<open>Replacing a file atomically\<close>

text \<open>
  Files by their path, each with what a reader sees and what would survive a crash. Writing
  changes what is seen, \<open>fsync\<close> makes it durable, renaming moves a file as it is.
\<close>

record disk_file =
  df_seen :: string
  df_durable :: string

type_synonym disk = "string \<Rightarrow> disk_file option"

text \<open>The answers of the kernel to the calls of one run.\<close>

record write_answers =
  wa_refuses :: "nat \<Rightarrow> errno option"
  wa_writes :: "nat answer list"
  wa_fsync :: "errno option"
  wa_close :: "errno option"
  wa_rename :: "errno option"
  wa_unlink :: "errno option"

definition temporary_name :: "string \<Rightarrow> nat \<Rightarrow> u64 \<Rightarrow> string" where
  "temporary_name path pid n = path @ ''.wtop-tmp-'' @ decimal pid @ ''-'' @ decimal (unat n)"

text \<open>Up to 100 attempts; the counter is kept from run to run. An attempt that finds the
  name taken goes on, any other failure ends the loop.\<close>

datatype opened = Open_failed errno | Name_too_long | Opened_as string

fun open_temporary :: "(nat \<Rightarrow> errno option) \<Rightarrow> disk \<Rightarrow> string \<Rightarrow> nat \<Rightarrow> u64 \<Rightarrow> nat \<Rightarrow> opened \<times> u64" where
  "open_temporary refuses d path pid n 0 = (Open_failed 17, n)"
| "open_temporary refuses d path pid n (Suc k) =
     (let n' = n + 1; name = temporary_name path pid n' in
      if length path + 96 \<le> length name then (Name_too_long, n')
      else case refuses k of
        Some e \<Rightarrow> if e \<noteq> 17 then (Open_failed e, n') else open_temporary refuses d path pid n' k
      | None \<Rightarrow> if d name = None then (Opened_as name, n') else open_temporary refuses d path pid n' k)"

text \<open>The states the disk goes through are kept, the latest last.\<close>

definition append_to :: "string \<Rightarrow> string \<Rightarrow> disk \<Rightarrow> disk" where
  "append_to name data d = (case d name of Some f \<Rightarrow> d(name \<mapsto> f\<lparr>df_seen := df_seen f @ data\<rparr>) | None \<Rightarrow> d)"

fun write_loop :: "nat answer list \<Rightarrow> string \<Rightarrow> string \<Rightarrow> disk \<Rightarrow> (errno option \<times> disk \<times> disk list) option" where
  "write_loop ans name [] d = Some (None, d, [])"
| "write_loop [] name (c # cs) d = None"
| "write_loop (Failed e # ans) name (c # cs) d =
     (if e = EINTR then write_loop ans name (c # cs) d else Some (Some e, d, []))"
| "write_loop (Got n # ans) name (c # cs) d =
     (let m = min n (length (c # cs)); d' = append_to name (take m (c # cs)) d in
      if m = 0 then Some (Some EIO, d, [])
      else map_option (\<lambda>(e, d'', h). (e, d'', d' # h)) (write_loop ans name (drop m (c # cs)) d'))"

definition sync_file :: "string \<Rightarrow> disk \<Rightarrow> disk" where
  "sync_file name d = (case d name of Some f \<Rightarrow> d(name \<mapsto> f\<lparr>df_durable := df_seen f\<rparr>) | None \<Rightarrow> d)"

definition rename_file :: "string \<Rightarrow> string \<Rightarrow> disk \<Rightarrow> disk" where
  "rename_file old new d = d(new := d old, old := None)"

definition unlink_file :: "errno option \<Rightarrow> string \<Rightarrow> disk \<Rightarrow> disk" where
  "unlink_file refused name d = (case refused of None \<Rightarrow> d(name := None) | Some _ \<Rightarrow> d)"

text \<open>After the temporary file is open: the error, and the states of the disk.\<close>

definition replace_file :: "write_answers \<Rightarrow> string \<Rightarrow> string \<Rightarrow> string \<Rightarrow> disk \<Rightarrow> (errno option \<times> disk list) option" where
  "replace_file a path name data d =
     map_option (\<lambda>(e, d1, h).
       let failed = (\<lambda>e d hs. (Some e, hs @ [unlink_file (wa_unlink a) name d])); d2 = sync_file name d1 in
       case e of Some e \<Rightarrow> failed e d1 h
       | None \<Rightarrow> (case wa_fsync a of Some e \<Rightarrow> failed e d1 h
         | None \<Rightarrow> (case wa_close a of Some e \<Rightarrow> failed e d2 (h @ [d2])
           | None \<Rightarrow> (case wa_rename a of Some e \<Rightarrow> failed e d2 (h @ [d2])
             | None \<Rightarrow> (None, h @ [d2, rename_file name path d2])))))
     (write_loop (wa_writes a) name data d)"

definition atomic_write :: "(errno \<Rightarrow> string) \<Rightarrow> write_answers \<Rightarrow> nat \<Rightarrow> bool \<Rightarrow> u64 \<Rightarrow> disk \<Rightarrow> string \<Rightarrow> string \<Rightarrow> int
    \<Rightarrow> (lua_return \<times> u64 \<times> disk list) option" where
  "atomic_write strerror a pid memory counter d path data mode =
     (case check_path 1 path of Inl b \<Rightarrow> Some (b, counter, [])
      | Inr path \<Rightarrow>
         if length path = 0 \<or> 1024 * 1024 < length path
         then Some (Bad_argument 1 ''path must contain 1..1048576 bytes'', counter, [])
         else if mode < 0 \<or> 511 < mode then Some (Bad_argument 3 ''mode must be in 0000..0777'', counter, [])
         else if \<not> memory then Some (Raises ''malloc: out of memory'', counter, [])
         else case open_temporary (wa_refuses a) d path pid counter 100 of
           (Name_too_long, n) \<Rightarrow> Some (Raises ''temporary path formatting failed'', n, [])
         | (Open_failed e, n) \<Rightarrow> Some (push_errno strerror ''open temporary file'' e, n, [])
         | (Opened_as name, n) \<Rightarrow>
             (let d0 = d(name \<mapsto> \<lparr>df_seen = [], df_durable = []\<rparr>) in
              map_option (\<lambda>(e, h). (case e of None \<Rightarrow> Returns [LBool True]
                  | Some e \<Rightarrow> push_errno strerror ''atomic write'' e, n, d0 # h))
                (replace_file a path name data d0)))"

section \<open>Reading\<close>

text \<open>Each \<open>read\<close> asks for at most 16 KiB.\<close>

record read_answers =
  ra_open :: "unit answer"
  ra_fstat :: "bool answer"
  ra_reads :: "nat answer list"
  ra_content :: string
  ra_close :: "unit answer"

definition chunked :: "nat answer list \<Rightarrow> nat answer list" where
  "chunked = map (\<lambda>a. case a of Got c \<Rightarrow> Got (min c 16384) | Failed e \<Rightarrow> Failed e)"

definition read_file :: "(errno \<Rightarrow> string) \<Rightarrow> read_answers \<Rightarrow> string \<Rightarrow> int \<Rightarrow> (lua_return \<times> fd_event list) option" where
  "read_file strerror a path limit =
     (case check_path 1 path of Inl b \<Rightarrow> Some (b, [])
      | Inr path \<Rightarrow>
         if limit < 1 \<or> 67108864 < limit then Some (Bad_argument 2 ''limit must be in 1..67108864'', [])
         else (case ra_open a of Failed e \<Rightarrow> Some (push_errno strerror ''open'' e, [])
         | Got _ \<Rightarrow> map_option (\<lambda>r. (r, [Opens path, Closes path]))
            (case ra_fstat a of Failed e \<Rightarrow> Some (push_errno strerror ''fstat'' e)
             | Got regular \<Rightarrow>
                if \<not> regular then Some (push_errno strerror ''readfile_not_regular'' EINVAL)
                else map_option (\<lambda>r. case r of Inl e \<Rightarrow> push_errno strerror ''read'' e
                    | Inr data \<Rightarrow> (case ra_close a of Failed e \<Rightarrow> push_errno strerror ''close'' e
                       | Got _ \<Rightarrow> if limit < int (length data) then push_errno strerror ''readfile_limit'' EFBIG
                           else Returns [LStr data]))
                  (read_loop (chunked (ra_reads a)) (ra_content a) (nat limit + 1)))))"

fun pread_once :: "nat answer list \<Rightarrow> string \<Rightarrow> nat \<Rightarrow> nat \<Rightarrow> (errno + string) option" where
  "pread_once [] content offset n = None"
| "pread_once (Failed e # ans) content offset n = (if e = EINTR then pread_once ans content offset n else Some (Inl e))"
| "pread_once (Got c # ans) content offset n = Some (Inr (take (min c n) (drop offset content)))"

definition read_file_at :: "(errno \<Rightarrow> string) \<Rightarrow> read_answers \<Rightarrow> string \<Rightarrow> int \<Rightarrow> int \<Rightarrow> (lua_return \<times> fd_event list) option" where
  "read_file_at strerror a path offset n =
     (case check_path 1 path of Inl b \<Rightarrow> Some (b, [])
      | Inr path \<Rightarrow>
         if offset < 0 \<or> 67108864 < offset then Some (Bad_argument 2 ''offset must be in 0..67108864'', [])
         else if n < 1 \<or> 4096 < n then Some (Bad_argument 3 ''length must be in 1..4096'', [])
         else (case ra_open a of Failed e \<Rightarrow> Some (push_errno strerror ''open'' e, [])
         | Got _ \<Rightarrow> map_option (\<lambda>r. (r, [Opens path, Closes path]))
            (case ra_fstat a of Failed e \<Rightarrow> Some (push_errno strerror ''fstat'' e)
             | Got regular \<Rightarrow>
                if \<not> regular then Some (push_errno strerror ''readfile_not_regular'' EINVAL)
                else map_option (\<lambda>r. case r of Inl e \<Rightarrow> push_errno strerror ''pread'' e
                    | Inr data \<Rightarrow> (case ra_close a of Failed e \<Rightarrow> push_errno strerror ''close'' e
                       | Got _ \<Rightarrow> Returns [LStr data]))
                  (pread_once (ra_reads a) (ra_content a) (nat offset) (nat n)))))"

section \<open>Directories and links\<close>

record dir_entry =
  de_name :: string
  de_regular :: bool

text \<open>What \<open>readdir\<close> gives until the end; at most \<open>limit\<close> names are kept.\<close>

fun list_loop :: "dir_entry answer list \<Rightarrow> nat option \<Rightarrow> dir_entry list \<Rightarrow> (errno + dir_entry list \<times> bool)" where
  "list_loop [] limit kept = Inr (kept, False)"
| "list_loop (Failed e # es) limit kept = Inl e"
| "list_loop (Got d # es) limit kept =
     (if de_name d = ''.'' \<or> de_name d = ''..'' then list_loop es limit kept
      else if (case limit of Some l \<Rightarrow> l \<le> length kept | None \<Rightarrow> False) then Inr (kept, True)
      else list_loop es limit (kept @ [d]))"

definition list_directory :: "(errno \<Rightarrow> string) \<Rightarrow> unit answer \<Rightarrow> dir_entry answer list \<Rightarrow> unit answer \<Rightarrow> bool
    \<Rightarrow> string \<Rightarrow> int option \<Rightarrow> lua_return \<times> fd_event list" where
  "list_directory strerror opened entries closed with_hints path limit =
     (case check_path 1 path of Inl b \<Rightarrow> (b, [])
      | Inr path \<Rightarrow>
         if (case limit of Some l \<Rightarrow> \<not> (1 \<le> l \<and> l \<le> INT_MAX) | None \<Rightarrow> False)
         then (Bad_argument 2 ''limit must be an integer between 1 and INT_MAX'', [])
         else (case opened of Failed e \<Rightarrow> (push_errno strerror ''opendir'' e, [])
         | Got _ \<Rightarrow>
            (case list_loop entries (map_option nat limit) [] of
               Inl e \<Rightarrow> push_errno strerror ''readdir'' e
             | Inr (kept, truncated) \<Rightarrow>
                (case closed of Failed e \<Rightarrow> push_errno strerror ''closedir'' e
                 | Got _ \<Rightarrow> Returns ([mk_array (map (LStr \<circ> de_name) kept), LNil, LBool truncated]
                     @ (if with_hints then [LStr (map (\<lambda>d. if de_regular d then CHR ''f'' else CHR ''?'') kept)] else []))),
             [Opens path, Closes path])))"

text \<open>The buffer is doubled from 256 bytes until the target fits; the link may change
  meanwhile, so that each attempt has its own answer.\<close>

function readlink_loop :: "(nat \<Rightarrow> string answer) \<Rightarrow> nat \<Rightarrow> (errno + string) option" where
  "readlink_loop target k =
     (let capacity = 256 * 2 ^ k in
      case target k of Failed e \<Rightarrow> Some (Inl e)
      | Got t \<Rightarrow>
         if length (take capacity t) < capacity then Some (Inr (take capacity t))
         else if 12 \<le> k then None
         else readlink_loop target (k + 1))"
  by pat_completeness auto
termination by (relation "measure (\<lambda>(_, k). 13 - k)") auto

declare readlink_loop.simps [simp del]

definition read_link :: "(errno \<Rightarrow> string) \<Rightarrow> (nat \<Rightarrow> string answer) \<Rightarrow> string \<Rightarrow> lua_return" where
  "read_link strerror target path =
     (case check_path 1 path of Inl b \<Rightarrow> b
      | Inr path \<Rightarrow> (case readlink_loop target 0 of
          None \<Rightarrow> Returns [LNil, LStr ''readlink: target exceeds 1 MiB'', LInt 36]
        | Some (Inl e) \<Rightarrow> push_errno strerror ''readlink'' e
        | Some (Inr t) \<Rightarrow> Returns [LStr t]))"

section \<open>Queries about paths\<close>

definition access_mode :: "string \<Rightarrow> nat option" where
  "access_mode requested =
     (let s = c_string requested in
      if s = ''f'' \<or> s = [] then Some 0
      else fold (\<lambda>c m. case m of None \<Rightarrow> None
          | Some m \<Rightarrow> if c = CHR ''r'' then Some (m OR 4) else if c = CHR ''w'' then Some (m OR 2)
              else if c = CHR ''x'' then Some (m OR 1) else None) s (Some 0))"

definition access_path :: "(string \<Rightarrow> nat \<Rightarrow> bool) \<Rightarrow> string \<Rightarrow> string \<Rightarrow> lua_return" where
  "access_path access path requested =
     (case check_path 1 path of Inl b \<Rightarrow> b
      | Inr path \<Rightarrow> (case access_mode requested of
          None \<Rightarrow> Bad_argument 2 ''mode must contain only r, w, x, or f''
        | Some m \<Rightarrow> Returns [LBool (access path m)]))"

datatype file_kind = Directory | Regular | Symlink | Fifo | Socket | Character_device | Block_device | Other_kind

definition make_directory :: "(errno \<Rightarrow> string) \<Rightarrow> unit answer \<Rightarrow> file_kind answer \<Rightarrow> string \<Rightarrow> int \<Rightarrow> lua_return" where
  "make_directory strerror made status path mode =
     (case check_path 1 path of Inl b \<Rightarrow> b
      | Inr path \<Rightarrow>
         if mode < 0 \<or> 511 < mode then Bad_argument 2 ''mode must be in 0000..0777''
         else (case made of Got _ \<Rightarrow> Returns [LBool True]
         | Failed e \<Rightarrow> if e = 17 then (case status of Got Directory \<Rightarrow> Returns [LBool True]
               | Failed e' \<Rightarrow> push_errno strerror ''mkdir'' e' | Got _ \<Rightarrow> push_errno strerror ''mkdir'' e)
             else push_errno strerror ''mkdir'' e))"

definition kind_name :: "file_kind \<Rightarrow> string" where
  "kind_name k = (case k of Directory \<Rightarrow> ''directory'' | Regular \<Rightarrow> ''regular'' | Symlink \<Rightarrow> ''symlink'' | Fifo \<Rightarrow> ''fifo''
     | Socket \<Rightarrow> ''socket'' | Character_device \<Rightarrow> ''character_device'' | Block_device \<Rightarrow> ''block_device''
     | Other_kind \<Rightarrow> ''other'')"

definition path_type :: "(errno \<Rightarrow> string) \<Rightarrow> (bool \<Rightarrow> string \<Rightarrow> file_kind answer) \<Rightarrow> string \<Rightarrow> lua \<Rightarrow> lua_return" where
  "path_type strerror stat path follow_value =
     (case check_path 1 path of Inl b \<Rightarrow> b
      | Inr path \<Rightarrow>
         if (case follow_value of LNil \<Rightarrow> False | LBool _ \<Rightarrow> False | _ \<Rightarrow> True) then Bad_argument 2 ''boolean expected''
         else let follow = (follow_value = LBool True) in
           (case stat follow path of Failed e \<Rightarrow> push_errno strerror (if follow then ''stat'' else ''lstat'') e
            | Got k \<Rightarrow> Returns [LStr (kind_name k)]))"

section \<open>The old file or the new one\<close>

lemma open_temporary_fresh:
  "open_temporary refuses d path pid n k = (Opened_as name, n') \<Longrightarrow> d name = None \<and> name \<noteq> path"
proof (induction k arbitrary: n)
  case (Suc k)
  show ?case
  proof (cases "length path + 96 \<le> length (temporary_name path pid (n + 1))")
    case False
    show ?thesis
    proof (cases "refuses k = None \<and> d (temporary_name path pid (n + 1)) = None")
      case True
      then have "name = temporary_name path pid (n + 1)" using Suc.prems False by (auto simp: Let_def)
      then show ?thesis using True by (auto simp: temporary_name_def)
    qed (use Suc False in \<open>auto simp: Let_def split: option.splits if_splits\<close>)
  qed (use Suc.prems in \<open>simp add: Let_def\<close>)
qed simp

text \<open>Writing only appends to the temporary file.\<close>

definition holding :: "disk \<Rightarrow> string \<Rightarrow> string \<Rightarrow> string \<Rightarrow> disk" where
  "holding d name seen durable = d(name \<mapsto> \<lparr>df_seen = seen, df_durable = durable\<rparr>)"

lemma append_holding: "append_to name x (holding d name seen durable) = holding d name (seen @ x) durable"
  by (simp add: append_to_def holding_def)

lemma write_loop_appends:
  "write_loop ans name data d0 = Some (e, d', h) \<Longrightarrow> d0 = holding d name seen durable \<Longrightarrow>
     (\<exists>x. d' = holding d name x durable) \<and> (e = None \<longrightarrow> d' = holding d name (seen @ data) durable)
     \<and> (\<forall>s \<in> set h. \<exists>x. s = holding d name x durable)"
proof (induction ans name data d0 arbitrary: seen d' h rule: write_loop.induct)
  case (4 n ans name c cs d0)
  let ?m = "min n (length (c # cs))"
  show ?case
  proof (cases "?m = 0")
    case False
    let ?seen = "seen @ take ?m (c # cs)"
    let ?rest = "write_loop ans name (drop ?m (c # cs)) (holding d name ?seen durable)"
    have eq: "map_option (\<lambda>(e, d'', h). (e, d'', holding d name ?seen durable # h)) ?rest = Some (e, d', h)"
      using "4.prems" False by (simp only: "4.prems"(2) write_loop.simps append_holding Let_def if_False)
    then obtain d2 h2 where w: "?rest = Some (e, d2, h2)" "d' = d2" "h = holding d name ?seen durable # h2"
      by (cases ?rest) auto
    have ap: "append_to name (take ?m (c # cs)) d0 = holding d name ?seen durable" by (simp only: "4.prems"(2) append_holding)
    have w': "write_loop ans name (drop ?m (c # cs)) (append_to name (take ?m (c # cs)) d0) = Some (e, d2, h2)"
      by (simp only: ap w(1))
    have "(\<exists>x. d2 = holding d name x durable) \<and> (e = None \<longrightarrow> d2 = holding d name (?seen @ drop ?m (c # cs)) durable)
        \<and> (\<forall>s \<in> set h2. \<exists>x. s = holding d name x durable)"
      by (rule "4.IH" [OF refl refl False w' ap])
    then show ?thesis unfolding w(2,3) by (auto simp: append.assoc)
  qed (use "4.prems" in \<open>auto simp: Let_def\<close>)
qed (auto split: if_splits)

lemma holding_other: "p \<noteq> name \<Longrightarrow> holding d name x y p = d p"
  by (simp add: holding_def)

lemma sync_holding: "sync_file name (holding d name x y) = holding d name x x"
  by (simp add: sync_file_def holding_def)

lemma unlink_holding: "d name = None \<Longrightarrow> unlink_file None name (holding d name x y) = d"
  by (auto simp: unlink_file_def holding_def)

lemma unlink_other: "p \<noteq> name \<Longrightarrow> unlink_file u name d p = d p"
  by (simp add: unlink_file_def split: option.splits)

lemma rename_holding:
  "name \<noteq> path \<Longrightarrow> d name = None \<Longrightarrow>
     rename_file name path (holding d name x x) = d(path \<mapsto> \<lparr>df_seen = x, df_durable = x\<rparr>)"
  by (auto simp: rename_file_def holding_def)

definition new_file :: "string \<Rightarrow> disk_file" where
  "new_file data = \<lparr>df_seen = data, df_durable = data\<rparr>"

text \<open>The phases after the temporary file is open.\<close>

lemma replace_phases:
  assumes "replace_file a path name data (holding d name [] []) = Some (e, h)" "d name = None" "name \<noteq> path"
  shows "(e \<noteq> None \<longrightarrow> (\<forall>s \<in> set h. s path = d path) \<and> (wa_unlink a = None \<longrightarrow> h \<noteq> [] \<and> last h = d))
    \<and> (e = None \<longrightarrow> h \<noteq> [] \<and> last h = d(path \<mapsto> new_file data) \<and> (\<forall>s \<in> set (butlast h). s path = d path))"
proof -
  obtain e1 d1 h1 where w: "write_loop (wa_writes a) name data (holding d name [] []) = Some (e1, d1, h1)"
    using assms(1) by (auto simp: replace_file_def)
  note ap = write_loop_appends [OF w refl]
  have p: "path \<noteq> name" using assms(3) by simp
  have h1: "\<forall>s \<in> set h1. s path = d path" using ap holding_other [OF p] by metis
  obtain x where d1: "d1 = holding d name x []" using ap by blast
  have u: "unlink_file (wa_unlink a) name (holding d name x y) path = d path" for x y
    using unlink_other [OF p] holding_other [OF p] by simp
  show ?thesis
  proof (cases e1)
    case (Some e')
    then show ?thesis using assms(1,2) w h1 d1 u unlink_holding [of d name, OF assms(2)]
      by (auto simp: replace_file_def Let_def)
  next
    case None
    then have full: "d1 = holding d name data []" using ap by simp
    note s = sync_holding [of name d data "[]"]
    note r = rename_holding [of name path d data, OF assms(3,2)]
    show ?thesis
      using assms(1,2) w h1 None u unlink_holding [of d name, OF assms(2)] holding_other [OF p]
      by (auto simp: replace_file_def Let_def full s r new_file_def butlast_append split: option.splits)
  qed
qed

text \<open>
  C28. Replacing a file is atomic, also across a crash: at every moment of the run the path
  holds either the file it held before or the complete new content, which was made durable
  before it became visible; a run that
  fails never touched it, and, when the temporary file can be removed, leaves the whole disk
  as it was; a run that succeeds changed nothing but the path.
\<close>

theorem atomic_write_atomic:
  assumes "atomic_write strerror a pid memory counter d path data mode = Some (r, counter', h)"
  shows "(\<forall>s \<in> set h. s path = d path \<or> s path = Some (new_file data))
    \<and> (succeeds r \<longrightarrow> h \<noteq> [] \<and> last h = d(path \<mapsto> new_file data))
    \<and> (\<not> succeeds r \<longrightarrow> (\<forall>s \<in> set h. s path = d path) \<and> (wa_unlink a = None \<longrightarrow> h = [] \<or> last h = d))"
proof (cases "h = []")
  case True
  have "\<not> succeeds r"
  proof (cases "open_temporary (wa_refuses a) d path pid counter 100")
    case (Pair o1 n)
    then show ?thesis using assms True
      by (cases o1) (auto simp: atomic_write_def check_path_def Let_def split: if_splits)
  qed
  then show ?thesis using True by simp
next
  case False
  then obtain name n where o: "open_temporary (wa_refuses a) d path pid counter 100 = (Opened_as name, n)"
    using assms by (auto simp: atomic_write_def check_path_def split: if_splits opened.splits prod.splits)
  note fresh = open_temporary_fresh [OF o]
  obtain e h' where e: "replace_file a path name data (holding d name [] []) = Some (e, h')"
      "h = holding d name [] [] # h'"
      "r = (case e of None \<Rightarrow> Returns [LBool True] | Some e \<Rightarrow> push_errno strerror ''atomic write'' e)"
    using assms False o by (auto simp: atomic_write_def check_path_def holding_def Let_def split: if_splits)
  note ph = replace_phases [OF e(1)]
  have p: "holding d name [] [] path = d path" using fresh by (auto simp: holding_def)
  show ?thesis
  proof (cases e)
    case None
    have "set h' = set (butlast h') \<union> {last h'}" using ph fresh None
      by (metis append_butlast_last_id list.simps(15) set_append set_empty2)
    then show ?thesis using ph fresh None e(2,3) p by auto
  next
    case (Some e')
    then show ?thesis using ph fresh e(2,3) p by auto
  qed
qed

text \<open>A kernel that takes the data in two pieces.\<close>

definition sample_answers :: write_answers where
  "sample_answers = \<lparr>wa_refuses = (\<lambda>_. None), wa_writes = [Got 1, Failed EINTR, Got 9], wa_fsync = None, wa_close = None,
     wa_rename = None, wa_unlink = None\<rparr>"

definition sample_disk :: disk where
  "sample_disk = [''c'' \<mapsto> new_file ''old'']"

lemma sample_write:
  "\<exists>n h. atomic_write (\<lambda>_. '''') sample_answers 7 True 0 sample_disk ''c'' ''new'' 384 = Some (Returns [LBool True], n, h)"
proof -
  let ?name = "temporary_name ''c'' 7 1"
  have "decimal 7 = ''7''" "decimal 1 = ''1''" by code_simp+
  then have t: "?name = ''c.wtop-tmp-7-1''" by (simp add: temporary_name_def)
  have "open_temporary (wa_refuses sample_answers) sample_disk ''c'' 7 0 100 = (Opened_as ?name, 1)"
    using t by (simp add: numeral_eq_Suc sample_answers_def sample_disk_def Let_def)
  moreover have "\<exists>d h. write_loop (wa_writes sample_answers) ?name ''new'' d0 = Some (None, d, h)" for d0
    by (simp add: sample_answers_def Let_def)
  then have "\<exists>h. replace_file sample_answers ''c'' ?name ''new'' d0 = Some (None, h)" for d0
    by (fastforce simp: replace_file_def sample_answers_def Let_def)
  then obtain h where "replace_file sample_answers ''c'' ?name ''new''
      (sample_disk(?name \<mapsto> \<lparr>df_seen = [], df_durable = []\<rparr>)) = Some (None, h)" by blast
  ultimately show ?thesis
    by (simp add: atomic_write_def check_path_def c_string_def Let_def)
qed

lemma atomic_write_atomic_witness:
  "\<exists>r n h. atomic_write (\<lambda>_. '''') sample_answers 7 True 0 sample_disk ''c'' ''new'' 384 = Some (r, n, h)
     \<and> h \<noteq> [] \<and> last h = sample_disk(''c'' \<mapsto> new_file ''new'')"
proof -
  obtain n h where run: "atomic_write (\<lambda>_. '''') sample_answers 7 True 0 sample_disk ''c'' ''new'' 384 = Some (Returns [LBool True], n, h)"
    using sample_write by blast
  show ?thesis using run atomic_write_atomic [OF run] by auto
qed

section \<open>A kernel that cooperates is enough\<close>

lemma temporary_name_fits:
  assumes "pid < 10 ^ 20" shows "length (temporary_name path pid n) < length path + 96"
proof -
  have "unat n < 2 ^ 64" by (rule unsigned_less [THEN less_le_trans]) simp
  then have "unat n < 10 ^ 20" by simp
  then have "length (decimal (unat n)) \<le> 20" using decimal_length [of "unat n" 19] by simp
  moreover have "length (decimal pid) \<le> 20" using decimal_length [of pid 19] assms by simp
  ultimately show ?thesis by (simp add: temporary_name_def)
qed

text \<open>One free name among the attempts is found, when no other error intervenes.\<close>

lemma open_temporary_finds:
  assumes "pid < 10 ^ 20"
  shows "\<forall>i < k. refuses i = None \<or> refuses i = Some 17 \<Longrightarrow> j < k \<Longrightarrow> refuses (k - 1 - j) = None \<Longrightarrow>
     d (temporary_name path pid (n + of_nat j + 1)) = None \<Longrightarrow>
     \<exists>name n'. open_temporary refuses d path pid n k = (Opened_as name, n')"
proof (induction k arbitrary: n j)
  case (Suc k)
  have fits: "\<not> length path + 96 \<le> length (temporary_name path pid (n + 1))"
    using temporary_name_fits [OF assms] by (simp add: not_le)
  show ?case
  proof (cases "refuses k = None \<and> d (temporary_name path pid (n + 1)) = None")
    case True
    then show ?thesis using fits by (simp add: Let_def)
  next
    case False
    then obtain i where j: "j = Suc i" using Suc.prems by (cases j) auto
    have "\<exists>name n'. open_temporary refuses d path pid (n + 1) k = (Opened_as name, n')"
      by (rule Suc.IH [of i]) (use Suc.prems in \<open>auto simp: j add.assoc add.commute\<close>)
    moreover have "refuses k = None \<or> refuses k = Some 17" using Suc.prems(1) by simp
    ultimately show ?thesis using fits False by (auto simp: Let_def)
  qed
qed simp

text \<open>The bytes the kernel is ready to take, when every write makes progress or is interrupted.\<close>

definition progress :: "nat answer \<Rightarrow> bool" where
  "progress a = (case a of Got n \<Rightarrow> 0 < n | Failed e \<Rightarrow> e = EINTR)"

definition taken :: "nat answer \<Rightarrow> nat" where
  "taken a = (case a of Got n \<Rightarrow> n | Failed _ \<Rightarrow> 0)"

lemma write_loop_finishes:
  "list_all progress ans \<Longrightarrow> length data \<le> sum_list (map taken ans) \<Longrightarrow>
     \<exists>d' h. write_loop ans name data d = Some (None, d', h)"
proof (induction ans name data d rule: write_loop.induct)
  case (4 n ans name c cs d)
  then have "0 < n" by (simp add: progress_def)
  then have m: "min n (length (c # cs)) \<noteq> 0" by simp
  have "length (drop (min n (length (c # cs))) (c # cs)) \<le> sum_list (map taken ans)"
    using "4.prems"(2) by (simp add: taken_def [of "Got n"])
  with "4.IH" [OF refl refl m] obtain d' h where
    "write_loop ans name (drop (min n (length (c # cs))) (c # cs)) (append_to name (take (min n (length (c # cs))) (c # cs)) d)
       = Some (None, d', h)" using "4.prems" by auto
  then show ?case using m by (simp del: drop_Suc_Cons take_Suc_Cons add: Let_def)
qed (auto simp: progress_def taken_def)



end
