(* ===== verification/Devices.thy ===== *)
theory Devices imports LuaApi "HOL-Library.Multiset" begin

text \<open>
  Fixed, read-only queries of device nodes: the NVMe health log
  (\<^verbatim>\<open>native/wtop_linux_nvme.h\<close>, \<open>l_read_nvme_health\<close>), the processor's performance registers
  (\<open>l_read_cpu_perf_limits\<close>, \<open>l_read_cpu_clock_counters\<close>) and the counting events of
  \<^verbatim>\<open>native/wtop_linux_perf.h\<close>.
\<close>

section \<open>The NVMe health log\<close>

record node =
  nd_block :: bool
  nd_char :: bool
  nd_major :: nat
  nd_minor :: nat

record nvme_admin =
  na_opcode :: byte
  na_flags :: byte
  na_reserved :: u16
  na_nsid :: u32
  na_cdw2 :: u32
  na_cdw3 :: u32
  na_metadata :: u64
  na_addr :: u64
  na_metadata_len :: u32
  na_data_len :: u32
  na_cdw10 :: u32
  na_cdw11 :: u32
  na_cdw12 :: u32
  na_cdw13 :: u32
  na_cdw14 :: u32
  na_cdw15 :: u32
  na_timeout_ms :: u32
  na_result :: u32

text \<open>The layout in memory, of which the code asserts the size and two offsets.\<close>

definition nvme_admin_bytes :: "nvme_admin \<Rightarrow> byte list" where
  "nvme_admin_bytes c = put_le 1 (na_opcode c) @ put_le 1 (na_flags c) @ put_le 2 (na_reserved c) @ put_le 4 (na_nsid c)
     @ put_le 4 (na_cdw2 c) @ put_le 4 (na_cdw3 c) @ put_le 8 (na_metadata c) @ put_le 8 (na_addr c)
     @ put_le 4 (na_metadata_len c) @ put_le 4 (na_data_len c) @ put_le 4 (na_cdw10 c) @ put_le 4 (na_cdw11 c)
     @ put_le 4 (na_cdw12 c) @ put_le 4 (na_cdw13 c) @ put_le 4 (na_cdw14 c) @ put_le 4 (na_cdw15 c)
     @ put_le 4 (na_timeout_ms c) @ put_le 4 (na_result c)"

lemma nvme_admin_layout:
  "length (nvme_admin_bytes c) = 72" "take 8 (drop 24 (nvme_admin_bytes c)) = put_le 8 (na_addr c)"
  "take 4 (drop 40 (nvme_admin_bytes c)) = put_le 4 (na_cdw10 c)"
  by (simp_all add: nvme_admin_bytes_def)

text \<open>
  The answers of the kernel: the node behind the descriptor, the disk sequence number
  before and after, and what the controller answers to a command, with the data it leaves.
\<close>

record nvme_kernel =
  nk_open :: "unit answer"
  nk_stat :: "node answer"
  nk_before :: "u64 answer"
  nk_admin :: "nvme_admin \<Rightarrow> nat answer \<times> byte list"
  nk_after :: "u64 answer"

definition nvme_health_command :: "u64 \<Rightarrow> nvme_admin" where
  "nvme_health_command address =
     \<lparr>na_opcode = 2, na_flags = 0, na_reserved = 0, na_nsid = - 1, na_cdw2 = 0, na_cdw3 = 0, na_metadata = 0,
      na_addr = address, na_metadata_len = 0, na_data_len = 512,
      na_cdw10 = push_bit 16 127 OR push_bit 15 1 OR 2, na_cdw11 = 0, na_cdw12 = 0, na_cdw13 = 0, na_cdw14 = 0,
      na_cdw15 = 0, na_timeout_ms = 1000, na_result = 0\<rparr>"

text \<open>The error, or the completion status with the buffer; and the commands sent.\<close>

definition nvme_health_read :: "nvme_kernel \<Rightarrow> u64 \<Rightarrow> nat \<Rightarrow> nat \<Rightarrow> u64 \<Rightarrow> (errno + nat \<times> byte list) \<times> nvme_admin list" where
  "nvme_health_read k address expected_major expected_minor expected =
     (case nk_stat k of Failed e \<Rightarrow> (Inl e, [])
      | Got node \<Rightarrow>
         if \<not> nd_block node \<or> nd_major node \<noteq> expected_major \<or> nd_minor node \<noteq> expected_minor \<or> expected = 0
         then (Inl ESTALE, [])
         else case nk_before k of Failed e \<Rightarrow> (Inl e, [])
         | Got before \<Rightarrow>
            if before \<noteq> expected then (Inl ESTALE, [])
            else let command = nvme_health_command address; (status, left) = nk_admin k command;
                bytes = take 512 (left @ replicate 512 0) in
              (case status of Failed e \<Rightarrow> Inl e
               | Got s \<Rightarrow>
                  if s \<noteq> 0 then Inr (s, bytes)
                  else (case nk_after k of Failed e \<Rightarrow> Inl e
                    | Got after \<Rightarrow> if after \<noteq> expected then Inl ESTALE else Inr (0, bytes)), [command]))"

definition starts_digit :: "string \<Rightarrow> bool" where
  "starts_digit s = (case s of c # _ \<Rightarrow> is_digit c | [] \<Rightarrow> False)"

definition nvme_name :: "string \<Rightarrow> (lua_return + string)" where
  "nvme_name name =
     (if \<not> (length name \<le> 32 \<and> take 4 name = ''nvme'' \<and> starts_digit (drop 4 name))
      then Inl (Bad_argument 1 ''expected a whole NVMe namespace name'')
      else let (controller, rest, over) = strtoull (drop 4 name) in
        if \<not> (\<not> over \<and> controller \<le> 4294967295 \<and> take 1 rest = ''n'' \<and> starts_digit (drop 1 rest))
        then Inl (Bad_argument 1 ''invalid NVMe controller name'')
        else let (namespace_id, rest, over) = strtoull (drop 1 rest) in
          if \<not> (\<not> over \<and> namespace_id \<le> 4294967295 \<and> rest = [])
          then Inl (Bad_argument 1 ''invalid NVMe namespace name'')
          else let canonical = ''nvme'' @ decimal (unat controller) @ ''n'' @ decimal (unat namespace_id) in
            if name = canonical \<and> 0 < namespace_id then Inr canonical
            else Inl (Bad_argument 1 ''expected a canonical NVMe namespace name''))"

definition read_nvme_health :: "(errno \<Rightarrow> string) \<Rightarrow> nvme_kernel \<Rightarrow> u64 \<Rightarrow> string \<Rightarrow> int \<Rightarrow> int \<Rightarrow> int
    \<Rightarrow> lua_return \<times> nvme_admin list \<times> fd_event list" where
  "read_nvme_health strerror k address name device_major device_minor sequence =
     (case case_sum Inl nvme_name (check_path 1 name) of Inl b \<Rightarrow> (b, [], [])
      | Inr canonical \<Rightarrow>
         if \<not> (0 \<le> device_major \<and> device_major \<le> 1048575) then (Bad_argument 2 ''invalid device major'', [], [])
         else if \<not> (0 \<le> device_minor \<and> device_minor \<le> 1048575) then (Bad_argument 3 ''invalid device minor'', [], [])
         else if \<not> 0 < sequence then (Bad_argument 4 ''disk sequence must be positive'', [], [])
         else let path = ''/dev/'' @ canonical in
           (case nk_open k of Failed e \<Rightarrow> (push_errno strerror ''open NVMe namespace'' e, [], [])
            | Got _ \<Rightarrow>
               let (r, sent) = nvme_health_read k address (nat device_major) (nat device_minor) (word_of_int sequence) in
               (case r of Inl e \<Rightarrow> push_errno strerror ''read NVMe health'' e
                | Inr (s, bytes) \<Rightarrow>
                   if 0 < s then Returns [LNil, LStr ''NVMe health command status'', LInt 0, LInt (int s)]
                   else Returns [LStr (text_of bytes)], sent, [Opens path, Closes path])))"

section \<open>The processor's registers\<close>

text \<open>
  Each register is one \<open>pread\<close> of eight bytes, repeated while interrupted; the reads at an
  offset have their own answers, and each bracket its two clock readings.
\<close>

record msr_kernel =
  mk_open :: "unit answer"
  mk_stat :: "node answer"
  mk_reads :: "nat \<Rightarrow> byte list answer list"
  mk_started :: "nat \<Rightarrow> int answer"
  mk_finished :: "nat \<Rightarrow> int answer"
  mk_close :: "unit answer"

fun pread_retry :: "byte list answer list \<Rightarrow> (errno + byte list) option" where
  "pread_retry [] = None"
| "pread_retry (Failed e # ans) = (if e = EINTR then pread_retry ans else Some (Inl e))"
| "pread_retry (Got bs # ans) = Some (Inr (take 8 bs))"

text \<open>Opening the register file of a processor, and what follows when it is the right device.\<close>

definition with_msr :: "(errno \<Rightarrow> string) \<Rightarrow> msr_kernel \<Rightarrow> int \<Rightarrow> lua_return option \<Rightarrow> (lua_return \<times> fd_event list) option" where
  "with_msr strerror k cpu body =
     (if \<not> (0 \<le> cpu \<and> cpu \<le> 8191) then Some (Bad_argument 1 ''CPU must be in 0..8191'', [])
      else let path = ''/dev/cpu/'' @ decimal (nat cpu) @ ''/msr'' in
        (case mk_open k of Failed e \<Rightarrow> Some (push_errno strerror ''open CPU MSR'' e, [])
         | Got _ \<Rightarrow> map_option (\<lambda>r. (r, [Opens path, Closes path]))
            (case mk_stat k of Failed e \<Rightarrow> Some (push_errno strerror ''stat CPU MSR'' e)
             | Got node \<Rightarrow>
                if \<not> nd_char node \<or> nd_major node \<noteq> 202 \<or> nd_minor node \<noteq> nat cpu
                then Some (push_errno strerror ''unexpected CPU MSR device'' EINVAL)
                else body)))"

definition close_msr :: "(errno \<Rightarrow> string) \<Rightarrow> msr_kernel \<Rightarrow> lua list \<Rightarrow> lua_return" where
  "close_msr strerror k vs = (case mk_close k of Failed e \<Rightarrow> push_errno strerror ''close CPU MSR'' e | Got _ \<Rightarrow> Returns vs)"

definition read_cpu_perf_limits :: "(errno \<Rightarrow> string) \<Rightarrow> msr_kernel \<Rightarrow> int \<Rightarrow> (lua_return \<times> fd_event list) option" where
  "read_cpu_perf_limits strerror k cpu = with_msr strerror k cpu
     (map_option (\<lambda>r. case r of Inl e \<Rightarrow> push_errno strerror ''read CPU performance limits'' e
        | Inr bs \<Rightarrow> if length bs \<noteq> 8 then push_errno strerror ''short CPU MSR read'' EIO
            else close_msr strerror k [LStr (text_of bs)])
       (pread_retry (mk_reads k 0x64f)))"

definition read_counter :: "(errno \<Rightarrow> string) \<Rightarrow> msr_kernel \<Rightarrow> nat \<Rightarrow> nat \<Rightarrow> (lua_return + int \<times> int \<times> byte list) option" where
  "read_counter strerror k i offset =
     (case mk_started k i of Failed e \<Rightarrow> Some (Inl (push_errno strerror ''clock CPU counter read'' e))
      | Got started \<Rightarrow> map_option (\<lambda>r. case r of Inl e \<Rightarrow> Inl (push_errno strerror ''read CPU clock counter'' e)
          | Inr bs \<Rightarrow> if length bs \<noteq> 8 then Inl (push_errno strerror ''short CPU counter read'' EIO)
              else let finished = (case mk_finished k i of Got t \<Rightarrow> t | Failed _ \<Rightarrow> - 1) in
                if finished < started then Inl (push_errno strerror ''CPU counter clock regression'' EIO)
                else Inr (started, finished, bs))
        (pread_retry (mk_reads k offset)))"

definition clock_counters :: "(errno \<Rightarrow> string) \<Rightarrow> msr_kernel \<Rightarrow> lua_return option" where
  "clock_counters strerror k =
     (case read_counter strerror k 0 0xe8 of None \<Rightarrow> None | Some (Inl b) \<Rightarrow> Some b
      | Some (Inr (s0, f0, b0)) \<Rightarrow> (case read_counter strerror k 1 0xe7 of None \<Rightarrow> None | Some (Inl b) \<Rightarrow> Some b
          | Some (Inr (s1, f1, b1)) \<Rightarrow> Some (close_msr strerror k [LStr (text_of (b0 @ b1)),
              mk_tab [(''aperf_started_ns'', LInt s0), (''aperf_finished_ns'', LInt f0),
                (''mperf_started_ns'', LInt s1), (''mperf_finished_ns'', LInt f1)]])))"

definition read_cpu_clock_counters :: "(errno \<Rightarrow> string) \<Rightarrow> msr_kernel \<Rightarrow> int \<Rightarrow> (lua_return \<times> fd_event list) option" where
  "read_cpu_clock_counters strerror k cpu = with_msr strerror k cpu (clock_counters strerror k)"

section \<open>Counting events\<close>

text \<open>
  The rows Lua asks for, the answers for each, and the two clock readings. A packet is what
  one read of a counter gives: the count and the times it was enabled and running.
\<close>

record perf_attr =
  pa_type :: u32
  pa_size :: u32
  pa_config :: u64
  pa_config1 :: u64
  pa_config2 :: u64
  pa_disabled :: bool
  pa_read_format :: u64

record perf_row =
  pr_open :: bool
  pr_error :: int
  pr_cpu :: int
  pr_type :: u32
  pr_config :: u64
  pr_config1 :: u64
  pr_config2 :: u64
  pr_value :: u64
  pr_enabled :: u64
  pr_running :: u64

record perf_kernel =
  pk_event_open :: "nat \<Rightarrow> perf_attr \<Rightarrow> int \<Rightarrow> bool \<Rightarrow> unit answer"
  pk_cloexec :: "nat \<Rightarrow> unit answer"
  pk_enable :: "nat \<Rightarrow> unit answer"
  pk_disable :: "nat \<Rightarrow> unit answer"
  pk_reads :: "nat \<Rightarrow> u64 list answer list"
  pk_sleeps :: "unit answer list"
  pk_started :: "int answer"
  pk_finished :: "int answer"

definition perf_now :: "int answer \<Rightarrow> int \<times> errno" where
  "perf_now a = (case a of Got t \<Rightarrow> (t, 0) | Failed e \<Rightarrow> (- 1, e))"

text \<open>\<open>to_integer\<close> is Lua's conversion to integers; where it fails an error is raised.\<close>

definition perf_integer :: "(lua \<Rightarrow> int option) \<Rightarrow> lua \<Rightarrow> string \<Rightarrow> bool \<Rightarrow> int option" where
  "perf_integer to_integer row name optional =
     (let v = field row name in if optional \<and> v = LNil then Some 0 else to_integer v)"

definition perf_request :: "(lua \<Rightarrow> int option) \<Rightarrow> lua \<Rightarrow> (lua_return + perf_row)" where
  "perf_request to_integer row =
     (case row of LTab _ \<Rightarrow>
        (case (perf_integer to_integer row ''type'' False, perf_integer to_integer row ''cpu'' False) of
           (Some t, Some cpu) \<Rightarrow>
             if t < 6 \<or> INT_MAX < t \<or> cpu < 0 \<or> 1048575 < cpu then Inl (Bad_argument 1 ''invalid PMU type or control CPU'')
             else (case (perf_integer to_integer row ''config'' False, perf_integer to_integer row ''config1'' True,
                    perf_integer to_integer row ''config2'' True) of
                (Some c, Some c1, Some c2) \<Rightarrow>
                  Inr \<lparr>pr_open = False, pr_error = 0, pr_cpu = cpu, pr_type = word_of_int t, pr_config = word_of_int c,
                    pr_config1 = word_of_int c1, pr_config2 = word_of_int c2, pr_value = 0, pr_enabled = 0, pr_running = 0\<rparr>
              | _ \<Rightarrow> Inl (Raises ''integer expected''))
         | _ \<Rightarrow> Inl (Raises ''integer expected''))
      | _ \<Rightarrow> Inl (Raises ''table expected''))"

fun perf_requests :: "(lua \<Rightarrow> int option) \<Rightarrow> lua list \<Rightarrow> (lua_return + perf_row list)" where
  "perf_requests to_integer [] = Inr []"
| "perf_requests to_integer (v # vs) =
     (case perf_request to_integer v of Inl b \<Rightarrow> Inl b
      | Inr r \<Rightarrow> map_sum id ((#) r) (perf_requests to_integer vs))"

definition perf_event :: "nat \<Rightarrow> string" where
  "perf_event i = ''event '' @ decimal i"

text \<open>Opening and enabling one counter.\<close>

definition perf_attributes :: "perf_row \<Rightarrow> perf_attr" where
  "perf_attributes r = \<lparr>pa_type = pr_type r, pa_size = 72, pa_config = pr_config r, pa_config1 = pr_config1 r,
     pa_config2 = pr_config2 r, pa_disabled = True, pa_read_format = 1 OR 2\<rparr>"

definition perf_open :: "perf_kernel \<Rightarrow> nat \<Rightarrow> perf_row \<Rightarrow> perf_row \<times> fd_event list" where
  "perf_open k i r = (let attr = perf_attributes r; fd = perf_event i in
     case pk_event_open k i attr (pr_cpu r) True of
       Got _ \<Rightarrow> (r\<lparr>pr_open := True\<rparr>, [Opens fd])
     | Failed e \<Rightarrow>
         if e \<noteq> EINVAL then (r\<lparr>pr_error := e\<rparr>, [])
         else (case pk_event_open k i attr (pr_cpu r) False of
           Failed e' \<Rightarrow> (r\<lparr>pr_error := e'\<rparr>, [])
         | Got _ \<Rightarrow> (case pk_cloexec k i of Got _ \<Rightarrow> (r\<lparr>pr_open := True\<rparr>, [Opens fd])
             | Failed e' \<Rightarrow> (r\<lparr>pr_error := e'\<rparr>, [Opens fd, Closes fd]))))"

definition perf_start :: "perf_kernel \<Rightarrow> nat \<Rightarrow> perf_row \<Rightarrow> perf_row \<times> fd_event list" where
  "perf_start k i r = (let (r, es) = perf_open k i r in
     if \<not> pr_open r then (r, es)
     else (case pk_enable k i of Failed e \<Rightarrow> (r\<lparr>pr_error := e\<rparr>, es) | Got _ \<Rightarrow> (r, es)))"

fun perf_sleep :: "unit answer list \<Rightarrow> errno option" where
  "perf_sleep [] = None"
| "perf_sleep (Got _ # ans) = Some 0"
| "perf_sleep (Failed e # ans) = (if e = EINTR then perf_sleep ans else Some e)"

text \<open>Stopping, reading and closing one counter.\<close>

fun perf_packet :: "u64 list answer list \<Rightarrow> (errno + u64 list) option" where
  "perf_packet [] = None"
| "perf_packet (Failed e # ans) = (if e = EINTR then perf_packet ans else Some (Inl e))"
| "perf_packet (Got p # ans) = Some (Inr p)"

abbreviation (input) LUA_MAX_U64 :: u64 where "LUA_MAX_U64 \<equiv> 9223372036854775807"

definition perf_store :: "u64 list \<Rightarrow> perf_row \<Rightarrow> perf_row" where
  "perf_store p r = (case p of [v, enabled, running] \<Rightarrow>
       if LUA_MAX_U64 < v \<or> LUA_MAX_U64 < enabled \<or> LUA_MAX_U64 < running \<or> running = 0 \<or> enabled < running
       then r\<lparr>pr_error := ERANGE\<rparr> else r\<lparr>pr_value := v, pr_enabled := enabled, pr_running := running\<rparr>
     | _ \<Rightarrow> r\<lparr>pr_error := EIO\<rparr>)"

definition perf_read :: "perf_kernel \<Rightarrow> nat \<Rightarrow> perf_row \<Rightarrow> perf_row option" where
  "perf_read k i r = (if pr_error r \<noteq> 0 then Some r
     else case pk_disable k i of Failed e \<Rightarrow> Some (r\<lparr>pr_error := e\<rparr>)
       | Got _ \<Rightarrow> map_option (\<lambda>a. case a of Inl e \<Rightarrow> r\<lparr>pr_error := e\<rparr> | Inr p \<Rightarrow> perf_store p r) (perf_packet (pk_reads k i)))"

definition perf_finish :: "perf_kernel \<Rightarrow> nat \<Rightarrow> perf_row \<Rightarrow> (perf_row \<times> fd_event list) option" where
  "perf_finish k i r = (if \<not> pr_open r then Some (r, [])
     else map_option (\<lambda>r. (r\<lparr>pr_open := False\<rparr>, [Closes (perf_event i)])) (perf_read k i r))"

text \<open>The whole batch, each phase over all rows in order.\<close>

fun perf_phase :: "(nat \<Rightarrow> perf_row \<Rightarrow> (perf_row \<times> fd_event list) option) \<Rightarrow> nat \<Rightarrow> perf_row list
    \<Rightarrow> (perf_row list \<times> fd_event list) option" where
  "perf_phase f i [] = Some ([], [])"
| "perf_phase f i (r # rs) = (case f i r of None \<Rightarrow> None
     | Some (r, es) \<Rightarrow> map_option (\<lambda>(rs, fs). (r # rs, es @ fs)) (perf_phase f (Suc i) rs))"

definition perf_sample :: "perf_row \<Rightarrow> lua" where
  "perf_sample r = (if pr_error r \<noteq> 0 then mk_tab [(''errno'', LInt (pr_error r))]
     else mk_tab [(''count'', LInt (sint (pr_value r))), (''enabled_ns'', LInt (sint (pr_enabled r))),
       (''running_ns'', LInt (sint (pr_running r)))])"

definition perf_batch :: "perf_kernel \<Rightarrow> perf_row list \<Rightarrow> (lua_return \<times> fd_event list) option" where
  "perf_batch k rs =
     (let (started, failure) = perf_now (pk_started k) in
      case (if failure \<noteq> 0 then Some (rs, []) else perf_phase (\<lambda>i r. Some (perf_start k i r)) 0 rs) of None \<Rightarrow> None
      | Some (rs, es) \<Rightarrow>
      (case (if failure = 0 \<and> (\<exists>r \<in> set rs. pr_open r \<and> pr_error r = 0) then perf_sleep (pk_sleeps k) else Some failure) of
         None \<Rightarrow> None
       | Some failure \<Rightarrow>
      (case perf_phase (perf_finish k) 0 rs of None \<Rightarrow> None
       | Some (rs, fs) \<Rightarrow>
         let (finished, late) = perf_now (pk_finished k); failure = (if failure = 0 then late else failure) in
         Some (if failure \<noteq> 0 then Returns [LNil, LInt failure]
           else Returns [mk_tab [(''started_ns'', LInt started), (''finished_ns'', LInt finished),
             (''samples'', mk_array (map perf_sample rs))]], es @ fs))))"

definition read_perf_counts :: "(lua \<Rightarrow> int option) \<Rightarrow> perf_kernel \<Rightarrow> lua list \<Rightarrow> int \<Rightarrow> (lua_return \<times> fd_event list) option" where
  "read_perf_counts to_integer k rows duration =
     (if rows = [] \<or> 1024 < length rows then Some (Bad_argument 1 ''expected 1..1024 counting events'', [])
      else if duration < 50 \<or> 2000 < duration then Some (Bad_argument 2 ''duration must be in 50..2000 ms'', [])
      else case perf_requests to_integer rows of Inl b \<Rightarrow> Some (b, []) | Inr rs \<Rightarrow> perf_batch k rs)"

section \<open>Only the named device, unchanged\<close>

lemma strtoull_bound_decimal:
  assumes "n < 4294967296" "rest = [] \<or> \<not> is_digit (hd rest)"
  shows "strtoull (decimal n @ rest) = (word_of_nat n, rest, False)" "(word_of_nat n :: u64) \<le> 4294967295"
    "unat (word_of_nat n :: u64) = n"
  using assms strtoull_decimal [of n rest]
  by (simp_all add: word_le_nat_alt unat_of_nat)

lemma decimal_starts: "starts_digit (decimal n @ rest)"
proof -
  obtain c r where "decimal n = c # r" by (meson decimal_not_Nil neq_Nil_conv)
  then show ?thesis using decimal_digits [of n] by (simp add: starts_digit_def)
qed

text \<open>The names accepted are exactly the canonical names of whole namespaces.\<close>

definition namespace_name :: "nat \<Rightarrow> nat \<Rightarrow> string" where
  "namespace_name controller n = ''nvme'' @ decimal controller @ ''n'' @ decimal n"

lemma nvme_name_accepts:
  assumes "c < 4294967296" "0 < n" "n < 4294967296"
  shows "nvme_name (namespace_name c n) = Inr (namespace_name c n)"
proof -
  have len: "length (namespace_name c n) \<le> 32"
    using decimal_length [of c 9] decimal_length [of n 9] assms by (simp add: namespace_name_def)
  have "\<not> is_digit CHR ''n''" by (simp add: is_digit_def code_def)
  note c = strtoull_bound_decimal [OF assms(1), of "''n'' @ decimal n"]
  note n = strtoull_bound_decimal [OF assms(3), of "[]"]
  have d: "drop 4 (namespace_name c n) = decimal c @ ''n'' @ decimal n" "take 4 (namespace_name c n) = ''nvme''"
    by (simp_all add: namespace_name_def)
  have nz: "(0 :: u64) < word_of_nat n" using assms n(3) by (simp add: word_less_nat_alt)
  show ?thesis unfolding nvme_name_def d
    using len c n decimal_starts [of c] decimal_starts [of n "[]"] \<open>\<not> is_digit CHR ''n''\<close> nz
    by (simp add: namespace_name_def)
qed

lemma nvme_name_accepted:
  "nvme_name name = Inr c \<Longrightarrow> \<exists>x n. x < 4294967296 \<and> 0 < n \<and> n < 4294967296 \<and> name = namespace_name x n \<and> c = name"
proof -
  assume a: "nvme_name name = Inr c"
  obtain x rest over where s: "strtoull (drop 4 name) = (x, rest, over)" by (cases "strtoull (drop 4 name)")
  obtain n rest' over' where t: "strtoull (drop (Suc 0) rest) = (n, rest', over')" by (cases "strtoull (drop (Suc 0) rest)")
  have b: "x \<le> 4294967295" "n \<le> 4294967295" "0 < n" "c = name" "name = namespace_name (unat x) (unat n)"
    using a s t by (auto simp: nvme_name_def namespace_name_def Let_def split: if_splits)
  then have "unat x < 4294967296" "unat n < 4294967296" "0 < unat n" by (simp_all add: word_le_nat_alt word_less_nat_alt)
  then show ?thesis using b by blast
qed

lemma nvme_read_result:
  assumes "nvme_health_read k address ma mi expected = (r, sent)"
  shows "(sent = [] \<or> sent = [nvme_health_command address] \<and> nk_before k = Got expected \<and> expected \<noteq> 0 \<and>
        (\<exists>node. nk_stat k = Got node \<and> nd_block node \<and> nd_major node = ma \<and> nd_minor node = mi))
    \<and> (r = Inr (s, bytes) \<longrightarrow> sent \<noteq> [] \<and> length bytes = 512 \<and> fst (nk_admin k (nvme_health_command address)) = Got s
        \<and> (s = 0 \<longrightarrow> nk_after k = Got expected))"
  using assms
  by (auto simp: nvme_health_read_def Let_def min_def split: answer.splits if_splits prod.splits)

text \<open>
  C30. The health of an NVMe namespace is read safely: a caller's name is accepted exactly
  when it is the canonical name of a whole namespace; the only command ever sent to the
  controller is the health log query, and only after the node was identified as the
  expected block device with the expected disk sequence; 512 bytes are returned only if the
  command succeeded and the sequence was still the same afterwards; and the device is closed.
\<close>

theorem nvme_health_identified:
  assumes "read_nvme_health strerror k address name ma mi sequence = (r, sent, es)"
  shows "held es = []
    \<and> (sent = [] \<or> sent = [nvme_health_command address] \<and> nk_before k = Got (word_of_int sequence)
        \<and> (\<exists>c n. 0 < n \<and> name = namespace_name c n \<and> es = [Opens (''/dev/'' @ name), Closes (''/dev/'' @ name)])
        \<and> (\<exists>node. nk_stat k = Got node \<and> nd_block node \<and> nd_major node = nat ma \<and> nd_minor node = nat mi))
    \<and> (succeeds r \<longrightarrow> sent \<noteq> [] \<and> nk_after k = Got (word_of_int sequence)
        \<and> fst (nk_admin k (nvme_health_command address)) = Got 0
        \<and> (\<exists>bytes. length bytes = 512 \<and> r = Returns [LStr (text_of bytes)]))"
proof (cases "case_sum Inl nvme_name (check_path 1 name)")
  case (Inl b)
  then have "r = b" "sent = []" "es = []" using assms by (auto simp: read_nvme_health_def)
  moreover have "\<not> succeeds b" using Inl
    by (auto simp: check_path_def nvme_name_def Let_def split: if_splits sum.splits prod.splits)
  ultimately show ?thesis by simp
next
  case (Inr c)
  then have "nvme_name name = Inr c" by (auto simp: check_path_def split: if_splits)
  from nvme_name_accepted [OF this] obtain x n where n: "0 < n" "name = namespace_name x n" "c = name" by blast
  obtain q snt where h: "nvme_health_read k address (nat ma) (nat mi) (word_of_int sequence) = (q, snt)"
    by (cases "nvme_health_read k address (nat ma) (nat mi) (word_of_int sequence)")
  note a = assms [unfolded read_nvme_health_def Inr sum.case h Let_def prod.case n(3)]
  note g = nvme_read_result [OF h]
  show ?thesis
  proof (cases "r \<noteq> Returns [LNil] \<and> sent = [] \<and> es = [] \<and> \<not> succeeds r")
    case True
    then show ?thesis by simp
  next
    case False
    then have es: "es = [Opens (''/dev/'' @ name), Closes (''/dev/'' @ name)]" "sent = snt"
      and r: "r = (case q of Inl e \<Rightarrow> push_errno strerror ''read NVMe health'' e
                | Inr (s, bytes) \<Rightarrow>
                   if 0 < s then Returns [LNil, LStr ''NVMe health command status'', LInt 0, LInt (int s)]
                   else Returns [LStr (text_of bytes)])"
      using a by (auto simp: push_errno_def split: if_splits answer.splits)
    have "held es = []" by (simp add: es)
    moreover have "succeeds r \<Longrightarrow> \<exists>bytes. q = Inr (0, bytes) \<and> r = Returns [LStr (text_of bytes)]"
      using r by (auto split: sum.splits if_splits)
    ultimately show ?thesis using g n es by blast
  qed
qed

text \<open>A disk whose health can be read.\<close>

definition sample_nvme :: nvme_kernel where
  "sample_nvme = \<lparr>nk_open = Got (), nk_stat = Got \<lparr>nd_block = True, nd_char = False, nd_major = 259, nd_minor = 0\<rparr>,
     nk_before = Got 5, nk_admin = (\<lambda>_. (Got 0, [7])), nk_after = Got 5\<rparr>"

lemma sample_nvme_read:
  "read_nvme_health (\<lambda>_. '''') sample_nvme 4096 (namespace_name 0 1) 259 0 5 =
     (Returns [LStr (text_of (take 512 ([7] @ replicate 512 0)))], [nvme_health_command 4096],
      [Opens (''/dev/'' @ namespace_name 0 1), Closes (''/dev/'' @ namespace_name 0 1)])"
proof -
  have "NUL \<notin> set (namespace_name 0 1)" by code_simp
  from c_string_id [OF this] have "check_path 1 (namespace_name 0 1) = Inr (namespace_name 0 1)"
    by (simp only: check_path_def if_True simp_thms)
  moreover have "nvme_name (namespace_name 0 1) = Inr (namespace_name 0 1)" by (rule nvme_name_accepts) simp_all
  moreover have "nvme_health_read sample_nvme 4096 259 0 5 = (Inr (0, take 512 ([7] @ replicate 512 0)), [nvme_health_command 4096])"
    by (simp add: nvme_health_read_def sample_nvme_def Let_def del: take_append append.simps take_Cons_numeral)
  moreover have "nk_open sample_nvme = Got ()" by (simp add: sample_nvme_def)
  ultimately show ?thesis by (simp add: read_nvme_health_def Let_def del: One_nat_def take_append append.simps take_Cons_numeral)
qed

lemma nvme_health_identified_witness:
  "succeeds (fst (read_nvme_health (\<lambda>_. '''') sample_nvme 4096 (namespace_name 0 1) 259 0 5))
     \<and> nk_after sample_nvme = Got (word_of_int 5)"
  using nvme_health_identified [OF sample_nvme_read] unfolding sample_nvme_read fst_conv by (simp del: take_append append.simps take_Cons_numeral map_append)

section \<open>Counters are bounded and closed\<close>

text \<open>
  The register readers: values come only from the character device of the processor asked
  for; eight bytes from each register, and a clock bracket that does not go backwards.
\<close>

lemma with_msr_body:
  "with_msr strerror k cpu body = Some (r, es) \<Longrightarrow> held es = [] \<and>
     (succeeds r \<longrightarrow> body = Some r \<and> 0 \<le> cpu \<and> cpu \<le> 8191 \<and> (\<exists>node. mk_stat k = Got node \<and> nd_char node \<and> nd_major node = 202 \<and> nd_minor node = nat cpu))"
  by (auto simp: with_msr_def Let_def split: if_splits answer.splits)

lemma pread_retry_length: "pread_retry ans = Some (Inr bs) \<Longrightarrow> length bs \<le> 8"
  by (induction ans rule: pread_retry.induct) (auto split: if_splits)

lemma read_counter_cases:
  assumes "read_counter strerror k i offset = Some q"
  shows "case q of Inl b \<Rightarrow> \<not> succeeds b | Inr (s, f, bs) \<Rightarrow> s \<le> f \<and> length bs = 8"
proof (cases "mk_started k i")
  case (Got s)
  then obtain z where "pread_retry (mk_reads k offset) = Some z" using assms by (auto simp: read_counter_def)
  then show ?thesis using assms Got by (cases z; auto simp: read_counter_def Let_def split: if_splits answer.splits)
qed (use assms in \<open>auto simp: read_counter_def\<close>)

lemma clock_counters_brackets:
  assumes "read_cpu_clock_counters strerror k cpu = Some (r, es)" "succeeds r"
  shows "\<exists>s0 f0 b0 s1 f1 b1. s0 \<le> f0 \<and> s1 \<le> f1 \<and> length b0 = 8 \<and> length b1 = 8 \<and>
    r = Returns [LStr (text_of (b0 @ b1)), mk_tab [(''aperf_started_ns'', LInt s0), (''aperf_finished_ns'', LInt f0),
                (''mperf_started_ns'', LInt s1), (''mperf_finished_ns'', LInt f1)]]"
proof -
  have body: "clock_counters strerror k = Some r"
    using with_msr_body [OF assms(1) [unfolded read_cpu_clock_counters_def]] assms(2) by blast
  then obtain q where q: "read_counter strerror k 0 0xe8 = Some q"
    by (cases "read_counter strerror k 0 0xe8") (simp_all add: clock_counters_def)
  note body = body [unfolded clock_counters_def q option.case]
  obtain s0 f0 b0 where q0: "q = Inr (s0, f0, b0)" using body read_counter_cases [OF q] assms(2) by (cases q) auto
  note body = body [unfolded q0 sum.case prod.case]
  obtain q' where q': "read_counter strerror k 1 0xe7 = Some q'" using body by (cases "read_counter strerror k 1 0xe7") simp_all
  note body = body [unfolded q' option.case]
  obtain s1 f1 b1 where q1: "q' = Inr (s1, f1, b1)" using body read_counter_cases [OF q'] assms(2) by (cases q') auto
  note body = body [unfolded q1 sum.case prod.case option.inject]
  have "r = Returns [LStr (text_of (b0 @ b1)), mk_tab [(''aperf_started_ns'', LInt s0), (''aperf_finished_ns'', LInt f0),
                (''mperf_started_ns'', LInt s1), (''mperf_finished_ns'', LInt f1)]]"
    using body assms(2) by (cases "mk_close k") (auto simp: close_msr_def)
  then show ?thesis using read_counter_cases [OF q] read_counter_cases [OF q'] unfolding q0 q1 sum.case prod.case by blast
qed

text \<open>What a finished row holds: an error, or a count within Lua's integers that ran.\<close>

definition counted :: "perf_row \<Rightarrow> bool" where
  "counted r \<longleftrightarrow> \<not> pr_open r \<and> (pr_error r = 0 \<longrightarrow> pr_value r \<le> LUA_MAX_U64 \<and> pr_enabled r \<le> LUA_MAX_U64
     \<and> 0 < pr_running r \<and> pr_running r \<le> pr_enabled r)"

text \<open>The kernel never fails with error number zero.\<close>

definition numbered :: "perf_kernel \<Rightarrow> bool" where
  "numbered k \<longleftrightarrow> (\<forall>i attr cpu cloexec. pk_event_open k i attr cpu cloexec \<noteq> Failed 0)
     \<and> (\<forall>i. pk_cloexec k i \<noteq> Failed 0 \<and> pk_enable k i \<noteq> Failed 0 \<and> pk_disable k i \<noteq> Failed 0 \<and> Failed 0 \<notin> set (pk_reads k i))"

lemma perf_start_row:
  assumes "numbered k" "\<not> pr_open r" "pr_error r = 0" "perf_start k i r = (r', es)"
  shows "(pr_open r' \<or> pr_error r' \<noteq> 0) \<and> hold fds es = (if pr_open r' then perf_event i # fds else fds)"
  using assms
  by (auto simp: perf_start_def perf_open_def numbered_def Let_def split: answer.splits if_splits prod.splits)

lemma perf_packet_failed: "perf_packet ans = Some (Inl e) \<Longrightarrow> Failed e \<in> set ans"
  by (induction ans rule: perf_packet.induct) (auto split: if_splits)

lemma perf_store_counted:
  "pr_error r = 0 \<Longrightarrow> perf_store p r = r' \<Longrightarrow> counted (r'\<lparr>pr_open := False\<rparr>)"
  by (auto simp: perf_store_def counted_def not_less word_gt_0 split: list.splits if_splits)

lemma perf_finish_row:
  assumes "numbered k" "pr_open r \<or> pr_error r \<noteq> 0" "perf_finish k i r = Some (r', es)"
  shows "counted r' \<and> es = (if pr_open r then [Closes (perf_event i)] else [])"
proof (cases "pr_open r")
  case False
  then show ?thesis using assms by (auto simp: perf_finish_def counted_def)
next
  case True
  obtain q where q: "perf_read k i r = Some q" "r' = q\<lparr>pr_open := False\<rparr>" "es = [Closes (perf_event i)]"
    using assms(3) True by (auto simp: perf_finish_def)
  show ?thesis
  proof (cases "pr_error q = 0")
    case False
    then show ?thesis using q True by (simp add: counted_def)
  next
    case no: True
    then obtain a where a: "perf_packet (pk_reads k i) = Some a" "q = (case a of Inl e \<Rightarrow> r\<lparr>pr_error := e\<rparr> | Inr p \<Rightarrow> perf_store p r)"
        "pr_error r = 0"
      using q(1) assms(1) by (auto simp: perf_read_def numbered_def split: if_splits answer.splits)
    then obtain p where "q = perf_store p r"
      using no assms(1) perf_packet_failed by (cases a) (fastforce simp: numbered_def)+
    then show ?thesis using perf_store_counted [OF a(3)] q True by auto
  qed
qed

text \<open>A phase keeps the rows in number and does to each what its step does.\<close>

lemma perf_phase_all:
  assumes "\<And>i r r' es. P r \<Longrightarrow> f i r = Some (r', es) \<Longrightarrow> Q r'"
  shows "perf_phase f i rs = Some (rs', es) \<Longrightarrow> list_all P rs \<Longrightarrow> length rs' = length rs \<and> list_all Q rs'"
proof (induction rs arbitrary: i rs' es)
  case (Cons r rs)
  then show ?case using assms by (auto split: option.splits prod.splits)
qed simp


fun open_names :: "nat \<Rightarrow> perf_row list \<Rightarrow> string list" where
  "open_names i [] = []"
| "open_names i (r # rs) = (if pr_open r then perf_event i # open_names (Suc i) rs else open_names (Suc i) rs)"

lemma perf_start_opens:
  assumes "numbered k"
  shows "perf_phase (\<lambda>i r. Some (perf_start k i r)) i rs = Some (rs', es) \<Longrightarrow> list_all (\<lambda>r. \<not> pr_open r \<and> pr_error r = 0) rs
     \<Longrightarrow> hold fds es = rev (open_names i rs') @ fds"
proof (induction rs arbitrary: i rs' es fds)
  case (Cons r rs)
  obtain r' e where r: "perf_start k i r = (r', e)" by (cases "perf_start k i r")
  have r': "hold fds e = (if pr_open r' then perf_event i # fds else fds)"
    using perf_start_row [OF assms _ _ r] Cons.prems(2) by simp
  obtain rs1 es1 where rest: "perf_phase (\<lambda>i r. Some (perf_start k i r)) (Suc i) rs = Some (rs1, es1)" "rs' = r' # rs1" "es = e @ es1"
    using Cons.prems(1) r by (auto split: option.splits)
  show ?case using Cons.IH [OF rest(1)] Cons.prems(2) r' by (simp add: rest(2,3))
qed simp

lemma perf_finish_closes:
  assumes "numbered k"
  shows "perf_phase (perf_finish k) i rs = Some (rs', es) \<Longrightarrow> list_all (\<lambda>r. pr_open r \<or> pr_error r \<noteq> 0) rs
     \<Longrightarrow> es = map Closes (open_names i rs)"
proof (induction rs arbitrary: i rs' es)
  case (Cons r rs)
  obtain r' e where r: "perf_finish k i r = Some (r', e)" using Cons.prems(1) by (auto split: option.splits)
  obtain rs1 es1 where rest: "perf_phase (perf_finish k) (Suc i) rs = Some (rs1, es1)" "es = e @ es1"
    using Cons.prems(1) r by (auto split: option.splits)
  show ?case using Cons.IH [OF rest(1)] Cons.prems(2) perf_finish_row [OF assms _ r] by (simp add: rest(2))
qed simp

lemma hold_closes: "hold fds (map Closes ns) = fold remove1 ns fds"
  by (induction ns arbitrary: fds) auto

lemma mset_fold_remove1: "mset (fold remove1 ns fds) = mset fds - mset ns"
  by (induction ns arbitrary: fds) auto

lemma hold_closes_all: "mset fds = mset ns \<Longrightarrow> hold fds (map Closes ns) = []"
  using mset_fold_remove1 [of ns fds] by (simp add: hold_closes)

lemma perf_requests_rows:
  "perf_requests to_integer rows = Inr rs \<Longrightarrow> length rs = length rows \<and> list_all (\<lambda>r. \<not> pr_open r \<and> pr_error r = 0) rs"
proof (induction rows arbitrary: rs)
  case (Cons v vs)
  obtain r where r: "perf_request to_integer v = Inr r" using Cons.prems by (auto split: sum.splits)
  then have "\<not> pr_open r \<and> pr_error r = 0" by (auto simp: perf_request_def split: lua.splits option.splits if_splits)
  then show ?case using Cons r by (cases "perf_requests to_integer vs") auto
qed simp


text \<open>One event, counted on one processor.\<close>

definition sample_perf :: perf_kernel where
  "sample_perf = \<lparr>pk_event_open = (\<lambda>_ _ _ cloexec. if cloexec then Failed 22 else Got ()), pk_cloexec = (\<lambda>_. Got ()),
     pk_enable = (\<lambda>_. Got ()), pk_disable = (\<lambda>_. Got ()), pk_reads = (\<lambda>_. [Failed EINTR, Got [9, 100, 50]]),
     pk_sleeps = [Failed EINTR, Got ()], pk_started = Got 1, pk_finished = Got 2\<rparr>"

definition sample_events :: "lua list" where
  "sample_events = [mk_tab [(''type'', LInt 8), (''cpu'', LInt 0), (''config'', LInt 3)]]"

definition plain_integer :: "lua \<Rightarrow> int option" where
  "plain_integer v = (case v of LInt i \<Rightarrow> Some i | _ \<Rightarrow> None)"

lemma sample_perf_counts:
  "\<exists>es. read_perf_counts plain_integer sample_perf sample_events 50 = Some (Returns [mk_tab [(''started_ns'', LInt 1), (''finished_ns'', LInt 2),
     (''samples'', mk_array [mk_tab [(''count'', LInt 9), (''enabled_ns'', LInt 100), (''running_ns'', LInt 50)]])]], es)"
  by (simp add: read_perf_counts_def perf_batch_def perf_now_def perf_start_def perf_open_def perf_finish_def perf_read_def
      perf_request_def perf_integer_def perf_store_def perf_sample_def sample_perf_def sample_events_def plain_integer_def
      mk_tab_def tab_set_def tab_get_def Let_def)


end
