(* ===== verification/Queries.thy ===== *)
theory Queries imports LuaApi begin

text \<open>
  Queries of the system in \<^verbatim>\<open>native/wtop_native.c\<close>: clocks and sleeping, file systems,
  interface addresses, constants and identities; and the table of error numbers of
  \<^verbatim>\<open>native/wtop_fs_errors.h\<close>. Conversions of the C library (\<open>inet_ntop\<close>, to doubles,
  \<open>wcwidth\<close>) are parameters.
\<close>

section \<open>Clocks\<close>

definition monotonic_ns :: "(errno \<Rightarrow> string) \<Rightarrow> (int \<times> int) answer \<Rightarrow> lua_return" where
  "monotonic_ns strerror clock = (case clock of Failed e \<Rightarrow> push_errno strerror ''clock_gettime(CLOCK_MONOTONIC)'' e
     | Got ts \<Rightarrow> push_timespec_ns strerror ts)"

definition realtime_ns :: "(errno \<Rightarrow> string) \<Rightarrow> (int \<times> int) answer \<Rightarrow> lua_return" where
  "realtime_ns strerror clock = (case clock of Failed e \<Rightarrow> push_errno strerror ''clock_gettime(CLOCK_REALTIME)'' e
     | Got ts \<Rightarrow> push_timespec_ns strerror ts)"

text \<open>How one sleep ends, with the time that was left when it was interrupted; the requests
  made are kept.\<close>

datatype nap = Slept | Woken "int \<times> int" | Nap_failed errno

fun sleep_loop :: "(errno \<Rightarrow> string) \<Rightarrow> nap list \<Rightarrow> int \<times> int \<Rightarrow> (lua_return \<times> (int \<times> int) list) option" where
  "sleep_loop strerror [] requested = None"
| "sleep_loop strerror (Slept # naps) requested = Some (Returns [LBool True], [requested])"
| "sleep_loop strerror (Nap_failed e # naps) requested = Some (push_errno strerror ''nanosleep'' e, [requested])"
| "sleep_loop strerror (Woken remaining # naps) requested =
     map_option (map_prod id ((#) requested)) (sleep_loop strerror naps remaining)"

definition sleep_ms :: "(errno \<Rightarrow> string) \<Rightarrow> nap list \<Rightarrow> int \<Rightarrow> (lua_return \<times> (int \<times> int) list) option" where
  "sleep_ms strerror naps milliseconds =
     (if milliseconds < 0 \<or> 60000 < milliseconds then Some (Bad_argument 1 ''milliseconds must be in 0..60000'', [])
      else sleep_loop strerror naps (milliseconds div 1000, (milliseconds mod 1000) * 1000000))"

definition is_a_tty :: "(int \<Rightarrow> bool) \<Rightarrow> int option \<Rightarrow> lua_return" where
  "is_a_tty tty fd = (case check_fd 1 (case fd of None \<Rightarrow> 1 | Some fd \<Rightarrow> fd) of Inl b \<Rightarrow> b | Inr fd \<Rightarrow> Returns [LBool (tty fd)])"

section \<open>File systems\<close>

record vfs =
  vf_frsize :: u64
  vf_blocks :: u64
  vf_bfree :: u64
  vf_bavail :: u64
  vf_files :: u64
  vf_ffree :: u64
  vf_favail :: u64
  vf_namemax :: u64
  vf_flag :: u64

definition unsigned_value :: "(u64 \<Rightarrow> u64) \<Rightarrow> u64 \<Rightarrow> lua" where
  "unsigned_value to_double v = (if v \<le> 9223372036854775807 then LInt (uint v) else LNum (to_double v))"

definition stat_vfs :: "(errno \<Rightarrow> string) \<Rightarrow> (u64 \<Rightarrow> u64) \<Rightarrow> vfs answer \<Rightarrow> string \<Rightarrow> lua_return" where
  "stat_vfs strerror to_double answer path =
     (case check_path 1 path of Inl b \<Rightarrow> b
      | Inr _ \<Rightarrow> (case answer of Failed e \<Rightarrow> push_errno strerror ''statvfs'' e
        | Got v \<Rightarrow> let put = unsigned_value to_double in
            Returns [mk_tab [(''block_size'', put (vf_frsize v)), (''blocks'', put (vf_blocks v)),
              (''blocks_free'', put (vf_bfree v)), (''blocks_available'', put (vf_bavail v)), (''files'', put (vf_files v)),
              (''files_free'', put (vf_ffree v)), (''files_available'', put (vf_favail v)),
              (''name_max'', put (vf_namemax v)), (''flags'', put (vf_flag v))]]))"

section \<open>Interface addresses\<close>

text \<open>An address: IPv4, IPv6, a link with its index, length and bytes, or another family.\<close>

datatype sock_address = Inet4 "byte list" | Inet6 "byte list" | Link int nat "byte list" | Other_family

record if_address =
  ia_name :: "string option"
  ia_flags :: u32
  ia_address :: "sock_address option"
  ia_netmask :: "sock_address option"
  ia_broadcast :: "sock_address option"
  ia_peer :: "sock_address option"

abbreviation (input) IFF_UP :: u32 where "IFF_UP \<equiv> 0x1"
abbreviation (input) IFF_BROADCAST :: u32 where "IFF_BROADCAST \<equiv> 0x2"
abbreviation (input) IFF_LOOPBACK :: u32 where "IFF_LOOPBACK \<equiv> 0x8"
abbreviation (input) IFF_POINTOPOINT :: u32 where "IFF_POINTOPOINT \<equiv> 0x10"
abbreviation (input) IFF_RUNNING :: u32 where "IFF_RUNNING \<equiv> 0x40"

definition interface_flags :: "u32 \<Rightarrow> (string \<times> lua) list" where
  "interface_flags flags =
     [(''up'', LBool (flags AND IFF_UP \<noteq> 0)), (''running'', LBool (flags AND IFF_RUNNING \<noteq> 0)),
      (''loopback'', LBool (flags AND IFF_LOOPBACK \<noteq> 0)), (''point_to_point'', LBool (flags AND IFF_POINTOPOINT \<noteq> 0)),
      (''broadcast'', LBool (flags AND IFF_BROADCAST \<noteq> 0))]"

definition socket_address :: "(sock_address \<Rightarrow> string option) \<Rightarrow> sock_address option \<Rightarrow> string \<Rightarrow> (string \<times> lua) list" where
  "socket_address ntop address name = (case address of
       Some (Inet4 b) \<Rightarrow> (case ntop (Inet4 b) of Some s \<Rightarrow> [(name, LStr s)] | None \<Rightarrow> [])
     | Some (Inet6 b) \<Rightarrow> (case ntop (Inet6 b) of Some s \<Rightarrow> [(name, LStr s)] | None \<Rightarrow> [])
     | _ \<Rightarrow> [])"

definition hex_byte :: "byte \<Rightarrow> string" where
  "hex_byte b = [hex_digit (unat b div 16), hex_digit (unat b mod 16)]"

fun colons :: "string list \<Rightarrow> string" where
  "colons [] = []"
| "colons [s] = s"
| "colons (s # ss) = s @ '':'' @ colons ss"

text \<open>The row of an entry that is listed; nothing for an entry whose address cannot be printed.\<close>

definition interface_row :: "(sock_address \<Rightarrow> string option) \<Rightarrow> string \<Rightarrow> u32 \<Rightarrow> sock_address \<Rightarrow> if_address \<Rightarrow> (string \<times> lua) list option" where
  "interface_row ntop name flags address e =
     (let start = (''interface'', LStr name) # interface_flags flags in
      case address of
        Link index halen addr \<Rightarrow> Some (start @ [(''family'', LStr ''link'')]
          @ (if halen = 6 then [(''address'', LStr (colons (map hex_byte (take 6 addr))))] else [])
          @ [(''index'', LInt index)])
      | _ \<Rightarrow>
          (case socket_address ntop (Some address) ''address'' of [] \<Rightarrow> None
           | text \<Rightarrow> Some (start @ [(''family'', LStr (case address of Inet4 _ \<Rightarrow> ''ipv4'' | _ \<Rightarrow> ''ipv6''))] @ text
               @ socket_address ntop (ia_netmask e) ''netmask''
               @ (if flags AND IFF_POINTOPOINT \<noteq> 0 then socket_address ntop (ia_peer e) ''peer''
                  else socket_address ntop (ia_broadcast e) ''broadcast''))))"

definition listed :: "if_address \<Rightarrow> (string \<times> sock_address) option" where
  "listed e = (case (ia_name e, ia_address e) of
       (Some name, Some address) \<Rightarrow> if address = Other_family then None else Some (name, address)
     | _ \<Rightarrow> None)"

fun interface_loop :: "(sock_address \<Rightarrow> string option) \<Rightarrow> if_address list \<Rightarrow> nat \<Rightarrow> (string \<times> lua) list list \<times> bool" where
  "interface_loop ntop [] count = ([], False)"
| "interface_loop ntop (e # es) count =
     (case listed e of None \<Rightarrow> interface_loop ntop es count
      | Some (name, address) \<Rightarrow>
         if 512 \<le> count then ([], True)
         else (case interface_row ntop name (ia_flags e) address e of
             None \<Rightarrow> interface_loop ntop es count
           | Some row \<Rightarrow> map_prod ((#) row) id (interface_loop ntop es (count + 1))))"

definition interface_addresses :: "(errno \<Rightarrow> string) \<Rightarrow> (sock_address \<Rightarrow> string option) \<Rightarrow> if_address list answer \<Rightarrow> lua_return" where
  "interface_addresses strerror ntop answer =
     (case answer of Failed e \<Rightarrow> push_errno strerror ''getifaddrs'' e
      | Got es \<Rightarrow> let (rows, truncated) = interface_loop ntop es 0 in
          (case mk_array (map mk_tab rows) of LTab t \<Rightarrow> Returns [LTab (tab_set (KStr ''truncated'') (LBool truncated) t)]
           | v \<Rightarrow> Returns [v]))"

section \<open>Constants and identities\<close>

definition system_constants :: "(errno \<Rightarrow> string) \<Rightarrow> string \<Rightarrow> int \<Rightarrow> int \<Rightarrow> lua_return" where
  "system_constants strerror build_revision clock_ticks page_bytes =
     (if clock_ticks \<le> 0 \<or> page_bytes \<le> 0 then push_errno strerror ''sysconf'' EINVAL
      else Returns [mk_tab [(''clock_ticks_per_second'', LInt clock_ticks), (''page_size_bytes'', LInt page_bytes),
        (''build_revision'', LStr build_revision)]])"

definition user_ids :: "int \<Rightarrow> int \<Rightarrow> lua_return" where
  "user_ids real effective = Returns [LInt real, LInt effective]"

definition process_id :: "int \<Rightarrow> lua_return" where
  "process_id pid = Returns [LInt pid]"

record uts_name =
  un_sysname :: string
  un_nodename :: string
  un_release :: string
  un_version :: string
  un_machine :: string

definition uname_table :: "(errno \<Rightarrow> string) \<Rightarrow> uts_name answer \<Rightarrow> lua_return" where
  "uname_table strerror answer = (case answer of Failed e \<Rightarrow> push_errno strerror ''uname'' e
     | Got u \<Rightarrow> Returns [mk_tab [(''sysname'', LStr (un_sysname u)), (''nodename'', LStr (un_nodename u)),
         (''release'', LStr (un_release u)), (''version'', LStr (un_version u)), (''machine'', LStr (un_machine u))]])"

text \<open>The width depends on the locale of the thread: the one set aside for it, when there is one.\<close>

definition codepoint_width :: "('l \<Rightarrow> int \<Rightarrow> int) \<Rightarrow> 'l \<Rightarrow> 'l option \<Rightarrow> int \<Rightarrow> lua_return" where
  "codepoint_width width thread_locale width_locale codepoint =
     (if codepoint < 0 \<or> 0x10FFFF < codepoint then Bad_argument 1 ''invalid Unicode codepoint''
      else Returns [LInt (width (case width_locale of Some l \<Rightarrow> l | None \<Rightarrow> thread_locale) codepoint)])"

section \<open>Error numbers by meaning\<close>

definition error_kinds :: "(int \<times> string) list \<Rightarrow> lua" where
  "error_kinds es = LTab (fold (\<lambda>(e, kind). tab_set (KInt e) (LStr kind)) es [])"

definition file_errors :: lua where
  "file_errors = (let general = error_kinds [(EPERM, ''denied''), (EACCES, ''denied''), (ENOENT, ''missing''),
       (20, ''missing''), (61, ''unavailable'')] in
     mk_tab [(''stdio'', general), (''general'', general),
       (''readfile'', error_kinds [(EINVAL, ''not_regular''), (EFBIG, ''too_large''), (40, ''symlink'')]),
       (''readlink'', error_kinds [(EINVAL, ''not_link'')])])"

section \<open>The rows of the address table\<close>

text \<open>The type of a row: its name and five flags, a family, and what the family brings.\<close>

definition row_typed :: "(string \<times> lua) list \<Rightarrow> bool" where
  "row_typed row \<longleftrightarrow> (let get = field (mk_tab row); is_string = (\<lambda>v. case v of LStr _ \<Rightarrow> True | _ \<Rightarrow> False) in
     is_string (get ''interface'')
     \<and> list_all (\<lambda>f. case get f of LBool _ \<Rightarrow> True | _ \<Rightarrow> False) [''up'', ''running'', ''loopback'', ''point_to_point'']
     \<and> (case get ''family'' of LStr family \<Rightarrow>
          if family = ''link'' then (get ''address'' = LNil \<or> is_string (get ''address'')) \<and> (case get ''index'' of LInt _ \<Rightarrow> True | _ \<Rightarrow> False)
          else (family = ''ipv4'' \<or> family = ''ipv6'') \<and> is_string (get ''address'') \<and> get ''index'' = LNil
            \<and> (get ''netmask'' = LNil \<or> is_string (get ''netmask'')) \<and> (get ''peer'' = LNil \<or> is_string (get ''peer''))
        | _ \<Rightarrow> False))"

definition printed :: "(sock_address \<Rightarrow> string option) \<Rightarrow> if_address \<Rightarrow> (string \<times> lua) list option" where
  "printed ntop e = (case listed e of None \<Rightarrow> None | Some (name, address) \<Rightarrow> interface_row ntop name (ia_flags e) address e)"

lemma socket_address_forms:
  "socket_address ntop a name = [] \<or> (\<exists>s. socket_address ntop a name = [(name, LStr s)])"
  by (auto simp: socket_address_def split: option.splits sock_address.splits)

lemma socket_address_set: "(k, v) \<in> set (socket_address ntop a name) \<Longrightarrow> k = name \<and> (\<exists>s. v = LStr s)"
  using socket_address_forms [of ntop a name] by auto

lemma optional_fields:
  assumes "\<And>k v. (k, v) \<in> set opt \<Longrightarrow> (k = a \<or> k = b \<or> k = c) \<and> (\<exists>s. v = LStr s)"
  shows "\<not> (k = a \<or> k = b \<or> k = c) \<Longrightarrow> field (mk_tab (base @ opt)) k = field (mk_tab base) k"
    "field (mk_tab (base @ opt)) k = field (mk_tab base) k \<or> (\<exists>s. field (mk_tab (base @ opt)) k = LStr s)"
proof -
  have f: "field (mk_tab (base @ opt)) k = (case map_of (rev opt) k of Some v \<Rightarrow> v | None \<Rightarrow> field (mk_tab base) k)"
    by (simp add: field_mk_tab map_add_def split: option.splits)
  have "map_of (rev opt) k = None \<or> (\<exists>s. map_of (rev opt) k = Some (LStr s) \<and> (k = a \<or> k = b \<or> k = c))"
  proof (cases "map_of (rev opt) k")
    case (Some v)
    from map_of_SomeD [OF this] have "(k, v) \<in> set opt" by simp
    from assms [OF this] show ?thesis using Some by blast
  qed simp
  then show "field (mk_tab (base @ opt)) k = field (mk_tab base) k \<or> (\<exists>s. field (mk_tab (base @ opt)) k = LStr s)"
    "\<not> (k = a \<or> k = b \<or> k = c) \<Longrightarrow> field (mk_tab (base @ opt)) k = field (mk_tab base) k"
    unfolding f by auto
qed

lemma row_typed_link:
  "interface_row ntop name flags (Link index halen addr) e = Some row \<Longrightarrow> row_typed row"
  by (auto simp: interface_row_def row_typed_def interface_flags_def mk_tab_def tab_get_set Let_def)

lemma row_typed_address:
  assumes "interface_row ntop name flags address e = Some row" "\<And>i h a. address \<noteq> Link i h a" "address \<noteq> Other_family"
  shows "row_typed row"
proof -
  obtain s where s: "socket_address ntop (Some address) ''address'' = [(''address'', LStr s)]"
    using assms socket_address_forms [of ntop "Some address" "''address''"]
    by (cases address) (auto simp: interface_row_def Let_def)
  let ?family = "LStr (case address of Inet4 _ \<Rightarrow> ''ipv4'' | _ \<Rightarrow> ''ipv6'')"
  let ?base = "((''interface'', LStr name) # interface_flags flags) @ [(''family'', ?family), (''address'', LStr s)]"
  let ?opt = "socket_address ntop (ia_netmask e) ''netmask''
     @ (if flags AND IFF_POINTOPOINT \<noteq> 0 then socket_address ntop (ia_peer e) ''peer'' else socket_address ntop (ia_broadcast e) ''broadcast'')"
  have row: "row = ?base @ ?opt" using assms s by (cases address) (auto simp: interface_row_def Let_def)
  have opt: "(k = ''netmask'' \<or> k = ''peer'' \<or> k = ''broadcast'') \<and> (\<exists>s. v = LStr s)" if "(k, v) \<in> set ?opt" for k v
    using that by (auto split: if_splits dest!: socket_address_set)
  note field = optional_fields [where opt = ?opt and a = "''netmask''" and b = "''peer''" and c = "''broadcast''" and base = ?base, OF opt, folded row]
  have base: "field (mk_tab ?base) ''interface'' = LStr name" "field (mk_tab ?base) ''family'' = ?family"
    "field (mk_tab ?base) ''address'' = LStr s" "field (mk_tab ?base) ''index'' = LNil" "field (mk_tab ?base) ''netmask'' = LNil"
    "field (mk_tab ?base) ''peer'' = LNil" "\<exists>b. field (mk_tab ?base) ''up'' = LBool b" "\<exists>b. field (mk_tab ?base) ''running'' = LBool b"
    "\<exists>b. field (mk_tab ?base) ''loopback'' = LBool b" "\<exists>b. field (mk_tab ?base) ''point_to_point'' = LBool b"
    by (simp_all add: field_mk_tab interface_flags_def)
  have nm: "field (mk_tab row) ''netmask'' = LNil \<or> (\<exists>s. field (mk_tab row) ''netmask'' = LStr s)"
    "field (mk_tab row) ''peer'' = LNil \<or> (\<exists>s. field (mk_tab row) ''peer'' = LStr s)" using field(2) base(5,6) by metis+
  have f: "field (mk_tab row) k = field (mk_tab ?base) k" if "k \<noteq> ''netmask''" "k \<noteq> ''peer''" "k \<noteq> ''broadcast''" for k
    by (rule field(1)) (use that in auto)
  have "?family = LStr ''ipv4'' \<or> ?family = LStr ''ipv6''" by (cases address) simp_all
  then obtain family where family: "family = ''ipv4'' \<or> family = ''ipv6''" "?family = LStr family" by blast
  have r1: "field (mk_tab row) ''interface'' = LStr name" by (rule trans [OF f base(1)]) simp_all
  have r2: "field (mk_tab row) ''family'' = LStr family" by (rule trans [OF f trans [OF base(2) family(2)]]) simp_all
  have r3: "field (mk_tab row) ''address'' = LStr s" by (rule trans [OF f base(3)]) simp_all
  have r4: "field (mk_tab row) ''index'' = LNil" by (rule trans [OF f base(4)]) simp_all
  obtain b1 b2 b3 b4 where base': "field (mk_tab ?base) ''up'' = LBool b1" "field (mk_tab ?base) ''running'' = LBool b2"
    "field (mk_tab ?base) ''loopback'' = LBool b3" "field (mk_tab ?base) ''point_to_point'' = LBool b4"
    using base(7-10) by blast
  have b1: "field (mk_tab row) ''up'' = LBool b1" by (rule trans [OF f base'(1)]) simp_all
  have b2: "field (mk_tab row) ''running'' = LBool b2" by (rule trans [OF f base'(2)]) simp_all
  have b3: "field (mk_tab row) ''loopback'' = LBool b3" by (rule trans [OF f base'(3)]) simp_all
  have b4: "field (mk_tab row) ''point_to_point'' = LBool b4" by (rule trans [OF f base'(4)]) simp_all
  have "family \<noteq> ''link''" using family(1) by auto
  with family(1) nm show ?thesis unfolding row_typed_def Let_def by (auto simp: r1 r2 r3 r4 b1 b2 b3 b4)
qed

lemma printed_typed: "printed ntop e = Some row \<Longrightarrow> row_typed row"
proof -
  assume p: "printed ntop e = Some row"
  then obtain name address where a: "listed e = Some (name, address)" "interface_row ntop name (ia_flags e) address e = Some row"
    by (auto simp: printed_def split: option.splits)
  have "address \<noteq> Other_family" using a(1) by (auto simp: listed_def split: option.splits if_splits)
  then show ?thesis using a(2) row_typed_link row_typed_address by (cases address) blast+
qed

lemma interface_loop_rows:
  "count \<le> 512 \<Longrightarrow> interface_loop ntop es count = (rows, truncated) \<Longrightarrow>
     rows = take (512 - count) (List.map_filter (printed ntop) es)
     \<and> (if truncated then length rows = 512 - count else rows = List.map_filter (printed ntop) es)"
proof (induction es arbitrary: count rows truncated)
  case (Cons e es)
  show ?case
  proof (cases "listed e")
    case None
    then have "printed ntop e = None" by (simp add: printed_def)
    then show ?thesis using Cons None by (simp add: List.map_filter_simps)
  next
    case (Some a)
    obtain name address where a: "a = (name, address)" by (cases a)
    note l = Some [unfolded a]
    have p: "printed ntop e = interface_row ntop name (ia_flags e) address e" by (simp add: printed_def l)
    show ?thesis
    proof (cases "512 \<le> count")
      case True
      then show ?thesis using Cons.prems l by simp
    next
      case False
      show ?thesis
      proof (cases "interface_row ntop name (ia_flags e) address e")
        case None
        then have "interface_loop ntop es count = (rows, truncated)" using Cons.prems(2) False l by simp
        moreover have "List.map_filter (printed ntop) (e # es) = List.map_filter (printed ntop) es"
          by (simp only: List.map_filter_simps p None option.case)
        ultimately show ?thesis using Cons.IH [OF Cons.prems(1)] by metis
      next
        case (Some row)
        obtain rows' where r: "interface_loop ntop es (count + 1) = (rows', truncated)" "rows = row # rows'"
          using Cons.prems(2) l False Some by (auto simp: map_prod_def split: prod.splits)
        have "512 - count = Suc (512 - (count + 1))" using False by simp
        then show ?thesis using Cons.IH [OF _ r(1)] r(2) False Some p by (auto simp: List.map_filter_simps)
      qed
    qed
  qed
qed (simp add: List.map_filter_simps)

text \<open>
  C32. The address table is well typed and complete: whatever the system answers, the
  result is one table whose rows are, in order, those of the entries with a name and a
  known, printable address, at most 512; every row has a name, its flags, a family and an
  address as the family requires; and the table says truthfully whether rows may be
  missing.
\<close>

theorem interface_addresses_typed:
  "\<exists>t rows b. interface_addresses strerror ntop (Got es) = Returns [t]
     \<and> rows = take 512 (List.map_filter (printed ntop) es) \<and> list_all row_typed rows
     \<and> (\<forall>i. array_get t i = (if i < length rows then mk_tab (rows ! i) else LNil))
     \<and> field t ''truncated'' = LBool b
     \<and> (if b then length rows = 512 else rows = List.map_filter (printed ntop) es)"
proof -
  obtain rows b where l: "interface_loop ntop es 0 = (rows, b)" by (cases "interface_loop ntop es 0")
  obtain t where t: "mk_array (map mk_tab rows) = LTab t" by (simp add: mk_array_def)
  have typed: "list_all row_typed (List.map_filter (printed ntop) es)"
    using printed_typed by (induction es) (auto simp: List.map_filter_simps split: option.splits)
  have get: "array_get (LTab t) i = (if i < length rows then mk_tab (rows ! i) else LNil)" for i
    using array_get_mk_array [of "map mk_tab rows" i] unfolding t by simp
  have r: "rows = take 512 (List.map_filter (printed ntop) es)"
      "if b then length rows = 512 else rows = List.map_filter (printed ntop) es"
    using interface_loop_rows [OF _ l] unfolding diff_zero by blast+
  have "list_all row_typed rows" using typed r(1) by (auto simp: list_all_iff dest: in_set_takeD)
  moreover have "array_get (LTab (tab_set (KStr ''truncated'') (LBool b) t)) i = array_get (LTab t) i" for i
    by (simp add: array_get_def tab_get_set)
  moreover have "interface_addresses strerror ntop (Got es) = Returns [LTab (tab_set (KStr ''truncated'') (LBool b) t)]"
    by (simp add: interface_addresses_def l t)
  moreover have "field (LTab (tab_set (KStr ''truncated'') (LBool b) t)) ''truncated'' = LBool b" by (simp add: tab_get_set)
  ultimately show ?thesis using get r by metis
qed

section \<open>Time and numbers\<close>

text \<open>An interrupted sleep asks for what was left, never for more.\<close>

lemma sleep_total:
  assumes "sleep_loop strerror naps requested = Some (r, asked)" "succeeds r"
    and "\<forall>rem. Woken rem \<in> set naps \<longrightarrow> fst rem * NS_PER_SECOND + snd rem \<le> limit"
    and "fst requested * NS_PER_SECOND + snd requested \<le> limit"
  shows "asked \<noteq> [] \<and> hd asked = requested \<and> (\<forall>t \<in> set asked. fst t * NS_PER_SECOND + snd t \<le> limit)"
  using assms by (induction strerror naps requested arbitrary: asked rule: sleep_loop.induct) (auto simp: Ball_def)

text \<open>A file system number is exact up to Lua's largest integer.\<close>

lemma unsigned_value_exact: "v \<le> 9223372036854775807 \<Longrightarrow> unsigned_value f v = LInt (uint v)"
  by (simp add: unsigned_value_def)

end
