(* ===== verification/WorkerPool.thy ===== *)
theory WorkerPool imports WorkerIpc begin

text \<open>
  The shared jobs of \<^verbatim>\<open>native/wtop_worker_client.c\<close>: sessions and frame guards held by
  the Lua thread, one controller thread per job, the reference counts that decide when a
  job or a frame is freed, and the count of controllers per source. Every critical section
  under the job's mutex is one operation; the threads interleave between them. Jobs and
  frames live in lists by their addresses and are freed when their count is zero: an
  operation on a freed one has no result.
\<close>

section \<open>State\<close>

datatype client_state = QUERY | READY | ERROR | IDLE

text \<open>Where the controller thread of a job is.\<close>

datatype phase = Starting | Waiting | Asking | Ending | Leaving | Gone

record gpu_job =
  jrefs :: nat
  jcancelled :: bool
  jvendor :: nat
  jstate :: client_state
  jdone :: bool
  jprocesses :: u32
  jrequested :: u64
  jfailed_at :: u64
  jsequence :: u64
  jframe :: "nat option"
  jreason :: string
  jphase :: phase
  jasked :: "u32 \<times> u64"

record shared_frame =
  frefs :: nat
  fvalue :: gpu_frame

record gpu_session =
  sjob :: "nat option"
  sclosed :: bool
  svendor :: nat

record gpu_frame_guard =
  gframe :: "nat option"
  gjob :: "nat option"

record pool =
  jobs :: "gpu_job list"
  frames :: "shared_frame list"
  sessions :: "gpu_session list"
  guards :: "gpu_frame_guard list"
  controllers :: "nat \<Rightarrow> nat"

section \<open>Reference counts\<close>

fun frame_release :: "nat option \<Rightarrow> pool \<Rightarrow> pool option" where
  "frame_release None p = Some p"
| "frame_release (Some f) p =
     (if f < length (frames p) \<and> frefs (frames p ! f) \<noteq> 0
      then Some (p\<lparr>frames := (frames p)[f := (frames p ! f)\<lparr>frefs := frefs (frames p ! f) - 1\<rparr>]\<rparr>)
      else None)"

definition on_job :: "nat \<Rightarrow> (gpu_job \<Rightarrow> gpu_job) \<Rightarrow> pool \<Rightarrow> pool option" where
  "on_job j f p = (if j < length (jobs p) \<and> jrefs (jobs p ! j) \<noteq> 0
     then Some (p\<lparr>jobs := (jobs p)[j := f (jobs p ! j)]\<rparr>) else None)"

fun job_release :: "nat option \<Rightarrow> pool \<Rightarrow> pool option" where
  "job_release None p = Some p"
| "job_release (Some j) p =
     Option.bind (on_job j (\<lambda>job. job\<lparr>jrefs := jrefs job - 1\<rparr>) p)
       (\<lambda>p'. if jrefs (jobs p ! j) = 1 then frame_release (jframe (jobs p ! j)) p' else Some p')"

definition set_guard :: "nat \<Rightarrow> gpu_frame_guard \<Rightarrow> pool \<Rightarrow> pool" where
  "set_guard g x p = p\<lparr>guards := (guards p)[g := x]\<rparr>"

definition guard_release :: "nat \<Rightarrow> pool \<Rightarrow> pool option" where
  "guard_release g p =
     Option.bind (frame_release (gframe (guards p ! g)) (set_guard g ((guards p ! g)\<lparr>gframe := None\<rparr>) p))
       (\<lambda>p'. job_release (gjob (guards p ! g)) (set_guard g \<lparr>gframe = None, gjob = None\<rparr> p'))"

section \<open>Sessions\<close>

definition open_session :: "nat \<Rightarrow> pool \<Rightarrow> pool" where
  "open_session vendor p =
     p\<lparr>sessions := sessions p @ [\<lparr>sjob = None, sclosed = False, svendor = vendor\<rparr>]\<rparr>"

definition set_session :: "nat \<Rightarrow> gpu_session \<Rightarrow> pool \<Rightarrow> pool" where
  "set_session i s p = p\<lparr>sessions := (sessions p)[i := s]\<rparr>"

text \<open>\<open>close_session\<close> (collection, \<open>__close\<close>) and \<open>wtop_gpu_worker_close\<close>, which also returns
  whether the job was done when its lock was last held.\<close>

definition close_session :: "nat \<Rightarrow> pool \<Rightarrow> (pool \<times> bool) option" where
  "close_session i p =
     (let s = sessions p ! i; p1 = set_session i (s\<lparr>sclosed := True, sjob := None\<rparr>) p in
      case sjob s of
        None \<Rightarrow> Some (p1, True)
      | Some j \<Rightarrow>
          Option.bind (on_job j (\<lambda>job. job\<lparr>jcancelled := True\<rparr>) p1)
            (\<lambda>p2. map_option (\<lambda>p3. (p3, jdone (jobs p ! j))) (job_release (Some j) p2)))"

definition new_job :: "u32 \<Rightarrow> nat \<Rightarrow> u64 \<Rightarrow> bool \<Rightarrow> pool \<Rightarrow> gpu_error + (pool \<times> nat)" where
  "new_job processes vendor now memory_ok p =
     (if 2 \<le> controllers p vendor then Inl BUSY
      else if \<not> memory_ok then Inl ALLOCATION
      else Inr (p\<lparr>jobs := jobs p @ [\<lparr>jrefs = 2, jcancelled = False, jvendor = vendor, jstate = QUERY,
          jdone = False, jprocesses = processes, jrequested = now, jfailed_at = 0, jsequence = 0,
          jframe = None, jreason = [], jphase = Starting, jasked = (0, 0)\<rparr>],
        controllers := (controllers p)(vendor := controllers p vendor + 1)\<rparr>, length (jobs p)))"

text \<open>What a query finds out first, from the system: the clock, memory, threads.\<close>

record query_world =
  q_now :: u64
  q_pinned :: bool
  q_memory_ok :: bool
  q_thread_ok :: bool

text \<open>A failed job is dropped after five seconds, so that the query starts a new one.\<close>

definition drop_expired :: "u64 \<Rightarrow> nat \<Rightarrow> pool \<Rightarrow> pool option" where
  "drop_expired now i p = (case sjob (sessions p ! i) of
     None \<Rightarrow> Some p
   | Some j \<Rightarrow>
       if jstate (jobs p ! j) = ERROR \<and> jdone (jobs p ! j) \<and> retry_ns \<le> now - jfailed_at (jobs p ! j)
       then job_release (Some j) (set_session i ((sessions p ! i)\<lparr>sjob := None\<rparr>) p)
       else Some p)"

text \<open>\<open>pthread_create\<close> failed: the job's count is forced to the session's one and released.\<close>

definition discard_job :: "nat \<Rightarrow> nat \<Rightarrow> pool \<Rightarrow> pool option" where
  "discard_job j vendor p =
     Option.bind (on_job j (\<lambda>job. job\<lparr>jrefs := 1, jphase := Gone\<rparr>) p)
       (\<lambda>p1. map_option (\<lambda>p2. p2\<lparr>controllers := (controllers p2)(vendor := controllers p2 vendor - 1)\<rparr>)
         (job_release (Some j) p1))"

text \<open>The first half of \<open>query_session\<close>: up to the guard's reference on the job.\<close>

definition begin_query :: "query_world \<Rightarrow> nat \<Rightarrow> u32 \<Rightarrow> pool \<Rightarrow> (pool \<times> (gpu_error + nat)) option" where
  "begin_query q i processes p =
     (if sclosed (sessions p ! i) then Some (p, Inl CLOSED)
      else if \<not> q_pinned q then Some (p, Inl UNAVAILABLE)
      else Option.bind (drop_expired (q_now q) i p) (\<lambda>p1.
        let hold = (\<lambda>j p. map_option
              (\<lambda>p'. (p'\<lparr>guards := guards p' @ [\<lparr>gframe = None, gjob = Some j\<rparr>]\<rparr>, Inr (length (guards p'))))
              (on_job j (\<lambda>job. job\<lparr>jrefs := jrefs job + 1\<rparr>) p)) in
        case sjob (sessions p1 ! i) of
          Some j \<Rightarrow> hold j p1
        | None \<Rightarrow>
            (let v = svendor (sessions p1 ! i) in
             case new_job processes v (q_now q) (q_memory_ok q) p1 of
               Inl e \<Rightarrow> Some (p1, Inl e)
             | Inr (p2, j) \<Rightarrow>
                 if \<not> q_thread_ok q then map_option (\<lambda>p3. (p3, Inl UNAVAILABLE)) (discard_job j v p2)
                 else hold j (set_session i ((sessions p2 ! i)\<lparr>sjob := Some j\<rparr>) p2))))"

text \<open>A query asks an idle job for a new sample, then waits for the controller.\<close>

definition ask :: "u32 \<Rightarrow> u64 \<Rightarrow> gpu_job \<Rightarrow> gpu_job" where
  "ask processes now job = job\<lparr>jstate := QUERY, jprocesses := processes, jrequested := now\<rparr>"

definition poke :: "nat \<Rightarrow> u32 \<Rightarrow> u64 \<Rightarrow> pool \<Rightarrow> pool option" where
  "poke g processes now p = (case gjob (guards p ! g) of None \<Rightarrow> None
   | Some j \<Rightarrow> on_job j (\<lambda>job. if jstate job = IDLE then ask processes now job else job) p)"

datatype taken = Taken gpu_frame | Missing string

text \<open>The second critical section: take the frame, drop a stale one, or report why there is none.\<close>

definition take_frame :: "nat \<Rightarrow> nat \<Rightarrow> u32 \<Rightarrow> u64 \<Rightarrow> pool \<Rightarrow> (pool \<times> taken) option" where
  "take_frame g vendor processes now p = (case gjob (guards p ! g) of None \<Rightarrow> None
   | Some j \<Rightarrow>
      (let job = jobs p ! j; give_up = (\<lambda>e p. map_option (\<lambda>p'. (p', Missing e)) (guard_release g p)) in
       case (if jstate job = READY then jframe job else None) of
         Some f \<Rightarrow>
           (let v = fvalue (frames p ! f) in
            if fprocesses v \<noteq> processes \<or> frame_ns < now - fstarted v
            then Option.bind (on_job j (\<lambda>job. (ask processes now job)\<lparr>jframe := None\<rparr>) p) (\<lambda>p1.
                 Option.bind (frame_release (Some f) p1) (give_up (worker_error vendor PENDING)))
            else if f < length (frames p) \<and> frefs (frames p ! f) \<noteq> 0
            then Some (set_guard g ((guards p ! g)\<lparr>gframe := Some f\<rparr>)
                   (p\<lparr>frames := (frames p)[f := (frames p ! f)\<lparr>frefs := frefs (frames p ! f) + 1\<rparr>]\<rparr>), Taken v)
            else None)
       | None \<Rightarrow>
           give_up (if jstate job = ERROR then jreason job
              else worker_error vendor (if query_ns \<le> now - jrequested job then TIMEOUT else PENDING)) p))"

text \<open>After the decoding: consume the frame if it is still the job's, and let go.\<close>

definition finish_query :: "nat \<Rightarrow> nat \<Rightarrow> u32 \<Rightarrow> u64 \<Rightarrow> pool \<Rightarrow> pool option" where
  "finish_query g vendor processes now p = (case gjob (guards p ! g) of None \<Rightarrow> None
   | Some j \<Rightarrow>
      (let job = jobs p ! j in
       if jframe job = gframe (guards p ! g) \<and> jframe job \<noteq> None \<and> \<not> jcancelled job \<and> \<not> jdone job
       then Option.bind (on_job j (\<lambda>job. (ask processes now job)\<lparr>jframe := None,
                jstate := if vendor < 3 then QUERY else IDLE\<rparr>) p) (\<lambda>p1.
            Option.bind (frame_release (jframe job) p1) (guard_release g))
       else guard_release g p))"

section \<open>The controller thread\<close>

datatype start_outcome = Spawn_failed errno | Configuration_failed errno | Spawned

definition job_error :: "string \<Rightarrow> u64 \<Rightarrow> gpu_job \<Rightarrow> gpu_job" where
  "job_error reason now job = job\<lparr>jstate := ERROR, jfailed_at := now, jreason := take 95 reason\<rparr>"

definition controller_start :: "start_outcome \<Rightarrow> u64 \<Rightarrow> gpu_job \<Rightarrow> gpu_job" where
  "controller_start outcome now job = (case outcome of
     Spawn_failed e \<Rightarrow> (job_error (worker_error (jvendor job) UNAVAILABLE) now job)\<lparr>jphase := Ending\<rparr>
   | Configuration_failed e \<Rightarrow>
       (job_error (worker_error (jvendor job) (if e = ETIMEDOUT then TIMEOUT else EXITED)) now job)\<lparr>jphase := Ending\<rparr>
   | Spawned \<Rightarrow> job\<lparr>jphase := Waiting\<rparr>)"

text \<open>The waiting loop: leave when cancelled, ask the reader when a sample is wanted.\<close>

definition controller_observe :: "gpu_job \<Rightarrow> gpu_job" where
  "controller_observe job =
     (if jcancelled job then job\<lparr>jphase := Ending\<rparr>
      else if jstate job = QUERY
      then job\<lparr>jphase := Asking, jasked := (jprocesses job, jrequested job), jsequence := jsequence job + 1\<rparr>
      else job)"

definition controller_answer :: "nat \<Rightarrow> response \<Rightarrow> u64 \<Rightarrow> pool \<Rightarrow> pool option" where
  "controller_answer j r now p = (case r of
     Frame f \<Rightarrow> on_job j (\<lambda>job. job\<lparr>jframe := Some (length (frames p)), jstate := READY, jphase := Waiting\<rparr>)
        (p\<lparr>frames := frames p @ [\<lparr>frefs = 1, fvalue = f\<rparr>]\<rparr>)
   | _ \<Rightarrow> on_job j (\<lambda>job. (job_error (response_error (jvendor job) r) now job)\<lparr>jphase := Ending\<rparr>) p)"

definition controller_done :: "gpu_job \<Rightarrow> gpu_job" where
  "controller_done job = job\<lparr>jdone := True, jphase := Leaving\<rparr>"

definition controller_leave :: "nat \<Rightarrow> pool \<Rightarrow> pool option" where
  "controller_leave j p = (let v = jvendor (jobs p ! j) in
     Option.bind (on_job j (\<lambda>job. job\<lparr>jphase := Gone\<rparr>)
         (p\<lparr>controllers := (controllers p)(v := controllers p v - 1)\<rparr>))
       (job_release (Some j)))"

section \<open>The Lua functions\<close>

text \<open>\<open>wtop_gpu_worker_open\<close> and \<open>wtop_hardware_worker_open\<close>: \<open>None\<close> is the argument error.\<close>

definition gpu_worker_open :: "string \<Rightarrow> pool \<Rightarrow> pool option" where
  "gpu_worker_open name p = (case index_of name (take 3 worker_names) of
     Some i \<Rightarrow> Some (open_session i p) | None \<Rightarrow> None)"

definition hardware_worker_open :: "string \<Rightarrow> nat \<Rightarrow> pool \<Rightarrow> pool option" where
  "hardware_worker_open name bytes p =
     (if bytes = 0 \<or> 65536 < bytes then None
      else case index_of name (drop 3 worker_names) of
        Some i \<Rightarrow> Some (open_session (3 + i) p) | None \<Rightarrow> None)"

text \<open>The flags of a query: the process or safe-mode flag, and the deep scan of \<open>gpu_drm\<close>.\<close>

definition query_flags :: "nat \<Rightarrow> bool \<Rightarrow> bool \<Rightarrow> u32" where
  "query_flags vendor processes deep =
     (let flags = (if processes then 1 else 0) in
      if 3 \<le> vendor \<and> worker_names ! vendor = ''gpu_drm'' \<and> deep then flags OR 4 else flags)"

definition wait_allowed :: "int \<Rightarrow> bool" where
  "wait_allowed wait \<longleftrightarrow> 0 \<le> wait \<and> wait \<le> 50"

text \<open>The result of a query: the decoded table, or the text and a fresh table, with the
  times, the transport and the reader's process.\<close>

definition query_result :: "nat \<Rightarrow> gpu_frame \<Rightarrow> int \<Rightarrow> lua list option" where
  "query_result vendor f pid =
     Option.bind (if vendor < 3 then decode_frame (fdata f) else Some [LTab [], LStr (text_of (fdata f))])
     (\<lambda>st. Option.bind (push_setfield 80 ''sample_started_ns'' (LInt (sint (fstarted f))) st)
     (\<lambda>st. Option.bind (push_setfield 80 ''sample_finished_ns'' (LInt (sint (ffinished f))) st)
     (\<lambda>st. Option.bind (push_setfield 80 ''processes_included'' (LBool (fprocesses f \<noteq> 0 \<and> vendor = 0)) st)
     (\<lambda>st. Option.bind (push_setfield 80 ''transport'' (LStr ''process'') st)
     (push_setfield 80 ''worker_pid'' (LInt pid))))))"

section \<open>Counting holders\<close>

definition cnt :: "('a \<Rightarrow> bool) \<Rightarrow> 'a list \<Rightarrow> int" where
  "cnt P xs = int (length (filter P xs))"

lemma cnt_simps [simp]:
  "cnt P [] = 0" "cnt P (x # xs) = of_bool (P x) + cnt P xs" "cnt P (xs @ ys) = cnt P xs + cnt P ys"
  by (simp_all add: cnt_def)

lemma cnt_nonneg [simp]: "0 \<le> cnt P xs"
  by (simp add: cnt_def)

lemma cnt_update:
  "i < length xs \<Longrightarrow> cnt P (xs[i := x]) = cnt P xs - of_bool (P (xs ! i)) + of_bool (P x)"
  by (induction xs arbitrary: i) (auto split: nat.split)

lemma cnt_pos: "i < length xs \<Longrightarrow> P (xs ! i) \<Longrightarrow> 1 \<le> cnt P xs"
  by (induction xs arbitrary: i) (fastforce simp: nth_Cons split: nat.splits)+

lemma cnt_zero: "(\<And>x. x \<in> set xs \<Longrightarrow> \<not> P x) \<Longrightarrow> cnt P xs = 0"
  by (induction xs) auto

lemma held: "int n = cnt P xs + cnt Q ys + int (Suc k) \<Longrightarrow> n \<noteq> 0"
  using cnt_nonneg [of P xs] cnt_nonneg [of Q ys] by linarith

text \<open>
  The invariant, with the references \<open>X\<close> on jobs and \<open>Y\<close> on frames that running code holds
  between two steps: every count is the number of holders, every address is known.
\<close>

definition job_refs :: "nat list \<Rightarrow> pool \<Rightarrow> bool" where
  "job_refs X p \<longleftrightarrow> (\<forall>j < length (jobs p). int (jrefs (jobs p ! j)) =
      cnt (\<lambda>s. sjob s = Some j) (sessions p) + cnt (\<lambda>g. gjob g = Some j) (guards p)
      + of_bool (jphase (jobs p ! j) \<noteq> Gone) + int (count_list X j))
    \<and> (\<forall>i < length (sessions p). \<forall>j. sjob (sessions p ! i) = Some j \<longrightarrow> j < length (jobs p))
    \<and> (\<forall>i < length (guards p). \<forall>j. gjob (guards p ! i) = Some j \<longrightarrow> j < length (jobs p))
    \<and> (\<forall>j \<in> set X. j < length (jobs p))"

definition frame_refs :: "nat list \<Rightarrow> pool \<Rightarrow> bool" where
  "frame_refs Y p \<longleftrightarrow> (\<forall>f < length (frames p). int (frefs (frames p ! f)) =
      cnt (\<lambda>job. jrefs job \<noteq> 0 \<and> jframe job = Some f) (jobs p)
      + cnt (\<lambda>g. gframe g = Some f) (guards p) + int (count_list Y f))
    \<and> (\<forall>i < length (jobs p). \<forall>f. jframe (jobs p ! i) = Some f \<longrightarrow> f < length (frames p))
    \<and> (\<forall>i < length (guards p). \<forall>f. gframe (guards p ! i) = Some f \<longrightarrow> f < length (frames p))
    \<and> (\<forall>f \<in> set Y. f < length (frames p))"

definition controllers_ok :: "pool \<Rightarrow> bool" where
  "controllers_ok p \<longleftrightarrow> (\<forall>v. int (controllers p v) = cnt (\<lambda>job. jvendor job = v \<and> jphase job \<noteq> Gone) (jobs p)
     \<and> controllers p v \<le> 2)"

definition job_ok :: "gpu_job \<Rightarrow> bool" where
  "job_ok job \<longleftrightarrow> (jframe job \<noteq> None \<longleftrightarrow> jstate job = READY)
     \<and> (jphase job \<in> {Starting, Asking} \<longrightarrow> jstate job = QUERY)
     \<and> (jphase job = Asking \<longrightarrow> jasked job = (jprocesses job, jrequested job))
     \<and> (jstate job = ERROR \<longrightarrow> jphase job \<in> {Ending, Leaving, Gone})
     \<and> (jdone job \<longrightarrow> jphase job \<in> {Leaving, Gone})"

definition pool_inv :: "nat list \<Rightarrow> nat list \<Rightarrow> pool \<Rightarrow> bool" where
  "pool_inv X Y p \<longleftrightarrow> job_refs X p \<and> frame_refs Y p \<and> controllers_ok p \<and> list_all job_ok (jobs p)"

lemma frame_release_inv:
  assumes "pool_inv X (f # Y) p"
  shows "\<exists>p'. frame_release (Some f) p = Some p' \<and> pool_inv X Y p' \<and> jobs p' = jobs p
    \<and> sessions p' = sessions p \<and> guards p' = guards p \<and> controllers p' = controllers p"
proof -
  have f: "f < length (frames p)" using assms by (simp add: pool_inv_def frame_refs_def)
  have pos: "frefs (frames p ! f) \<noteq> 0"
  proof (rule held)
    show "int (frefs (frames p ! f)) = cnt (\<lambda>job. jrefs job \<noteq> 0 \<and> jframe job = Some f) (jobs p)
      + cnt (\<lambda>g. gframe g = Some f) (guards p) + int (Suc (count_list Y f))"
      using assms f unfolding pool_inv_def frame_refs_def by auto
  qed
  have "frame_refs Y (p\<lparr>frames := (frames p)[f := (frames p ! f)\<lparr>frefs := frefs (frames p ! f) - 1\<rparr>]\<rparr>)"
    using assms f pos unfolding pool_inv_def frame_refs_def
    by (auto simp: nth_list_update of_nat_diff split: if_splits)
  then show ?thesis using assms f pos by (simp add: pool_inv_def job_refs_def controllers_ok_def)
qed

section \<open>Steps keep the counts\<close>

lemma refs_count:
  "pool_inv X Y p \<Longrightarrow> j < length (jobs p) \<Longrightarrow> int (jrefs (jobs p ! j)) =
     cnt (\<lambda>s. sjob s = Some j) (sessions p) + cnt (\<lambda>g. gjob g = Some j) (guards p)
     + of_bool (jphase (jobs p ! j) \<noteq> Gone) + int (count_list X j)"
  by (simp add: pool_inv_def job_refs_def)

lemma counted:
  "int n = a + b + of_bool c + int k \<Longrightarrow> 0 \<le> a \<Longrightarrow> 0 \<le> b \<Longrightarrow> 1 \<le> a \<or> 1 \<le> b \<or> c \<or> 0 < k \<Longrightarrow> n \<noteq> 0"
  by (cases c) auto

lemma live_counted:
  assumes "pool_inv X Y p" "j < length (jobs p)"
    and "1 \<le> cnt (\<lambda>s. sjob s = Some j) (sessions p) \<or> 1 \<le> cnt (\<lambda>g. gjob g = Some j) (guards p)
      \<or> jphase (jobs p ! j) \<noteq> Gone \<or> 0 < count_list X j"
  shows "jrefs (jobs p ! j) \<noteq> 0"
  by (rule counted [OF refs_count [OF assms(1,2)] cnt_nonneg cnt_nonneg assms(3)])

lemma live_float: "pool_inv (j # X) Y p \<Longrightarrow> j < length (jobs p) \<and> jrefs (jobs p ! j) \<noteq> 0"
proof -
  assume i: "pool_inv (j # X) Y p"
  then have j: "j < length (jobs p)" by (simp add: pool_inv_def job_refs_def)
  with live_counted [OF i j] show ?thesis by simp
qed

lemma live_session:
  assumes "pool_inv X Y p" "i < length (sessions p)" "sjob (sessions p ! i) = Some j"
  shows "j < length (jobs p) \<and> jrefs (jobs p ! j) \<noteq> 0"
proof -
  have j: "j < length (jobs p)"
    using assms unfolding pool_inv_def job_refs_def by blast
  show ?thesis using live_counted [OF assms(1) j] j cnt_pos [of i "sessions p" "\<lambda>s. sjob s = Some j"] assms(2,3)
    by blast
qed

lemma live_guard:
  assumes "pool_inv X Y p" "i < length (guards p)" "gjob (guards p ! i) = Some j"
  shows "j < length (jobs p) \<and> jrefs (jobs p ! j) \<noteq> 0"
proof -
  have j: "j < length (jobs p)"
    using assms unfolding pool_inv_def job_refs_def by blast
  show ?thesis using live_counted [OF assms(1) j] j cnt_pos [of i "guards p" "\<lambda>s. gjob s = Some j"] assms(2,3)
    by blast
qed

lemma live_phase: "pool_inv X Y p \<Longrightarrow> j < length (jobs p) \<Longrightarrow> jphase (jobs p ! j) \<noteq> Gone \<Longrightarrow> jrefs (jobs p ! j) \<noteq> 0"
  using live_counted by blast

text \<open>An update of a job that leaves its count, its frame, its vendor and its thread alone.\<close>

definition same_holds :: "gpu_job \<Rightarrow> gpu_job \<Rightarrow> bool" where
  "same_holds job job' \<longleftrightarrow> jrefs job' = jrefs job \<and> jvendor job' = jvendor job
     \<and> (jphase job' = Gone \<longleftrightarrow> jphase job = Gone)"

abbreviation put_job :: "nat \<Rightarrow> gpu_job \<Rightarrow> pool \<Rightarrow> pool" where
  "put_job j job p \<equiv> p\<lparr>jobs := (jobs p)[j := job]\<rparr>"

lemma put_job_refs:
  "job_refs X p \<Longrightarrow> j < length (jobs p) \<Longrightarrow> same_holds (jobs p ! j) job' \<Longrightarrow> job_refs X (put_job j job' p)"
  by (auto simp: job_refs_def same_holds_def nth_list_update)

lemma put_job_controllers:
  "controllers_ok p \<Longrightarrow> j < length (jobs p) \<Longrightarrow> jvendor job' = jvendor (jobs p ! j) \<Longrightarrow>
     (jphase job' = Gone \<longleftrightarrow> jphase (jobs p ! j) = Gone) \<Longrightarrow> controllers_ok (put_job j job' p)"
  by (simp add: controllers_ok_def cnt_update)

lemma put_job_ok: "list_all job_ok (jobs p) \<Longrightarrow> job_ok job' \<Longrightarrow> list_all job_ok (jobs (put_job j job' p))"
  by (auto simp: list_all_iff dest!: set_update_subset_insert [THEN subsetD])

lemma put_job_inv:
  assumes "pool_inv X Y p" "j < length (jobs p)" "same_holds (jobs p ! j) job'" "jframe job' = jframe (jobs p ! j)" "job_ok job'"
  shows "pool_inv X Y (put_job j job' p)"
proof -
  have "frame_refs Y (put_job j job' p)"
    using assms unfolding pool_inv_def frame_refs_def same_holds_def
    by (auto simp: cnt_update nth_list_update)
  then show ?thesis using assms put_job_refs put_job_controllers put_job_ok
    by (auto simp: pool_inv_def same_holds_def)
qed

text \<open>The job gives up its frame: the reference is now the running code's.\<close>

lemma put_job_drop_frame:
  assumes "pool_inv X Y p" "j < length (jobs p)" "same_holds (jobs p ! j) job'" "jframe (jobs p ! j) = Some f"
    and "jframe job' = None" "job_ok job'" "jrefs (jobs p ! j) \<noteq> 0"
  shows "pool_inv X (f # Y) (put_job j job' p)"
proof -
  have "frame_refs (f # Y) (put_job j job' p)"
    using assms unfolding pool_inv_def frame_refs_def same_holds_def
    by (auto simp: cnt_update nth_list_update)
  then show ?thesis using assms put_job_refs put_job_controllers put_job_ok
    by (auto simp: pool_inv_def same_holds_def)
qed

text \<open>A new reference on a job.\<close>

lemma put_job_retain:
  assumes "pool_inv X Y p" "j < length (jobs p)" "jrefs (jobs p ! j) \<noteq> 0"
  shows "pool_inv (j # X) Y (put_job j ((jobs p ! j)\<lparr>jrefs := jrefs (jobs p ! j) + 1\<rparr>) p)"
proof -
  let ?job = "(jobs p ! j)\<lparr>jrefs := jrefs (jobs p ! j) + 1\<rparr>"
  have "job_refs (j # X) (put_job j ?job p)"
    using assms unfolding pool_inv_def job_refs_def by (auto simp: nth_list_update)
  moreover have "frame_refs Y (put_job j ?job p)"
    using assms unfolding pool_inv_def frame_refs_def
    by (auto simp: cnt_update nth_list_update)
  moreover have "job_ok ?job" using assms by (auto simp: pool_inv_def list_all_length job_ok_def)
  ultimately show ?thesis using assms put_job_controllers put_job_ok by (auto simp: pool_inv_def)
qed

lemma inv_jobD: "pool_inv X Y p \<Longrightarrow> j < length (jobs p) \<Longrightarrow> job_ok (jobs p ! j)"
  by (simp add: pool_inv_def list_all_length)

lemma job_release_inv:
  assumes "pool_inv (j # X) Y p"
  shows "\<exists>p'. job_release (Some j) p = Some p' \<and> pool_inv X Y p' \<and> sessions p' = sessions p \<and> guards p' = guards p
    \<and> controllers p' = controllers p \<and> length (jobs p') = length (jobs p)
    \<and> (\<forall>i. i \<noteq> j \<longrightarrow> jobs p' ! i = jobs p ! i) \<and> jphase (jobs p' ! j) = jphase (jobs p ! j)"
proof -
  have j: "j < length (jobs p)" "jrefs (jobs p ! j) \<noteq> 0" using live_float [OF assms] by simp_all
  define job' where "job' = (jobs p ! j)\<lparr>jrefs := jrefs (jobs p ! j) - 1\<rparr>"
  have on: "on_job j (\<lambda>job. job\<lparr>jrefs := jrefs job - 1\<rparr>) p = Some (put_job j job' p)"
    using j by (simp add: on_job_def job'_def)
  have refs: "job_refs X (put_job j job' p)"
    using assms j unfolding pool_inv_def job_refs_def job'_def
    by (auto simp: nth_list_update of_nat_diff split: if_splits)
  have rest: "controllers_ok (put_job j job' p)" "list_all job_ok (jobs (put_job j job' p))"
    using assms put_job_controllers put_job_ok j inv_jobD [OF assms j(1)]
    by (auto simp: pool_inv_def job'_def job_ok_def)
  show ?thesis
  proof (cases "jrefs (jobs p ! j) = 1 \<and> jframe (jobs p ! j) \<noteq> None")
    case True
    then obtain f where f: "jframe (jobs p ! j) = Some f" "jrefs (jobs p ! j) = 1" by blast
    have "frame_refs (f # Y) (put_job j job' p)"
      using assms j f unfolding pool_inv_def frame_refs_def job'_def by (auto simp: cnt_update nth_list_update)
    with refs rest have "pool_inv X (f # Y) (put_job j job' p)" by (simp add: pool_inv_def)
    from frame_release_inv [OF this] obtain p' where "frame_release (Some f) (put_job j job' p) = Some p'"
        "pool_inv X Y p'" "jobs p' = jobs (put_job j job' p)" "sessions p' = sessions p" "guards p' = guards p"
        "controllers p' = controllers p" by auto
    then show ?thesis using on f j by (simp add: job'_def)
  next
    case False
    have "frame_refs Y (put_job j job' p)"
      using assms j False unfolding pool_inv_def frame_refs_def job'_def
      by (auto simp: cnt_update nth_list_update)
    with refs rest have "pool_inv X Y (put_job j job' p)" by (simp add: pool_inv_def)
    then show ?thesis using on False j by (auto simp: job'_def)
  qed
qed

lemma job_release_opt:
  assumes "pool_inv (case jo of Some j \<Rightarrow> j # X | None \<Rightarrow> X) Y p"
  shows "\<exists>p'. job_release jo p = Some p' \<and> pool_inv X Y p' \<and> sessions p' = sessions p \<and> guards p' = guards p
    \<and> length (jobs p') = length (jobs p)"
  using assms job_release_inv by (cases jo) fastforce+

lemma frame_release_opt:
  assumes "pool_inv X (case fo of Some f \<Rightarrow> f # Y | None \<Rightarrow> Y) p"
  shows "\<exists>p'. frame_release fo p = Some p' \<and> pool_inv X Y p' \<and> jobs p' = jobs p
    \<and> sessions p' = sessions p \<and> guards p' = guards p"
  using assms frame_release_inv by (cases fo) fastforce+

text \<open>Moving a reference between a session or a guard and the running code.\<close>

lemma clear_session:
  assumes "pool_inv X Y p" "i < length (sessions p)" "sjob s' = None"
  shows "pool_inv (case sjob (sessions p ! i) of Some j \<Rightarrow> j # X | None \<Rightarrow> X) Y (set_session i s' p)"
  using assms unfolding pool_inv_def job_refs_def frame_refs_def controllers_ok_def set_session_def
  by (auto simp: cnt_update nth_list_update split: option.splits)

lemma fill_session:
  assumes "pool_inv (j # X) Y p" "i < length (sessions p)" "sjob (sessions p ! i) = None" "sjob s' = Some j"
  shows "pool_inv X Y (set_session i s' p)"
  using assms unfolding pool_inv_def job_refs_def frame_refs_def controllers_ok_def set_session_def
  by (auto simp: cnt_update nth_list_update split: option.splits)

lemma clear_guard_frame:
  assumes "pool_inv X Y p" "g < length (guards p)"
  shows "pool_inv X (case gframe (guards p ! g) of Some f \<Rightarrow> f # Y | None \<Rightarrow> Y)
    (set_guard g ((guards p ! g)\<lparr>gframe := None\<rparr>) p)"
  using assms unfolding pool_inv_def job_refs_def frame_refs_def controllers_ok_def set_guard_def
  by (auto simp: cnt_update nth_list_update split: option.splits)

lemma clear_guard_job:
  assumes "pool_inv X Y p" "g < length (guards p)" "gframe (guards p ! g) = None"
  shows "pool_inv (case gjob (guards p ! g) of Some j \<Rightarrow> j # X | None \<Rightarrow> X) Y
    (set_guard g \<lparr>gframe = None, gjob = None\<rparr> p)"
  using assms unfolding pool_inv_def job_refs_def frame_refs_def controllers_ok_def set_guard_def
  by (auto simp: cnt_update nth_list_update split: option.splits)

lemma add_guard:
  assumes "pool_inv (j # X) Y p"
  shows "pool_inv X Y (p\<lparr>guards := guards p @ [\<lparr>gframe = None, gjob = Some j\<rparr>]\<rparr>)"
  using assms unfolding pool_inv_def job_refs_def frame_refs_def controllers_ok_def
  by (auto simp: nth_append less_Suc_eq split: option.splits if_splits)

lemma guard_release_inv:
  assumes "pool_inv X Y p" "g < length (guards p)"
  shows "\<exists>p'. guard_release g p = Some p' \<and> pool_inv X Y p' \<and> sessions p' = sessions p"
proof -
  obtain p1 where p1: "frame_release (gframe (guards p ! g)) (set_guard g ((guards p ! g)\<lparr>gframe := None\<rparr>) p) = Some p1"
      "pool_inv X Y p1" "guards p1 = (guards p)[g := (guards p ! g)\<lparr>gframe := None\<rparr>]" "sessions p1 = sessions p"
    using frame_release_opt [OF clear_guard_frame [OF assms]] by (auto simp: set_guard_def)
  have g: "g < length (guards p1)" "gframe (guards p1 ! g) = None" "gjob (guards p1 ! g) = gjob (guards p ! g)"
    using p1(3) assms(2) by simp_all
  obtain p2 where "job_release (gjob (guards p ! g)) (set_guard g \<lparr>gframe = None, gjob = None\<rparr> p1) = Some p2"
      "pool_inv X Y p2" "sessions p2 = sessions p"
    using job_release_opt [OF clear_guard_job [OF p1(2) g(1,2)]] g(3) p1(4) by (auto simp: set_guard_def)
  then show ?thesis using p1(1) by (simp add: guard_release_def)
qed

section \<open>Every operation keeps the invariant\<close>

lemma on_job_live: "j < length (jobs p) \<Longrightarrow> jrefs (jobs p ! j) \<noteq> 0 \<Longrightarrow> on_job j f p = Some (put_job j (f (jobs p ! j)) p)"
  by (simp add: on_job_def)

lemma open_session_inv: "pool_inv X Y p \<Longrightarrow> pool_inv X Y (open_session v p)"
  unfolding pool_inv_def job_refs_def frame_refs_def controllers_ok_def open_session_def
  by (auto simp: nth_append less_Suc_eq split: if_splits)

lemma close_session_inv:
  assumes "pool_inv X Y p" "i < length (sessions p)"
  shows "\<exists>p' d. close_session i p = Some (p', d) \<and> pool_inv X Y p'"
proof -
  let ?p1 = "set_session i ((sessions p ! i)\<lparr>sclosed := True, sjob := None\<rparr>) p"
  have c: "pool_inv (case sjob (sessions p ! i) of Some j \<Rightarrow> j # X | None \<Rightarrow> X) Y ?p1"
    by (rule clear_session [OF assms]) simp
  show ?thesis
  proof (cases "sjob (sessions p ! i)")
    case None
    then show ?thesis using c by (auto simp: close_session_def Let_def)
  next
    case (Some j)
    have i1: "pool_inv (j # X) Y ?p1" using c Some by simp
    note l = live_float [OF i1]
    let ?job = "(jobs ?p1 ! j)\<lparr>jcancelled := True\<rparr>"
    have "job_ok ?job" using inv_jobD [OF i1, of j] l by (simp add: job_ok_def)
    then have "pool_inv (j # X) Y (put_job j ?job ?p1)" using l by (intro put_job_inv [OF i1]) (simp_all add: same_holds_def)
    from job_release_inv [OF this] obtain p3 where "job_release (Some j) (put_job j ?job ?p1) = Some p3" "pool_inv X Y p3" by blast
    then show ?thesis using Some l on_job_live [of j ?p1 "\<lambda>job. job\<lparr>jcancelled := True\<rparr>"]
      by (simp add: close_session_def Let_def del: job_release.simps)
  qed
qed

lemma drop_expired_inv:
  assumes "pool_inv X Y p" "i < length (sessions p)"
  shows "\<exists>p'. drop_expired now i p = Some p' \<and> pool_inv X Y p' \<and> length (sessions p') = length (sessions p)"
proof (cases "sjob (sessions p ! i)")
  case None
  then show ?thesis using assms by (simp add: drop_expired_def)
next
  case (Some j)
  have "pool_inv (j # X) Y (set_session i ((sessions p ! i)\<lparr>sjob := None\<rparr>) p)"
    using clear_session [OF assms, of "(sessions p ! i)\<lparr>sjob := None\<rparr>"] Some by simp
  from job_release_inv [OF this] show ?thesis
    using assms Some by (fastforce simp: drop_expired_def set_session_def simp del: job_release.simps)
qed

lemma new_job_inv:
  assumes "pool_inv X Y p" and "new_job processes v now ok p = Inr (p', j)"
  shows "pool_inv (j # X) Y p' \<and> j < length (jobs p') \<and> sessions p' = sessions p \<and> jphase (jobs p' ! j) = Starting
    \<and> jvendor (jobs p' ! j) = v \<and> jframe (jobs p' ! j) = None \<and> jrefs (jobs p' ! j) = 2
    \<and> cnt (\<lambda>s. sjob s = Some j) (sessions p') = 0 \<and> cnt (\<lambda>g. gjob g = Some j) (guards p') = 0 \<and> j \<notin> set X"
proof -
  have n: "controllers p v < 2" "j = length (jobs p)"
    using assms(2) by (auto simp: new_job_def split: if_splits)
  have z: "cnt (\<lambda>s. sjob s = Some j) (sessions p) = 0" "cnt (\<lambda>g. gjob g = Some j) (guards p) = 0" "j \<notin> set X"
    using assms(1) unfolding n pool_inv_def job_refs_def
    by (auto intro!: cnt_zero simp: in_set_conv_nth) (metis less_irrefl)+
  have c: "count_list X j = 0" using z(3) by (simp add: count_list_0_iff)
  show ?thesis
    using assms n(1) z c unfolding pool_inv_def job_refs_def frame_refs_def controllers_ok_def
    by (auto simp: new_job_def nth_append less_Suc_eq job_ok_def n(2) split: if_splits)
qed

lemma frame_release_controllers:
  "frame_release fo (p\<lparr>controllers := c\<rparr>) = map_option (\<lambda>p. p\<lparr>controllers := c\<rparr>) (frame_release fo p)"
  by (cases fo) auto

lemma job_release_controllers:
  "job_release jo (p\<lparr>controllers := c\<rparr>) = map_option (\<lambda>p. p\<lparr>controllers := c\<rparr>) (job_release jo p)"
proof (cases jo)
  case (Some j)
  have "on_job j f (p\<lparr>controllers := c\<rparr>) = map_option (\<lambda>p. p\<lparr>controllers := c\<rparr>) (on_job j f p)" for f
    by (simp add: on_job_def)
  then show ?thesis using Some by (cases "on_job j (\<lambda>job. job\<lparr>jrefs := jrefs job - 1\<rparr>) p")
      (auto simp: frame_release_controllers)
qed simp

lemma job_release_keeps: "job_release jo p = Some p' \<Longrightarrow> controllers p' = controllers p"
proof -
  have f: "frame_release fo q = Some q' \<Longrightarrow> controllers q' = controllers q" for fo q q'
    by (cases fo) (auto split: if_splits)
  show "job_release jo p = Some p' \<Longrightarrow> controllers p' = controllers p"
    by (cases jo) (auto simp: on_job_def split: if_splits dest!: f)
qed

lemma controllers_pos:
  assumes "pool_inv X Y p" "j < length (jobs p)" "jphase (jobs p ! j) \<noteq> Gone"
  shows "1 \<le> controllers p (jvendor (jobs p ! j))"
proof -
  let ?P = "\<lambda>job. jvendor job = jvendor (jobs p ! j) \<and> jphase job \<noteq> Gone"
  have "1 \<le> cnt ?P (jobs p)" using assms(2,3) by (intro cnt_pos [of j]) simp_all
  moreover have "int (controllers p (jvendor (jobs p ! j))) = cnt ?P (jobs p)"
    using assms(1) unfolding pool_inv_def controllers_ok_def by blast
  ultimately show ?thesis by linarith
qed

lemma discard_job_inv:
  assumes "pool_inv (j # X) Y p" "jphase (jobs p ! j) = Starting" "jvendor (jobs p ! j) = v"
    and "jframe (jobs p ! j) = None" "cnt (\<lambda>s. sjob s = Some j) (sessions p) = 0"
    and "cnt (\<lambda>g. gjob g = Some j) (guards p) = 0" "j \<notin> set X"
  shows "\<exists>p'. discard_job j v p = Some p' \<and> pool_inv X Y p'"
proof -
  note l = live_float [OF assms(1)]
  let ?job = "(jobs p ! j)\<lparr>jrefs := 1, jphase := Gone\<rparr>" and ?c = "(controllers p)(v := controllers p v - 1)"
  have pos: "1 \<le> controllers p v" using controllers_pos [OF assms(1), of j] l assms(2,3) by simp
  have cl: "count_list X j = 0" using assms(7) by (simp add: count_list_0_iff)
  have "job_refs (j # X) (put_job j ?job p\<lparr>controllers := ?c\<rparr>)"
    using assms(1,5,6) l cl unfolding pool_inv_def job_refs_def by (auto simp: nth_list_update)
  moreover have "frame_refs Y (put_job j ?job p\<lparr>controllers := ?c\<rparr>)"
    using assms(1,4) l unfolding pool_inv_def frame_refs_def by (auto simp: cnt_update nth_list_update)
  moreover have "controllers_ok (put_job j ?job p\<lparr>controllers := ?c\<rparr>)"
    using assms(1,2,3) l pos unfolding pool_inv_def controllers_ok_def
    by (auto simp: cnt_update of_nat_diff intro: le_trans [OF diff_le_self])
  moreover have "list_all job_ok (jobs (put_job j ?job p\<lparr>controllers := ?c\<rparr>))"
    using put_job_ok [of p ?job j] assms(1,2,4) inv_jobD [OF assms(1), of j] l
    by (auto simp: pool_inv_def job_ok_def)
  ultimately have "pool_inv (j # X) Y (put_job j ?job p\<lparr>controllers := ?c\<rparr>)" by (simp add: pool_inv_def)
  from job_release_inv [OF this] obtain p1 where
      "job_release (Some j) (put_job j ?job p\<lparr>controllers := ?c\<rparr>) = Some p1" "pool_inv X Y p1" by blast
  moreover obtain p2 where p2: "job_release (Some j) (put_job j ?job p) = Some p2"
    using calculation(1) by (cases "job_release (Some j) (put_job j ?job p)")
      (simp_all add: job_release_controllers del: job_release.simps)
  moreover have "controllers p2 = controllers p" using job_release_keeps [OF p2] by simp
  ultimately show ?thesis
    using l on_job_live [of j p "\<lambda>job. job\<lparr>jrefs := 1, jphase := Gone\<rparr>"]
    by (simp add: discard_job_def job_release_controllers del: job_release.simps)
qed

lemma hold_inv:
  assumes "pool_inv X Y p" "j < length (jobs p)" "jrefs (jobs p ! j) \<noteq> 0"
  shows "\<exists>p'. on_job j (\<lambda>job. job\<lparr>jrefs := jrefs job + 1\<rparr>) p = Some p'
    \<and> pool_inv X Y (p'\<lparr>guards := guards p' @ [\<lparr>gframe = None, gjob = Some j\<rparr>]\<rparr>)"
  using add_guard [OF put_job_retain [OF assms]] on_job_live [OF assms(2,3)] by simp

lemma begin_query_inv:
  assumes "pool_inv X Y p" "i < length (sessions p)"
  shows "\<exists>p' r. begin_query q i processes p = Some (p', r) \<and> pool_inv X Y p'"
proof (cases "sclosed (sessions p ! i) \<or> \<not> q_pinned q")
  case True
  then show ?thesis using assms by (auto simp: begin_query_def)
next
  case False
  obtain p1 where p1: "drop_expired (q_now q) i p = Some p1" "pool_inv X Y p1" "i < length (sessions p1)"
    using drop_expired_inv [OF assms] assms(2) by metis
  show ?thesis
  proof (cases "sjob (sessions p1 ! i)")
    case (Some j)
    have l: "j < length (jobs p1)" "jrefs (jobs p1 ! j) \<noteq> 0" using live_session [OF p1(2,3) Some] by simp_all
    from hold_inv [OF p1(2) l] False p1(1) Some show ?thesis
      by (auto simp: begin_query_def Let_def)
  next
    case None
    let ?v = "svendor (sessions p1 ! i)"
    show ?thesis
    proof (cases "new_job processes ?v (q_now q) (q_memory_ok q) p1")
      case (Inl e)
      then show ?thesis using False p1 None by (auto simp: begin_query_def Let_def)
    next
      case (Inr pj)
      obtain p2 j where pj: "pj = (p2, j)" by fastforce
      note n = new_job_inv [OF p1(2) Inr [unfolded pj]]
      show ?thesis
      proof (cases "q_thread_ok q")
        case True
        have s: "sjob (sessions p2 ! i) = None" "i < length (sessions p2)" using n None p1(3) by simp_all
        let ?p3 = "set_session i ((sessions p2 ! i)\<lparr>sjob := Some j\<rparr>) p2"
        have i3: "pool_inv X Y ?p3" using n s by (intro fill_session) simp_all
        have "j < length (jobs ?p3)" "jrefs (jobs ?p3 ! j) \<noteq> 0" using n by (simp_all add: set_session_def)
        from hold_inv [OF i3 this] False p1(1) None Inr pj True show ?thesis
          by (auto simp: begin_query_def Let_def)
      next
        case f: False
        obtain p3 where "discard_job j ?v p2 = Some p3" "pool_inv X Y p3"
          using discard_job_inv [of j X Y p2 ?v] n by auto
        then show ?thesis using False p1(1) None Inr pj f by (auto simp: begin_query_def Let_def)
      qed
    qed
  qed
qed

lemma ask_ok:
  "job_ok job \<Longrightarrow> jstate job = IDLE \<or> jstate job = READY \<Longrightarrow>
     job_ok ((ask processes now job)\<lparr>jframe := None\<rparr>) \<and> job_ok ((ask processes now job)\<lparr>jframe := None, jstate := if v < 3 then QUERY else IDLE\<rparr>)"
  by (auto simp: job_ok_def ask_def)

lemma poke_inv:
  assumes "pool_inv X Y p" "g < length (guards p)" "gjob (guards p ! g) = Some j"
  shows "\<exists>p'. poke g processes now p = Some p' \<and> pool_inv X Y p'"
proof -
  have l: "j < length (jobs p)" "jrefs (jobs p ! j) \<noteq> 0" using live_guard [OF assms] by simp_all
  let ?job = "if jstate (jobs p ! j) = IDLE then ask processes now (jobs p ! j) else jobs p ! j"
  note ok = inv_jobD [OF assms(1) l(1)]
  have "pool_inv X Y (put_job j ?job p)"
    using ok by (intro put_job_inv [OF assms(1) l(1)]) (auto simp: same_holds_def ask_def job_ok_def)
  then show ?thesis using assms(3) on_job_live [OF l] by (simp add: poke_def)
qed

lemma ready_frame:
  assumes "pool_inv X Y p" "j < length (jobs p)" "jrefs (jobs p ! j) \<noteq> 0" "jframe (jobs p ! j) = Some f"
  shows "f < length (frames p) \<and> frefs (frames p ! f) \<noteq> 0"
proof -
  have f: "f < length (frames p)" using assms unfolding pool_inv_def frame_refs_def by blast
  have "int (frefs (frames p ! f)) = cnt (\<lambda>job. jrefs job \<noteq> 0 \<and> jframe job = Some f) (jobs p)
      + cnt (\<lambda>g. gframe g = Some f) (guards p) + of_bool False + int (count_list Y f)"
    using assms f unfolding pool_inv_def frame_refs_def by simp
  from counted [OF this] cnt_pos [of j "jobs p" "\<lambda>job. jrefs job \<noteq> 0 \<and> jframe job = Some f"] assms f
  show ?thesis by simp
qed

lemma retain_frame:
  assumes "pool_inv X Y p" "f < length (frames p)" "g < length (guards p)" "gframe (guards p ! g) = None"
  shows "pool_inv X Y (set_guard g ((guards p ! g)\<lparr>gframe := Some f\<rparr>)
    (p\<lparr>frames := (frames p)[f := (frames p ! f)\<lparr>frefs := frefs (frames p ! f) + 1\<rparr>]\<rparr>))"
  using assms unfolding pool_inv_def job_refs_def frame_refs_def controllers_ok_def set_guard_def
  by (auto simp: cnt_update nth_list_update split: option.splits)

lemma take_frame_inv:
  assumes "pool_inv X Y p" "g < length (guards p)" "gjob (guards p ! g) = Some j" "gframe (guards p ! g) = None"
  shows "\<exists>p' r. take_frame g v processes now p = Some (p', r) \<and> pool_inv X Y p'"
proof -
  have l: "j < length (jobs p)" "jrefs (jobs p ! j) \<noteq> 0" using live_guard [OF assms(1-3)] by simp_all
  note ok = inv_jobD [OF assms(1) l(1)]
  show ?thesis
  proof (cases "jstate (jobs p ! j) = READY")
    case False
    then show ?thesis using assms(3) guard_release_inv [OF assms(1,2)]
      by (auto simp: take_frame_def Let_def)
  next
    case True
    then obtain f where f: "jframe (jobs p ! j) = Some f" using ok by (auto simp: job_ok_def)
    note fr = ready_frame [OF assms(1) l f]
    let ?stale = "fprocesses (fvalue (frames p ! f)) \<noteq> processes \<or> frame_ns < now - fstarted (fvalue (frames p ! f))"
    show ?thesis
    proof (cases ?stale)
      case False
      then show ?thesis using retain_frame [OF assms(1) _ assms(2,4), of f] fr f True assms(3)
        by (simp add: take_frame_def Let_def)
    next
      case st: True
      let ?job = "(ask processes now (jobs p ! j))\<lparr>jframe := None\<rparr>"
      have "pool_inv X (f # Y) (put_job j ?job p)"
        using ask_ok [OF ok] True l f
        by (intro put_job_drop_frame [OF assms(1)]) (auto simp: same_holds_def ask_def)
      from frame_release_inv [OF this] obtain p2 where p2: "frame_release (Some f) (put_job j ?job p) = Some p2"
          "pool_inv X Y p2" "guards p2 = guards p" by auto
      obtain p3 where "guard_release g p2 = Some p3" "pool_inv X Y p3"
        using guard_release_inv [OF p2(2), of g] p2(3) assms(2) by auto
      then show ?thesis using st True f assms(3) on_job_live [OF l] p2(1)
        by (simp add: take_frame_def Let_def del: frame_release.simps)
    qed
  qed
qed

lemma finish_query_inv:
  assumes "pool_inv X Y p" "g < length (guards p)" "gjob (guards p ! g) = Some j"
  shows "\<exists>p'. finish_query g v processes now p = Some p' \<and> pool_inv X Y p'"
proof -
  have l: "j < length (jobs p)" "jrefs (jobs p ! j) \<noteq> 0" using live_guard [OF assms(1-3)] by simp_all
  note ok = inv_jobD [OF assms(1) l(1)]
  let ?mine = "jframe (jobs p ! j) = gframe (guards p ! g) \<and> jframe (jobs p ! j) \<noteq> None
    \<and> \<not> jcancelled (jobs p ! j) \<and> \<not> jdone (jobs p ! j)"
  show ?thesis
  proof (cases ?mine)
    case False
    then show ?thesis using assms(3) guard_release_inv [OF assms(1,2)]
      by (auto simp: finish_query_def Let_def)
  next
    case True
    then obtain f where f: "jframe (jobs p ! j) = Some f" by blast
    then have ready: "jstate (jobs p ! j) = READY" using ok by (simp add: job_ok_def)
    let ?job = "(ask processes now (jobs p ! j))\<lparr>jframe := None, jstate := if v < 3 then QUERY else IDLE\<rparr>"
    have "job_ok ?job" using ask_ok [OF ok, of processes now v] ready by simp
    then have "pool_inv X (f # Y) (put_job j ?job p)"
      using l f by (intro put_job_drop_frame [OF assms(1)]) (auto simp: same_holds_def ask_def)
    from frame_release_inv [OF this] obtain p2 where p2: "frame_release (Some f) (put_job j ?job p) = Some p2"
        "pool_inv X Y p2" "guards p2 = guards p" by auto
    obtain p3 where "guard_release g p2 = Some p3" "pool_inv X Y p3"
      using guard_release_inv [OF p2(2), of g] p2(3) assms(2) by auto
    moreover have "gframe (guards p ! g) = Some f" "\<not> jcancelled (jobs p ! j)" "\<not> jdone (jobs p ! j)"
      using True f by simp_all
    ultimately show ?thesis using f assms(3) on_job_live [OF l] p2(1)
      by (simp add: finish_query_def Let_def del: frame_release.simps)
  qed
qed

lemma controller_start_ok:
  "job_ok job \<Longrightarrow> jphase job = Starting \<Longrightarrow> job_ok (controller_start outcome now job)
     \<and> same_holds job (controller_start outcome now job) \<and> jframe (controller_start outcome now job) = jframe job"
  by (cases outcome) (simp_all add: job_ok_def same_holds_def controller_start_def job_error_def)

lemma controller_observe_ok:
  "job_ok job \<Longrightarrow> jphase job = Waiting \<Longrightarrow> job_ok (controller_observe job)
     \<and> same_holds job (controller_observe job) \<and> jframe (controller_observe job) = jframe job"
  by (cases "jcancelled job"; cases "jstate job") (simp_all add: job_ok_def same_holds_def controller_observe_def)

lemma controller_done_ok:
  "job_ok job \<Longrightarrow> jphase job = Ending \<Longrightarrow> job_ok (controller_done job)
     \<and> same_holds job (controller_done job) \<and> jframe (controller_done job) = jframe job"
  by (simp add: job_ok_def same_holds_def controller_done_def)

lemma controller_step_inv:
  assumes "pool_inv X Y p" "j < length (jobs p)"
    and "job' = controller_start outcome now (jobs p ! j) \<and> jphase (jobs p ! j) = Starting
      \<or> job' = controller_observe (jobs p ! j) \<and> jphase (jobs p ! j) = Waiting
      \<or> job' = controller_done (jobs p ! j) \<and> jphase (jobs p ! j) = Ending"
  shows "pool_inv X Y (put_job j job' p)"
  using assms(3) inv_jobD [OF assms(1,2)] controller_start_ok controller_observe_ok controller_done_ok
  by (intro put_job_inv [OF assms(1,2)]) metis+

lemma controller_answer_inv:
  assumes "pool_inv X Y p" "j < length (jobs p)" "jphase (jobs p ! j) = Asking"
  shows "\<exists>p'. controller_answer j r now p = Some p' \<and> pool_inv X Y p'"
proof -
  note ok = inv_jobD [OF assms(1,2)]
  have l: "jrefs (jobs p ! j) \<noteq> 0" using live_phase [OF assms(1,2)] assms(3) by simp
  have fail: "\<exists>p'. on_job j (\<lambda>job. (job_error (e job) now job)\<lparr>jphase := Ending\<rparr>) p = Some p' \<and> pool_inv X Y p'" for e
  proof -
    have "pool_inv X Y (put_job j ((job_error (e (jobs p ! j)) now (jobs p ! j))\<lparr>jphase := Ending\<rparr>) p)"
      using ok assms(3) by (intro put_job_inv [OF assms(1,2)]) (simp_all add: same_holds_def job_error_def job_ok_def)
    then show ?thesis using on_job_live [OF assms(2) l] by simp
  qed
  show ?thesis
  proof (cases r)
    case (Frame f)
    let ?p = "p\<lparr>frames := frames p @ [\<lparr>frefs = 1, fvalue = f\<rparr>]\<rparr>"
    let ?job = "(jobs p ! j)\<lparr>jframe := Some (length (frames p)), jstate := READY, jphase := Waiting\<rparr>"
    have none: "jframe (jobs p ! j) = None" using ok assms(3) by (auto simp: job_ok_def)
    have z: "cnt (\<lambda>job. jrefs job \<noteq> 0 \<and> jframe job = Some (length (frames p))) (jobs p) = 0"
        "cnt (\<lambda>g. gframe g = Some (length (frames p))) (guards p) = 0" "length (frames p) \<notin> set Y"
      using assms(1) unfolding pool_inv_def frame_refs_def
      by (auto intro!: cnt_zero simp: in_set_conv_nth) (metis less_irrefl)+
    have c: "count_list Y (length (frames p)) = 0" using z(3) by (simp add: count_list_0_iff)
    have "job_refs X (put_job j ?job ?p)"
      using assms unfolding pool_inv_def job_refs_def by (auto simp: nth_list_update)
    moreover have "frame_refs Y (put_job j ?job ?p)"
      using assms none z c l unfolding pool_inv_def frame_refs_def
      by (auto simp: cnt_update nth_list_update nth_append less_Suc_eq less_SucI split: if_splits)
    moreover have "controllers_ok (put_job j ?job ?p)"
      using assms unfolding pool_inv_def controllers_ok_def by (auto simp: cnt_update)
    moreover have "job_ok ?job" using ok assms(3) by (simp add: job_ok_def)
    ultimately have "pool_inv X Y (put_job j ?job ?p)"
      using assms(1) put_job_ok [of ?p ?job j] by (simp add: pool_inv_def)
    then show ?thesis using Frame on_job_live [of j ?p] assms(2) l by (simp add: controller_answer_def)
  qed (use fail in \<open>auto simp: controller_answer_def\<close>)
qed

lemma controller_leave_inv:
  assumes "pool_inv X Y p" "j < length (jobs p)" "jphase (jobs p ! j) = Leaving"
  shows "\<exists>p'. controller_leave j p = Some p' \<and> pool_inv X Y p'"
proof -
  let ?v = "jvendor (jobs p ! j)"
  let ?c = "(controllers p)(?v := controllers p ?v - 1)" and ?job = "(jobs p ! j)\<lparr>jphase := Gone\<rparr>"
  have l: "jrefs (jobs p ! j) \<noteq> 0" using live_phase [OF assms(1,2)] assms(3) by simp
  have pos: "1 \<le> controllers p ?v" using controllers_pos [OF assms(1,2)] assms(3) by simp
  have "job_refs (j # X) (put_job j ?job (p\<lparr>controllers := ?c\<rparr>))"
    using assms unfolding pool_inv_def job_refs_def by (auto simp: nth_list_update)
  moreover have "frame_refs Y (put_job j ?job (p\<lparr>controllers := ?c\<rparr>))"
    using assms unfolding pool_inv_def frame_refs_def by (auto simp: cnt_update nth_list_update)
  moreover have "controllers_ok (put_job j ?job (p\<lparr>controllers := ?c\<rparr>))"
    using assms pos unfolding pool_inv_def controllers_ok_def
    by (auto simp: cnt_update of_nat_diff intro: le_trans [OF diff_le_self])
  moreover have "job_ok ?job" using inv_jobD [OF assms(1,2)] assms(3) by (simp add: job_ok_def)
  ultimately have "pool_inv (j # X) Y (put_job j ?job (p\<lparr>controllers := ?c\<rparr>))"
    using assms(1) put_job_ok [of "p\<lparr>controllers := ?c\<rparr>" ?job j] by (simp add: pool_inv_def)
  from job_release_inv [OF this] show ?thesis
    using on_job_live [of j "p\<lparr>controllers := ?c\<rparr>"] assms(2) l
    by (fastforce simp: controller_leave_def Let_def simp del: job_release.simps)
qed

section \<open>Interleavings\<close>

text \<open>
  The steps of the threads. The Lua thread opens, closes and queries sessions, and collects
  guards; a query may be left at any point (an error of the interpreter) and other
  operations may run inside it. Every controller runs on its own.
\<close>

inductive pool_step :: "pool \<Rightarrow> pool \<Rightarrow> bool" where
  Open: "pool_step p (open_session v p)"
| Close: "i < length (sessions p) \<Longrightarrow> close_session i p = Some (p', d) \<Longrightarrow> pool_step p p'"
| Begin: "i < length (sessions p) \<Longrightarrow> begin_query q i processes p = Some (p', r) \<Longrightarrow> pool_step p p'"
| Poke: "g < length (guards p) \<Longrightarrow> gjob (guards p ! g) = Some j \<Longrightarrow> poke g processes now p = Some p' \<Longrightarrow> pool_step p p'"
| Take: "g < length (guards p) \<Longrightarrow> gjob (guards p ! g) = Some j \<Longrightarrow> gframe (guards p ! g) = None \<Longrightarrow>
    take_frame g v processes now p = Some (p', t) \<Longrightarrow> pool_step p p'"
| Finish: "g < length (guards p) \<Longrightarrow> gjob (guards p ! g) = Some j \<Longrightarrow>
    finish_query g v processes now p = Some p' \<Longrightarrow> pool_step p p'"
| Collect: "g < length (guards p) \<Longrightarrow> guard_release g p = Some p' \<Longrightarrow> pool_step p p'"
| Start: "j < length (jobs p) \<Longrightarrow> jphase (jobs p ! j) = Starting \<Longrightarrow>
    on_job j (controller_start outcome now) p = Some p' \<Longrightarrow> pool_step p p'"
| Observe: "j < length (jobs p) \<Longrightarrow> jphase (jobs p ! j) = Waiting \<Longrightarrow>
    on_job j controller_observe p = Some p' \<Longrightarrow> pool_step p p'"
| Answer: "j < length (jobs p) \<Longrightarrow> jphase (jobs p ! j) = Asking \<Longrightarrow>
    controller_answer j r now p = Some p' \<Longrightarrow> pool_step p p'"
| Done: "j < length (jobs p) \<Longrightarrow> jphase (jobs p ! j) = Ending \<Longrightarrow>
    on_job j controller_done p = Some p' \<Longrightarrow> pool_step p p'"
| Leave: "j < length (jobs p) \<Longrightarrow> jphase (jobs p ! j) = Leaving \<Longrightarrow>
    controller_leave j p = Some p' \<Longrightarrow> pool_step p p'"

definition empty_pool :: pool where
  "empty_pool = \<lparr>jobs = [], frames = [], sessions = [], guards = [], controllers = (\<lambda>_. 0)\<rparr>"

inductive reachable :: "pool \<Rightarrow> bool" where
  start: "reachable empty_pool"
| step: "reachable p \<Longrightarrow> pool_step p p' \<Longrightarrow> reachable p'"

inductive_cases stepE: "pool_step p p'"

lemma on_job_step:
  assumes "pool_inv X Y p" "j < length (jobs p)" "jphase (jobs p ! j) \<noteq> Gone"
    and "\<And>job'. job' = f (jobs p ! j) \<Longrightarrow> pool_inv X Y (put_job j job' p)"
  shows "\<exists>p'. on_job j f p = Some p' \<and> pool_inv X Y p'"
  using on_job_live [OF assms(2) live_phase [OF assms(1-3)]] assms(4) by simp

lemma controller_steps:
  assumes "pool_inv X Y p" "j < length (jobs p)"
  shows "jphase (jobs p ! j) = Starting \<Longrightarrow> \<exists>p'. on_job j (controller_start outcome now) p = Some p' \<and> pool_inv X Y p'"
    and "jphase (jobs p ! j) = Waiting \<Longrightarrow> \<exists>p'. on_job j controller_observe p = Some p' \<and> pool_inv X Y p'"
    and "jphase (jobs p ! j) = Ending \<Longrightarrow> \<exists>p'. on_job j controller_done p = Some p' \<and> pool_inv X Y p'"
  by (rule on_job_step [OF assms], simp, rule controller_step_inv [OF assms], simp)+

lemma pool_step_inv:
  assumes "pool_step p p'" "pool_inv [] [] p"
  shows "pool_inv [] [] p'"
  using assms(1)
proof cases
  case (Start j outcome now)
  then show ?thesis using controller_steps(1) [OF assms(2), of j outcome now] by auto
next
  case (Observe j)
  then show ?thesis using controller_steps(2) [OF assms(2), of j] by auto
next
  case (Done j)
  then show ?thesis using controller_steps(3) [OF assms(2), of j] by auto
next
  case (Answer j r now)
  then show ?thesis using controller_answer_inv [OF assms(2), of j r now] by auto
next
  case (Leave j)
  then show ?thesis using controller_leave_inv [OF assms(2), of j] by auto
next
  case (Close i d)
  then show ?thesis using close_session_inv [OF assms(2), of i] by auto
next
  case (Begin i q processes r)
  then show ?thesis using begin_query_inv [OF assms(2), of i q processes] by auto
next
  case (Poke g j processes now)
  then show ?thesis using poke_inv [OF assms(2), of g j processes now] by auto
next
  case (Take g j v processes now t)
  then show ?thesis using take_frame_inv [OF assms(2), of g j v processes now] by auto
next
  case (Finish g j v processes now)
  then show ?thesis using finish_query_inv [OF assms(2), of g j v processes now] by auto
next
  case (Collect g)
  then show ?thesis using guard_release_inv [OF assms(2), of g] by auto
next
  case (Open v)
  then show ?thesis using open_session_inv [OF assms(2), of v] by simp
qed

lemma reachable_inv: "reachable p \<Longrightarrow> pool_inv [] [] p"
proof (induction rule: reachable.induct)
  case start
  show ?case by (simp add: pool_inv_def job_refs_def frame_refs_def controllers_ok_def empty_pool_def)
next
  case (step p p')
  then show ?case using pool_step_inv by blast
qed

section \<open>Properties\<close>

text \<open>
  C14. No use after free: in every interleaving of queries, closes, collections and
  controller threads, each operation finds the job and the frame it touches alive, and no
  count goes below zero.
\<close>

theorem no_use_after_free:
  assumes "reachable p"
  shows "(\<forall>i < length (sessions p). close_session i p \<noteq> None \<and> (\<forall>q processes. begin_query q i processes p \<noteq> None))
    \<and> (\<forall>g < length (guards p). guard_release g p \<noteq> None \<and> (gjob (guards p ! g) \<noteq> None \<longrightarrow>
        (\<forall>processes now v. poke g processes now p \<noteq> None \<and> finish_query g v processes now p \<noteq> None
          \<and> (gframe (guards p ! g) = None \<longrightarrow> take_frame g v processes now p \<noteq> None))))
    \<and> (\<forall>j < length (jobs p).
        (jphase (jobs p ! j) = Asking \<longrightarrow> (\<forall>r now. controller_answer j r now p \<noteq> None))
        \<and> (jphase (jobs p ! j) = Leaving \<longrightarrow> controller_leave j p \<noteq> None)
        \<and> (jphase (jobs p ! j) \<noteq> Gone \<longrightarrow> (\<forall>f. on_job j f p \<noteq> None)))"
proof (intro conjI)
  note i = reachable_inv [OF assms]
  show "(\<forall>i < length (sessions p). close_session i p \<noteq> None \<and> (\<forall>q processes. begin_query q i processes p \<noteq> None))"
    using close_session_inv [OF i] begin_query_inv [OF i] by (metis option.distinct(1))
  show "(\<forall>g < length (guards p). guard_release g p \<noteq> None \<and> (gjob (guards p ! g) \<noteq> None \<longrightarrow>
        (\<forall>processes now v. poke g processes now p \<noteq> None \<and> finish_query g v processes now p \<noteq> None
          \<and> (gframe (guards p ! g) = None \<longrightarrow> take_frame g v processes now p \<noteq> None))))"
    using guard_release_inv [OF i] poke_inv [OF i] finish_query_inv [OF i] take_frame_inv [OF i]
    by (metis option.distinct(1) not_None_eq)
  show "(\<forall>j < length (jobs p).
        (jphase (jobs p ! j) = Asking \<longrightarrow> (\<forall>r now. controller_answer j r now p \<noteq> None))
        \<and> (jphase (jobs p ! j) = Leaving \<longrightarrow> controller_leave j p \<noteq> None)
        \<and> (jphase (jobs p ! j) \<noteq> Gone \<longrightarrow> (\<forall>f. on_job j f p \<noteq> None)))"
    using controller_answer_inv [OF i] controller_leave_inv [OF i] on_job_live live_phase [OF i]
    by (metis option.distinct(1))
qed

text \<open>
  C15. No leak: once every session has let go of its job, every guard is released and every
  controller has left, all jobs and all frames ever created are freed and no source counts
  a controller.
\<close>

theorem nothing_leaks:
  assumes "reachable p" and "\<forall>s \<in> set (sessions p). sjob s = None"
    and "\<forall>g \<in> set (guards p). gjob g = None \<and> gframe g = None" and "\<forall>job \<in> set (jobs p). jphase job = Gone"
  shows "(\<forall>job \<in> set (jobs p). jrefs job = 0) \<and> (\<forall>f \<in> set (frames p). frefs f = 0) \<and> controllers p v = 0"
proof -
  note i = reachable_inv [OF assms(1)]
  have z: "cnt (\<lambda>s. sjob s = Some j) (sessions p) = 0" "cnt (\<lambda>g. gjob g = Some j) (guards p) = 0"
      "cnt (\<lambda>g. gframe g = Some j) (guards p) = 0" for j
    using assms(2,3) by (auto intro!: cnt_zero)
  have jobs: "jrefs (jobs p ! j) = 0" if "j < length (jobs p)" for j
    using refs_count [OF i that] z [of j] assms(4) that by simp
  have frames: "frefs (frames p ! f) = 0" if "f < length (frames p)" for f
  proof -
    have "cnt (\<lambda>job. jrefs job \<noteq> 0 \<and> jframe job = Some f) (jobs p) = 0"
      using jobs by (intro cnt_zero) (auto simp: in_set_conv_nth)
    then show ?thesis using i that z(3) unfolding pool_inv_def frame_refs_def by auto
  qed
  have "cnt (\<lambda>job. jvendor job = v \<and> jphase job \<noteq> Gone) (jobs p) = 0" using assms(4) by (intro cnt_zero) auto
  then have "controllers p v = 0" using i unfolding pool_inv_def controllers_ok_def by (metis of_nat_eq_0_iff)
  then show ?thesis using jobs frames by (auto simp: in_set_conv_nth)
qed

text \<open>
  At most two controllers, hence two reader processes, exist per source, and the
  counter says exactly how many.
\<close>

theorem controllers_bounded:
  assumes "reachable p"
  shows "controllers p v = length (filter (\<lambda>job. jvendor job = v \<and> jphase job \<noteq> Gone) (jobs p))
    \<and> controllers p v \<le> 2"
  using reachable_inv [OF assms] unfolding pool_inv_def controllers_ok_def cnt_def by (metis of_nat_eq_iff)

text \<open>
  C16. A controller that waits for a reply owns its job: the job still asks for the sample
  that was requested, with the same flags and time, and holds no frame that the answer
  could overwrite.
\<close>

theorem answer_is_awaited:
  assumes "reachable p" and "j < length (jobs p)" and "jphase (jobs p ! j) = Asking"
  shows "jstate (jobs p ! j) = QUERY \<and> jframe (jobs p ! j) = None
    \<and> jasked (jobs p ! j) = (jprocesses (jobs p ! j), jrequested (jobs p ! j)) \<and> \<not> jdone (jobs p ! j)"
  using inv_jobD [OF reachable_inv [OF assms(1)] assms(2)] assms(3) by (auto simp: job_ok_def)

text \<open>
  C17. A query only hands out a frame that was asked for with the flags of this query and
  started at most five seconds ago; the guard then holds it, so that decoding it is safe.
\<close>

theorem taken_is_fresh:
  assumes "take_frame g v processes now p = Some (p', Taken f)" and "g < length (guards p)"
  shows "fprocesses f = processes \<and> now - fstarted f \<le> frame_ns
    \<and> (\<exists>i. gframe (guards p' ! g) = Some i \<and> fvalue (frames p' ! i) = f)"
proof -
  obtain j where j: "gjob (guards p ! g) = Some j" using assms(1) by (auto simp: take_frame_def split: option.splits)
  obtain i where i: "jstate (jobs p ! j) = READY" "jframe (jobs p ! j) = Some i"
    using assms(1) j by (auto simp: take_frame_def Let_def split: option.splits if_splits)
  let ?v = "fvalue (frames p ! i)"
  have fresh: "\<not> (fprocesses ?v \<noteq> processes \<or> frame_ns < now - fstarted ?v)"
  proof
    assume "fprocesses ?v \<noteq> processes \<or> frame_ns < now - fstarted ?v"
    with assms(1) j i show False
      by (auto simp: take_frame_def Let_def bind_eq_Some_conv)
  qed
  with assms j i show ?thesis
    by (auto simp: take_frame_def Let_def set_guard_def not_less split: if_splits)
qed

text \<open>
  What a query returns: a frame the client has accepted becomes one table (after the
  text, for a hardware collector) that carries the reader's times and its process.
\<close>

theorem query_result_table:
  assumes "vendor < 3 \<longrightarrow> gpu_wire_valid (fdata f)"
  shows "\<exists>t. query_result vendor f pid =
      Some (if vendor < 3 then [LTab t] else [LTab t, LStr (text_of (fdata f))])
    \<and> tab_get t (KStr ''sample_started_ns'') = LInt (sint (fstarted f))
    \<and> tab_get t (KStr ''sample_finished_ns'') = LInt (sint (ffinished f))
    \<and> tab_get t (KStr ''processes_included'') = LBool (fprocesses f \<noteq> 0 \<and> vendor = 0)
    \<and> tab_get t (KStr ''transport'') = LStr ''process'' \<and> tab_get t (KStr ''worker_pid'') = LInt pid"
proof -
  have "\<exists>t. (if vendor < 3 then decode_frame (fdata f) else Some [LTab [], LStr (text_of (fdata f))])
      = Some (LTab t # (if vendor < 3 then [] else [LStr (text_of (fdata f))]))"
    using valid_frame_table [of "fdata f"] assms by auto
  then obtain t where "(if vendor < 3 then decode_frame (fdata f) else Some [LTab [], LStr (text_of (fdata f))])
      = Some (LTab t # (if vendor < 3 then [] else [LStr (text_of (fdata f))]))" by blast
  then show ?thesis
    by (simp add: query_result_def push_setfield_def lua_push_def tab_get_set)
qed

text \<open>
  Every flag word the client can send is one the reader of that source accepts as a
  query, and only \<open>gpu_drm\<close> is asked for a deep scan.
\<close>

theorem query_flags_accepted:
  "(vendor < 3 \<longrightarrow> gpu_flags (query_flags vendor processes deep))
   \<and> hardware_flags (query_flags vendor processes deep) \<and> query_flags vendor processes deep \<noteq> 2
   \<and> (query_flags vendor processes deep AND 4 \<noteq> 0 \<longrightarrow> 3 \<le> vendor \<and> worker_names ! vendor = ''gpu_drm'')"
  by (cases processes; cases deep) (simp_all add: query_flags_def gpu_flags_def hardware_flags_def Let_def)

section \<open>A concrete run\<close>

definition sample_world :: query_world where
  "sample_world = \<lparr>q_now = 10, q_pinned = True, q_memory_ok = True, q_thread_ok = True\<rparr>"

definition sample_job :: gpu_job where
  "sample_job = \<lparr>jrefs = 3, jcancelled = False, jvendor = 0, jstate = QUERY, jdone = False, jprocesses = 1,
     jrequested = 10, jfailed_at = 0, jsequence = 0, jframe = None, jreason = [], jphase = Starting, jasked = (0, 0)\<rparr>"

text \<open>One session of source 0 with a query under way, then its controller, and a second session.\<close>

definition pool_asked :: pool where
  "pool_asked = \<lparr>jobs = [sample_job], frames = [],
     sessions = [\<lparr>sjob = Some 0, sclosed = False, svendor = 0\<rparr>], guards = [\<lparr>gframe = None, gjob = Some 0\<rparr>],
     controllers = (\<lambda>_. 0)(0 := 1)\<rparr>"

definition pool_asking :: pool where
  "pool_asking = put_job 0 (sample_job\<lparr>jphase := Asking, jasked := (1, 10), jsequence := 1\<rparr>) pool_asked"

definition sample_value :: gpu_frame where
  "sample_value = \<lparr>fstarted = 11, ffinished = 12, fprocesses = 1, fdata = [7]\<rparr>"

definition pool_ready :: pool where
  "pool_ready = put_job 0 (sample_job\<lparr>jphase := Waiting, jasked := (1, 10), jsequence := 1, jstate := READY,
      jframe := Some 0\<rparr>) (pool_asked\<lparr>frames := [\<lparr>frefs = 1, fvalue = sample_value\<rparr>]\<rparr>)"

lemma sample_reachable: "reachable pool_asking" "reachable pool_ready" "reachable pool_asked"
proof -
  note ev = empty_pool_def open_session_def begin_query_def drop_expired_def new_job_def on_job_def
    set_session_def sample_world_def sample_job_def pool_asked_def pool_asking_def pool_ready_def
    controller_start_def controller_observe_def controller_answer_def Let_def
  have s0: "reachable (open_session 0 empty_pool)" by (rule reachable.step [OF reachable.start Open])
  have "begin_query sample_world 0 1 (open_session 0 empty_pool) = Some (pool_asked, Inr 0)"
    by (simp add: ev)
  from Begin [OF _ this] show a: "reachable pool_asked"
    by (rule reachable.step [OF s0]) (simp add: ev)
  have "on_job 0 (controller_start Spawned 0) pool_asked = Some (put_job 0 (sample_job\<lparr>jphase := Waiting\<rparr>) pool_asked)"
    by (simp add: ev)
  from Start [OF _ _ this] have w: "reachable (put_job 0 (sample_job\<lparr>jphase := Waiting\<rparr>) pool_asked)"
    by (rule reachable.step [OF a]) (simp_all add: ev)
  have "on_job 0 controller_observe (put_job 0 (sample_job\<lparr>jphase := Waiting\<rparr>) pool_asked) = Some pool_asking"
    by (simp add: ev)
  from Observe [OF _ _ this] show b: "reachable pool_asking"
    by (rule reachable.step [OF w]) (simp_all add: ev)
  have "controller_answer 0 (Frame sample_value) 12 pool_asking = Some pool_ready" by (simp add: ev)
  from Answer [OF _ _ this] show "reachable pool_ready"
    by (rule reachable.step [OF b]) (simp_all add: ev)
qed

theorem no_use_after_free_witness:
  "close_session 0 pool_ready \<noteq> None \<and> take_frame 0 0 1 12 pool_ready \<noteq> None
   \<and> controller_answer 0 (Broken EPIPE) 12 pool_asking \<noteq> None"
  using no_use_after_free [OF sample_reachable(2)] no_use_after_free [OF sample_reachable(1)]
  by (simp add: pool_ready_def pool_asking_def pool_asked_def)

definition pool_over :: pool where
  "pool_over = pool_asked\<lparr>jobs := [(controller_start (Spawn_failed EAGAIN) 20 sample_job)\<lparr>jrefs := 0, jcancelled := True,
      jdone := True, jphase := Gone\<rparr>], sessions := [\<lparr>sjob = None, sclosed = True, svendor = 0\<rparr>],
     guards := [\<lparr>gframe = None, gjob = None\<rparr>], controllers := (\<lambda>_. 0)(0 := 0)\<rparr>"

lemma sample_over: "reachable pool_over"
proof -
  note ev = on_job_def set_session_def sample_job_def pool_asked_def controller_start_def job_error_def
    controller_done_def controller_leave_def close_session_def guard_release_def set_guard_def pool_over_def Let_def
  let ?j1 = "controller_start (Spawn_failed EAGAIN) 20 sample_job"
  let ?p1 = "put_job 0 ?j1 pool_asked"
  have "on_job 0 (controller_start (Spawn_failed EAGAIN) 20) pool_asked = Some ?p1" by (simp add: ev)
  from Start [OF _ _ this] have r1: "reachable ?p1"
    by (rule reachable.step [OF sample_reachable(3)]) (simp_all add: ev)
  let ?p2 = "?p1\<lparr>jobs := [?j1\<lparr>jrefs := 2\<rparr>], guards := [\<lparr>gframe = None, gjob = None\<rparr>]\<rparr>"
  have "guard_release 0 ?p1 = Some ?p2" by (simp add: ev)
  from Collect [OF _ this] have r2: "reachable ?p2" by (rule reachable.step [OF r1]) (simp add: ev)
  let ?p3 = "?p2\<lparr>jobs := [?j1\<lparr>jrefs := 1, jcancelled := True\<rparr>], sessions := [\<lparr>sjob = None, sclosed = True, svendor = 0\<rparr>]\<rparr>"
  have "close_session 0 ?p2 = Some (?p3, False)" by (simp add: ev)
  from Close [OF _ this] have r3: "reachable ?p3" by (rule reachable.step [OF r2]) (simp add: ev)
  let ?p4 = "?p3\<lparr>jobs := [?j1\<lparr>jrefs := 1, jcancelled := True, jdone := True, jphase := Leaving\<rparr>]\<rparr>"
  have "on_job 0 controller_done ?p3 = Some ?p4" by (simp add: ev)
  from Done [OF _ _ this] have r4: "reachable ?p4" by (rule reachable.step [OF r3]) (simp_all add: ev)
  have "controller_leave 0 ?p4 = Some pool_over" by (simp add: ev)
  from Leave [OF _ _ this] show ?thesis by (rule reachable.step [OF r4]) (simp_all add: ev)
qed

theorem nothing_leaks_witness:
  "reachable pool_over \<and> length (jobs pool_over) = 1 \<and> jrefs (jobs pool_over ! 0) = 0 \<and> controllers pool_over 0 = 0"
  using nothing_leaks [OF sample_over, of 0] sample_over by (simp add: pool_over_def)

theorem controllers_bounded_witness: "controllers pool_ready 0 \<le> 2 \<and> controllers pool_ready 0 = 1"
  using controllers_bounded [OF sample_reachable(2), of 0] by (simp add: pool_ready_def pool_asked_def)

theorem answer_is_awaited_witness: "jstate (jobs pool_asking ! 0) = QUERY \<and> jasked (jobs pool_asking ! 0) = (1, 10)"
  using answer_is_awaited [OF sample_reachable(1), of 0]
  by (simp add: pool_asking_def pool_asked_def sample_job_def)

theorem taken_is_fresh_witness:
  "\<exists>p'. take_frame 0 0 1 12 pool_ready = Some (p', Taken sample_value)
     \<and> fprocesses sample_value = 1 \<and> 12 - fstarted sample_value \<le> frame_ns"
proof -
  obtain p' where e: "take_frame 0 0 1 12 pool_ready = Some (p', Taken sample_value)"
    by (simp add: take_frame_def pool_ready_def pool_asked_def sample_job_def sample_value_def frame_ns_def Let_def)
  from e taken_is_fresh [OF e] show ?thesis by (simp add: pool_ready_def pool_asked_def)
qed

theorem query_result_table_witness:
  "\<exists>t. query_result 5 sample_value 77 = Some [LTab t, LStr (text_of [7])]
     \<and> tab_get t (KStr ''worker_pid'') = LInt 77 \<and> tab_get t (KStr ''sample_started_ns'') = LInt 11"
  using query_result_table [of 5 sample_value 77] by (simp add: sample_value_def) metis

theorem query_flags_accepted_witness:
  "query_flags 11 True True = 5 \<and> hardware_flags 5 \<and> gpu_flags (query_flags 0 True True)"
proof -
  have "query_flags 11 True True = 5"
    by (simp add: query_flags_def worker_names_def hardware_names_def)
  then show ?thesis using query_flags_accepted [of 11 True True] query_flags_accepted [of 0 True True] by simp
qed

end
