(* ===== verification/WorkerSpawn.thy ===== *)
theory WorkerSpawn imports WorkerPool "HOL-Library.Multiset" begin

text \<open>
  How a reader process comes to life, \<^verbatim>\<open>native/wtop_worker_client.c\<close> on Linux and
  \<^verbatim>\<open>native/wtop_worker_image_cache.h\<close>: the executable image in an anonymous or temporary
  file, the image the jobs share, the socket pair, the descriptors the child inherits and
  its arguments. The descriptors the process has open and the temporary names it has
  created are explicit, every system call answers from a record of the kernel's answers.
\<close>

section \<open>Descriptors\<close>

record fd_state =
  opened :: "nat multiset"
  named :: nat

definition open_fd :: "nat \<Rightarrow> fd_state \<Rightarrow> fd_state" where
  "open_fd fd s = s\<lparr>opened := opened s + {#fd#}\<rparr>"

definition close_fd :: "nat \<Rightarrow> fd_state \<Rightarrow> fd_state" where
  "close_fd fd s = s\<lparr>opened := opened s - {#fd#}\<rparr>"

definition add_name :: "fd_state \<Rightarrow> fd_state" where "add_name s = s\<lparr>named := named s + 1\<rparr>"
definition unlink_name :: "fd_state \<Rightarrow> fd_state" where "unlink_name s = s\<lparr>named := named s - 1\<rparr>"

lemmas fd_defs = open_fd_def close_fd_def add_name_def unlink_name_def

section \<open>The image\<close>

record image_answers =
  ia_memfd :: "nat answer"
  ia_memfd_plain :: "nat answer"
  ia_mkstemp :: "nat answer"
  ia_protect :: "unit answer"
  ia_writes :: "nat answer list"
  ia_seal :: "unit answer"
  ia_reopen :: "nat answer"
  ia_raise :: "nat answer"

text \<open>
  \<open>create_image\<close>: an executable anonymous file, or a temporary one when there is none; the
  image is written, sealed when anonymous, reopened for reading and moved above 10. The
  outer \<open>None\<close> is a write loop that has not returned.
\<close>

definition create_image :: "image_answers \<Rightarrow> byte list \<Rightarrow> fd_state \<Rightarrow> (fd_state \<times> nat answer) option" where
  "create_image a contents s =
     (let memfd = (case ia_memfd a of Got fd \<Rightarrow> Got fd
                   | Failed e \<Rightarrow> if e = EINVAL then ia_memfd_plain a else Failed e);
          source = (case memfd of Got fd \<Rightarrow> Inr (fd, False, open_fd fd s)
             | Failed _ \<Rightarrow>
                (case ia_mkstemp a of Failed e \<Rightarrow> Inl (s, e)
                 | Got fd \<Rightarrow>
                    (let s1 = add_name (open_fd fd s) in
                     case ia_protect a of Failed e \<Rightarrow> Inl (unlink_name (close_fd fd s1), e)
                     | Got _ \<Rightarrow> Inr (fd, True, s1)))) in
      case source of Inl (s1, e) \<Rightarrow> Some (s1, Failed e)
      | Inr (fd, temporary, s1) \<Rightarrow>
          (let drop_name = (\<lambda>s. if temporary then unlink_name s else s) in
           case send_exact (ia_writes a) contents of
             None \<Rightarrow> None
           | Some (False, _, _) \<Rightarrow> Some (drop_name (close_fd fd s1), Failed EIO)
           | Some (True, _, _) \<Rightarrow>
               (case (if temporary then Got () else ia_seal a) of
                  Failed e \<Rightarrow> Some (close_fd fd s1, Failed e)
                | Got _ \<Rightarrow>
                    (case ia_reopen a of
                       Failed e \<Rightarrow> Some (drop_name (close_fd fd s1), Failed e)
                     | Got reader \<Rightarrow>
                         (let s2 = drop_name (close_fd fd (open_fd reader s1)) in
                          case ia_raise a of
                            Failed e \<Rightarrow> Some (close_fd reader s2, Failed e)
                          | Got executable \<Rightarrow> Some (close_fd reader (open_fd executable s2), Got executable))))))"

section \<open>The shared image\<close>

type_synonym identity = "nat \<times> nat \<times> nat"

record shared_executable =
  ifd :: "nat option"
  users :: nat
  identity :: identity

record check_answers =
  ca_identity :: "identity option"
  ca_sealed :: bool
  ca_raise :: "nat option"

definition cached_identity :: "shared_executable \<Rightarrow> check_answers \<Rightarrow> bool" where
  "cached_identity entry a \<longleftrightarrow> ifd entry \<noteq> None \<and> ca_identity a = Some (identity entry)"

definition cached_immutable :: "shared_executable \<Rightarrow> check_answers \<Rightarrow> bool" where
  "cached_immutable entry a \<longleftrightarrow> cached_identity entry a \<and> ca_sealed a"

text \<open>The first critical section of \<open>acquire_image\<close>: share the image when there is one.\<close>

definition acquire_shared ::
  "check_answers \<Rightarrow> shared_executable \<Rightarrow> fd_state \<Rightarrow> shared_executable \<times> fd_state \<times> nat option" where
  "acquire_shared a entry s =
     (if users entry \<noteq> 0 \<and> cached_immutable entry a
      then (case ca_raise a of
              Some fd \<Rightarrow> (entry\<lparr>users := users entry + 1\<rparr>, open_fd fd s, Some fd)
            | None \<Rightarrow> (entry, s, None))
      else (entry, s, None))"

text \<open>The second one, with a sealed image of its own: store it, share, or keep it private.
  The result is the descriptor to use and whether the job shares the entry.\<close>

definition acquire_store ::
  "check_answers \<Rightarrow> nat option \<Rightarrow> identity option \<Rightarrow> nat \<Rightarrow> shared_executable \<Rightarrow> fd_state
     \<Rightarrow> shared_executable \<times> fd_state \<times> nat \<times> bool" where
  "acquire_store a holder holder_identity file entry s =
     (if users entry = 0 \<and> ifd entry = None
      then (case holder of
              None \<Rightarrow> (entry, s, file, False)
            | Some fd \<Rightarrow>
                (case holder_identity of
                   Some i \<Rightarrow> (\<lparr>ifd = Some fd, users = 1, identity = i\<rparr>, open_fd fd s, file, True)
                 | None \<Rightarrow> (entry, close_fd fd (open_fd fd s), file, False)))
      else if users entry \<noteq> 0 \<and> cached_immutable entry a
      then (case ca_raise a of
              Some fd \<Rightarrow> (entry\<lparr>users := users entry + 1\<rparr>, close_fd file (open_fd fd s), fd, True)
            | None \<Rightarrow> (entry, s, file, False))
      else (entry, s, file, False))"

definition release_image ::
  "check_answers \<Rightarrow> bool \<Rightarrow> shared_executable \<Rightarrow> fd_state \<Rightarrow> shared_executable \<times> fd_state" where
  "release_image a shared entry s =
     (if \<not> shared then (entry, s)
      else if users entry \<noteq> 0
      then let left = users entry - 1 in
           if left = 0
           then (entry\<lparr>users := 0, ifd := None\<rparr>,
                 if cached_identity entry a then (case ifd entry of Some fd \<Rightarrow> close_fd fd s | None \<Rightarrow> s) else s)
           else (entry\<lparr>users := left\<rparr>, s)
      else (entry, s))"

section \<open>The child\<close>

datatype spawn_action = Dup2 nat nat | Open_null nat | Close_from nat | Close_one nat

text \<open>The descriptors to close one by one when \<open>closefrom\<close> is missing.\<close>

definition closes_one_by_one :: "nat \<Rightarrow> nat \<Rightarrow> (nat \<Rightarrow> bool) \<Rightarrow> string list \<Rightarrow> nat list" where
  "closes_one_by_one executable dirfd inherited names = List.map_filter
     (\<lambda>name. case fd_name name of
        Some n \<Rightarrow> if 4 < n \<and> n \<le> 2147483647 \<and> n \<noteq> executable \<and> n \<noteq> dirfd \<and> inherited n then Some n else None
      | None \<Rightarrow> None) names"

definition spawn_actions :: "bool \<Rightarrow> nat \<Rightarrow> nat \<Rightarrow> nat \<Rightarrow> (nat \<Rightarrow> bool) \<Rightarrow> string list \<Rightarrow> spawn_action list" where
  "spawn_actions closefrom channel executable dirfd inherited names =
     [Dup2 channel 3, Dup2 executable 4, Open_null 0, Open_null 1, Open_null 2]
     @ (if closefrom then [Close_from 5] else map Close_one (closes_one_by_one executable dirfd inherited names))"

definition reader_arguments :: "nat \<Rightarrow> nat \<Rightarrow> string list" where
  "reader_arguments vendor pid =
     [if vendor < 3 then ''wtop-gpu-reader'' else ''wtop-hardware-reader'', decimal pid, worker_names ! vendor]"

section \<open>Spawning\<close>

record spawn_answers =
  sa_wait :: "unit answer"
  sa_image :: "nat answer"
  sa_pair :: "(nat \<times> nat) answer"
  sa_raise0 :: "nat answer"
  sa_raise1 :: "nat answer"
  sa_actions_init :: errno
  sa_attributes_init :: errno
  sa_setup :: errno
  sa_spawn :: "nat answer"

text \<open>
  The rest of \<open>spawn_reader\<close> once the image is there: the socket pair is moved above 10, the
  child gets one end; every error path closes what was opened.
\<close>

definition spawn_channel :: "spawn_answers \<Rightarrow> nat \<Rightarrow> fd_state \<Rightarrow> fd_state \<times> (errno + (nat \<times> nat))" where
  "spawn_channel a executable s =
     (case sa_pair a of
        Failed e \<Rightarrow> (close_fd executable s, Inl e)
      | Got (left, right) \<Rightarrow>
         (let s1 = open_fd right (open_fd left s) in
          case sa_raise0 a of
            Failed e \<Rightarrow> (close_fd executable (close_fd right (close_fd left s1)), Inl e)
          | Got left' \<Rightarrow>
             (let s2 = close_fd left (open_fd left' s1) in
              case sa_raise1 a of
                Failed e \<Rightarrow> (close_fd executable (close_fd right (close_fd left' s2)), Inl e)
              | Got right' \<Rightarrow>
                 (let s3 = close_fd right (open_fd right' s2) in
                  if sa_actions_init a \<noteq> 0
                  then (close_fd right' (close_fd left' (close_fd executable s3)), Inl (sa_actions_init a))
                  else if sa_attributes_init a \<noteq> 0
                  then (close_fd right' (close_fd left' (close_fd executable s3)), Inl (sa_attributes_init a))
                  else if sa_setup a \<noteq> 0
                  then (close_fd left' (close_fd executable (close_fd right' s3)), Inl (sa_setup a))
                  else case sa_spawn a of
                    Failed e \<Rightarrow> (close_fd left' (close_fd executable (close_fd right' s3)), Inl e)
                  | Got pid \<Rightarrow> (close_fd executable (close_fd right' s3), Inr (left', pid))))))"

definition spawn_reader :: "spawn_answers \<Rightarrow> fd_state \<Rightarrow> fd_state \<times> (errno + (nat \<times> nat))" where
  "spawn_reader a s =
     (case (case sa_wait a of Failed e \<Rightarrow> if e \<noteq> ECHILD then Some e else None | Got _ \<Rightarrow> None) of
        Some e \<Rightarrow> (s, Inl e)
      | None \<Rightarrow>
          (case sa_image a of
             Failed e \<Rightarrow> (s, Inl e)
           | Got executable \<Rightarrow> spawn_channel a executable (open_fd executable s)))"

section \<open>Nothing leaks\<close>

lemma create_image_fds:
  assumes "create_image a contents s = Some (s', r)"
  shows "named s' = named s \<and> opened s' = opened s + (case r of Got fd \<Rightarrow> {#fd#} | Failed _ \<Rightarrow> {#})"
  using assms unfolding create_image_def fd_defs Let_def
  by (auto split: answer.splits option.splits if_splits prod.splits bool.splits)

lemma spawn_channel_fds:
  assumes "spawn_channel a executable (open_fd executable s) = (s', r)"
  shows "named s' = named s \<and> opened s' = opened s + (case r of Inr (channel, _) \<Rightarrow> {#channel#} | Inl _ \<Rightarrow> {#})"
  using assms unfolding spawn_channel_def fd_defs Let_def
  by (auto split: answer.splits option.splits if_splits prod.splits bool.splits)

section \<open>What the child inherits\<close>

text \<open>
  The descriptor table of a process: the open file and its close-on-exec flag. The actions
  run in order on the child's copy, then the flagged descriptors are closed.
\<close>

datatype fd_file = Channel_end | Image_file | Null_device | Other_file nat

type_synonym fd_table = "nat \<Rightarrow> (fd_file \<times> bool) option"

fun run_action :: "spawn_action \<Rightarrow> fd_table \<Rightarrow> fd_table" where
  "run_action (Dup2 a b) t = (case t a of Some (f, _) \<Rightarrow> t(b \<mapsto> (f, False)) | None \<Rightarrow> t)"
| "run_action (Open_null n) t = t(n \<mapsto> (Null_device, False))"
| "run_action (Close_from n) t = (\<lambda>k. if k < n then t k else None)"
| "run_action (Close_one n) t = t(n := None)"

definition after_exec :: "fd_table \<Rightarrow> fd_table" where
  "after_exec t = (\<lambda>k. case t k of Some (f, False) \<Rightarrow> Some (f, False) | _ \<Rightarrow> None)"

definition reader_table :: fd_table where
  "reader_table = [0 \<mapsto> (Null_device, False), 1 \<mapsto> (Null_device, False), 2 \<mapsto> (Null_device, False),
     3 \<mapsto> (Channel_end, False), 4 \<mapsto> (Image_file, False)]"

lemma run_close_list: "fold run_action (map Close_one ns) t = (\<lambda>k. if k \<in> set ns then None else t k)"
  by (induction ns arbitrary: t) auto

lemma fd_name_decimal: "n \<le> 2147483647 \<Longrightarrow> fd_name (decimal n) = Some n"
  by (auto simp: fd_name_def intro!: decimal_parse)

lemma parse_parent_decimal: "0 < n \<Longrightarrow> n \<le> 2147483647 \<Longrightarrow> parse_parent (decimal n) = Some n"
  by (auto simp: parse_parent_def decimal_parse)

lemma closes_set:
  "set (closes_one_by_one executable dirfd inherited names) =
     {n. \<exists>name \<in> set names. fd_name name = Some n \<and> 4 < n \<and> n \<le> 2147483647
        \<and> n \<noteq> executable \<and> n \<noteq> dirfd \<and> inherited n}"
  by (induction names) (auto simp: closes_one_by_one_def List.map_filter_simps split: option.splits)

section \<open>Properties\<close>


text \<open>
  C19. A reader inherits the channel, its image and the null device, and nothing else,
  whether \<open>closefrom\<close> exists or the descriptors are closed one by one from a listing that
  names every inherited one.
\<close>

theorem reader_inherits_only_channel:
  assumes "t channel = Some (Channel_end, True)" and "t executable = Some (Image_file, True)"
    and "10 \<le> channel" and "10 \<le> executable" and "t dirfd = None \<or> t dirfd = Some (f, True)"
    and "\<And>n g. t n = Some (g, False) \<Longrightarrow> n \<le> 2147483647 \<and> decimal n \<in> set names"
  shows "after_exec (fold run_action
    (spawn_actions closefrom channel executable dirfd (\<lambda>n. \<exists>g. t n = Some (g, False)) names) t) = reader_table"
proof
  fix k
  let ?ns = "closes_one_by_one executable dirfd (\<lambda>n. \<exists>g. t n = Some (g, False)) names"
  let ?t5 = "t(3 \<mapsto> (Channel_end, False), 4 \<mapsto> (Image_file, False), 0 \<mapsto> (Null_device, False),
      1 \<mapsto> (Null_device, False), 2 \<mapsto> (Null_device, False))"
  have first: "fold run_action [Dup2 channel 3, Dup2 executable 4, Open_null 0, Open_null 1, Open_null 2] t = ?t5"
    using assms(1-4) by auto
  have ns: "k \<in> set ?ns" if "5 \<le> k" "t k = Some (g, False)" for g
  proof -
    have "fd_name (decimal k) = Some k" "decimal k \<in> set names" "k \<le> 2147483647"
      using assms(6) [OF that(2)] fd_name_decimal by auto
    moreover have "k \<noteq> executable" "k \<noteq> dirfd" using that assms(2,5) by auto
    ultimately show ?thesis using that unfolding closes_set by fastforce
  qed
  have small: "4 < n" if "n \<in> set ?ns" for n using that unfolding closes_set by blast
  have k: "k = 0 \<or> k = 1 \<or> k = 2 \<or> k = 3 \<or> k = 4 \<or> 5 \<le> k" by linarith
  show "after_exec (fold run_action
    (spawn_actions closefrom channel executable dirfd (\<lambda>n. \<exists>g. t n = Some (g, False)) names) t) k = reader_table k"
  proof (cases closefrom)
    case True
    then have "fold run_action (spawn_actions closefrom channel executable dirfd
        (\<lambda>n. \<exists>g. t n = Some (g, False)) names) t = (\<lambda>k. if k < 5 then ?t5 k else None)"
      by (simp only: spawn_actions_def if_True fold_append comp_apply first)
        (simp only: fold_simps run_action.simps)
    with k show ?thesis by (elim disjE) (auto simp: after_exec_def reader_table_def)
  next
    case False
    then have "fold run_action (spawn_actions closefrom channel executable dirfd
        (\<lambda>n. \<exists>g. t n = Some (g, False)) names) t = (\<lambda>k. if k \<in> set ?ns then None else ?t5 k)"
      by (simp only: spawn_actions_def if_False fold_append comp_apply first run_close_list)
    moreover have "k \<notin> set ?ns" if "k < 5" using small [of k] that by auto
    moreover have "after_exec (\<lambda>k. if k \<in> set ?ns then None else ?t5 k) k = None" if "5 \<le> k"
      using ns [OF that] that by (cases "t k") (auto simp: after_exec_def split: bool.splits prod.splits)
    ultimately show ?thesis using k
      by (elim disjE) (auto simp: after_exec_def reader_table_def)
  qed
qed

text \<open>
  The arguments reach their reader: the process number is read back, and the name of
  the source selects that source, by the vendor numbers the client later expects in replies.
\<close>

theorem arguments_understood:
  assumes "0 < pid" and "pid \<le> 2147483647" and "vendor < 22"
  shows "parse_parent (reader_arguments vendor pid ! 1) = Some pid
    \<and> (if vendor < 3
       then \<exists>v. parse_vendor (drop 2 (reader_arguments vendor pid)) = Some (v, False) \<and> unat (vendor_code v) = vendor
       else index_of (reader_arguments vendor pid ! 2) hardware_names = Some (vendor - 3))"
proof -
  have p: "parse_parent (reader_arguments vendor pid ! 1) = Some pid"
    using assms parse_parent_decimal by (simp add: reader_arguments_def)
  have "vendor \<in> set [0..<22]" using assms(3) by simp
  then have "if vendor < 3
       then \<exists>v. parse_vendor (drop 2 (reader_arguments vendor pid)) = Some (v, False) \<and> unat (vendor_code v) = vendor
       else index_of (reader_arguments vendor pid ! 2) hardware_names = Some (vendor - 3)"
    by (simp add: upt_rec, elim disjE)
      (simp_all add: reader_arguments_def worker_names_def hardware_names_def parse_vendor_def vendor_names_def)
  then show ?thesis using p by simp
qed

text \<open>The jobs that share the image, one step per critical section.\<close>

inductive cache_run :: "shared_executable \<Rightarrow> nat \<Rightarrow> fd_state \<Rightarrow> bool" where
  Empty: "ifd e = None \<Longrightarrow> users e = 0 \<Longrightarrow> cache_run e 0 s"
| Shared: "cache_run e n s \<Longrightarrow> acquire_shared a e s = (e', s', Some fd) \<Longrightarrow> cache_run e' (n + 1) s'"
| Missed: "cache_run e n s \<Longrightarrow> acquire_shared a e s = (e', s', None) \<Longrightarrow> cache_run e' n s'"
| Stored: "cache_run e n s \<Longrightarrow> acquire_store a holder i file e s = (e', s', fd, shared) \<Longrightarrow>
    cache_run e' (if shared then n + 1 else n) s'"
| Released: "cache_run e (n + 1) s \<Longrightarrow> release_image a True e s = (e', s') \<Longrightarrow> cache_run e' n s'"

text \<open>
  The shared image counts its users exactly, whatever the controllers interleave: the
  entry holds a descriptor exactly while some job shares it, and the last one to leave
  empties it.
\<close>

theorem shared_image_counted:
  assumes "cache_run e n s"
  shows "users e = n \<and> (ifd e = None \<longleftrightarrow> n = 0)"
  using assms
proof (induction rule: cache_run.induct)
  case (Released e n s a e' s')
  then show ?case by (auto simp: release_image_def Let_def split: if_splits)
qed (auto simp: acquire_shared_def acquire_store_def split: if_splits option.splits)

section \<open>Concrete runs\<close>

definition sample_table :: fd_table where
  "sample_table = [0 \<mapsto> (Other_file 0, False), 2 \<mapsto> (Other_file 2, False), 7 \<mapsto> (Other_file 7, False),
     11 \<mapsto> (Channel_end, True), 12 \<mapsto> (Image_file, True), 14 \<mapsto> (Other_file 14, True)]"


theorem reader_inherits_only_channel_witness:
  "after_exec (fold run_action (spawn_actions False 11 12 14 (\<lambda>n. \<exists>g. sample_table n = Some (g, False))
     [''.'', ''..'', decimal 0, decimal 2, decimal 7]) sample_table) = reader_table"
  by (rule reader_inherits_only_channel [of sample_table 11 12 14 "Other_file 14"])
    (auto simp: sample_table_def split: if_splits)

theorem arguments_understood_witness:
  "parse_parent (reader_arguments 11 4321 ! 1) = Some 4321 \<and> index_of (reader_arguments 11 4321 ! 2) hardware_names = Some 8"
  using arguments_understood [of 4321 11] by simp

theorem shared_image_counted_witness:
  "\<exists>e s. cache_run e 1 s \<and> users e = 1 \<and> ifd e = Some 9"
proof -
  let ?e = "\<lparr>ifd = None, users = 0, identity = (0, 0, 0)\<rparr>" and ?s = "\<lparr>opened = {#8#}, named = 0\<rparr>"
  let ?e' = "\<lparr>ifd = Some 9, users = 1, identity = (1, 2, 3)\<rparr>" and ?s' = "\<lparr>opened = {#8, 9#}, named = 0\<rparr>"
  have "acquire_store \<lparr>ca_identity = None, ca_sealed = True, ca_raise = None\<rparr> (Some 9) (Some (1, 2, 3)) 8 ?e ?s
      = (?e', ?s', 8, True)" by (simp add: acquire_store_def fd_defs)
  from cache_run.Stored [OF cache_run.Empty this] have r: "cache_run ?e' 1 ?s'" by simp
  from shared_image_counted [OF r] r show ?thesis by (intro exI [of _ ?e'] exI [of _ ?s']) simp
qed

end
