(* ===== verification/ProcStat.thy ===== *)
theory ProcStat imports CText begin

text \<open>
  Process records of \<^verbatim>\<open>native/wtop_native.c\<close>: the fast decoder of
  \<^verbatim>\<open>/proc/<pid>/stat\<close> (\<open>push_proc_stat_fields\<close>) and the table it makes of a record.
\<close>

section \<open>Integers\<close>

definition proc_stat_integer :: "string \<Rightarrow> int option" where
  "proc_stat_integer s =
     (let negative = (s \<noteq> [] \<and> hd s = CHR ''-'');
          limit = 9223372036854775807 + (if negative then 1 else 0);
          body = (if negative then tl s else s) in
      if body = [] then None
      else map_option (\<lambda>v. if negative then - int v else int v)
        (digit_loop (\<lambda>n d. n \<le> (limit - d) div 10) 0 body))"

text \<open>Exact: a numeral is read if and only if it fits a Lua integer.\<close>

lemma proc_stat_integer_value:
  "proc_stat_integer s = Some v \<longleftrightarrow>
     (\<exists>n. v = int n \<and> n \<le> 9223372036854775807 \<and> s \<noteq> [] \<and> list_all is_digit s \<and> numeral_value s = n)
     \<or> (\<exists>n t. s = CHR ''-'' # t \<and> v = - int n \<and> n \<le> 9223372036854775808 \<and> t \<noteq> [] \<and> list_all is_digit t
          \<and> numeral_value t = n)"
proof (cases "s \<noteq> [] \<and> hd s = CHR ''-''")
  case True
  then obtain t where s: "s = CHR ''-'' # t" by (cases s) auto
  have nd: "\<not> is_digit CHR ''-''" by (simp add: is_digit_def code_def)
  have "digit_loop (\<lambda>n d. n \<le> (9223372036854775808 - d) div 10) 0 t =
      (if list_all is_digit t \<and> (t = [] \<or> fold (\<lambda>c n. n * 10 + digit c) t 0 \<le> 9223372036854775808)
       then Some (fold (\<lambda>c n. n * 10 + digit c) t 0) else None)"
    by (rule digit_loop_limit) (rule limit_guard, simp_all)
  then show ?thesis using s nd by (auto simp: proc_stat_integer_def numeral_value_def Let_def)
next
  case False
  have "digit_loop (\<lambda>n d. n \<le> (9223372036854775807 - d) div 10) 0 s =
      (if list_all is_digit s \<and> (s = [] \<or> fold (\<lambda>c n. n * 10 + digit c) s 0 \<le> 9223372036854775807)
       then Some (fold (\<lambda>c n. n * 10 + digit c) s 0) else None)"
    by (rule digit_loop_limit) (rule limit_guard, simp_all)
  then show ?thesis using False by (auto simp: proc_stat_integer_def numeral_value_def Let_def)
qed

lemma proc_stat_integer_printed:
  assumes "LUA_MININTEGER \<le> v" "v \<le> LUA_MAXINTEGER"
  shows "proc_stat_integer (signed_decimal v) = Some v"
proof (cases "v < 0")
  case True
  then have "nat (- v) \<le> 9223372036854775808" "v = - int (nat (- v))" using assms by linarith+
  then show ?thesis unfolding proc_stat_integer_value signed_decimal_def
    using True decimal_digits decimal_value by (intro disjI2 exI [of _ "nat (- v)"] exI [of _ "decimal (nat (- v))"]) auto
next
  case False
  then have "nat v \<le> 9223372036854775807" "v = int (nat v)" using assms by linarith+
  then show ?thesis unfolding proc_stat_integer_value signed_decimal_def
    using False decimal_digits decimal_value by (intro disjI1 exI [of _ "nat v"]) auto
qed

section \<open>The record\<close>

record proc_stat =
  ps_pid :: int
  ps_comm :: string
  ps_state :: char
  ps_values :: "int list"
  ps_fields :: nat

text \<open>The fields that must be integers, and those that must not be negative.\<close>

definition needed :: "nat list" where
  "needed = [1, 2, 3, 4, 6, 7, 9, 11, 12, 15, 16, 17, 19, 20, 21]"

definition nonnegative :: "nat list" where
  "nonnegative = [1, 2, 3, 6, 7, 9, 11, 12, 17, 19, 20]"

text \<open>
  The command name lies between the first opening and the last closing parenthesis. The
  values are those of the words read, 0 where the field is not read.
\<close>

definition stat_value :: "string list \<Rightarrow> nat \<Rightarrow> int option" where
  "stat_value words i = (if i \<in> set needed \<or> i = 36
     then if i \<le> length words then proc_stat_integer (words ! (i - 1)) else Some 0 else Some 0)"

definition split_comm :: "string \<Rightarrow> (string \<times> string \<times> string) option" where
  "split_comm data =
     (let before = takeWhile (\<lambda>c. c \<noteq> CHR ''('') data; rest = dropWhile (\<lambda>c. c \<noteq> CHR ''('') data in
      case rest of [] \<Rightarrow> None
      | _ # inner \<Rightarrow>
         (let after = rev (takeWhile (\<lambda>c. c \<noteq> CHR '')'') (rev inner));
              comm = rev (tl (dropWhile (\<lambda>c. c \<noteq> CHR '')'') (rev inner))) in
          if before = [] \<or> CHR '')'' \<notin> set inner \<or> comm = [] then None
          else Some (before, comm, after)))"

definition stat_pid :: "string \<Rightarrow> int option" where
  "stat_pid before =
     (let pid_text = rev (skip_space (rev before)) in
      if pid_text = before \<or> \<not> is_digit (hd before) then None
      else case proc_stat_integer pid_text of
        Some pid \<Rightarrow> if pid \<le> 0 \<or> 2147483647 < pid then None else Some pid
      | None \<Rightarrow> None)"

definition stat_id :: "int \<Rightarrow> int \<Rightarrow> string" where
  "stat_id pid start = signed_decimal pid @ '':'' @ signed_decimal start"

definition parse_proc_stat :: "string \<Rightarrow> proc_stat option" where
  "parse_proc_stat data =
     (case split_comm data of None \<Rightarrow> None
      | Some (before, comm, after) \<Rightarrow>
         (case (stat_pid before, skip_space after) of
            (Some pid, st # cursor) \<Rightarrow>
              (let ws = take_words 36 cursor; n = length ws; values = map (stat_value ws) [0..<37] in
               if None \<in> set values then None
               else let v = map the values in
                 if v ! 36 < 0 \<or> n < 21 \<or> \<not> list_all (\<lambda>i. 0 \<le> v ! i) nonnegative
                   \<or> LUA_MAXINTEGER - v ! 12 < v ! 11 \<or> 80 \<le> length (stat_id pid (v ! 19))
                 then None
                 else Some \<lparr>ps_pid = pid, ps_comm = comm, ps_state = st, ps_values = v, ps_fields = n\<rparr>)
          | _ \<Rightarrow> None))"

text \<open>The table: the keys differ between the plain and the row form.\<close>

definition stat_table :: "bool \<Rightarrow> proc_stat \<Rightarrow> lua" where
  "stat_table row r =
     (let v = (\<lambda>i. LInt (ps_values r ! i)) in
      mk_tab ([(if row then ''parent_pid'' else ''ppid'', v 1), (if row then ''process_group'' else ''pgrp'', v 2),
        (''session'', v 3), (''flags'', v 6)]
       @ (if row then [] else [(''tty_nr'', v 4), (''minflt'', v 7), (''majflt'', v 9), (''utime_ticks'', v 11),
            (''stime_ticks'', v 12)])
       @ [(''priority'', v 15), (''nice'', v 16), (''threads'', v 17), (''starttime_ticks'', v 19),
        (if row then ''virtual_bytes'' else ''vsize_bytes'', v 20), (''rss_pages'', v 21), (''pid'', LInt (ps_pid r)),
        (if row then ''name'' else ''comm'', LStr (ps_comm r)), (''state'', LStr [ps_state r]),
        (''cpu_ticks'', LInt (ps_values r ! 11 + ps_values r ! 12))]
       @ (if ps_fields r = 36 then [(''processor'', v 36)] else [])
       @ [(''id'', LStr (stat_id (ps_pid r) (ps_values r ! 19)))]))"

definition push_proc_stat_fields :: "string \<Rightarrow> bool \<Rightarrow> lua option" where
  "push_proc_stat_fields data row = map_option (stat_table row) (parse_proc_stat data)"

text \<open>\<open>process_stat_fields\<close> and \<open>process_stat_row_fields\<close> return nil for an unusual record.\<close>

definition process_stat_fields :: "bool \<Rightarrow> string \<Rightarrow> lua" where
  "process_stat_fields row data = (case push_proc_stat_fields data row of Some t \<Rightarrow> t | None \<Rightarrow> LNil)"

section \<open>A printed record is read back\<close>

text \<open>The line as the kernel prints it.\<close>

definition stat_line :: "nat \<Rightarrow> string \<Rightarrow> char \<Rightarrow> int list \<Rightarrow> string" where
  "stat_line pid comm st vals = decimal pid @ '' ('' @ comm @ '') '' @ [st]
     @ concat (map (\<lambda>v. CHR '' '' # signed_decimal v) vals)"

lemma digit_not: "is_digit c \<Longrightarrow> c \<noteq> CHR ''('' \<and> c \<noteq> CHR '')''"
  by (auto simp: is_digit_def code_def)

lemma printed_no_paren: "CHR '')'' \<notin> set (concat (map (\<lambda>v. CHR '' '' # signed_decimal v) vals))"
proof -
  have "CHR '')'' \<notin> set (signed_decimal v)" for v
    using decimal_digits digit_not by (auto simp: signed_decimal_def list_all_iff)
  then show ?thesis by (induction vals) auto
qed

lemma split_comm_line:
  assumes "comm \<noteq> []" "st \<noteq> CHR '')''"
  shows "split_comm (stat_line pid comm st vals) =
    Some (decimal pid @ '' '', comm, '' '' @ [st] @ concat (map (\<lambda>v. CHR '' '' # signed_decimal v) vals))"
proof -
  let ?after = "'' '' @ [st] @ concat (map (\<lambda>v. CHR '' '' # signed_decimal v) vals)"
  have line: "stat_line pid comm st vals = (decimal pid @ '' '') @ CHR ''('' # (comm @ CHR '')'' # ?after)"
    by (simp add: stat_line_def)
  have "c \<noteq> CHR ''(''" if "c \<in> set (decimal pid @ '' '')" for c
    using that decimal_digits [of pid] digit_not by (auto simp: list_all_iff)
  then have before: "takeWhile (\<lambda>c. c \<noteq> CHR ''('') (stat_line pid comm st vals) = decimal pid @ '' ''"
      "dropWhile (\<lambda>c. c \<noteq> CHR ''('') (stat_line pid comm st vals) = CHR ''('' # (comm @ CHR '')'' # ?after)"
    unfolding line by (rule while_stops; simp)+
  have "c \<noteq> CHR '')''" if "c \<in> set (rev ?after)" for c
    using that printed_no_paren [of vals] assms(2) by (auto simp del: set_concat)
  then have "takeWhile (\<lambda>c. c \<noteq> CHR '')'') (rev ?after @ CHR '')'' # rev comm) = rev ?after"
      "dropWhile (\<lambda>c. c \<noteq> CHR '')'') (rev ?after @ CHR '')'' # rev comm) = CHR '')'' # rev comm"
    by (rule while_stops; simp)+
  moreover have "rev (comm @ CHR '')'' # ?after) = rev ?after @ CHR '')'' # rev comm" by simp
  ultimately show ?thesis
    unfolding split_comm_def before Let_def by (simp only: list.case rev_rev_ident list.sel) (simp add: assms(1))
qed

lemma stat_pid_line:
  assumes "0 < pid" "pid \<le> 2147483647"
  shows "stat_pid (decimal pid @ '' '') = Some (int pid)"
proof -
  have "skip_space (rev (decimal pid)) = rev (decimal pid)"
    using decimal_digits [of pid] is_digit_not_space
    by (cases "rev (decimal pid)") (auto simp: list_all_iff dest: arg_cong [of _ _ set])
  moreover have "is_digit (hd (decimal pid))"
    using decimal_digits [of pid] by (cases "decimal pid") auto
  moreover have "proc_stat_integer (decimal pid) = Some (int pid)"
    using proc_stat_integer_printed [of "int pid"] assms by (simp add: signed_decimal_def)
  ultimately show ?thesis using assms by (simp add: stat_pid_def)
qed

lemma signed_length:
  assumes "LUA_MININTEGER \<le> v" "v \<le> LUA_MAXINTEGER"
  shows "length (signed_decimal v) \<le> 20"
proof -
  have "nat v < 10 ^ Suc 18" "nat (- v) < 10 ^ Suc 18" using assms by simp_all
  from this [THEN decimal_length] show ?thesis by (simp add: signed_decimal_def)
qed

lemma stat_line_parsed:
  assumes "0 < pid" "pid \<le> 2147483647" "comm \<noteq> []" "\<not> is_space st" "st \<noteq> CHR '')''"
    and len: "36 \<le> length vals" and range: "\<forall>v \<in> set vals. LUA_MININTEGER \<le> v \<and> v \<le> LUA_MAXINTEGER"
    and nn: "\<forall>i \<in> set (36 # nonnegative). 0 \<le> vals ! (i - 1)" and cpu: "vals ! 10 + vals ! 11 \<le> LUA_MAXINTEGER"
  shows "parse_proc_stat (stat_line pid comm st vals) = Some \<lparr>ps_pid = int pid, ps_comm = comm, ps_state = st,
    ps_values = map (\<lambda>i. if i \<in> set needed \<or> i = 36 then vals ! (i - 1) else 0) [0..<37], ps_fields = 36\<rparr>"
proof -
  let ?ws = "take 36 (map signed_decimal vals)"
  let ?v = "map (\<lambda>i. if i \<in> set needed \<or> i = 36 then vals ! (i - 1) else 0) [0..<37]"
  have "map (\<lambda>v. CHR '' '' # signed_decimal v) vals = map (\<lambda>w. CHR '' '' # w) (map signed_decimal vals)" by simp
  then have ws: "take_words 36 (concat (map (\<lambda>v. CHR '' '' # signed_decimal v) vals)) = ?ws"
    using take_words_printed [of "map signed_decimal vals" 36] signed_decimal_word by (simp add: list_all_iff comp_def)
  have word: "proc_stat_integer (?ws ! (i - 1)) = Some (vals ! (i - 1))" if "0 < i" "i \<le> 36" for i
    using that len range by (intro trans [OF _ proc_stat_integer_printed]) auto
  have "stat_value ?ws i = Some (if i \<in> set needed \<or> i = 36 then vals ! (i - 1) else 0)" if "i < 37" for i
  proof -
    have "0 < i" if "i \<in> set needed \<or> i = 36" using that by (auto simp: needed_def)
    then show ?thesis using word [of i] that len by (auto simp: stat_value_def)
  qed
  then have all_values: "map (stat_value ?ws) [0..<37] = map Some ?v" by (simp add: comp_def)
  have at: "?v ! i = (if i \<in> set needed \<or> i = 36 then vals ! (i - 1) else 0)" if "i < 37" for i using that by simp
  have "set nonnegative \<subseteq> set needed" "\<forall>i \<in> set nonnegative. i < 37" by (simp_all add: nonnegative_def needed_def)
  then have nn': "list_all (\<lambda>i. 0 \<le> ?v ! i) nonnegative" using nn by (auto simp: list_all_iff)
  have v: "?v ! 36 = vals ! 35" "?v ! 12 = vals ! 11" "?v ! 11 = vals ! 10" "?v ! 19 = vals ! 18"
    using at [of 36] at [of 12] at [of 11] at [of 19] by (simp_all add: needed_def)
  have r18: "LUA_MININTEGER \<le> vals ! 18 \<and> vals ! 18 \<le> LUA_MAXINTEGER" using range len by simp
  have id: "length (stat_id (int pid) (?v ! 19)) < 80"
    using signed_length [of "vals ! 18"] signed_length [of "int pid"] r18 assms(1,2) v by (simp add: stat_id_def)
  have "skip_space ('' '' @ [st] @ concat (map (\<lambda>v. CHR '' '' # signed_decimal v) vals)) =
      st # concat (map (\<lambda>v. CHR '' '' # signed_decimal v) vals)" using assms(4) by simp
  moreover have "map the (map Some ?v) = ?v" by (simp only: map_map comp_def option.sel)
  moreover have "None \<notin> set (map Some ?v)" by (simp only: set_map) blast
  moreover have "\<not> (?v ! 36 < 0 \<or> length ?ws < 21 \<or> \<not> list_all (\<lambda>i. 0 \<le> ?v ! i) nonnegative
      \<or> LUA_MAXINTEGER - ?v ! 12 < ?v ! 11 \<or> 80 \<le> length (stat_id (int pid) (?v ! 19)))"
    using nn' nn cpu id len unfolding v by simp
  ultimately show ?thesis
    unfolding parse_proc_stat_def split_comm_line [OF assms(3,5)]
    by (simp only: option.case prod.case stat_pid_line [OF assms(1,2)] list.case ws all_values Let_def
        if_False) (use len in simp)
qed



end
