(* ===== verification/Process.thy ===== *)
theory Process imports ProcStat LuaApi begin

text \<open>
  Operations on processes of \<^verbatim>\<open>native/wtop_native.c\<close>: the batch reader
  \<open>l_proc_batch\<close>, the identity check \<open>read_process_starttime\<close>, and the two operations that
  act on a process, \<open>l_signal_process\<close> and \<open>l_setpriority\<close>.
\<close>

section \<open>The batch reader\<close>

text \<open>What the kernel answers for one file below \<open>/proc\<close>.\<close>

record proc_file =
  pf_opened :: "unit answer"
  pf_regular :: bool
  pf_reads :: "nat answer list"
  pf_content :: string

definition batch_filename :: "string \<Rightarrow> string" where
  "batch_filename name = (if name = ''stat_rows'' \<or> name = ''stat_parsed'' then ''stat'' else name)"

definition batch_name_char :: "char \<Rightarrow> bool" where
  "batch_name_char c \<longleftrightarrow> (code CHR ''a'' \<le> code c \<and> code c \<le> code CHR ''z'') \<or> c = CHR ''_''"

text \<open>Opening, checking and reading one file: the content or the failure with its denial.\<close>

definition batch_read :: "nat \<Rightarrow> string \<Rightarrow> proc_file \<Rightarrow> ((bool + string) \<times> fd_event list) option" where
  "batch_read limit path f =
     (case pf_opened f of
        Failed e \<Rightarrow> Some (Inl (e = EACCES \<or> e = EPERM), [])
      | Got _ \<Rightarrow>
         if \<not> pf_regular f then Some (Inl False, [Opens path, Closes path])
         else map_option (\<lambda>r. (case r of Inl _ \<Rightarrow> Inl False
               | Inr data \<Rightarrow> if limit < length data then Inl False else Inr data, [Opens path, Closes path]))
           (read_loop (pf_reads f) (pf_content f) (limit + 1)))"

text \<open>The entry of a process: its identifier is a number of the table, converted as Lua does.\<close>

definition batch_pid :: "(u64 \<Rightarrow> int) \<Rightarrow> lua \<Rightarrow> int" where
  "batch_pid tointeger v = (case v of LInt i \<Rightarrow> i | LNum d \<Rightarrow> tointeger d | _ \<Rightarrow> 0)"

definition batch_path :: "int \<Rightarrow> string \<Rightarrow> string" where
  "batch_path pid filename = ''/proc/'' @ signed_decimal pid @ ''/'' @ filename"

definition batch_entry ::
  "(string \<Rightarrow> proc_file) \<Rightarrow> (u64 \<Rightarrow> int) \<Rightarrow> string \<Rightarrow> nat \<Rightarrow> lua \<Rightarrow> ((lua \<times> bool) \<times> fd_event list) option" where
  "batch_entry file tointeger name limit v =
     (let pid = batch_pid tointeger v; path = batch_path pid (batch_filename name) in
      if pid \<le> 0 \<or> 2147483647 < pid \<or> 64 \<le> length path then Some ((LBool False, False), [])
      else map_option (\<lambda>(r, es). (case r of Inl denied \<Rightarrow> (LBool False, denied)
          | Inr data \<Rightarrow> (if name = ''stat_rows'' \<or> name = ''stat_parsed''
              then (case push_proc_stat_fields data (name = ''stat_rows'') of Some t \<Rightarrow> t | None \<Rightarrow> LStr data)
              else LStr data, False), es))
        (batch_read limit path (file path)))"

fun batch_entries :: "(lua \<Rightarrow> ((lua \<times> bool) \<times> fd_event list) option) \<Rightarrow> lua list
    \<Rightarrow> ((lua \<times> bool) list \<times> fd_event list) option" where
  "batch_entries entry [] = Some ([], [])"
| "batch_entries entry (v # vs) =
     (case entry v of None \<Rightarrow> None
      | Some (r, es) \<Rightarrow> map_option (\<lambda>(rs, fs). (r # rs, es @ fs)) (batch_entries entry vs))"

text \<open>The parallel array of denials has an entry only where the access was denied.\<close>

definition denied_table :: "bool list \<Rightarrow> lua" where
  "denied_table ds = LTab (fold (\<lambda>(i, d) t. if d then tab_set (KInt (int i + 1)) (LBool True) t else t) (enumerate 0 ds) [])"

definition proc_batch :: "(errno \<Rightarrow> string) \<Rightarrow> (string \<Rightarrow> proc_file) \<Rightarrow> (u64 \<Rightarrow> int) \<Rightarrow> bool \<Rightarrow> lua list \<Rightarrow> string \<Rightarrow> int
    \<Rightarrow> (lua_return \<times> fd_event list) option" where
  "proc_batch strerror file tointeger memory pids name_value limit =
     (let name = c_string name_value in
      if length name = 0 \<or> 31 < length name then Some (Bad_argument 2 ''name must be 1..31 bytes'', [])
      else if \<not> list_all batch_name_char name then Some (Bad_argument 2 ''name must be lowercase letters'', [])
      else if limit < 1 \<or> 1024 * 1024 < limit then Some (Bad_argument 3 ''limit must be in 1..1048576'', [])
      else if 8192 < length pids then Some (Bad_argument 1 ''pids must hold at most 8192 entries'', [])
      else if \<not> memory then Some (push_errno strerror ''proc_batch_alloc'' ENOMEM, [])
      else map_option (\<lambda>(rs, es). (Returns [mk_array (map fst rs), denied_table (map snd rs)], es))
        (batch_entries (batch_entry file tointeger name (nat limit)) pids))"

section \<open>The start time of a process\<close>

definition stat_blank :: "char \<Rightarrow> bool" where
  "stat_blank c \<longleftrightarrow> c = CHR '' '' \<or> c = CHR 0x09"

text \<open>The text from field 3 on: \<open>n\<close> fields are skipped, the next one is the number.\<close>

fun starttime_field :: "nat \<Rightarrow> string \<Rightarrow> u64 option" where
  "starttime_field n s =
     (let t = dropWhile stat_blank s in
      if t = [] \<or> hd t = CHR 0x0A then None
      else case n of
        0 \<Rightarrow> (case strtoull t of (v, rest, overflow) \<Rightarrow>
               if overflow \<or> rest = t \<or> rest \<noteq> [] \<and> \<not> stat_blank (hd rest) \<and> hd rest \<noteq> CHR 0x0A then None else Some v)
      | Suc m \<Rightarrow> starttime_field m (dropWhile (\<lambda>c. c \<noteq> CHR 0x0A \<and> \<not> stat_blank c) t))"

declare starttime_field.simps [simp del]

definition after_last_paren :: "string \<Rightarrow> string option" where
  "after_last_paren s = (if CHR '')'' \<in> set s then Some (rev (takeWhile (\<lambda>c. c \<noteq> CHR '')'') (rev s))) else None)"

definition starttime_of :: "int \<Rightarrow> string \<Rightarrow> u64 option" where
  "starttime_of pid data =
     (let s = c_string data in
      case strtol s of (parsed, rest, overflow) \<Rightarrow>
        if overflow \<or> rest = s \<or> parsed \<noteq> pid then None
        else Option.bind (after_last_paren rest) (starttime_field 19))"

definition read_process_starttime ::
  "unit answer \<Rightarrow> nat answer list \<Rightarrow> string \<Rightarrow> unit answer \<Rightarrow> int \<Rightarrow> ((errno + u64) \<times> fd_event list) option" where
  "read_process_starttime opened reads content closed pid =
     (case opened of Failed e \<Rightarrow> Some (Inl e, [])
      | Got _ \<Rightarrow> map_option (\<lambda>r. (case r of Inl e \<Rightarrow> Inl e
          | Inr data \<Rightarrow> (case closed of Failed e \<Rightarrow> Inl e
             | Got _ \<Rightarrow> if length data = 65535 then Inl EOVERFLOW
                 else case starttime_of pid data of None \<Rightarrow> Inl EPROTO | Some v \<Rightarrow> Inr v), [Opens ''stat'', Closes ''stat'']))
          (read_loop reads content 65535))"

section \<open>Signals and priorities\<close>

text \<open>
  The process table over time: who holds an identifier at each moment, what the record of a
  process says, and the errors of the calls. A process descriptor stays bound to the process
  that held the identifier when it was opened.
\<close>

record 'p proc_kernel =
  pk_table :: "nat \<Rightarrow> int \<Rightarrow> 'p option"
  pk_stat :: "nat \<Rightarrow> 'p \<Rightarrow> string"
  pk_refuses :: "nat \<Rightarrow> errno option"
  pk_reads :: "nat answer list"

definition signal_allowed :: "int \<Rightarrow> bool" where
  "signal_allowed s \<longleftrightarrow> s \<in> {0, 1, 2, 9, 15, 18, 19}"

text \<open>The calls happen at the moments 0 (\<open>pidfd_open\<close>), 1 and 2 (the record), 3 (the signal)
  and 4 (the close).\<close>

definition pidfd_open :: "'p proc_kernel \<Rightarrow> int \<Rightarrow> 'p answer" where
  "pidfd_open k pid = (case pk_refuses k 0 of Some e \<Rightarrow> Failed e
     | None \<Rightarrow> (case pk_table k 0 pid of None \<Rightarrow> Failed ESRCH | Some p \<Rightarrow> Got p))"

definition identity_read :: "'p proc_kernel \<Rightarrow> int \<Rightarrow> ((errno + u64) \<times> fd_event list) option" where
  "identity_read k pid =
     (let closed = (case pk_refuses k 2 of Some e \<Rightarrow> Failed e | None \<Rightarrow> Got ()) in
      case pk_refuses k 1 of Some e \<Rightarrow> read_process_starttime (Failed e) [] [] closed pid
      | None \<Rightarrow> (case pk_table k 1 pid of None \<Rightarrow> read_process_starttime (Failed ENOENT) [] [] closed pid
         | Some q \<Rightarrow> read_process_starttime (Got ()) (pk_reads k) (pk_stat k 1 q) closed pid))"

definition pidfd_send_signal :: "'p proc_kernel \<Rightarrow> 'p \<Rightarrow> int \<Rightarrow> errno option" where
  "pidfd_send_signal k p pid = (case pk_refuses k 3 of Some e \<Rightarrow> Some e
     | None \<Rightarrow> if pk_table k 3 pid = Some p then None else Some ESRCH)"

text \<open>The result, the process the signal was delivered to, and the descriptors.\<close>

definition signal_process :: "(errno \<Rightarrow> string) \<Rightarrow> 'p proc_kernel \<Rightarrow> int \<Rightarrow> int \<Rightarrow> int
    \<Rightarrow> (lua_return \<times> ('p \<times> int) option \<times> fd_event list) option" where
  "signal_process strerror k pid sig expected =
     (if pid \<le> 0 \<or> sint (word_of_int pid :: 32 word) \<noteq> pid
      then Some (Bad_argument 1 ''pid must be a positive pid_t value'', None, [])
      else if \<not> signal_allowed sig then Some (Bad_argument 2 ''signal is not allowed'', None, [])
      else if expected < 0 then Some (Bad_argument 3 ''starttime_ticks must be non-negative'', None, [])
      else case pidfd_open k pid of
        Failed e \<Rightarrow> Some (push_errno strerror ''pidfd_open'' e, None, [])
      | Got p \<Rightarrow> map_option (\<lambda>(r, es). (case r of
          Inl e \<Rightarrow> (push_errno strerror ''read process identity'' e, None, Opens ''pidfd'' # es @ [Closes ''pidfd''])
        | Inr current \<Rightarrow>
            if current \<noteq> word_of_int expected
            then (Returns [LNil, LStr ''process identity changed (PID reuse prevented)'', LInt ESTALE], None,
                  Opens ''pidfd'' # es @ [Closes ''pidfd''])
            else (case pidfd_send_signal k p pid of
               Some e \<Rightarrow> (push_errno strerror ''pidfd_send_signal'' e, None, Opens ''pidfd'' # es @ [Closes ''pidfd''])
             | None \<Rightarrow> (case pk_refuses k 4 of Some e \<Rightarrow> push_errno strerror ''close pidfd'' e
                        | None \<Rightarrow> Returns [LBool True], Some (p, sig), Opens ''pidfd'' # es @ [Closes ''pidfd'']))))
          (identity_read k pid))"

definition set_priority :: "(errno \<Rightarrow> string) \<Rightarrow> (int \<Rightarrow> int \<Rightarrow> errno option) \<Rightarrow> int \<Rightarrow> int \<Rightarrow> lua_return \<times> (int \<times> int) option" where
  "set_priority strerror setpriority pid priority =
     (if pid \<le> 0 \<or> uint (word_of_int pid :: 32 word) \<noteq> pid then (Bad_argument 1 ''pid must be a positive id_t value'', None)
      else if priority < - 20 \<or> 19 < priority \<or> sint (word_of_int priority :: 32 word) \<noteq> priority
      then (Bad_argument 2 ''priority must be in -20..19'', None)
      else case setpriority pid priority of
        Some e \<Rightarrow> (push_errno strerror ''setpriority'' e, None)
      | None \<Rightarrow> (Returns [LBool True], Some (pid, priority)))"

section \<open>What the batch reader returns\<close>

lemma denied_table_get: "array_get (denied_table ds) i = (if i < length ds \<and> ds ! i then LBool True else LNil)"
proof -
  have "tab_get (fold (\<lambda>(i, d) t. if d then tab_set (KInt (int i + 1)) (LBool True) t else t) (enumerate n ds) t)
      (KInt (int i + 1)) = (if n \<le> i \<and> i < n + length ds \<and> ds ! (i - n) then LBool True else tab_get t (KInt (int i + 1)))"
    for n t by (induction ds arbitrary: n t) (auto simp: tab_get_set nth_Cons')
  then show ?thesis by (simp add: array_get_def denied_table_def)
qed

lemma batch_entries_nth:
  "batch_entries entry vs = Some (rs, es) \<Longrightarrow> length rs = length vs \<and>
     (\<forall>i < length vs. \<exists>fs. entry (vs ! i) = Some (rs ! i, fs))"
proof (induction vs arbitrary: rs es)
  case (Cons v vs)
  from Cons.prems obtain r fs rs' es' where "entry v = Some (r, fs)" "batch_entries entry vs = Some (rs', es')"
      "rs = r # rs'" by (auto split: option.splits)
  then show ?case using Cons.IH by (auto simp: nth_Cons split: nat.splits)
qed simp

lemma batch_entries_held:
  assumes "\<And>v r es fds. entry v = Some (r, es) \<Longrightarrow> hold fds es = fds"
  shows "batch_entries entry vs = Some (rs, es) \<Longrightarrow> hold fds es = fds"
proof (induction vs arbitrary: rs es)
  case (Cons v vs)
  from Cons.prems obtain r fs rs' es' where "entry v = Some (r, fs)" "batch_entries entry vs = Some (rs', es')"
      "es = fs @ es'" by (auto split: option.splits)
  then show ?case using Cons.IH assms by simp
qed simp

lemma batch_entries_total:
  "(\<And>v. v \<in> set vs \<Longrightarrow> entry v \<noteq> None) \<Longrightarrow> batch_entries entry vs \<noteq> None"
  by (induction vs) (auto split: option.splits)

lemma batch_entry_held: "batch_entry file f name limit v = Some (r, es) \<Longrightarrow> hold fds es = fds"
  by (auto simp: batch_entry_def batch_read_def Let_def split: if_splits answer.splits)

text \<open>What an entry should be, without the loop and the pieces.\<close>

definition batch_outcome :: "(string \<Rightarrow> proc_file) \<Rightarrow> string \<Rightarrow> nat \<Rightarrow> int \<Rightarrow> lua \<times> bool" where
  "batch_outcome file name limit pid =
     (let f = file (batch_path pid (batch_filename name)) in
      if pid \<le> 0 \<or> 2147483647 < pid then (LBool False, False)
      else if pf_opened f \<noteq> Got () then (LBool False, pf_opened f \<in> {Failed EACCES, Failed EPERM})
      else if \<not> pf_regular f \<or> limit < length (pf_content f) then (LBool False, False)
      else if name = ''stat_parsed'' \<or> name = ''stat_rows''
        then (if process_stat_fields (name = ''stat_rows'') (pf_content f) = LNil then LStr (pf_content f)
              else process_stat_fields (name = ''stat_rows'') (pf_content f), False)
      else (LStr (pf_content f), False))"

lemma stat_table_not_nil: "stat_table row r \<noteq> LNil"
  by (simp add: stat_table_def mk_tab_def Let_def)

lemma process_stat_fields_cases:
  "(case push_proc_stat_fields data row of Some t \<Rightarrow> t | None \<Rightarrow> LStr data) =
     (if process_stat_fields row data = LNil then LStr data else process_stat_fields row data)"
  by (auto simp: process_stat_fields_def push_proc_stat_fields_def stat_table_not_nil split: option.splits)

lemma batch_path_length:
  assumes "0 < pid" "pid \<le> 2147483647" "length filename \<le> 31"
  shows "length (batch_path pid filename) < 64"
  using signed_length [of pid] assms by (simp add: batch_path_def)

lemma batch_filename_length: "length name \<le> 31 \<Longrightarrow> length (batch_filename name) \<le> 31"
  by (simp add: batch_filename_def)

lemma batch_entry_outcome:
  assumes "length name \<le> 31"
    and willing: "list_all willing (pf_reads f)" "limit < gots (pf_reads f)"
    and f: "f = file (batch_path (batch_pid toi v) (batch_filename name))"
  shows "map_option fst (batch_entry file toi name limit v) = Some (batch_outcome file name limit (batch_pid toi v))"
proof -
  let ?pid = "batch_pid toi v" let ?path = "batch_path ?pid (batch_filename name)"
  have path: "length ?path < 64" if "0 < ?pid" "?pid \<le> 2147483647"
    using that assms(1) by (intro batch_path_length batch_filename_length) auto
  have read: "read_loop (pf_reads f) (pf_content f) (limit + 1) = Some (Inr (take (limit + 1) (pf_content f)))"
    using willing by (intro read_loop_total) auto
  show ?thesis
  proof (cases "0 < ?pid \<and> ?pid \<le> 2147483647")
    case False
    then have "?pid \<le> 0 \<or> 2147483647 < ?pid" by linarith
    then show ?thesis by (elim disjE) (simp_all add: batch_entry_def batch_outcome_def Let_def)
  next
    case True
    then have c: "\<not> ?pid \<le> 0" "\<not> 2147483647 < ?pid" "\<not> 64 \<le> length ?path" using path by auto
    show ?thesis
    proof (cases "pf_opened f")
      case (Failed e)
      then show ?thesis using c
        by (simp add: batch_entry_def batch_outcome_def batch_read_def Let_def f [symmetric])
    next
      case (Got u)
      then show ?thesis using c read
        by (simp add: batch_entry_def batch_outcome_def batch_read_def Let_def f [symmetric] process_stat_fields_cases ex_bool_eq)
    qed
  qed
qed

text \<open>
  C21. The batch reader: with files that arrive in whatever pieces, every entry is what its
  file says (decoded, raw, or false for a failure, a special file or a file beyond the
  limit), an entry is marked as denied exactly when opening failed for a lack of permission,
  and no descriptor stays open.
\<close>

theorem batch_faithful:
  assumes name: "0 < length name" "length name \<le> 31" "list_all batch_name_char name"
    and limit: "1 \<le> limit" "limit \<le> 1024 * 1024" and pids: "length pids \<le> 8192"
    and files: "\<forall>path. list_all willing (pf_reads (file path)) \<and> nat limit < gots (pf_reads (file path))"
  shows "\<exists>contents denied es. proc_batch strerror file toi True pids name limit = Some (Returns [contents, denied], es)
    \<and> held es = []
    \<and> (\<forall>i < length pids. batch_outcome file name (nat limit) (batch_pid toi (pids ! i)) =
         (array_get contents i, array_get denied i = LBool True))"
proof -
  let ?entry = "batch_entry file toi name (nat limit)"
  have outcome: "map_option fst (?entry v) = Some (batch_outcome file name (nat limit) (batch_pid toi v))" for v
    using name(2) files by (intro batch_entry_outcome [OF _ _ _ refl]) auto
  have "?entry v \<noteq> None" for v using outcome [of v] by auto
  then obtain rs es where b: "batch_entries ?entry pids = Some (rs, es)" using batch_entries_total by fastforce
  have "\<not> batch_name_char NUL" by (simp add: batch_name_char_def code_def)
  then have "NUL \<notin> set name" using name(3) by (auto simp: list_all_iff)
  then have n: "c_string name = name" by (rule c_string_id)
  have h: "held es = []" by (rule batch_entries_held [OF batch_entry_held b])
  have len: "length rs = length pids" using batch_entries_nth [OF b] by simp
  have "rs ! i = batch_outcome file name (nat limit) (batch_pid toi (pids ! i))" if "i < length pids" for i
    using batch_entries_nth [OF b] outcome [of "pids ! i"] that by auto
  then show ?thesis using name limit pids b n h len
    by (intro exI [of _ "mk_array (map fst rs)"] exI [of _ "denied_table (map snd rs)"] exI [of _ es])
      (simp add: proc_batch_def array_get_mk_array denied_table_get prod_eq_iff)
qed

definition sample_file :: "string \<Rightarrow> proc_file" where
  "sample_file path = (if path = ''/proc/7/comm''
     then \<lparr>pf_opened = Got (), pf_regular = True, pf_reads = replicate 5 (Got 2), pf_content = ''sh''\<rparr>
     else \<lparr>pf_opened = Failed EACCES, pf_regular = False, pf_reads = replicate 5 (Got 2), pf_content = ''''\<rparr>)"

lemma batch_faithful_witness:
  "\<exists>contents denied es. proc_batch (\<lambda>_. '''') sample_file (\<lambda>_. 0) True [LInt 7, LInt 8] ''comm'' 4 = Some (Returns [contents, denied], es)
    \<and> held es = [] \<and> array_get contents 0 = LStr ''sh'' \<and> array_get denied 0 \<noteq> LBool True
    \<and> array_get contents 1 = LBool False \<and> array_get denied 1 = LBool True"
proof -
  have d: "decimal 7 = ''7''" "decimal 8 = ''8''" by code_simp+
  have o: "batch_outcome sample_file ''comm'' 4 7 = (LStr ''sh'', False)"
      "batch_outcome sample_file ''comm'' 4 8 = (LBool False, True)"
    by (simp_all add: batch_outcome_def Let_def batch_path_def batch_filename_def signed_decimal_def d sample_file_def)
  have files: "list_all willing (pf_reads (sample_file path)) \<and> nat 4 < gots (pf_reads (sample_file path))" for path
    by (simp add: sample_file_def numeral_eq_Suc)
  have name: "list_all batch_name_char ''comm''" by (simp add: batch_name_char_def code_def)
  obtain contents denied es where r: "proc_batch (\<lambda>_. '''') sample_file (\<lambda>_. 0) True [LInt 7, LInt 8] ''comm'' 4
      = Some (Returns [contents, denied], es)" "held es = []"
      "\<forall>i < length [LInt 7, LInt 8]. batch_outcome sample_file ''comm'' (nat 4) (batch_pid (\<lambda>_. 0) ([LInt 7, LInt 8] ! i)) =
         (array_get contents i, array_get denied i = LBool True)"
    using batch_faithful [of "''comm''" 4 "[LInt 7, LInt 8]" sample_file "\<lambda>_. ''''" "\<lambda>_. 0"] files name by auto
  show ?thesis using r(1,2) r(3) [rule_format, of 0] r(3) [rule_format, of 1]
    by (intro exI [of _ contents] exI [of _ denied] exI [of _ es]) (simp add: batch_pid_def o)
qed

section \<open>The identity of a process\<close>

lemma starttime_held: "read_process_starttime op reads content cl pid = Some (r, es) \<Longrightarrow> hold fds es = fds"
  by (auto simp: read_process_starttime_def split: answer.splits)

lemma starttime_sound:
  assumes "read_process_starttime op reads content cl pid = Some (Inr v, es)"
  shows "\<exists>data. prefix data content \<and> starttime_of pid data = Some v"
proof -
  obtain u where op: "op = Got u" using assms by (cases op) (auto simp: read_process_starttime_def)
  obtain r where r: "read_loop reads content 65535 = Some r"
    using assms op by (auto simp: read_process_starttime_def)
  obtain data where d: "r = Inr data" using assms op r by (cases r) (auto simp: read_process_starttime_def)
  obtain w where "cl = Got w" using assms op r d by (cases cl) (auto simp: read_process_starttime_def)
  then have "starttime_of pid data = Some v"
    using assms op r d by (auto simp: read_process_starttime_def split: option.splits if_splits)
  then show ?thesis using read_loop_sound r d by blast
qed

lemma identity_held: "identity_read k pid = Some (r, es) \<Longrightarrow> hold fds es = fds"
  by (auto simp: identity_read_def Let_def dest: starttime_held split: option.splits)

lemma identity_sound:
  assumes "identity_read k pid = Some (Inr v, es)"
  shows "\<exists>q data. pk_table k 1 pid = Some q \<and> prefix data (pk_stat k 1 q) \<and> starttime_of pid data = Some v"
proof (cases "pk_refuses k 1")
  case None
  then show ?thesis using assms
    by (auto simp: identity_read_def Let_def read_process_starttime_def [of "Failed _"] dest: starttime_sound split: option.splits)
qed (use assms in \<open>simp add: identity_read_def Let_def read_process_starttime_def\<close>)

text \<open>
  C22. A signal never reaches a process other than the selected one: whatever happens to the
  process table meanwhile, a delivered signal is the requested, allowed one, its receiver is
  the process whose record, read while it held the identifier, starts at the expected time,
  and nothing else is signalled. The law about the table says that a process keeps its
  identifier while it exists. No path leaves a descriptor open.
\<close>

theorem signal_reaches_identified:
  assumes law: "\<And>p. pk_table k 0 pid = Some p \<Longrightarrow> pk_table k 3 pid = Some p \<Longrightarrow> pk_table k 1 pid = Some p"
    and run: "signal_process strerror k pid sig expected = Some (r, delivered, es)"
  shows "held es = [] \<and> (delivered = None \<longrightarrow> \<not> succeeds r) \<and>
    (\<forall>p s. delivered = Some (p, s) \<longrightarrow> s = sig \<and> signal_allowed sig \<and> pk_table k 3 pid = Some p \<and>
      (\<exists>data. prefix data (pk_stat k 1 p) \<and> starttime_of pid data = Some (word_of_int expected)))"
proof (cases "pid \<le> 0 \<or> sint (word_of_int pid :: 32 word) \<noteq> pid \<or> \<not> signal_allowed sig \<or> expected < 0")
  case True
  then show ?thesis using run by (auto simp: signal_process_def split: if_splits)
next
  case False
  show ?thesis
  proof (cases "pidfd_open k pid")
    case (Failed e)
    then show ?thesis using run False by (auto simp: signal_process_def)
  next
    case (Got p)
    then have open0: "pk_table k 0 pid = Some p" by (simp add: pidfd_open_def split: option.splits)
    obtain a fs where a: "identity_read k pid = Some (a, fs)" using run False Got by (auto simp: signal_process_def)
    have fs: "hold [''pidfd''] fs = [''pidfd'']" by (rule identity_held [OF a])
    show ?thesis
    proof (cases a)
      case (Inl e)
      then show ?thesis using run False Got a fs by (auto simp: signal_process_def)
    next
      case (Inr v)
      show ?thesis
      proof (cases "v = word_of_int expected \<and> pidfd_send_signal k p pid = None")
        case True
        then have alive: "pk_table k 3 pid = Some p" by (auto simp: pidfd_send_signal_def split: option.splits if_splits)
        have "pk_table k 1 pid = Some p" by (rule law [OF open0 alive])
        then show ?thesis using identity_sound [OF a [unfolded Inr]] run False Got a Inr True fs alive
          by (auto simp: signal_process_def split: option.splits)
      next
        case no: False
        then show ?thesis using run False Got a Inr fs
          by (auto simp: signal_process_def split: option.splits if_splits)
      qed
    qed
  qed
qed

section \<open>Two decoders, one start time\<close>

text \<open>Skipping the fields of a printed line.\<close>

lemma stat_blank_space: "stat_blank CHR '' ''" "\<not> stat_blank c \<Longrightarrow> c \<noteq> CHR '' ''"
  by (auto simp: stat_blank_def)

lemma signed_decimal_chars: "c \<in> set (signed_decimal v) \<Longrightarrow> is_digit c \<or> c = CHR ''-''"
  using decimal_digits by (auto simp: signed_decimal_def list_all_iff split: if_splits)

definition plain_word :: "string \<Rightarrow> bool" where
  "plain_word w \<longleftrightarrow> w \<noteq> [] \<and> list_all (\<lambda>c. c \<noteq> CHR 0x0A \<and> \<not> stat_blank c) w"

lemma signed_decimal_plain: "plain_word (signed_decimal v)"
proof -
  have "\<not> is_digit CHR 0x0A" "\<not> is_digit CHR '' ''" "\<not> is_digit CHR 0x09" by (simp_all add: is_digit_def code_def)
  then have "is_digit c \<or> c = CHR ''-'' \<Longrightarrow> c \<noteq> CHR 0x0A \<and> \<not> stat_blank c" for c by (auto simp: stat_blank_def)
  then show ?thesis using signed_decimal_chars [of _ v] signed_decimal_word [of v]
    by (simp add: plain_word_def list_all_iff is_word_def)
qed

lemma drop_plain_word:
  assumes "plain_word w"
  shows "dropWhile stat_blank (CHR '' '' # w @ rest) = w @ rest"
    and "dropWhile (\<lambda>c. c \<noteq> CHR 0x0A \<and> \<not> stat_blank c) (w @ CHR '' '' # rest) = CHR '' '' # rest"
  using assms by (cases w; auto simp: plain_word_def list_all_iff stat_blank_space dropWhile_append2)+

lemma starttime_field_skips:
  assumes "list_all plain_word ws" "plain_word w" "n = length ws"
  shows "starttime_field n (concat (map (\<lambda>w. CHR '' '' # w) ws) @ CHR '' '' # w @ rest) =
    starttime_field 0 (CHR '' '' # w @ rest)"
  using assms
proof (induction ws arbitrary: n)
  case (Cons u us)
  let ?rest = "concat (map (\<lambda>w. CHR '' '' # w) us) @ CHR '' '' # w @ rest"
  obtain r where r: "?rest = CHR '' '' # r" by (cases us) auto
  have u: "plain_word u" using Cons.prems by simp
  then have "u \<noteq> []" "hd u \<noteq> CHR 0x0A" by (cases u; simp add: plain_word_def)+
  then have "starttime_field (Suc (length us)) (CHR '' '' # u @ ?rest) = starttime_field (length us) ?rest"
    using drop_plain_word(1) [OF u, of ?rest] drop_plain_word(2) [OF u, of r] r
    by (simp add: starttime_field.simps [of "Suc (length us)"])
  then show ?case using Cons by simp
qed simp

lemma starttime_field_value:
  assumes "n \<le> 18446744073709551615" "rest = [] \<or> hd rest = CHR '' ''"
  shows "starttime_field 0 (CHR '' '' # decimal n @ rest) = Some (word_of_nat n)"
proof -
  have p: "plain_word (decimal n)" using signed_decimal_plain [of "int n"] by (simp add: signed_decimal_def)
  then have "hd (decimal n @ rest) \<noteq> CHR 0x0A" by (cases "decimal n") (auto simp: plain_word_def)
  moreover have "rest = [] \<or> \<not> is_digit (hd rest)" using assms(2) by (auto simp: is_digit_def code_def)
  ultimately show ?thesis using drop_plain_word(1) [OF p, of rest] strtoull_decimal [OF assms(1), of rest] assms(2)
    by (auto simp: starttime_field.simps stat_blank_space)
qed

lemma after_last_paren_line:
  assumes "CHR '')'' \<notin> set after"
  shows "after_last_paren (xs @ CHR '')'' # after) = Some after"
proof -
  have "takeWhile (\<lambda>c. c \<noteq> CHR '')'') (rev after @ CHR '')'' # rev xs) = rev after"
    using assms by (intro while_stops(1)) auto
  then show ?thesis by (simp add: after_last_paren_def)
qed

lemma printed_split:
  assumes "n < length vals"
  shows "concat (map (\<lambda>v. CHR '' '' # signed_decimal v) vals) =
    concat (map (\<lambda>w. CHR '' '' # w) (map signed_decimal (take n vals))) @ CHR '' '' # signed_decimal (vals ! n)
     @ concat (map (\<lambda>v. CHR '' '' # signed_decimal v) (drop (Suc n) vals))"
proof -
  have "concat (map f vals) = concat (map f (take n vals)) @ f (vals ! n) @ concat (map f (drop (Suc n) vals))"
    for f :: "int \<Rightarrow> string"
    by (subst id_take_nth_drop [OF assms]) simp
  from this [of "\<lambda>v. CHR '' '' # signed_decimal v"] show ?thesis by (simp add: comp_def)
qed

lemma starttime_printed:
  assumes pid: "0 < pid" "pid \<le> 2147483647" and comm: "NUL \<notin> set comm"
    and st: "st \<notin> {NUL, CHR 0x0A, CHR '' '', CHR 0x09, CHR '')''}"
    and vals: "18 < length vals" "0 \<le> vals ! 18" "vals ! 18 \<le> LUA_MAXINTEGER"
  shows "starttime_of (int pid) (stat_line pid comm st vals) = Some (word_of_int (vals ! 18))"
proof -
  let ?words = "concat (map (\<lambda>v. CHR '' '' # signed_decimal v) vals)"
  let ?after = "CHR '' '' # st # ?words"
  let ?ws = "[st] # map signed_decimal (take 18 vals)"
  let ?rest = "concat (map (\<lambda>v. CHR '' '' # signed_decimal v) (drop 19 vals))"
  have line: "stat_line pid comm st vals = decimal pid @ CHR '' '' # (CHR ''('' # comm) @ CHR '')'' # ?after"
    by (simp add: stat_line_def)
  have nul: "c \<noteq> NUL" if "is_digit c \<or> c = CHR ''-''" for c using that by (auto simp: is_digit_def code_def)
  have "NUL \<notin> set (signed_decimal v)" for v using signed_decimal_chars [of NUL v] nul by blast
  then have "NUL \<notin> set ?words" by auto
  moreover have "NUL \<notin> set (decimal pid)"
    using decimal_digits [of pid] nul by (fastforce simp: list_all_iff)
  ultimately have c: "c_string (stat_line pid comm st vals) = stat_line pid comm st vals"
    using comm st unfolding line by (intro c_string_id) (auto simp del: set_concat)
  have p: "strtol (stat_line pid comm st vals) = (int pid, CHR '' '' # (CHR ''('' # comm) @ CHR '')'' # ?after, False)"
    unfolding line by (rule strtol_decimal) (use pid in \<open>auto simp: is_digit_def code_def\<close>)
  have last: "after_last_paren (CHR '' '' # (CHR ''('' # comm) @ CHR '')'' # ?after) = Some ?after"
    using after_last_paren_line [of ?after "CHR '' '' # CHR ''('' # comm"] printed_no_paren [of vals] st
    by (auto simp del: set_concat)
  have "?after = concat (map (\<lambda>w. CHR '' '' # w) ?ws) @ CHR '' '' # signed_decimal (vals ! 18) @ ?rest"
    using printed_split [OF vals(1)] by simp
  moreover have "list_all plain_word ?ws"
    using st signed_decimal_plain by (auto simp: list_all_iff plain_word_def stat_blank_def)
  ultimately have "starttime_field 19 ?after = starttime_field 0 (CHR '' '' # signed_decimal (vals ! 18) @ ?rest)"
    using starttime_field_skips [of ?ws "signed_decimal (vals ! 18)" 19 ?rest] signed_decimal_plain vals(1) by simp
  also have "\<dots> = Some (word_of_nat (nat (vals ! 18)))"
  proof -
    have "?rest = [] \<or> hd ?rest = CHR '' ''" by (cases "drop 19 vals") auto
    then show ?thesis using starttime_field_value [of "nat (vals ! 18)" ?rest] vals by (simp add: signed_decimal_def)
  qed
  finally have f: "starttime_field 19 ?after = Some (word_of_int (vals ! 18))" using vals(2) by simp
  have "length (CHR '' '' # (CHR ''('' # comm) @ CHR '')'' # ?after) \<noteq> length (stat_line pid comm st vals)"
    unfolding line by (simp add: decimal_not_Nil)
  then have ne: "CHR '' '' # (CHR ''('' # comm) @ CHR '')'' # ?after \<noteq> stat_line pid comm st vals" by metis
  show ?thesis
    unfolding starttime_of_def Let_def c p using ne last f by (simp only: prod.case if_False bind.bind_lunit) simp
qed

text \<open>
  C21. Two decoders, one start time: on every line the kernel prints, the decoder of the
  process list and the identity check before a signal read the same start time, so that the
  value a selected row carries is the value \<open>l_signal_process\<close> compares with.
\<close>

theorem decoders_agree:
  assumes "0 < pid" "pid \<le> 2147483647" "comm \<noteq> []" "NUL \<notin> set comm" "\<not> is_space st" "st \<noteq> CHR '')''" "st \<noteq> NUL"
    and len: "36 \<le> length vals" and range: "\<forall>v \<in> set vals. LUA_MININTEGER \<le> v \<and> v \<le> LUA_MAXINTEGER"
    and nn: "\<forall>i \<in> set (36 # nonnegative). 0 \<le> vals ! (i - 1)" and cpu: "vals ! 10 + vals ! 11 \<le> LUA_MAXINTEGER"
  shows "\<exists>r. parse_proc_stat (stat_line pid comm st vals) = Some r
    \<and> starttime_of (ps_pid r) (stat_line pid comm st vals) = Some (word_of_int (ps_values r ! 19))"
proof -
  have "st \<notin> {NUL, CHR 0x0A, CHR '' '', CHR 0x09, CHR '')''}" using assms(5-7) by (auto simp: is_space_def code_def)
  moreover have "0 \<le> vals ! 18" "vals ! 18 \<le> LUA_MAXINTEGER" using nn range len by (auto simp: nonnegative_def)
  ultimately have "starttime_of (int pid) (stat_line pid comm st vals) = Some (word_of_int (vals ! 18))"
    using assms(1-4) len by (intro starttime_printed) auto
  then show ?thesis
    using stat_line_parsed [OF assms(1-3,5,6) len range nn cpu] by (simp add: needed_def del: upt_Suc)
qed

lemma decoders_agree_witness:
  "\<exists>r. parse_proc_stat (stat_line 7 ''a) b'' CHR ''S'' (replicate 36 1)) = Some r
    \<and> starttime_of (ps_pid r) (stat_line 7 ''a) b'' CHR ''S'' (replicate 36 1)) = Some (word_of_int (ps_values r ! 19))"
  by (rule decoders_agree) (simp_all add: is_space_def code_def nonnegative_def)

text \<open>A process whose record starts at 5 is signalled through the identifier 7.\<close>

definition sample_table :: "bool proc_kernel" where
  "sample_table = \<lparr>pk_table = (\<lambda>t pid. if pid = 7 then Some True else None),
     pk_stat = (\<lambda>t p. stat_line 7 ''a) b'' CHR ''S'' (replicate 19 5)),
     pk_refuses = (\<lambda>t. None), pk_reads = [Failed EINTR, Got 20, Got 65535, Got 0]\<rparr>"

lemma sample_signal: "signal_process (\<lambda>_. '''') sample_table 7 15 5 =
    Some (Returns [LBool True], Some (True, 15), [Opens ''pidfd'', Opens ''stat'', Closes ''stat'', Closes ''pidfd''])"
proof -
  let ?line = "stat_line 7 ''a) b'' CHR ''S'' (replicate 19 5)"
  have len: "length ?line = 48"
    by (simp add: stat_line_def signed_decimal_def decimal.simps numeral_eq_Suc)
  have s: "starttime_of 7 ?line = Some 5"
    using starttime_printed [of 7 "''a) b''" "CHR ''S''" "replicate 19 5"] by simp
  have "read_loop [Failed EINTR, Got 20, Got 65535, Got 0] ?line 65535 = Some (Inr ?line)"
    using len by (simp add: read_loop_step moved_def Let_def)
  then have "identity_read sample_table 7 = Some (Inr 5, [Opens ''stat'', Closes ''stat''])"
    using s len by (simp add: identity_read_def read_process_starttime_def sample_table_def)
  then show ?thesis
    by (simp add: signal_process_def pidfd_open_def pidfd_send_signal_def signal_allowed_def sample_table_def)
qed

lemma signal_reaches_identified_witness:
  "pk_table sample_table 3 7 = Some True \<and> signal_allowed 15
    \<and> (\<exists>data. prefix data (pk_stat sample_table 1 True) \<and> starttime_of 7 data = Some (word_of_int 5))"
proof -
  have law: "pk_table sample_table 0 7 = Some p \<Longrightarrow> pk_table sample_table 3 7 = Some p \<Longrightarrow> pk_table sample_table 1 7 = Some p" for p
    by (simp add: sample_table_def)
  show ?thesis
    using signal_reaches_identified [where k = sample_table and pid = 7, OF law sample_signal] by blast
qed

end
