(* ===== verification/ProcStatus.thy ===== *)
theory ProcStatus imports LuaApi begin

text \<open>
  \<^verbatim>\<open>native/wtop_linux_process_status.h\<close>: the decoder of \<^verbatim>\<open>/proc/<pid>/status\<close>. A bounded
  hash table of the keys seen rejects duplicate keys; the values wanted are decoded into a
  Lua table, and everything unusual is declined.
\<close>

section \<open>Spans and the table of keys\<close>

text \<open>A span is a position and a length; a slot of length 0 is free.\<close>

type_synonym span = "nat \<times> nat"

definition span_text :: "string \<Rightarrow> span \<Rightarrow> string" where
  "span_text input sp = take (snd sp) (drop (fst sp) input)"

definition status_key_byte :: "char \<Rightarrow> bool" where
  "status_key_byte c \<longleftrightarrow> (code CHR ''a'' \<le> code c \<and> code c \<le> code CHR ''z'')
     \<or> (code CHR ''A'' \<le> code c \<and> code c \<le> code CHR ''Z'')
     \<or> (code CHR ''0'' \<le> code c \<and> code c \<le> code CHR ''9'') \<or> c = CHR ''_''"

definition metadata_keys :: "string list" where
  "metadata_keys = [''Uid'', ''Tgid'', ''VmRSS'', ''voluntary_ctxt_switches'', ''nonvoluntary_ctxt_switches'',
     ''NSpid'', ''NStgid'', ''Cpus_allowed_list'', ''Mems_allowed_list'']"

definition key_hash :: "string \<Rightarrow> u32" where
  "key_hash key = fold (\<lambda>c h. (h XOR ucast (byte_of c)) * 16777619) key 2166136261"

definition key_slot :: "string \<Rightarrow> nat" where
  "key_slot key = unat (key_hash key AND 127)"

datatype probed = Duplicate | Free nat | Full

fun probe :: "string \<Rightarrow> span list \<Rightarrow> string \<Rightarrow> nat \<Rightarrow> nat \<Rightarrow> probed" where
  "probe input seen key 0 slot = Full"
| "probe input seen key (Suc n) slot =
     (if snd (seen ! slot) = 0 then Free slot
      else if snd (seen ! slot) = length key \<and> span_text input (seen ! slot) = key then Duplicate
      else probe input seen key n ((slot + 1) mod 128))"

text \<open>The index of a key that is wanted, and the line that starts at a position.\<close>

definition wanted :: "string \<Rightarrow> nat option" where
  "wanted key = (if key \<in> set metadata_keys then Some (length (takeWhile (\<lambda>k. k \<noteq> key) metadata_keys)) else None)"

definition line_at :: "string \<Rightarrow> nat \<Rightarrow> string" where
  "line_at input pos = takeWhile (\<lambda>c. c \<noteq> CHR 0x0A) (drop pos input)"

definition next_line :: "string \<Rightarrow> nat \<Rightarrow> nat" where
  "next_line input pos = (let e = pos + length (line_at input pos) in if e < length input then e + 1 else e)"

definition set_field :: "span list \<Rightarrow> string \<Rightarrow> span \<Rightarrow> span list" where
  "set_field fields key sp = (case wanted key of Some i \<Rightarrow> fields[i := sp] | None \<Rightarrow> fields)"

lemma next_line_progress: "pos < length input \<Longrightarrow> pos < next_line input pos"
  by (cases "drop pos input") (auto simp: next_line_def line_at_def Let_def)

function spans_loop :: "string \<Rightarrow> nat \<Rightarrow> nat \<Rightarrow> span list \<Rightarrow> span list \<Rightarrow> span list option" where
  "spans_loop input pos count seen fields =
     (if length input \<le> pos then Some fields
      else let line = line_at input pos; key = takeWhile status_key_byte line; after = drop (length key) line in
        if after \<noteq> [] \<and> 128 \<le> code (hd after) then None
        else if key \<noteq> [] \<and> after \<noteq> [] \<and> hd after = CHR '':'' then
          (case probe input seen key 128 (key_slot key) of
             Free slot \<Rightarrow>
               if 96 < count + 1 then None
               else spans_loop input (next_line input pos) (count + 1) (seen[slot := (pos, length key)])
                 (set_field fields key (pos, length line))
           | _ \<Rightarrow> None)
        else spans_loop input (next_line input pos) count seen fields)"
  by pat_completeness auto
termination
proof (relation "measure (\<lambda>(input, pos, _). length input - pos)", goal_cases)
  case (2 input pos count seen fields line key after slot)
  then show ?case using next_line_progress [of pos input] by simp
next
  case (3 input pos count seen fields line key after)
  then show ?case using next_line_progress [of pos input] by simp
qed simp

declare spans_loop.simps [simp del]

definition status_spans :: "string \<Rightarrow> span list option" where
  "status_spans input =
     (if 256 * 1024 < length input then None
      else spans_loop input 0 0 (replicate 128 (0, 0)) (replicate 9 (0, 0)))"

definition process_status_input :: "string \<Rightarrow> lua" where
  "process_status_input input = (case status_spans input of None \<Rightarrow> LNil
     | Some fields \<Rightarrow> LStr (concat (map (\<lambda>f. if snd f \<noteq> 0 then span_text input f @ [CHR 0x0A] else []) fields)))"

section \<open>Values\<close>

definition status_uint :: "nat \<Rightarrow> string \<Rightarrow> (nat \<times> string) option" where
  "status_uint maximum s = (let ds = takeWhile is_digit s in
     if ds = [] then None
     else map_option (\<lambda>v. (v, dropWhile is_digit s)) (digit_loop (\<lambda>n d. n \<le> (maximum - d) div 10) 0 ds))"

lemma status_uint_shorter: "status_uint m s = Some (v, r) \<Longrightarrow> length r < length s"
proof -
  assume "status_uint m s = Some (v, r)"
  then have "takeWhile is_digit s \<noteq> []" "r = dropWhile is_digit s" by (auto simp: status_uint_def Let_def split: if_splits)
  moreover have "length s = length (takeWhile is_digit s) + length (dropWhile is_digit s)"
    by (metis length_append takeWhile_dropWhile_id)
  ultimately show ?thesis by simp
qed

text \<open>One entry of a list of ranges: a number or a range, and the rest.\<close>

definition range_entry :: "string \<Rightarrow> (nat \<times> nat \<times> string) option" where
  "range_entry s = (case status_uint 65535 s of None \<Rightarrow> None
     | Some (lo, r) \<Rightarrow>
        (if r \<noteq> [] \<and> hd r = CHR ''-''
         then map_option (\<lambda>(hi, r'). (lo, hi, r')) (status_uint 65535 (tl r))
         else Some (lo, lo, r)))"

lemma range_entry_shorter: "range_entry s = Some (f, l, r) \<Longrightarrow> length r < length s"
proof -
  assume a: "range_entry s = Some (f, l, r)"
  then obtain g q where g: "status_uint 65535 s = Some (g, q)" by (auto simp: range_entry_def split: option.splits)
  then have "length q < length s" by (rule status_uint_shorter)
  then show ?thesis using a g status_uint_shorter [of 65535 "tl q"]
    by (cases q) (fastforce simp: range_entry_def split: if_splits)+
qed

function range_loop :: "string \<Rightarrow> int \<Rightarrow> int \<Rightarrow> int option" where
  "range_loop s all previous =
     (case range_entry s of None \<Rightarrow> None
      | Some (lo, hi, r) \<Rightarrow>
         (if hi < lo \<or> int lo \<le> previous \<or> 4096 - all < int hi - int lo + 1 then None
          else if r = [] then Some (all + int hi - int lo + 1)
          else if hd r \<noteq> CHR '','' \<or> tl r = [] then None
          else range_loop (tl r) (all + int hi - int lo + 1) (int hi)))"
  by pat_completeness auto
termination
  by (relation "measure (\<lambda>(s, _). length s)") (auto dest: range_entry_shorter)

declare range_loop.simps [simp del]

definition status_range :: "string \<Rightarrow> int option" where
  "status_range s = (if s = [] \<or> 1024 < length s then None else range_loop s 0 (- 1))"

definition trim :: "string \<Rightarrow> string" where
  "trim s = rev (skip_space (rev (skip_space s)))"

text \<open>The numbers, the identifiers of a chain (at most 33), and one field of the nine.\<close>

definition status_number :: "nat \<Rightarrow> string \<Rightarrow> int option" where
  "status_number i s =
     (case status_uint 9223372036854775807 s of None \<Rightarrow> None
      | Some (v, r) \<Rightarrow>
         if i = 0 then (if r = [] \<or> \<not> is_space (hd r) then None else Some (int v))
         else if i = 2 then
           (if r = [] \<or> \<not> is_space (hd r) \<or> skip_space r \<noteq> ''kB'' \<or> 9223372036854775807 div 1024 < v then None
            else Some (int v * 1024))
         else if r \<noteq> [] then None else Some (int v))"

fun status_chain :: "nat \<Rightarrow> string \<Rightarrow> int list option" where
  "status_chain 0 s = (if s = [] then Some [] else None)"
| "status_chain (Suc n) s =
     (if s = [] then Some []
      else case status_uint 2147483647 s of None \<Rightarrow> None
      | Some (v, r) \<Rightarrow>
         if v < 1 \<or> r \<noteq> [] \<and> \<not> is_space (hd r) then None
         else map_option ((#) (int v)) (status_chain n (skip_space r)))"

definition status_ids :: "string \<Rightarrow> int list option" where
  "status_ids s = (case status_chain 33 s of Some [] \<Rightarrow> None | r \<Rightarrow> r)"

datatype status_value = Absent | Number int | Chain "int list" | Ranges string int

definition field_text :: "string \<Rightarrow> span list \<Rightarrow> nat \<Rightarrow> string" where
  "field_text input fields i = trim (drop (length (metadata_keys ! i) + 1) (span_text input (fields ! i)))"

definition status_field :: "string \<Rightarrow> span list \<Rightarrow> nat \<Rightarrow> status_value option" where
  "status_field input fields i =
     (let text = field_text input fields i in
      if snd (fields ! i) = 0 then Some Absent
      else if i < 5 then map_option Number (status_number i text)
      else if i < 7 then map_option Chain (status_ids text)
      else map_option (Ranges text) (status_range text))"

section \<open>The table\<close>

definition number_entry :: "string \<Rightarrow> status_value \<Rightarrow> (string \<times> lua) list" where
  "number_entry k v = (case v of Number n \<Rightarrow> [(k, LInt n)] | _ \<Rightarrow> [])"

definition chain_entry :: "string \<Rightarrow> status_value \<Rightarrow> (string \<times> lua) list" where
  "chain_entry k v = (case v of Chain ids \<Rightarrow> [(k, mk_array (map LInt ids))] | _ \<Rightarrow> [])"

definition range_entries :: "string \<Rightarrow> string \<Rightarrow> status_value \<Rightarrow> (string \<times> lua) list" where
  "range_entries k kc v = (case v of Ranges s n \<Rightarrow> [(k, LStr s), (kc, LInt n)] | _ \<Rightarrow> [])"

definition affinity :: "status_value \<Rightarrow> status_value \<Rightarrow> (string \<times> lua) list" where
  "affinity cpus mems =
     (if cpus = Absent \<and> mems = Absent then []
      else [(''affinity'', mk_tab ((''issues'', LTab [])
         # range_entries ''cpus_allowed_list'' ''cpus_allowed_count'' cpus
         @ range_entries ''mems_allowed_list'' ''mems_allowed_count'' mems
         @ [(''status'', LStr (if cpus \<noteq> Absent \<and> mems \<noteq> Absent then ''ok'' else ''partial''))]))])"

definition status_table :: "status_value list \<Rightarrow> lua" where
  "status_table v = mk_tab (number_entry ''uid'' (v ! 0) @ number_entry ''tgid'' (v ! 1) @ number_entry ''rss_bytes'' (v ! 2)
     @ number_entry ''voluntary_context_switches'' (v ! 3) @ number_entry ''nonvoluntary_context_switches'' (v ! 4)
     @ chain_entry ''nspid'' (v ! 5) @ chain_entry ''nstgid'' (v ! 6) @ affinity (v ! 7) (v ! 8))"

definition process_status_fields :: "string \<Rightarrow> lua" where
  "process_status_fields input = (case status_spans input of None \<Rightarrow> LNil
     | Some fields \<Rightarrow> (let vs = map (status_field input fields) [0..<9] in
         if None \<in> set vs then LNil else status_table (map the vs)))"

section \<open>The table of keys is a set\<close>

text \<open>The reference: the same walk over the lines with the list of the keys seen.\<close>

function keys_loop :: "string \<Rightarrow> nat \<Rightarrow> string list \<Rightarrow> span list \<Rightarrow> span list option" where
  "keys_loop input pos keys fields =
     (if length input \<le> pos then Some fields
      else let line = line_at input pos; key = takeWhile status_key_byte line; after = drop (length key) line in
        if after \<noteq> [] \<and> 128 \<le> code (hd after) then None
        else if key \<noteq> [] \<and> after \<noteq> [] \<and> hd after = CHR '':'' then
          (if key \<in> set keys \<or> 96 \<le> length keys then None
           else keys_loop input (next_line input pos) (key # keys) (set_field fields key (pos, length line)))
        else keys_loop input (next_line input pos) keys fields)"
  by pat_completeness auto
termination
proof (relation "measure (\<lambda>(input, pos, _). length input - pos)", goal_cases)
  case (2 input pos keys fields line key after)
  then show ?case using next_line_progress [of pos input] by simp
next
  case (3 input pos keys fields line key after)
  then show ?case using next_line_progress [of pos input] by simp
qed simp

declare keys_loop.simps [simp del]

definition used :: "span list \<Rightarrow> nat \<Rightarrow> bool" where
  "used seen i \<longleftrightarrow> snd (seen ! i) \<noteq> 0"

definition from_slot :: "nat \<Rightarrow> nat \<Rightarrow> nat" where
  "from_slot slot d = (slot + d) mod 128"

definition table_ok :: "string \<Rightarrow> span list \<Rightarrow> string list \<Rightarrow> bool" where
  "table_ok input seen keys \<longleftrightarrow> length seen = 128 \<and> [] \<notin> set keys
     \<and> card {i. i < 128 \<and> used seen i} = length keys \<and> length keys \<le> 96
     \<and> (\<forall>i < 128. used seen i \<longrightarrow> span_text input (seen ! i) \<in> set keys \<and> length (span_text input (seen ! i)) = snd (seen ! i))
     \<and> (\<forall>k \<in> set keys. \<exists>d < 128. span_text input (seen ! from_slot (key_slot k) d) = k
          \<and> (\<forall>e \<le> d. used seen (from_slot (key_slot k) e)))"

lemma key_slot_less: "key_slot k < 128"
proof -
  have "key_hash k AND 127 \<le> 127" by (rule word_and_le1)
  then show ?thesis by (simp add: key_slot_def word_le_nat_alt)
qed

lemma from_slot_less [simp]: "from_slot s d < 128"
  by (simp add: from_slot_def)

lemma from_slot_onto:
  assumes "i < 128" "s < 128"
  shows "\<exists>d < 128. from_slot s d = i"
proof (cases "s \<le> i")
  case True
  then show ?thesis using assms by (intro exI [of _ "i - s"]) (auto simp: from_slot_def)
next
  case False
  then show ?thesis using assms by (intro exI [of _ "i + 128 - s"]) (auto simp: from_slot_def)
qed

text \<open>The probe walks over the used slots of other keys.\<close>

lemma probe_skip:
  assumes "s < 128" "d \<le> n"
    and "\<And>e. e < d \<Longrightarrow> used seen (from_slot s e) \<and> span_text input (seen ! from_slot s e) \<noteq> key"
  shows "probe input seen key n s = probe input seen key (n - d) (from_slot s d)"
  using assms
proof (induction d)
  case 0
  then show ?case by (simp add: from_slot_def)
next
  case (Suc d)
  have "probe input seen key n s = probe input seen key (n - d) (from_slot s d)" using Suc by simp
  moreover obtain m where m: "n - d = Suc m" "n - Suc d = m" using Suc.prems(2) by (metis Suc_diff_Suc Suc_le_lessD)
  moreover have "(from_slot s d + 1) mod 128 = from_slot s (Suc d)" by (simp add: from_slot_def mod_simps)
  ultimately show ?case using Suc.prems(3) [of d] by (simp add: used_def)
qed

lemma probe_known:
  assumes ok: "table_ok input seen keys" and k: "key \<in> set keys"
  shows "probe input seen key 128 (key_slot key) = Duplicate"
proof -
  let ?at = "from_slot (key_slot key)"
  obtain d where d: "d < 128" "span_text input (seen ! ?at d) = key" "\<forall>e \<le> d. used seen (?at e)"
    using ok k by (auto simp: table_ok_def)
  define m where "m = (LEAST e. span_text input (seen ! ?at e) = key)"
  have m: "span_text input (seen ! ?at m) = key" "m \<le> d"
    unfolding m_def using d(2) by (rule LeastI, metis Least_le d(2))
  have "span_text input (seen ! ?at e) \<noteq> key" if "e < m" for e using not_less_Least that unfolding m_def by blast
  then have "probe input seen key 128 (key_slot key) = probe input seen key (128 - m) (?at m)"
    using d m by (intro probe_skip key_slot_less) auto
  moreover obtain n where "128 - m = Suc n" using m d by (metis Suc_diff_Suc le_less_trans)
  moreover have "length key = snd (seen ! ?at m)" using ok d(3) m unfolding table_ok_def by (metis from_slot_less)
  ultimately show ?thesis using m d(3) by (auto simp: used_def)
qed

lemma probe_new:
  assumes ok: "table_ok input seen keys" and k: "key \<notin> set keys"
  shows "\<exists>d < 128. probe input seen key 128 (key_slot key) = Free (from_slot (key_slot key) d)
    \<and> \<not> used seen (from_slot (key_slot key) d) \<and> (\<forall>e < d. used seen (from_slot (key_slot key) e))"
proof -
  let ?at = "from_slot (key_slot key)"
  have "{i. i < 128 \<and> used seen i} \<noteq> {..<128}"
  proof
    assume eq: "{i. i < 128 \<and> used seen i} = {..<128}"
    have "card {i. i < 128 \<and> used seen i} \<le> 96" using ok unfolding table_ok_def by linarith
    then show False unfolding eq by simp
  qed
  then obtain i where i: "i < 128" "\<not> used seen i" by auto
  obtain d where d: "d < 128" "\<not> used seen (?at d)" using from_slot_onto [OF i(1) key_slot_less] i(2) by metis
  define m where "m = (LEAST e. \<not> used seen (?at e))"
  have m: "\<not> used seen (?at m)" "m \<le> d" unfolding m_def using d(2) by (rule LeastI, metis Least_le d(2))
  have before: "used seen (?at e)" if "e < m" for e using not_less_Least that unfolding m_def by blast
  then have "span_text input (seen ! ?at e) \<noteq> key" if "e < m" for e
    using ok k that unfolding table_ok_def by (metis from_slot_less)
  then have "probe input seen key 128 (key_slot key) = probe input seen key (128 - m) (?at m)"
    using d m before by (intro probe_skip key_slot_less) auto
  moreover obtain n where "128 - m = Suc n" using m d by (metis Suc_diff_Suc le_less_trans)
  ultimately show ?thesis using m before d by (intro exI [of _ m]) (auto simp: used_def)
qed

lemma table_ok_insert:
  assumes ok: "table_ok input seen keys" and k: "key \<notin> set keys" "key \<noteq> []" "length keys < 96"
    and at: "span_text input sp = key" "snd sp = length key"
    and slot: "d < 128" "\<not> used seen (from_slot (key_slot key) d)" "\<forall>e < d. used seen (from_slot (key_slot key) e)"
  shows "table_ok input (seen[from_slot (key_slot key) d := sp]) (key # keys)"
proof -
  let ?s = "from_slot (key_slot key) d" let ?seen = "seen[?s := sp]"
  have len: "length seen = 128" using ok by (simp add: table_ok_def)
  have u: "used ?seen i \<longleftrightarrow> i = ?s \<or> used seen i" if "i < 128" for i
    using that at(2) k(2) len by (auto simp: used_def nth_list_update)
  have "{i. i < 128 \<and> used ?seen i} = insert ?s {i. i < 128 \<and> used seen i}" using u by auto
  then have c: "card {i. i < 128 \<and> used ?seen i} = length (key # keys)" using ok slot(2) by (simp add: table_ok_def)
  have nth: "?seen ! i = (if i = ?s then sp else seen ! i)" if "i < 128" for i
    using that len by (auto simp: nth_list_update)
  have slots: "\<forall>i < 128. used ?seen i \<longrightarrow> span_text input (?seen ! i) \<in> set (key # keys)
      \<and> length (span_text input (?seen ! i)) = snd (?seen ! i)"
    using ok at u nth by (auto simp: table_ok_def)
  have find: "\<exists>d < 128. span_text input (?seen ! from_slot (key_slot j) d) = j \<and> (\<forall>e \<le> d. used ?seen (from_slot (key_slot j) e))"
    if j: "j \<in> set (key # keys)" for j
  proof (cases "j = key")
    case True
    then show ?thesis using slot at u nth by (intro exI [of _ d]) (auto simp: le_less)
  next
    case False
    then obtain d' where "d' < 128" "span_text input (seen ! from_slot (key_slot j) d') = j"
        "\<forall>e \<le> d'. used seen (from_slot (key_slot j) e)" using ok j by (auto simp: table_ok_def)
    moreover from this have "from_slot (key_slot j) d' \<noteq> ?s" using slot(2) by auto
    ultimately show ?thesis using u nth by (intro exI [of _ d']) auto
  qed
  have "[] \<notin> set (key # keys)" "length ?seen = 128" "length (key # keys) \<le> 96"
    using ok k len by (simp_all add: table_ok_def)
  then show ?thesis unfolding table_ok_def using c slots find by blast
qed

lemma span_text_key:
  assumes "key = takeWhile status_key_byte (line_at input pos)"
  shows "span_text input (pos, length key) = key"
proof -
  have p: "prefix (takeWhile P xs) xs" for P and xs :: string by (metis prefixI takeWhile_dropWhile_id)
  have "prefix key (drop pos input)"
    unfolding assms line_at_def by (rule prefix_order.trans [OF p p])
  then show ?thesis by (auto simp: span_text_def prefix_def)
qed

lemma spans_keys:
  "table_ok input seen keys \<Longrightarrow> spans_loop input pos (length keys) seen fields = keys_loop input pos keys fields"
proof (induction input pos keys fields arbitrary: seen rule: keys_loop.induct)
  case (1 input pos keys fields)
  let ?line = "line_at input pos" let ?key = "takeWhile status_key_byte ?line"
  let ?after = "drop (length ?key) ?line"
  show ?case
  proof (cases "length input \<le> pos \<or> ?after \<noteq> [] \<and> 128 \<le> code (hd ?after)")
    case True
    then show ?thesis by (auto simp: spans_loop.simps [of input pos] keys_loop.simps [of input pos] Let_def)
  next
    case a: False
    show ?thesis
    proof (cases "?key \<noteq> [] \<and> ?after \<noteq> [] \<and> hd ?after = CHR '':''")
      case False
      then show ?thesis using a "1.IH"(2) [OF _ refl refl refl _ _ "1.prems"]
        by (subst spans_loop.simps, subst keys_loop.simps) (auto simp: Let_def)
    next
      case b: True
      show ?thesis
      proof (cases "?key \<in> set keys")
        case True
        then show ?thesis using a b probe_known [OF "1.prems" True]
          by (subst spans_loop.simps, subst keys_loop.simps) (simp add: Let_def)
      next
        case c: False
        obtain d where d: "d < 128" "probe input seen ?key 128 (key_slot ?key) = Free (from_slot (key_slot ?key) d)"
            "\<not> used seen (from_slot (key_slot ?key) d)" "\<forall>e < d. used seen (from_slot (key_slot ?key) e)"
          using probe_new [OF "1.prems" c] by auto
        show ?thesis
        proof (cases "96 \<le> length keys")
          case True
          then show ?thesis using a b c d(2)
            by (subst spans_loop.simps, subst keys_loop.simps) (simp add: Let_def)
        next
          case e: False
          have "table_ok input (seen[from_slot (key_slot ?key) d := (pos, length ?key)]) (?key # keys)"
            using b c d e by (intro table_ok_insert [OF "1.prems"] span_text_key [OF refl]) auto
          from "1.IH"(1) [OF _ refl refl refl _ _ _ this] show ?thesis using a b c d(2) e
            by (subst spans_loop.simps, subst keys_loop.simps) (simp add: Let_def)
        qed
      qed
    qed
  qed
qed

text \<open>
  C23. The bounded hash table is a set of keys: for every input, probing 128 slots with at
  most 96 keys in them finds a duplicate exactly when the key was seen, and always a free
  slot otherwise, so that the spans are those of the walk that remembers the keys.
\<close>

theorem spans_refine_keys:
  "status_spans input = (if 256 * 1024 < length input then None else keys_loop input 0 [] (replicate 9 (0, 0)))"
proof -
  have "table_ok input (replicate 128 (0, 0)) []" by (simp add: table_ok_def used_def cong: conj_cong)
  from spans_keys [OF this, of 0 "replicate 9 (0, 0)"] show ?thesis by (simp add: status_spans_def)
qed

section \<open>Printed values are read back\<close>

lemma status_uint_printed:
  assumes "n \<le> maximum" "9 \<le> maximum" "rest = [] \<or> \<not> is_digit (hd rest)"
  shows "status_uint maximum (decimal n @ rest) = Some (n, rest)"
  using digits_of_decimal [OF assms(3), of n] decimal_parse_limit [of "\<lambda>n d. n \<le> (maximum - d) div 10" maximum n]
    limit_guard [OF assms(2)] assms(1) by (simp add: status_uint_def)

text \<open>A list of ranges, as the kernel prints it.\<close>

definition print_range :: "nat \<times> nat \<Rightarrow> string" where
  "print_range r = (if fst r = snd r then decimal (fst r) else decimal (fst r) @ ''-'' @ decimal (snd r))"

fun print_ranges :: "(nat \<times> nat) list \<Rightarrow> string" where
  "print_ranges [] = []"
| "print_ranges [r] = print_range r"
| "print_ranges (r # rs) = print_range r @ '','' @ print_ranges rs"

fun ordered_from :: "int \<Rightarrow> (nat \<times> nat) list \<Rightarrow> bool" where
  "ordered_from previous [] = True"
| "ordered_from previous (r # rs) = (previous < int (fst r) \<and> fst r \<le> snd r \<and> snd r \<le> 65535 \<and> ordered_from (int (snd r)) rs)"

definition range_members :: "(nat \<times> nat) list \<Rightarrow> nat set" where
  "range_members rs = (\<Union>r \<in> set rs. {fst r..snd r})"

lemma range_entry_printed:
  assumes "lo \<le> hi" "hi \<le> 65535" "rest = [] \<or> hd rest = CHR '',''"
  shows "range_entry (print_range (lo, hi) @ rest) = Some (lo, hi, rest)"
proof -
  have r: "rest = [] \<or> \<not> is_digit (hd rest)" "\<not> (rest \<noteq> [] \<and> hd rest = CHR ''-'')"
    using assms(3) by (auto simp: is_digit_def code_def)
  have d: "\<not> is_digit CHR ''-''" by (simp add: is_digit_def code_def)
  show ?thesis
    using assms r d status_uint_printed [of lo 65535 rest] status_uint_printed [of hi 65535 rest]
      status_uint_printed [of lo 65535 "CHR ''-'' # decimal hi @ rest"]
    by (auto simp: range_entry_def print_range_def)
qed

lemma print_ranges_not_Nil: "rs \<noteq> [] \<Longrightarrow> print_ranges rs \<noteq> []"
  by (induction rs rule: print_ranges.induct) (simp_all add: print_range_def)

lemma ordered_members:
  "ordered_from previous rs \<Longrightarrow> finite (range_members rs) \<and> (\<forall>n \<in> range_members rs. previous < int n)"
proof (induction previous rs rule: ordered_from.induct)
  case (2 previous r rs)
  have "range_members (r # rs) = {fst r..snd r} \<union> range_members rs" by (simp add: range_members_def)
  then show ?case using 2 by fastforce
qed (simp add: range_members_def)

lemma card_members_Cons:
  assumes "ordered_from previous ((lo, hi) # rs)"
  shows "int (card (range_members ((lo, hi) # rs))) = int hi - int lo + 1 + int (card (range_members rs))"
proof -
  have r: "ordered_from (int hi) rs" "lo \<le> hi" using assms by simp_all
  have "{lo..hi} \<inter> range_members rs = {}" using ordered_members [OF r(1)] by fastforce
  moreover have "range_members ((lo, hi) # rs) = {lo..hi} \<union> range_members rs" by (simp add: range_members_def)
  ultimately show ?thesis using ordered_members [OF r(1)] r(2) by (simp add: card_Un_disjoint)
qed

lemma range_loop_printed:
  assumes "ordered_from previous rs" "rs \<noteq> []" "- 1 \<le> previous" "all + int (card (range_members rs)) \<le> 4096"
  shows "range_loop (print_ranges rs) all previous = Some (all + int (card (range_members rs)))"
  using assms
proof (induction rs arbitrary: all previous)
  case (Cons r rs)
  obtain lo hi where r: "r = (lo, hi)" by (cases r)
  have o: "ordered_from previous ((lo, hi) # rs)" using Cons.prems r by simp
  note card = card_members_Cons [OF o]
  show ?case
  proof (cases "rs = []")
    case True
    have "range_entry (print_range (lo, hi)) = Some (lo, hi, [])"
      using range_entry_printed [of lo hi "[]"] o by simp
    then show ?thesis using True o r Cons.prems card
      by (subst range_loop.simps) (auto simp: range_members_def)
  next
    case False
    then obtain q qs where q: "rs = q # qs" by (cases rs) auto
    have "range_entry (print_range (lo, hi) @ CHR '','' # print_ranges rs) = Some (lo, hi, CHR '','' # print_ranges rs)"
      using range_entry_printed [of lo hi "CHR '','' # print_ranges rs"] o by simp
    moreover have "range_loop (print_ranges rs) (all + int hi - int lo + 1) (int hi) =
        Some (all + int hi - int lo + 1 + int (card (range_members rs)))"
      using Cons.prems o card r False by (intro Cons.IH) auto
    ultimately show ?thesis using o r q Cons.prems card print_ranges_not_Nil [OF False]
      by (subst range_loop.simps) auto
  qed
qed simp

text \<open>
  Affinity lists: an ordered list of disjoint ranges of at most 4096 processors, printed
  in at most 1024 bytes, is read back with the exact number of processors it denotes.
\<close>

theorem range_count_exact:
  assumes "ordered_from (- 1) rs" "rs \<noteq> []" "card (range_members rs) \<le> 4096" "length (print_ranges rs) \<le> 1024"
  shows "status_range (print_ranges rs) = Some (int (card (range_members rs)))"
  using range_loop_printed [OF assms(1,2), of 0] assms(3,4) print_ranges_not_Nil [OF assms(2)]
  by (simp add: status_range_def)

lemma range_count_exact_witness: "status_range (print_ranges [(0, 3), (8, 8)]) = Some (int (card (range_members [(0, 3), (8, 8)])))"
proof (rule range_count_exact)
  have "range_members [(0, 3), (8, 8)] = {0, 1, 2, 3, 8}" by (auto simp: range_members_def)
  then show "card (range_members [(0, 3), (8, 8)]) \<le> 4096" by simp
qed (simp_all add: print_range_def decimal.simps)

end
