(* ===== verification/WifiNetlink.thy ===== *)
theory WifiNetlink imports LuaApi begin

text \<open>
  \<^verbatim>\<open>native/wtop_linux_wifi.h\<close>: the read-only nl80211 client. Attribute sequences are
  parsed and built, each exchange sends one request and reads its replies under one
  deadline and fixed budgets, and the whole transaction reads the interface and its
  associations twice. The numbers of the kernel interface (header layouts, attribute and
  command numbers) are those of the Linux UAPI the file includes; a machine is
  little-endian.
\<close>

section \<open>Attributes\<close>

record wifi_view =
  wv_data :: "byte list"
  wv_flags :: u16

abbreviation (input) NLA_F_NET_BYTEORDER :: u16 where "NLA_F_NET_BYTEORDER \<equiv> 0x4000"
abbreviation (input) NLA_TYPE_MASK :: u16 where "NLA_TYPE_MASK \<equiv> 0x3FFF"
abbreviation (input) WIFI_MAX_LINKS :: nat where "WIFI_MAX_LINKS \<equiv> 16"
abbreviation (input) WIFI_MAX_ATTRIBUTES :: nat where "WIFI_MAX_ATTRIBUTES \<equiv> 8192"
abbreviation (input) WIFI_MAX_BYTES :: nat where "WIFI_MAX_BYTES \<equiv> 1048576"
abbreviation (input) WIFI_TIMEOUT_MS :: nat where "WIFI_TIMEOUT_MS \<equiv> 500"

definition align4 :: "nat \<Rightarrow> nat" where
  "align4 n = (n + 3) div 4 * 4"

lemma align4_ge: "n \<le> align4 n" and align4_le: "align4 n \<le> n + 3"
  unfolding align4_def by presburger+

definition nla_len :: "byte list \<Rightarrow> nat" where
  "nla_len bytes = unat (get_le (take 2 bytes) :: u16)"

definition nla_type :: "byte list \<Rightarrow> u16" where
  "nla_type bytes = get_le (take 2 (drop 2 bytes))"

text \<open>The whole sequence is validated, and a second occurrence of the key is an error.\<close>

function attribute_loop :: "byte list \<Rightarrow> u16 \<Rightarrow> wifi_view option \<Rightarrow> (errno + wifi_view option)" where
  "attribute_loop bytes key found =
     (if bytes = [] then Inr found
      else if length bytes < 4 then Inl EPROTO
      else if nla_len bytes < 4 \<or> length bytes < nla_len bytes then Inl EPROTO
      else if length bytes < align4 (nla_len bytes) then Inl EPROTO
      else if nla_type bytes AND NLA_TYPE_MASK = key then
        (if found \<noteq> None then Inl EPROTO
         else attribute_loop (drop (align4 (nla_len bytes)) bytes) key
           (Some \<lparr>wv_data = take (nla_len bytes - 4) (drop 4 bytes), wv_flags = nla_type bytes AND NOT NLA_TYPE_MASK\<rparr>))
      else attribute_loop (drop (align4 (nla_len bytes)) bytes) key found)"
  by pat_completeness auto
termination
proof (relation "measure (\<lambda>(bytes, _). length bytes)", goal_cases)
  case (2 bytes key found)
  then show ?case using align4_ge [of "nla_len bytes"] by (cases bytes) auto
next
  case (3 bytes key found)
  then show ?case using align4_ge [of "nla_len bytes"] by (cases bytes) auto
qed simp

declare attribute_loop.simps [simp del]

definition wifi_attribute :: "byte list \<Rightarrow> u16 \<Rightarrow> (errno + wifi_view option)" where
  "wifi_attribute bytes key = attribute_loop bytes key None"

definition wifi_u32 :: "byte list \<Rightarrow> u16 \<Rightarrow> (errno + u32 option)" where
  "wifi_u32 bytes key = (case wifi_attribute bytes key of Inl e \<Rightarrow> Inl e | Inr None \<Rightarrow> Inr None
     | Inr (Some v) \<Rightarrow> if length (wv_data v) \<noteq> 4 \<or> wv_flags v AND NLA_F_NET_BYTEORDER \<noteq> 0 then Inl EPROTO
         else Inr (Some (get_le (wv_data v))))"

definition wifi_put :: "byte list \<Rightarrow> nat \<Rightarrow> u16 \<Rightarrow> byte list \<Rightarrow> (errno + byte list)" where
  "wifi_put buffer capacity key data =
     (let n = 4 + length data in
      if 65535 < n \<or> capacity < length buffer \<or> capacity - length buffer < align4 n then Inl EOVERFLOW
      else Inr (buffer @ put_le 2 (word_of_nat n :: u16) @ put_le 2 key @ data @ replicate (align4 n - n) 0))"

section \<open>Waiting\<close>

text \<open>
  The clock and the answers of \<open>poll\<close> not yet given, and the timeouts asked for. A loop that
  has used them up has not returned.
\<close>

datatype polled = Timeout | Revents u16 | Poll_failed errno

record wifi_timer =
  wt_clock :: "nat answer list"
  wt_polls :: "polled list"
  wt_asked :: "nat list"

fun wait_loop :: "u16 \<Rightarrow> nat \<Rightarrow> nat answer list \<Rightarrow> polled list \<Rightarrow> nat list \<Rightarrow> (errno option \<times> wifi_timer) option" where
  "wait_loop events deadline [] polls asked = None"
| "wait_loop events deadline (Failed e # clock) polls asked =
     Some (Some e, \<lparr>wt_clock = clock, wt_polls = polls, wt_asked = asked\<rparr>)"
| "wait_loop events deadline (Got now # clock) polls asked =
     (if deadline \<le> now then Some (Some ETIMEDOUT, \<lparr>wt_clock = clock, wt_polls = polls, wt_asked = asked\<rparr>)
      else case polls of [] \<Rightarrow> None
      | p # ps \<Rightarrow>
         (let asked' = asked @ [(deadline - now + 999999) div 1000000];
              t = \<lparr>wt_clock = clock, wt_polls = ps, wt_asked = asked'\<rparr> in
          case p of
            Poll_failed e \<Rightarrow> if e = EINTR then wait_loop events deadline clock ps asked' else Some (Some e, t)
          | Timeout \<Rightarrow> Some (Some ETIMEDOUT, t)
          | Revents r \<Rightarrow> Some (if r AND events \<noteq> 0 then None else Some EIO, t)))"

definition wifi_wait :: "u16 \<Rightarrow> nat \<Rightarrow> wifi_timer \<Rightarrow> (errno option \<times> wifi_timer) option" where
  "wifi_wait events deadline t = wait_loop events deadline (wt_clock t) (wt_polls t) (wt_asked t)"

section \<open>The query\<close>

record wifi_bss =
  wb_bssid :: "byte list"
  wb_peer :: "byte list"
  wb_mld :: bool
  wb_frequency :: "u32 option"
  wb_frequency_offset :: "u32 option"
  wb_link_id :: "byte option"
  wb_raw :: "byte list"

record wifi_result =
  wr_before :: "byte list"
  wr_after :: "byte list"
  wr_station :: "byte list"
  wr_links :: "wifi_bss list"
  wr_verified_links :: nat
  wr_verified :: "bool list"
  wr_station_errno :: errno

record wifi_query =
  wq_family :: u16
  wq_sequence :: u32
  wq_ifindex :: u32
  wq_deadline :: nat
  wq_received :: nat
  wq_messages :: nat
  wq_result :: wifi_result

text \<open>What \<open>recvmsg\<close> returns, and the socket with its pending answers and the datagrams sent.\<close>

record datagram =
  dg_truncated :: bool
  dg_named :: bool
  dg_family :: u16
  dg_pid :: u32
  dg_data :: "byte list"

record wifi_io =
  wi_sends :: "nat answer list"
  wi_recvs :: "datagram answer list"
  wi_timer :: wifi_timer
  wi_sent :: "byte list list"

text \<open>A request: the netlink and generic netlink headers and the attributes.\<close>

definition wifi_request :: "u16 \<Rightarrow> byte \<Rightarrow> bool \<Rightarrow> u32 \<Rightarrow> byte list \<Rightarrow> byte list" where
  "wifi_request family command dump sequence attributes =
     put_le 4 (word_of_nat (16 + 4 + length attributes) :: u32) @ put_le 2 family
     @ put_le 2 (0x001 OR (if dump then 0x300 else 0) :: u16) @ put_le 4 sequence @ put_le 4 (0 :: u32)
     @ [command, 1, 0, 0] @ attributes"

function send_loop :: "nat \<Rightarrow> nat \<Rightarrow> nat answer list \<Rightarrow> wifi_timer \<Rightarrow> (errno option \<times> nat answer list \<times> wifi_timer) option" where
  "send_loop deadline n sends t =
     (case wt_clock t of [] \<Rightarrow> None
      | Failed e # clock \<Rightarrow> Some (Some e, sends, t\<lparr>wt_clock := clock\<rparr>)
      | Got now # clock \<Rightarrow>
         if deadline \<le> now then Some (Some ETIMEDOUT, sends, t\<lparr>wt_clock := clock\<rparr>)
         else (case sends of [] \<Rightarrow> None
         | Failed e # ss \<Rightarrow>
             if e = EINTR then send_loop deadline n ss (t\<lparr>wt_clock := clock\<rparr>)
             else if e = EAGAIN then
               (case wifi_wait 4 deadline (t\<lparr>wt_clock := clock\<rparr>) of None \<Rightarrow> None
                | Some (Some e', t') \<Rightarrow> Some (Some e', ss, t')
                | Some (None, t') \<Rightarrow> send_loop deadline n ss t')
             else Some (Some e, ss, t\<lparr>wt_clock := clock\<rparr>)
         | Got m # ss \<Rightarrow> Some (if m \<noteq> n then Some EIO else None, ss, t\<lparr>wt_clock := clock\<rparr>)))"
  by pat_completeness auto
termination by (relation "measure (\<lambda>(_, _, sends, _). length sends)") auto

declare send_loop.simps [simp del]

section \<open>Replies\<close>

type_synonym wifi_handler = "wifi_query \<Rightarrow> byte list \<Rightarrow> errno option \<times> wifi_query"

datatype verdict = More wifi_query | Finished wifi_query | Broken errno wifi_query

definition reply_len :: "byte list \<Rightarrow> nat" where "reply_len bytes = unat (get_le (take 4 bytes) :: u32)"
definition reply_type :: "byte list \<Rightarrow> u16" where "reply_type bytes = get_le (take 2 (drop 4 bytes))"
definition reply_flags :: "byte list \<Rightarrow> u16" where "reply_flags bytes = get_le (take 2 (drop 6 bytes))"
definition reply_seq :: "byte list \<Rightarrow> u32" where "reply_seq bytes = get_le (take 4 (drop 8 bytes))"
definition reply_payload :: "byte list \<Rightarrow> byte list" where "reply_payload bytes = take (reply_len bytes - 16) (drop 16 bytes)"

text \<open>A reply of the awaited sequence number.\<close>

definition reply_error :: "byte list \<Rightarrow> errno option" where
  "reply_error payload =
     (if payload \<noteq> [] \<and> length payload < 4 then Some EPROTO
      else let e = (if payload \<noteq> [] then sint (get_le (take 4 payload) :: 32 word) else 0) in
        if 0 < e \<or> e = - 2147483648 then Some EPROTO
        else if e \<noteq> 0 then Some (- e) else None)"

definition handle_reply :: "wifi_handler \<Rightarrow> u16 \<Rightarrow> byte \<Rightarrow> bool \<Rightarrow> byte list \<Rightarrow> wifi_query \<Rightarrow> verdict" where
  "handle_reply handler family response dump bytes q =
     (let payload = reply_payload bytes; type = reply_type bytes in
      if reply_flags bytes AND 0x10 \<noteq> 0 then Broken EAGAIN q
      else if type = 2 \<or> type = 3 then
        (case reply_error payload of Some e \<Rightarrow> Broken e q
         | None \<Rightarrow> if type = 3 then (if \<not> dump then Broken EPROTO q else Finished q) else More q)
      else if type = 4 then Broken ENOBUFS q
      else if type \<noteq> family \<or> length payload < 4 then Broken EPROTO q
      else if payload ! 0 \<noteq> response then Broken EPROTO q
      else case handler q (drop 4 payload) of
        (Some e, q') \<Rightarrow> Broken e q'
      | (None, q') \<Rightarrow> if dump then More q' else Finished q')"

function messages_loop :: "wifi_handler \<Rightarrow> u16 \<Rightarrow> byte \<Rightarrow> bool \<Rightarrow> byte list \<Rightarrow> wifi_query \<Rightarrow> verdict" where
  "messages_loop handler family response dump bytes q =
     (if bytes = [] then More q
      else let q = q\<lparr>wq_messages := wq_messages q + 1\<rparr>; n = reply_len bytes in
        if 1024 < wq_messages q then Broken EOVERFLOW q
        else if length bytes < 16 then Broken EPROTO q
        else if n < 16 \<or> length bytes < n then Broken EPROTO q
        else if length bytes < align4 n then Broken EPROTO q
        else if reply_seq bytes \<noteq> wq_sequence q then
          messages_loop handler family response dump (drop (align4 n) bytes) q
        else case handle_reply handler family response dump bytes q of
          More q' \<Rightarrow> messages_loop handler family response dump (drop (align4 n) bytes) q'
        | v \<Rightarrow> v)"
  by pat_completeness auto
termination
proof (relation "measure (\<lambda>(_, _, _, _, bytes, _). length bytes)", goal_cases)
  case (2 handler family response dump bytes q x n)
  then show ?case using align4_ge [of n] by (cases bytes) auto
next
  case (3 handler family response dump bytes q x n)
  then show ?case using align4_ge [of n] by (cases bytes) auto
qed simp

declare messages_loop.simps [simp del]

definition accept_datagram :: "datagram \<Rightarrow> wifi_query \<Rightarrow> errno option \<times> wifi_query" where
  "accept_datagram dg q =
     (if dg_truncated dg then (Some EMSGSIZE, q)
      else if dg_data dg = [] \<or> \<not> dg_named dg \<or> dg_family dg \<noteq> 16 \<or> dg_pid dg \<noteq> 0 then (Some EPROTO, q)
      else let q = q\<lparr>wq_received := wq_received q + length (dg_data dg)\<rparr> in
        (if WIFI_MAX_BYTES < wq_received q then Some EOVERFLOW else None, q))"

function recv_loop :: "wifi_handler \<Rightarrow> u16 \<Rightarrow> byte \<Rightarrow> bool \<Rightarrow> datagram answer list \<Rightarrow> wifi_timer \<Rightarrow> wifi_query
    \<Rightarrow> (errno option \<times> wifi_query \<times> datagram answer list \<times> wifi_timer) option" where
  "recv_loop handler family response dump recvs t q =
     (case wifi_wait 1 (wq_deadline q) t of None \<Rightarrow> None
      | Some (Some e, t') \<Rightarrow> Some (Some e, q, recvs, t')
      | Some (None, t') \<Rightarrow>
         (case recvs of [] \<Rightarrow> None
          | Failed e # rs \<Rightarrow>
              if e = EINTR \<or> e = EAGAIN then recv_loop handler family response dump rs t' q
              else Some (Some e, q, rs, t')
          | Got dg # rs \<Rightarrow>
              (case accept_datagram dg q of
                 (Some e, q') \<Rightarrow> Some (Some e, q', rs, t')
               | (None, q') \<Rightarrow>
                  (case messages_loop handler family response dump (dg_data dg) q' of
                     More q'' \<Rightarrow> recv_loop handler family response dump rs t' q''
                   | Finished q'' \<Rightarrow> Some (None, q'', rs, t')
                   | Broken e q'' \<Rightarrow> Some (Some e, q'', rs, t')))))"
  by pat_completeness auto
termination by (relation "measure (\<lambda>(_, _, _, _, recvs, _). length recvs)") auto

declare recv_loop.simps [simp del]

definition wifi_exchange :: "u16 \<Rightarrow> byte \<Rightarrow> byte \<Rightarrow> bool \<Rightarrow> byte list \<Rightarrow> wifi_handler \<Rightarrow> wifi_query \<Rightarrow> wifi_io
    \<Rightarrow> (errno option \<times> wifi_query \<times> wifi_io) option" where
  "wifi_exchange family command response dump attributes handler q s =
     (if 1024 < 16 + 4 + length attributes then Some (Some EOVERFLOW, q, s)
      else let q = q\<lparr>wq_sequence := wq_sequence q + 1\<rparr>;
               request = wifi_request family command dump (wq_sequence q) attributes in
        case send_loop (wq_deadline q) (length request) (wi_sends s) (wi_timer s) of None \<Rightarrow> None
        | Some (Some e, ss, t) \<Rightarrow> Some (Some e, q, s\<lparr>wi_sends := ss, wi_timer := t, wi_sent := wi_sent s @ [request]\<rparr>)
        | Some (None, ss, t) \<Rightarrow>
            map_option (\<lambda>(e, q', rs, t'). (e, q', s\<lparr>wi_sends := ss, wi_recvs := rs, wi_timer := t', wi_sent := wi_sent s @ [request]\<rparr>))
              (recv_loop handler family response dump (wi_recvs s) t q))"

section \<open>Handlers\<close>

text \<open>A field of exactly the given size in the machine's byte order.\<close>

definition wifi_field :: "byte list \<Rightarrow> u16 \<Rightarrow> byte list option" where
  "wifi_field bytes key = (case wifi_attribute bytes key of Inr (Some v) \<Rightarrow> Some (wv_data v) | _ \<Rightarrow> None)"

definition wifi_native :: "byte list \<Rightarrow> u16 \<Rightarrow> byte list option" where
  "wifi_native bytes key = (case wifi_attribute bytes key of
     Inr (Some v) \<Rightarrow> if wv_flags v AND NLA_F_NET_BYTEORDER \<noteq> 0 then None else Some (wv_data v) | _ \<Rightarrow> None)"

definition nl80211_name :: "byte list" where
  "nl80211_name = bytes_of ''nl80211'' @ [0]"

definition wifi_family :: wifi_handler where
  "wifi_family q attributes =
     (case (wifi_native attributes 1, wifi_field attributes 2) of
        (Some i, Some name) \<Rightarrow>
          if length i \<noteq> 2 \<or> name \<noteq> nl80211_name then (Some EPROTO, q)
          else let q' = q\<lparr>wq_family := get_le i\<rparr> in
            (if wq_family q' < 0x10 then Some EPROTO else None, q')
      | _ \<Rightarrow> (Some EPROTO, q))"

definition own_interface :: "wifi_query \<Rightarrow> byte list \<Rightarrow> bool" where
  "own_interface q attributes \<longleftrightarrow> wifi_u32 attributes 3 = Inr (Some (wq_ifindex q))"

definition wifi_interface :: wifi_handler where
  "wifi_interface q attributes =
     (if \<not> own_interface q attributes \<or> WIFI_MAX_ATTRIBUTES < length attributes then (Some EPROTO, q)
      else let r = wq_result q in
        (None, q\<lparr>wq_result := (if wr_before r = [] then r\<lparr>wr_before := attributes\<rparr> else r\<lparr>wr_after := attributes\<rparr>)\<rparr>))"

text \<open>The identity of the interface: index, name, device, radio, type and address.\<close>

definition identity_keys :: "nat \<Rightarrow> (u16 \<times> nat) list" where
  "identity_keys n = [(3, 4), (4, n + 1), (153, 8), (1, 4), (5, 4), (6, 6)]"

definition same_interface :: "byte list \<Rightarrow> byte list \<Rightarrow> string \<Rightarrow> bool" where
  "same_interface old new name =
     list_all (\<lambda>(key, n). case (wifi_native old key, wifi_native new key) of
         (Some l, Some r) \<Rightarrow> length l = n \<and> l = r \<and> (key = 4 \<longrightarrow> l = bytes_of name @ [0])
       | _ \<Rightarrow> False) (identity_keys (length name))"

text \<open>The association a scan entry describes: nothing unless it is the associated one.\<close>

definition optional_field :: "byte list \<Rightarrow> u16 \<Rightarrow> (byte list \<Rightarrow> u16 \<Rightarrow> bool) \<Rightarrow> (errno + byte list option)" where
  "optional_field bytes key ok = (case wifi_attribute bytes key of Inl e \<Rightarrow> Inl e | Inr None \<Rightarrow> Inr None
     | Inr (Some v) \<Rightarrow> if ok (wv_data v) (wv_flags v) then Inr (Some (wv_data v)) else Inl EPROTO)"

definition parse_bss :: "byte list \<Rightarrow> (errno + wifi_bss)" where
  "parse_bss bss =
     (case wifi_field bss 1 of None \<Rightarrow> Inl EPROTO
      | Some address \<Rightarrow> if length address \<noteq> 6 then Inl EPROTO
      else case optional_field bss 22 (\<lambda>d _. length d = 6) of Inl e \<Rightarrow> Inl e
      | Inr mld \<Rightarrow> (case wifi_u32 bss 2 of Inl e \<Rightarrow> Inl e
      | Inr frequency \<Rightarrow> (case wifi_u32 bss 20 of Inl e \<Rightarrow> Inl e
      | Inr offset \<Rightarrow> (case optional_field bss 21 (\<lambda>d f. length d = 1 \<and> f AND NLA_F_NET_BYTEORDER = 0 \<and> d ! 0 \<le> 15) of Inl e \<Rightarrow> Inl e
      | Inr link \<Rightarrow> Inr \<lparr>wb_bssid = address, wb_peer = (case mld of Some m \<Rightarrow> m | None \<Rightarrow> address),
          wb_mld = (mld \<noteq> None), wb_frequency = frequency, wb_frequency_offset = offset,
          wb_link_id = map_option hd link, wb_raw = []\<rparr>))))"

definition associated_bss :: "wifi_query \<Rightarrow> byte list \<Rightarrow> (errno + (byte list \<times> wifi_bss) option)" where
  "associated_bss q attributes =
     (if \<not> own_interface q attributes then Inl EPROTO
      else case wifi_attribute attributes 47 of Inl e \<Rightarrow> Inl e | Inr None \<Rightarrow> Inr None
      | Inr (Some bss) \<Rightarrow> (case wifi_u32 (wv_data bss) 9 of Inl e \<Rightarrow> Inl e
         | Inr status \<Rightarrow> if status \<noteq> Some 1 then Inr None
             else map_sum id (\<lambda>b. Some (wv_data bss, b)) (parse_bss (wv_data bss))))"

definition same_bss :: "wifi_bss \<Rightarrow> wifi_bss \<Rightarrow> bool" where
  "same_bss old new \<longleftrightarrow> wb_mld old = wb_mld new \<and> wb_peer old = wb_peer new \<and> wb_frequency old = wb_frequency new
     \<and> wb_frequency_offset old = wb_frequency_offset new \<and> wb_link_id old = wb_link_id new"

text \<open>On the second scan an association is verified against the one recorded with its
  address, once; on the first it is recorded.\<close>

definition link_index :: "wifi_bss list \<Rightarrow> byte list \<Rightarrow> nat" where
  "link_index links bssid = length (takeWhile (\<lambda>l. wb_bssid l \<noteq> bssid) links)"

definition verify_bss :: "wifi_result \<Rightarrow> wifi_bss \<Rightarrow> errno option \<times> wifi_result" where
  "verify_bss r new =
     (let i = link_index (wr_links r) (wb_bssid new) in
      if i < length (wr_links r) \<and> \<not> wr_verified r ! i \<and> same_bss (wr_links r ! i) new
      then (None, r\<lparr>wr_verified := (wr_verified r)[i := True], wr_verified_links := wr_verified_links r + 1\<rparr>)
      else (Some ESTALE, r))"

definition record_bss :: "wifi_result \<Rightarrow> byte list \<Rightarrow> wifi_bss \<Rightarrow> errno option \<times> wifi_result" where
  "record_bss r raw new =
     (if length (wr_links r) = WIFI_MAX_LINKS \<or> WIFI_MAX_ATTRIBUTES < length raw then (Some EOVERFLOW, r)
      else if list_ex (\<lambda>l. wb_bssid l = wb_bssid new) (wr_links r) then (Some EPROTO, r)
      else (None, r\<lparr>wr_links := wr_links r @ [new\<lparr>wb_raw := raw\<rparr>]\<rparr>))"

definition wifi_scan :: wifi_handler where
  "wifi_scan q attributes =
     (case associated_bss q attributes of Inl e \<Rightarrow> (Some e, q) | Inr None \<Rightarrow> (None, q)
      | Inr (Some (raw, new)) \<Rightarrow>
         (case (if wr_after (wq_result q) \<noteq> [] then verify_bss (wq_result q) new else record_bss (wq_result q) raw new) of
            (e, r) \<Rightarrow> (e, q\<lparr>wq_result := r\<rparr>)))"

definition wifi_station :: wifi_handler where
  "wifi_station q attributes =
     (let r = wq_result q in
      case wifi_field attributes 6 of
        Some peer \<Rightarrow>
          if \<not> own_interface q attributes \<or> length peer \<noteq> 6 \<or> wr_links r = [] \<or> peer \<noteq> wb_peer (hd (wr_links r))
             \<or> WIFI_MAX_ATTRIBUTES < length attributes then (Some EPROTO, q)
          else (None, q\<lparr>wq_result := r\<lparr>wr_station := attributes\<rparr>\<rparr>)
      | None \<Rightarrow> (Some EPROTO, q))"

section \<open>The transaction\<close>

type_synonym wifi_step = "(errno option \<times> wifi_query \<times> wifi_io) option"

definition and_then :: "wifi_step \<Rightarrow> (wifi_query \<Rightarrow> wifi_io \<Rightarrow> wifi_step) \<Rightarrow> wifi_step" where
  "and_then m f = (case m of Some (None, q, s) \<Rightarrow> f q s | _ \<Rightarrow> m)"

definition put_all :: "(u16 \<times> byte list) list \<Rightarrow> byte list \<Rightarrow> (errno + byte list)" where
  "put_all attrs buffer = fold (\<lambda>(key, data) b. case b of Inl e \<Rightarrow> Inl e | Inr buf \<Rightarrow> wifi_put buf 128 key data) attrs (Inr buffer)"

text \<open>An exchange whose request carries the given attributes.\<close>

definition wifi_ask :: "u16 \<Rightarrow> byte \<Rightarrow> byte \<Rightarrow> bool \<Rightarrow> (u16 \<times> byte list) list \<Rightarrow> wifi_handler \<Rightarrow> wifi_query \<Rightarrow> wifi_io \<Rightarrow> wifi_step" where
  "wifi_ask family command response dump attrs handler q s =
     (case put_all attrs [] of Inl e \<Rightarrow> Some (Some e, q, s)
      | Inr attributes \<Rightarrow> wifi_exchange family command response dump attributes handler q s)"

definition ask_family :: "wifi_query \<Rightarrow> wifi_io \<Rightarrow> wifi_step" where
  "ask_family = wifi_ask 0x10 3 1 False [(2, nl80211_name)] wifi_family"

definition ask_interface :: "wifi_query \<Rightarrow> wifi_io \<Rightarrow> wifi_step" where
  "ask_interface q = wifi_ask (wq_family q) 5 7 False [(3, put_le 4 (wq_ifindex q))] wifi_interface q"

definition ask_scan :: "wifi_query \<Rightarrow> wifi_io \<Rightarrow> wifi_step" where
  "ask_scan q = wifi_ask (wq_family q) 32 34 True [(3, put_le 4 (wq_ifindex q))] wifi_scan q"

definition ask_station :: "wifi_query \<Rightarrow> wifi_io \<Rightarrow> wifi_step" where
  "ask_station q s =
     (case wr_links (wq_result q) of [] \<Rightarrow> Some (None, q, s)
      | l # ls \<Rightarrow>
         if list_all (\<lambda>m. wb_peer l = wb_peer m \<and> wb_mld l = wb_mld m) ls
         then (case wifi_ask (wq_family q) 17 19 False [(3, put_le 4 (wq_ifindex q)), (6, wb_peer l)] wifi_station q s of
             Some (Some e, q', s') \<Rightarrow>
               if e = EPERM \<or> e = EACCES \<or> e = EOPNOTSUPP
               then Some (None, q'\<lparr>wq_result := (wq_result q')\<lparr>wr_station_errno := e\<rparr>\<rparr>, s')
               else Some (Some e, q', s')
           | m \<Rightarrow> m)
         else Some (None, q\<lparr>wq_result := (wq_result q)\<lparr>wr_station_errno := EOPNOTSUPP\<rparr>\<rparr>, s))"

text \<open>The first identity is compared with itself and the name, and must be of a station.\<close>

definition check_first :: "string \<Rightarrow> wifi_query \<Rightarrow> wifi_io \<Rightarrow> wifi_step" where
  "check_first name q s =
     (let r = wq_result q in
      if \<not> same_interface (wr_before r) (wr_before r) name
      then Some (Some ESTALE, q\<lparr>wq_result := r\<lparr>wr_after := wr_before r\<rparr>\<rparr>, s)
      else case wifi_u32 (wr_before r) 5 of Inr (Some type) \<Rightarrow>
          Some (if type \<noteq> 2 \<and> type \<noteq> 8 then Some EOPNOTSUPP else None, q\<lparr>wq_result := r\<lparr>wr_after := []\<rparr>\<rparr>, s)
      | _ \<Rightarrow> Some (Some EPROTO, q\<lparr>wq_result := r\<lparr>wr_after := []\<rparr>\<rparr>, s))"

definition check_again :: "string \<Rightarrow> wifi_query \<Rightarrow> wifi_io \<Rightarrow> wifi_step" where
  "check_again name q s = Some (if same_interface (wr_before (wq_result q)) (wr_after (wq_result q)) name then None else Some ESTALE, q, s)"

definition check_links :: "wifi_query \<Rightarrow> wifi_io \<Rightarrow> wifi_step" where
  "check_links q s = Some (if wr_verified_links (wq_result q) \<noteq> length (wr_links (wq_result q)) then Some ESTALE else None, q, s)"

definition wifi_steps :: "string \<Rightarrow> (wifi_query \<Rightarrow> wifi_io \<Rightarrow> wifi_step) list" where
  "wifi_steps name = [ask_family, ask_interface, check_first name, ask_scan, ask_station, ask_interface,
     check_again name, ask_scan, check_links]"

definition run_steps :: "(wifi_query \<Rightarrow> wifi_io \<Rightarrow> wifi_step) list \<Rightarrow> wifi_query \<Rightarrow> wifi_io \<Rightarrow> wifi_step" where
  "run_steps fs q s = foldl and_then (Some (None, q, s)) fs"

definition empty_result :: wifi_result where
  "empty_result = \<lparr>wr_before = [], wr_after = [], wr_station = [], wr_links = [], wr_verified_links = 0,
     wr_verified = replicate WIFI_MAX_LINKS False, wr_station_errno = 0\<rparr>"

definition new_query :: "nat \<Rightarrow> u32 \<Rightarrow> wifi_query" where
  "new_query now ifindex = \<lparr>wq_family = 0, wq_sequence = 0, wq_ifindex = ifindex,
     wq_deadline = now + 1000000 * WIFI_TIMEOUT_MS, wq_received = 0, wq_messages = 0, wq_result = empty_result\<rparr>"

text \<open>The result or the error, the socket, and whether the descriptor was opened.\<close>

definition wifi_read :: "unit answer \<Rightarrow> unit answer \<Rightarrow> string \<Rightarrow> u32 \<Rightarrow> wifi_io
    \<Rightarrow> ((errno + wifi_result) \<times> wifi_io \<times> fd_event list) option" where
  "wifi_read socket bound name ifindex s =
     (case wt_clock (wi_timer s) of [] \<Rightarrow> None
      | Failed e # clock \<Rightarrow> Some (Inl e, s\<lparr>wi_timer := (wi_timer s)\<lparr>wt_clock := clock\<rparr>\<rparr>, [])
      | Got now # clock \<Rightarrow>
         (let s = s\<lparr>wi_timer := (wi_timer s)\<lparr>wt_clock := clock\<rparr>\<rparr> in
          case socket of Failed e \<Rightarrow> Some (Inl e, s, [])
          | Got _ \<Rightarrow> (case bound of Failed e \<Rightarrow> Some (Inl e, s, [Opens ''netlink''])
             | Got _ \<Rightarrow> map_option (\<lambda>(e, q, s'). (case e of Some e \<Rightarrow> Inl e | None \<Rightarrow> Inr (wq_result q), s', [Opens ''netlink'']))
                 (run_steps (wifi_steps name) (new_query now ifindex) s))))"

section \<open>The operation of the module\<close>

definition wifi_table :: "wifi_result \<Rightarrow> lua" where
  "wifi_table r = mk_tab ([(''interface'', LStr (text_of (wr_before r))),
       (''associations'', mk_array (map (\<lambda>l. LStr (text_of (wb_raw l))) (wr_links r)))]
     @ (if wr_station r \<noteq> [] then [(''station'', LStr (text_of (wr_station r)))] else [])
     @ (if wr_station_errno r \<noteq> 0 then [(''station_errno'', LInt (wr_station_errno r))] else [])
     @ [(''source'', LStr ''nl80211'')])"

definition read_wifi_link :: "(errno \<Rightarrow> string) \<Rightarrow> unit answer \<Rightarrow> unit answer \<Rightarrow> string \<Rightarrow> int \<Rightarrow> wifi_io
    \<Rightarrow> (lua_return \<times> wifi_io \<times> fd_event list) option" where
  "read_wifi_link strerror socket bound name index s =
     (case check_path 1 name of Inl b \<Rightarrow> Some (b, s, [])
      | Inr path \<Rightarrow>
         if \<not> (0 < length path \<and> length path < 16 \<and> CHR ''/'' \<notin> set path)
         then Some (Bad_argument 1 ''expected a network interface name'', s, [])
         else if index \<le> 0 \<or> INT_MAX < index then Some (Bad_argument 2 ''invalid interface index'', s, [])
         else map_option (\<lambda>(r, s', es). (case r of Inl e \<Rightarrow> push_errno strerror ''read Wi-Fi link'' e
               | Inr w \<Rightarrow> Returns [wifi_table w], s', es @ (if held es = [] then [] else [Closes ''netlink''])))
           (wifi_read socket bound path (word_of_int index) s))"

section \<open>What an exchange keeps\<close>

text \<open>
  A property of the result that the handler keeps is kept by the whole exchange: the other
  parts of the query only count.
\<close>

definition keeps :: "(wifi_result \<Rightarrow> bool) \<Rightarrow> wifi_handler \<Rightarrow> bool" where
  "keeps P handler \<longleftrightarrow> (\<forall>q bytes. P (wq_result q) \<longrightarrow> P (wq_result (snd (handler q bytes))))"

fun verdict_query :: "verdict \<Rightarrow> wifi_query" where
  "verdict_query (More q) = q" | "verdict_query (Finished q) = q" | "verdict_query (Broken e q) = q"

lemma handle_reply_keeps:
  assumes "keeps P handler" "P (wq_result q)"
  shows "P (wq_result (verdict_query (handle_reply handler family response dump bytes q)))"
proof -
  obtain e q' where h: "handler q (drop 4 (reply_payload bytes)) = (e, q')" by (cases "handler q (drop 4 (reply_payload bytes))")
  then have "P (wq_result q')" using assms unfolding keeps_def by (metis snd_conv)
  then show ?thesis using assms(2) h
    by (cases e) (auto simp: handle_reply_def Let_def split: option.splits)
qed

lemma messages_keeps:
  "keeps P handler \<Longrightarrow> P (wq_result q) \<Longrightarrow> P (wq_result (verdict_query (messages_loop handler family response dump bytes q)))"
proof (induction handler family response dump bytes q rule: messages_loop.induct)
  case (1 handler family response dump bytes q)
  let ?q = "q\<lparr>wq_messages := wq_messages q + 1\<rparr>"
  have r: "P (wq_result ?q)" using "1.prems"(2) by simp
  let ?n = "reply_len bytes"
  let ?stop = "bytes = [] \<or> 1024 < wq_messages ?q \<or> length bytes < 16 \<or> ?n < 16 \<or> length bytes < ?n \<or> length bytes < align4 ?n"
  show ?case
  proof (cases ?stop)
    case True
    then show ?thesis using "1.prems" by (subst messages_loop.simps) (auto simp: Let_def)
  next
    case go: False
    show ?thesis
    proof (cases "reply_seq bytes \<noteq> wq_sequence ?q")
      case True
      then have "messages_loop handler family response dump bytes q =
          messages_loop handler family response dump (drop (align4 ?n) bytes) ?q"
        using go by (subst messages_loop.simps) (simp add: Let_def)
      then show ?thesis using "1.IH"(1) [OF _ refl refl _ _ _ _ True "1.prems"(1)] go r by simp
    next
      case False
      then have eq: "messages_loop handler family response dump bytes q =
          (case handle_reply handler family response dump bytes ?q of
             More q' \<Rightarrow> messages_loop handler family response dump (drop (align4 ?n) bytes) q' | v \<Rightarrow> v)"
        using go by (subst messages_loop.simps) (simp add: Let_def)
      note k = handle_reply_keeps [OF "1.prems"(1) r, of family response dump bytes]
      show ?thesis
      proof (cases "handle_reply handler family response dump bytes ?q")
        case (More q')
        show ?thesis unfolding eq More verdict.case
          using go False k More by (intro "1.IH"(2) [OF _ refl refl _ _ _ _ _ More "1.prems"(1)]) (simp_all del: Suc_eq_plus1)
      qed (use k eq in simp_all)
    qed
  qed
qed

lemma accept_datagram_result: "accept_datagram dg q = (e, q') \<Longrightarrow> wq_result q' = wq_result q"
  by (auto simp: accept_datagram_def Let_def split: if_splits)

lemma recv_keeps:
  "keeps P handler \<Longrightarrow> P (wq_result q) \<Longrightarrow> recv_loop handler family response dump recvs t q = Some (e, q', rs, t') \<Longrightarrow> P (wq_result q')"
proof (induction handler family response dump recvs t q rule: recv_loop.induct)
  case (1 handler family response dump recvs t q)
  obtain w t1 where w: "wifi_wait 1 (wq_deadline q) t = Some (w, t1)"
    using "1.prems"(3) by (subst (asm) recv_loop.simps) (auto split: option.splits)
  show ?case
  proof (cases w)
    case (Some e')
    then show ?thesis using "1.prems" w by (subst (asm) recv_loop.simps) auto
  next
    case None
    show ?thesis
    proof (cases recvs)
      case Nil
      then show ?thesis using "1.prems" w None by (subst (asm) recv_loop.simps) auto
    next
      case (Cons a as)
      show ?thesis
      proof (cases a)
        case (Failed e')
        show ?thesis
        proof (cases "e' = EINTR \<or> e' = EAGAIN")
          case True
          then have "recv_loop handler family response dump as t1 q = Some (e, q', rs, t')"
            using "1.prems"(3) w None Cons Failed by (subst (asm) recv_loop.simps) auto
          then show ?thesis using "1.IH"(2) [OF w refl None Cons Failed True "1.prems"(1,2)] by blast
        next
          case False
          then show ?thesis using "1.prems" w None Cons Failed by (subst (asm) recv_loop.simps) auto
        qed
      next
        case (Got dg)
        obtain x q1 where acc: "accept_datagram dg q = (x, q1)" by (cases "accept_datagram dg q")
        have q1: "P (wq_result q1)" using accept_datagram_result [OF acc] "1.prems"(2) by simp
        show ?thesis
        proof (cases x)
          case (Some e')
          then show ?thesis using "1.prems" w None Cons Got acc q1
            by (subst (asm) recv_loop.simps) auto
        next
          case x: None
          note m = messages_keeps [OF "1.prems"(1) q1, of family response dump "dg_data dg"]
          show ?thesis
          proof (cases "messages_loop handler family response dump (dg_data dg) q1")
            case (More q2)
            then have "P (wq_result q2)" using m by (simp del: One_nat_def)
            moreover have "recv_loop handler family response dump as t1 q2 = Some (e, q', rs, t')"
              using "1.prems"(3) w None Cons Got acc x More by (subst (asm) recv_loop.simps) simp
            ultimately show ?thesis using "1.IH"(1) [OF w refl None Cons Got acc [symmetric] x More "1.prems"(1)] by blast
          next
            case (Finished q2)
            then show ?thesis using "1.prems"(3) w None Cons Got acc x m by (subst (asm) recv_loop.simps) auto
          next
            case (Broken e' q2)
            then show ?thesis using "1.prems"(3) w None Cons Got acc x m by (subst (asm) recv_loop.simps) auto
          qed
        qed
      qed
    qed
  qed
qed

lemma ask_keeps:
  assumes "keeps P handler" "P (wq_result q)" "wifi_ask family command response dump attrs handler q s = Some (e, q', s')"
  shows "P (wq_result q')"
proof -
  have seq: "P (wq_result (q\<lparr>wq_sequence := n\<rparr>))" for n using assms(2) by simp
  have "P (wq_result q1)" if "recv_loop handler family response dump recvs t (q\<lparr>wq_sequence := n\<rparr>) = Some (e, q1, rs, t')"
    for recvs t n e q1 rs t' using recv_keeps [where P = P, OF assms(1) seq that] .
  then show ?thesis using assms
    by (auto simp: wifi_ask_def wifi_exchange_def Let_def split: sum.splits if_splits option.splits)
qed

section \<open>Steps in sequence\<close>

lemma and_then_stop: "(\<And>q s. m \<noteq> Some (None, q, s)) \<Longrightarrow> foldl and_then m fs = m"
  by (induction fs) (auto simp: and_then_def split: option.splits prod.splits)

lemma run_steps_Cons: "run_steps (f # fs) q s = (case f q s of Some (None, q', s') \<Rightarrow> run_steps fs q' s' | m \<Rightarrow> m)"
proof (cases "\<exists>q' s'. f q s = Some (None, q', s')")
  case True
  then show ?thesis by (auto simp: run_steps_def and_then_def)
next
  case False
  then have "foldl and_then (f q s) fs = f q s" by (intro and_then_stop) auto
  moreover have "(case f q s of Some (None, q', s') \<Rightarrow> g q' s' | m \<Rightarrow> m) = f q s" for g
    using False by (auto split: option.splits prod.splits)
  ultimately show ?thesis by (simp add: run_steps_def and_then_def)
qed

lemma run_steps_ConsE:
  assumes "run_steps (f # fs) q s = Some (None, q', s')"
  obtains q1 s1 where "f q s = Some (None, q1, s1)" "run_steps fs q1 s1 = Some (None, q', s')"
proof (cases "f q s")
  case (Some m)
  obtain e q1 s1 where m: "m = (e, q1, s1)" by (cases m)
  then show thesis using assms Some that by (cases e) (auto simp: run_steps_Cons)
qed (use assms in \<open>simp add: run_steps_Cons\<close>)

lemma run_steps_Nil: "run_steps [] q s = Some (None, q, s)"
  by (simp add: run_steps_def)

section \<open>Only questions are asked\<close>

definition get_request :: "byte list \<Rightarrow> bool" where
  "get_request r \<longleftrightarrow> 20 \<le> length r \<and> length r \<le> 1024 \<and> r ! 16 \<in> {3, 5, 17, 32}
     \<and> (get_le (take 2 (drop 6 r)) :: u16) \<in> {0x001, 0x301}"

definition only_gets :: "wifi_io \<Rightarrow> wifi_io \<Rightarrow> bool" where
  "only_gets s s' \<longleftrightarrow> (\<exists>new. wi_sent s' = wi_sent s @ new \<and> list_all get_request new)"

lemma only_gets_refl: "wi_sent s' = wi_sent s \<Longrightarrow> only_gets s s'"
  by (simp add: only_gets_def)

lemma only_gets_trans: "only_gets s s' \<Longrightarrow> only_gets s' s'' \<Longrightarrow> only_gets s s''"
  by (auto simp: only_gets_def)

lemma request_is_get:
  assumes "command \<in> {3, 5, 17, 32}" "length attributes \<le> 1004"
  shows "get_request (wifi_request family command dump sequence attributes)"
proof -
  let ?flags = "0x001 OR (if dump then 0x300 else 0) :: u16"
  let ?n = "word_of_nat (16 + 4 + length attributes) :: u32"
  let ?r = "wifi_request family command dump sequence attributes"
  have r: "?r = (put_le 4 ?n @ put_le 2 family) @ put_le 2 ?flags @ put_le 4 sequence @ put_le 4 (0 :: u32) @ [command, 1, 0, 0] @ attributes"
    by (simp add: wifi_request_def)
  have "take 2 (drop 6 ?r) = put_le 2 ?flags" unfolding r by simp
  then have "(get_le (take 2 (drop 6 ?r)) :: u16) = ?flags" by (simp add: get_le_put_le)
  moreover have "?r ! 16 = command"
    by (simp add: wifi_request_def nth_append)
  moreover have "length ?r = 20 + length attributes" by (simp add: wifi_request_def)
  ultimately show ?thesis using assms by (cases dump) (simp_all add: get_request_def)
qed

lemma ask_gets:
  assumes "wifi_ask family command response dump attrs handler q s = Some (e, q', s')" "command \<in> {3, 5, 17, 32}"
  shows "only_gets s s'"
proof -
  have g: "length a \<le> 1004 \<Longrightarrow> get_request (wifi_request family command dump n a)" for a n
    using request_is_get assms(2) by simp
  show ?thesis using assms(1)
    by (auto simp: wifi_ask_def wifi_exchange_def Let_def only_gets_def g split: sum.splits if_splits option.splits)
qed

definition asks_only :: "(wifi_query \<Rightarrow> wifi_io \<Rightarrow> wifi_step) \<Rightarrow> bool" where
  "asks_only f \<longleftrightarrow> (\<forall>q s e q' s'. f q s = Some (e, q', s') \<longrightarrow> only_gets s s')"

lemma run_asks_only:
  "list_all asks_only fs \<Longrightarrow> run_steps fs q s = Some (e, q', s') \<Longrightarrow> only_gets s s'"
proof (induction fs arbitrary: q s)
  case Nil
  then show ?case by (simp add: run_steps_Nil only_gets_refl)
next
  case (Cons f fs)
  show ?case
  proof (cases "f q s")
    case None
    then show ?thesis using Cons.prems by (simp add: run_steps_Cons)
  next
    case (Some m)
    obtain x q1 s1 where m: "f q s = Some (x, q1, s1)" using Some by (cases m) auto
    have g: "only_gets s s1" using Cons.prems(1) m by (simp add: asks_only_def)
    show ?thesis
    proof (cases x)
      case None
      then have "only_gets s1 s'" using Cons.IH [of q1 s1] Cons.prems m by (simp add: run_steps_Cons)
      then show ?thesis using g only_gets_trans by blast
    qed (use Cons.prems m g in \<open>simp add: run_steps_Cons\<close>)
  qed
qed

lemma station_asks: "asks_only ask_station"
proof -
  have "only_gets s s'" if "ask_station q s = Some (e, q', s')" for q s e q' s'
  proof (cases "wr_links (wq_result q)")
    case (Cons l ls)
    let ?ask = "wifi_ask (wq_family q) 17 19 False [(3, put_le 4 (wq_ifindex q)), (6, wb_peer l)] wifi_station q s"
    show ?thesis
    proof (cases ?ask)
      case (Some m)
      obtain x q1 s1 where m: "?ask = Some (x, q1, s1)" using Some by (cases m) auto
      have g: "only_gets s s1" by (rule ask_gets [OF m]) simp
      show ?thesis using that Cons m g only_gets_refl
        by (cases x) (auto simp: ask_station_def split: if_splits)
    qed (use that Cons only_gets_refl in \<open>auto simp: ask_station_def split: if_splits\<close>)
  qed (use that only_gets_refl in \<open>auto simp: ask_station_def\<close>)
  then show ?thesis by (simp add: asks_only_def)
qed

lemma steps_ask_only: "list_all asks_only (wifi_steps name)"
proof -
  have "asks_only ask_family" "asks_only ask_interface" "asks_only ask_scan"
    by (auto simp: asks_only_def ask_family_def ask_interface_def ask_scan_def intro: ask_gets)
  moreover have "asks_only (check_first name)" "asks_only (check_again name)" "asks_only check_links"
    by (auto simp: asks_only_def check_first_def check_again_def check_links_def Let_def
        intro!: only_gets_refl split: if_splits sum.splits option.splits)
  ultimately show ?thesis using station_asks by (simp add: wifi_steps_def)
qed


section \<open>Two scans, one set of associations\<close>

text \<open>The associations recorded are distinct, and the verified ones are counted.\<close>

definition links_ok :: "wifi_result \<Rightarrow> bool" where
  "links_ok r \<longleftrightarrow> distinct (map wb_bssid (wr_links r)) \<and> length (wr_verified r) = WIFI_MAX_LINKS
     \<and> length (wr_links r) \<le> WIFI_MAX_LINKS \<and> wr_verified_links r = card {i. i < WIFI_MAX_LINKS \<and> wr_verified r ! i}
     \<and> (\<forall>i < WIFI_MAX_LINKS. wr_verified r ! i \<longrightarrow> i < length (wr_links r))"

lemma verify_links_ok:
  assumes "links_ok r" "verify_bss r new = (e, r')"
  shows "links_ok r'"
proof (cases "r' = r")
  case False
  let ?i = "link_index (wr_links r) (wb_bssid new)"
  have i: "?i < length (wr_links r)" "\<not> wr_verified r ! ?i"
    and r': "r' = r\<lparr>wr_verified := (wr_verified r)[?i := True], wr_verified_links := wr_verified_links r + 1\<rparr>"
    using assms(2) False by (auto simp: verify_bss_def Let_def split: if_splits)
  have n: "?i < 16" "length (wr_verified r) = 16" using i(1) assms(1) by (auto simp: links_ok_def)
  have "{j. j < 16 \<and> (wr_verified r)[?i := True] ! j} = insert ?i {j. j < 16 \<and> wr_verified r ! j}"
    using n by (auto simp: nth_list_update)
  then have "card {j. j < 16 \<and> (wr_verified r)[?i := True] ! j} = card {j. j < 16 \<and> wr_verified r ! j} + 1"
    using i(2) by simp
  then show ?thesis using assms(1) i n by (auto simp: links_ok_def r' nth_list_update)
qed (use assms in simp)

lemma record_links_ok:
  assumes "links_ok r" "record_bss r raw new = (e, r')"
  shows "links_ok r'"
proof (cases "r' = r")
  case False
  then have "wb_bssid new \<notin> set (map wb_bssid (wr_links r))" "length (wr_links r) \<noteq> 16"
      "r' = r\<lparr>wr_links := wr_links r @ [new\<lparr>wb_raw := raw\<rparr>]\<rparr>"
    using assms(2) by (auto simp: record_bss_def list_ex_iff split: if_splits)
  then show ?thesis using assms(1) by (auto simp: links_ok_def less_SucI)
qed (use assms in simp)

lemma scan_cases:
  "wq_result (snd (wifi_scan q bytes)) = wq_result q
   \<or> (\<exists>new. wq_result (snd (wifi_scan q bytes)) = snd (verify_bss (wq_result q) new))
   \<or> (\<exists>raw new. wq_result (snd (wifi_scan q bytes)) = snd (record_bss (wq_result q) raw new))"
proof (cases "associated_bss q bytes")
  case (Inr a)
  show ?thesis
  proof (cases a)
    case (Some p)
    obtain raw new where p: "p = (raw, new)" by (cases p)
    show ?thesis
    proof (cases "wr_after (wq_result q) \<noteq> []")
      case True
      then show ?thesis using Inr Some p by (simp add: wifi_scan_def split: prod.splits) (metis snd_conv)
    next
      case False
      then show ?thesis using Inr Some p by (simp add: wifi_scan_def split: prod.splits) (metis snd_conv)
    qed
  qed (use Inr in \<open>simp add: wifi_scan_def\<close>)
qed (simp add: wifi_scan_def)

lemma scan_keeps: "keeps links_ok wifi_scan"
  unfolding keeps_def using scan_cases verify_links_ok record_links_ok by (metis prod.collapse)

lemma scan_keeps_identity: "keeps (\<lambda>r. wr_before r = b \<and> wr_after r = a) wifi_scan"
proof -
  have "wr_before (snd (verify_bss r new)) = wr_before r \<and> wr_after (snd (verify_bss r new)) = wr_after r" for r new
    by (simp add: verify_bss_def Let_def)
  moreover have "wr_before (snd (record_bss r raw new)) = wr_before r \<and> wr_after (snd (record_bss r raw new)) = wr_after r"
    for r raw new by (simp add: record_bss_def)
  ultimately show ?thesis unfolding keeps_def using scan_cases by metis
qed

lemma other_keeps: "keeps links_ok wifi_family" "keeps links_ok wifi_interface" "keeps links_ok wifi_station"
  by (auto simp: keeps_def wifi_family_def wifi_interface_def wifi_station_def links_ok_def Let_def split: option.splits)

definition step_keeps :: "(wifi_query \<Rightarrow> wifi_io \<Rightarrow> wifi_step) \<Rightarrow> bool" where
  "step_keeps f \<longleftrightarrow> (\<forall>q s e q' s'. links_ok (wq_result q) \<longrightarrow> f q s = Some (e, q', s') \<longrightarrow> links_ok (wq_result q'))"

lemma station_keeps: "step_keeps ask_station"
proof -
  have "links_ok (wq_result q')" if ok: "links_ok (wq_result q)" and a: "ask_station q s = Some (e, q', s')" for q s e q' s'
  proof (cases "wr_links (wq_result q)")
    case (Cons l ls)
    let ?ask = "wifi_ask (wq_family q) 17 19 False [(3, put_le 4 (wq_ifindex q)), (6, wb_peer l)] wifi_station q s"
    have errno: "links_ok (r\<lparr>wr_station_errno := x\<rparr>) \<longleftrightarrow> links_ok r" for r x by (simp add: links_ok_def)
    show ?thesis
    proof (cases ?ask)
      case (Some m)
      obtain x q1 s1 where m: "?ask = Some (x, q1, s1)" using Some by (cases m) auto
      have "links_ok (wq_result q1)" by (rule ask_keeps [OF other_keeps(3) ok m])
      then show ?thesis using a Cons m errno ok by (cases x) (auto simp: ask_station_def split: if_splits)
    qed (use a Cons errno ok in \<open>auto simp: ask_station_def split: if_splits\<close>)
  qed (use a ok in \<open>auto simp: ask_station_def\<close>)
  then show ?thesis by (auto simp: step_keeps_def)
qed

lemma asks_keep: "step_keeps ask_family" "step_keeps ask_interface" "step_keeps ask_scan"
  unfolding step_keeps_def ask_family_def ask_interface_def ask_scan_def
  by (intro allI impI, erule (1) ask_keeps [OF other_keeps(1)], intro allI impI, erule (1) ask_keeps [OF other_keeps(2)],
      intro allI impI, erule (1) ask_keeps [OF scan_keeps])

lemma check_keeps: "step_keeps (check_first name)"
  by (auto simp: step_keeps_def check_first_def links_ok_def Let_def split: if_splits sum.splits option.splits)

lemma all_verified:
  assumes ok: "links_ok r" and all: "wr_verified_links r = length (wr_links r)"
  shows "\<forall>i < length (wr_links r). wr_verified r ! i"
proof -
  let ?v = "{i. i < 16 \<and> wr_verified r ! i}"
  have "?v \<subseteq> {..<length (wr_links r)}" "card ?v = card {..<length (wr_links r)}"
    using ok all by (auto simp: links_ok_def)
  then have "?v = {..<length (wr_links r)}" by (intro card_subset_eq) auto
  then show ?thesis by blast
qed

lemma run_steps_keep:
  "list_all step_keeps fs \<Longrightarrow> links_ok (wq_result q) \<Longrightarrow> run_steps fs q s = Some (None, q', s') \<Longrightarrow> links_ok (wq_result q')"
proof (induction fs arbitrary: q s)
  case (Cons f fs)
  obtain q1 s1 where f: "f q s = Some (None, q1, s1)" "run_steps fs q1 s1 = Some (None, q', s')"
    using Cons.prems(3) by (rule run_steps_ConsE)
  then have "links_ok (wq_result q1)" using Cons.prems(1,2) f(1) unfolding step_keeps_def by (simp only: list.pred_inject(2) step_keeps_def)
  then show ?case using Cons.IH Cons.prems(1) f(2) by simp
qed (simp add: run_steps_Nil)

lemma run_steps_append:
  "run_steps (fs @ gs) q s = Some (None, q', s') \<Longrightarrow>
     \<exists>q1 s1. run_steps fs q s = Some (None, q1, s1) \<and> run_steps gs q1 s1 = Some (None, q', s')"
proof (induction fs arbitrary: q s)
  case (Cons f fs)
  have "run_steps (f # (fs @ gs)) q s = Some (None, q', s')" using Cons.prems by simp
  then obtain q1 s1 where "f q s = Some (None, q1, s1)" "run_steps (fs @ gs) q1 s1 = Some (None, q', s')"
    by (rule run_steps_ConsE)
  then show ?case using Cons.IH by (simp add: run_steps_Cons)
qed (simp add: run_steps_Nil)


section \<open>Attributes are read back\<close>

definition encode_attr :: "u16 \<times> byte list \<Rightarrow> byte list" where
  "encode_attr a = put_le 2 (word_of_nat (4 + length (snd a)) :: u16) @ put_le 2 (fst a) @ snd a
     @ replicate (align4 (4 + length (snd a)) - (4 + length (snd a))) 0"

definition plain_attr :: "u16 \<times> byte list \<Rightarrow> bool" where
  "plain_attr a \<longleftrightarrow> fst a AND NLA_TYPE_MASK = fst a \<and> length (snd a) \<le> 1000"

lemma put_encodes: "wifi_put buffer capacity key data = Inr b \<Longrightarrow> b = buffer @ encode_attr (key, data)"
  by (auto simp: wifi_put_def encode_attr_def Let_def split: if_splits)

lemma length_encode_attr: "length (encode_attr a) = align4 (4 + length (snd a))"
  using align4_ge [of "4 + length (snd a)"] by (simp add: encode_attr_def)

lemma encoded_header:
  assumes "plain_attr a"
  shows "nla_len (encode_attr a @ rest) = 4 + length (snd a)" "nla_type (encode_attr a @ rest) = fst a"
    "take (length (snd a)) (drop 4 (encode_attr a @ rest)) = snd a"
    "drop (align4 (4 + length (snd a))) (encode_attr a @ rest) = rest"
proof -
  have "unat (word_of_nat (4 + length (snd a)) :: u16) = 4 + length (snd a)"
    using assms by (simp only: unat_of_nat take_bit_nat_eq_self plain_attr_def) (simp add: take_bit_nat_eq_self)
  then show "nla_len (encode_attr a @ rest) = 4 + length (snd a)"
    by (simp add: nla_len_def encode_attr_def get_le_put_le)
  show "nla_type (encode_attr a @ rest) = fst a"
    by (simp add: nla_type_def encode_attr_def get_le_put_le)
  show "take (length (snd a)) (drop 4 (encode_attr a @ rest)) = snd a" by (simp add: encode_attr_def)
  show "drop (align4 (4 + length (snd a))) (encode_attr a @ rest) = rest"
    by (simp add: length_encode_attr)
qed

lemma attribute_loop_encoded:
  assumes "plain_attr a"
  shows "attribute_loop (encode_attr a @ rest) key found =
    (if fst a = key then (if found \<noteq> None then Inl EPROTO
       else attribute_loop rest key (Some \<lparr>wv_data = snd a, wv_flags = 0\<rparr>))
     else attribute_loop rest key found)"
proof -
  have flags: "fst a AND NOT NLA_TYPE_MASK = 0"
  proof -
    have "fst a AND NOT NLA_TYPE_MASK = (fst a AND NLA_TYPE_MASK) AND NOT NLA_TYPE_MASK"
      using assms by (simp add: plain_attr_def)
    then show ?thesis by (simp add: and.assoc)
  qed
  define bs where "bs = encode_attr a @ rest"
  have len: "bs \<noteq> []" "\<not> length bs < 4" "\<not> length bs < 4 + length (snd a)" "\<not> length bs < align4 (4 + length (snd a))"
    using align4_ge [of "4 + length (snd a)"] length_encode_attr [of a] by (auto simp: bs_def)
  have h: "nla_len bs = 4 + length (snd a)" "nla_type bs = fst a" "take (length (snd a)) (drop 4 bs) = snd a"
      "drop (align4 (4 + length (snd a))) bs = rest"
    unfolding bs_def by (fact encoded_header [OF assms])+
  have mask: "fst a AND NLA_TYPE_MASK = fst a" using assms by (simp add: plain_attr_def)
  show ?thesis unfolding bs_def [symmetric]
    by (subst attribute_loop.simps) (simp only: h len mask flags if_False add_diff_cancel_left' less_irrefl
      not_less le_add1 if_cancel simp_thms disj_not1 cong: if_cong, insert flags, auto)
qed

lemma attributes_encoded:
  assumes "list_all plain_attr attrs" "distinct (map fst attrs)"
  shows "wifi_attribute (concat (map encode_attr attrs)) key =
    Inr (map_option (\<lambda>d. \<lparr>wv_data = d, wv_flags = 0\<rparr>) (map_of attrs key))"
proof -
  have "attribute_loop (concat (map encode_attr attrs)) key found =
      (case map_of attrs key of None \<Rightarrow> Inr found
       | Some d \<Rightarrow> if found \<noteq> None then Inl EPROTO else Inr (Some \<lparr>wv_data = d, wv_flags = 0\<rparr>))" for found
    using assms
  proof (induction attrs arbitrary: found)
    case Nil
    then show ?case by (simp add: attribute_loop.simps)
  next
    case (Cons a as)
    have "map_of as (fst a) = None" using Cons.prems by (simp add: map_of_eq_None_iff image_iff)
    then show ?case using Cons attribute_loop_encoded [of a] by (cases a) (auto split: option.splits)
  qed
  from this [of None] show ?thesis by (simp add: wifi_attribute_def split: option.splits)
qed

lemma put_all_encodes: "put_all as buf = Inr b \<Longrightarrow> b = buf @ concat (map encode_attr as)"
proof (induction as arbitrary: buf)
  case (Cons a as)
  obtain k d where a: "a = (k, d)" by (cases a)
  have stuck: "fold (\<lambda>(key, data) b. case b of Inl e \<Rightarrow> Inl e | Inr buf \<Rightarrow> wifi_put buf 128 key data) as (Inl e) = Inl e" for as e
    by (induction as) auto
  obtain c where c: "wifi_put buf 128 k d = Inr c"
    using Cons.prems stuck by (cases "wifi_put buf 128 k d") (auto simp: put_all_def a)
  then have "put_all as c = Inr b" using Cons.prems by (simp add: put_all_def a)
  then have "b = c @ concat (map encode_attr as)" by (rule Cons.IH)
  then show ?case by (simp add: put_encodes [OF c] a)
qed (simp add: put_all_def)

text \<open>
  C28. Attributes are read back: from the sequence \<open>wifi_put\<close> builds out of fields with
  distinct, unflagged keys, the validating parser reads for every key exactly the data put
  under it, and nothing for a key that was not put.
\<close>

theorem attributes_read_back:
  assumes "list_all plain_attr attrs" "distinct (map fst attrs)" "put_all attrs [] = Inr bytes"
  shows "wifi_attribute bytes key = Inr (map_option (\<lambda>d. \<lparr>wv_data = d, wv_flags = 0\<rparr>) (map_of attrs key))"
  using attributes_encoded [OF assms(1,2)] put_all_encodes [OF assms(3)] by simp

lemma attributes_read_back_witness:
  "wifi_attribute (concat (map encode_attr [(3, [2, 0, 0, 0]), (6, [2, 0, 0, 0, 0, 1])])) 6
     = Inr (Some \<lparr>wv_data = [2, 0, 0, 0, 0, 1], wv_flags = 0\<rparr>)"
proof -
  have "put_all [(3, [2, 0, 0, 0]), (6, [2, 0, 0, 0, 0, 1])] [] =
      Inr (concat (map encode_attr [(3, [2, 0, 0, 0]), (6, [2, 0, 0, 0, 0, 1])]))"
    by (simp add: put_all_def wifi_put_def encode_attr_def align4_def)
  from attributes_read_back [OF _ _ this, of 6] show ?thesis by (simp add: plain_attr_def)
qed

section \<open>A successful transaction\<close>

text \<open>A kernel that answers every request at once with one datagram of one message.\<close>

definition sample_message :: "u16 \<Rightarrow> u32 \<Rightarrow> byte list \<Rightarrow> byte list" where
  "sample_message type sequence payload = put_le 4 (word_of_nat (16 + length payload) :: u32) @ put_le 2 type
     @ put_le 2 (0 :: u16) @ put_le 4 sequence @ put_le 4 (0 :: u32) @ payload"

definition sample_datagram :: "byte list \<Rightarrow> datagram" where
  "sample_datagram d = \<lparr>dg_truncated = False, dg_named = True, dg_family = 16, dg_pid = 0, dg_data = d\<rparr>"

definition ready :: "(nat \<times> byte list) list \<Rightarrow> wifi_io \<Rightarrow> bool" where
  "ready ds s \<longleftrightarrow> wt_clock (wi_timer s) = replicate (2 * length ds) (Got 1) \<and> wt_polls (wi_timer s) = replicate (length ds) (Revents 1)
     \<and> wi_sends s = map (Got \<circ> fst) ds \<and> wi_recvs s = map (Got \<circ> sample_datagram \<circ> snd) ds"

lemma exchange_completes:
  assumes "length attributes \<le> 1004" "1 < wq_deadline q" "d \<noteq> []" "wq_received q + length d \<le> WIFI_MAX_BYTES"
    and r: "ready ((20 + length attributes, d) # ds) s"
    and m: "messages_loop handler family response dump d
      (q\<lparr>wq_sequence := wq_sequence q + 1, wq_received := wq_received q + length d\<rparr>) = Finished q'"
  shows "\<exists>s'. wifi_exchange family command response dump attributes handler q s = Some (None, q', s') \<and> ready ds s'"
proof -
  let ?q = "q\<lparr>wq_sequence := wq_sequence q + 1\<rparr>"
  let ?t = "(wi_timer s)\<lparr>wt_clock := replicate (1 + 2 * length ds) (Got 1)\<rparr>"
  let ?t' = "\<lparr>wt_clock = replicate (2 * length ds) (Got 1), wt_polls = replicate (length ds) (Revents 1),
      wt_asked = wt_asked (wi_timer s) @ [(wq_deadline q - 1 + 999999) div 1000000]\<rparr>"
  have len: "length (wifi_request family command dump (wq_sequence q + 1) attributes) = 20 + length attributes"
    by (simp add: wifi_request_def)
  have s: "send_loop (wq_deadline q) (20 + length attributes) (wi_sends s) (wi_timer s) = Some (None, map (Got \<circ> fst) ds, ?t)"
    using r assms(2) by (subst send_loop.simps) (simp add: ready_def)
  have w: "wifi_wait 1 (wq_deadline q) ?t = Some (None, ?t')"
    using r assms(2) by (simp add: wifi_wait_def ready_def)
  have "recv_loop handler family response dump (wi_recvs s) ?t ?q = Some (None, q', map (Got \<circ> sample_datagram \<circ> snd) ds, ?t')"
    using r assms(3,4) w m by (subst recv_loop.simps) (simp add: ready_def accept_datagram_def sample_datagram_def)
  then show ?thesis using assms(1) s len by (simp add: wifi_exchange_def Let_def ready_def)
qed

lemma message_fields:
  assumes "length p \<le> 60000"
  shows "reply_len (sample_message t n p) = 16 + length p" "reply_type (sample_message t n p) = t"
    "reply_flags (sample_message t n p) = 0" "reply_seq (sample_message t n p) = n"
    "reply_payload (sample_message t n p) = p"
proof -
  have "unat (word_of_nat (16 + length p) :: u32) = 16 + length p"
    using assms by (simp only: unat_of_nat) (simp add: take_bit_nat_eq_self)
  then show len: "reply_len (sample_message t n p) = 16 + length p"
    by (simp add: reply_len_def sample_message_def get_le_put_le)
  show "reply_type (sample_message t n p) = t" "reply_flags (sample_message t n p) = 0" "reply_seq (sample_message t n p) = n"
    by (simp_all add: reply_type_def reply_flags_def reply_seq_def sample_message_def get_le_put_le)
  show "reply_payload (sample_message t n p) = p" by (simp add: reply_payload_def len) (simp add: sample_message_def)
qed

lemma one_message:
  assumes "length p \<le> 60000" "length p mod 4 = 0" "wq_messages q < 1024" "wq_sequence q = n"
  shows "messages_loop handler family response dump (sample_message t n p) q =
    handle_reply handler family response dump (sample_message t n p) (q\<lparr>wq_messages := wq_messages q + 1\<rparr>)"
proof -
  have "align4 (16 + length p) = 16 + length p" using assms(2) unfolding align4_def by presburger
  moreover have "length (sample_message t n p) = 16 + length p" by (simp add: sample_message_def)
  ultimately show ?thesis using assms message_fields [OF assms(1), of t n]
    by (subst messages_loop.simps) (auto simp: Let_def messages_loop.simps [of _ _ _ _ "[]"] split: verdict.splits)
qed

lemma exchange_reply:
  assumes "length attributes \<le> 1004" "1 < wq_deadline q" "wq_received q + 16 + length p \<le> WIFI_MAX_BYTES" "wq_messages q < 1024"
    "length p \<le> 60000" "length p mod 4 = 0" "4 \<le> length p"
    and r: "ready ((20 + length attributes, sample_message t (wq_sequence q + 1) p) # ds) s"
    and h: "handle_reply handler family response dump (sample_message t (wq_sequence q + 1) p) (q\<lparr>wq_sequence := wq_sequence q + 1,
        wq_received := wq_received q + 16 + length p, wq_messages := wq_messages q + 1\<rparr>) = Finished q'"
  shows "\<exists>s'. wifi_exchange family command response dump attributes handler q s = Some (None, q', s') \<and> ready ds s'"
proof (rule exchange_completes [OF assms(1,2) _ _ r])
  have l: "length (sample_message t (wq_sequence q + 1) p) = 16 + length p" by (simp add: sample_message_def)
  then show "sample_message t (wq_sequence q + 1) p \<noteq> []" "wq_received q + length (sample_message t (wq_sequence q + 1) p) \<le> WIFI_MAX_BYTES"
    using assms(3) by auto
  show "messages_loop handler family response dump (sample_message t (wq_sequence q + 1) p)
      (q\<lparr>wq_sequence := wq_sequence q + 1, wq_received := wq_received q + length (sample_message t (wq_sequence q + 1) p)\<rparr>) = Finished q'"
    using h assms(4-6) l by (subst one_message) (simp_all add: add.assoc)
qed

definition sample_attrs :: "(u16 \<times> byte list) list" where
  "sample_attrs = [(3, [2, 0, 0, 0]), (4, bytes_of ''wlan0'' @ [0]), (153, [1, 0, 0, 0, 0, 0, 0, 0]),
     (1, [0, 0, 0, 0]), (5, [2, 0, 0, 0]), (6, [2, 0, 0, 0, 0, 1])]"

definition sample_interface :: "byte list" where
  "sample_interface = concat (map encode_attr sample_attrs)"

definition sample_replies :: "(nat \<times> byte list) list" where
  "sample_replies = [(32, sample_message 16 1 ([1, 1, 0, 0] @ concat (map encode_attr [(1, [20, 0]), (2, nl80211_name)]))),
     (28, sample_message 20 2 ([7, 1, 0, 0] @ sample_interface)), (28, sample_message 3 3 [0, 0, 0, 0]),
     (28, sample_message 20 4 ([7, 1, 0, 0] @ sample_interface)), (28, sample_message 3 5 [0, 0, 0, 0])]"

definition sample_io :: wifi_io where
  "sample_io = \<lparr>wi_sends = map (Got \<circ> fst) sample_replies, wi_recvs = map (Got \<circ> sample_datagram \<circ> snd) sample_replies,
     wi_timer = \<lparr>wt_clock = replicate 11 (Got 1), wt_polls = replicate 5 (Revents 1), wt_asked = []\<rparr>, wi_sent = []\<rparr>"

definition sample_query :: "u16 \<Rightarrow> u32 \<Rightarrow> nat \<Rightarrow> nat \<Rightarrow> wifi_result \<Rightarrow> wifi_query" where
  "sample_query family sequence received messages r = \<lparr>wq_family = family, wq_sequence = sequence, wq_ifindex = 2,
     wq_deadline = 500000001, wq_received = received, wq_messages = messages, wq_result = r\<rparr>"

lemma sample_attribute:
  "wifi_attribute sample_interface key = Inr (map_option (\<lambda>d. \<lparr>wv_data = d, wv_flags = 0\<rparr>) (map_of sample_attrs key))"
  unfolding sample_interface_def by (rule attributes_encoded) (simp_all add: sample_attrs_def plain_attr_def)

lemma sample_length: "length sample_interface = 60" "length (concat (map encode_attr [(1, [20, 0]), (2, nl80211_name)])) = 20"
  by (simp_all add: sample_interface_def sample_attrs_def length_encode_attr align4_def nl80211_name_def)

lemma sample_put: "put_all [(2, nl80211_name)] [] = Inr (encode_attr (2, nl80211_name))"
    "put_all [(3, put_le 4 (2 :: u32))] [] = Inr (encode_attr (3, put_le 4 (2 :: u32)))"
    "length (encode_attr (2, nl80211_name)) = 12" "length (encode_attr (3, put_le 4 (2 :: u32))) = 8"
  by (simp_all add: put_all_def wifi_put_def length_encode_attr align4_def nl80211_name_def)
    (simp_all add: encode_attr_def align4_def)

lemma sample_family:
  assumes "ready sample_replies s"
  shows "\<exists>s'. ask_family (sample_query 0 0 0 0 r) s = Some (None, sample_query 20 1 40 1 r, s') \<and> ready (tl sample_replies) s'"
proof -
  let ?p = "[1, 1, 0, 0] @ concat (map encode_attr [(1, [20, 0]), (2, nl80211_name)])"
  have a: "wifi_attribute (concat (map encode_attr [(1, [20, 0]), (2, nl80211_name)])) key =
      Inr (map_option (\<lambda>d. \<lparr>wv_data = d, wv_flags = 0\<rparr>) (map_of [(1, [20, 0]), (2, nl80211_name)] key))" for key
    by (rule attributes_encoded) (simp_all add: plain_attr_def nl80211_name_def)
  have "wifi_family q (concat (map encode_attr [(1, [20, 0]), (2, nl80211_name)])) = (None, q\<lparr>wq_family := 20\<rparr>)" for q
    unfolding wifi_family_def wifi_native_def wifi_field_def a by simp
  then have "handle_reply wifi_family 16 1 False (sample_message 16 1 ?p) q = Finished (q\<lparr>wq_family := 20\<rparr>)" for q
    using message_fields [of ?p 16 1] sample_length(2) unfolding handle_reply_def by simp
  then show ?thesis
    using exchange_reply [of "encode_attr (2, nl80211_name)" "sample_query 0 0 0 0 r" ?p 16 "tl sample_replies" s wifi_family 16 1 False
      "sample_query 20 1 40 1 r" 3] assms sample_length(2) sample_put
    by (simp add: ask_family_def wifi_ask_def sample_query_def sample_replies_def)
qed

lemma sample_ask_interface:
  assumes "ready ((28, sample_message 20 (n + 1) ([7, 1, 0, 0] @ sample_interface)) # ds) s" "received \<le> 1000" "m < 100"
  shows "\<exists>s'. ask_interface (sample_query 20 n received m r) s = Some (None, sample_query 20 (n + 1) (received + 80) (m + 1)
     (if wr_before r = [] then r\<lparr>wr_before := sample_interface\<rparr> else r\<lparr>wr_after := sample_interface\<rparr>), s') \<and> ready ds s'"
proof -
  let ?p = "[7, 1, 0, 0] @ sample_interface"
  let ?r = "if wr_before r = [] then r\<lparr>wr_before := sample_interface\<rparr> else r\<lparr>wr_after := sample_interface\<rparr>"
  let ?q = "sample_query 20 (n + 1) (received + 80) (m + 1)"
  have "wifi_interface (?q r) sample_interface = (None, ?q ?r)"
    by (simp add: wifi_interface_def own_interface_def wifi_u32_def sample_attribute sample_attrs_def sample_length sample_query_def)
  then have "handle_reply wifi_interface 20 7 False (sample_message 20 (n + 1) ?p) (?q r) = Finished (?q ?r)"
    using message_fields [of ?p 20 "n + 1"] sample_length(1) unfolding handle_reply_def by simp
  then show ?thesis
    using exchange_reply [of "encode_attr (3, put_le 4 (2 :: u32))" "sample_query 20 n received m r" ?p 20 ds s wifi_interface 20 7 False
      "?q ?r" 5] assms sample_length(1) sample_put
    by (simp add: ask_interface_def wifi_ask_def sample_query_def add.commute add.left_commute)
qed

lemma sample_ask_scan:
  assumes "ready ((28, sample_message 3 (n + 1) [0, 0, 0, 0]) # ds) s" "received \<le> 1000" "m < 100"
  shows "\<exists>s'. ask_scan (sample_query 20 n received m r) s = Some (None, sample_query 20 (n + 1) (received + 20) (m + 1) r, s')
     \<and> ready ds s'"
proof -
  let ?p = "[0, 0, 0, 0] :: byte list" let ?q = "sample_query 20 (n + 1) (received + 20) (m + 1)"
  have "handle_reply wifi_scan 20 34 True (sample_message 3 (n + 1) ?p) (?q r) = Finished (?q r)"
    using message_fields [of ?p 3 "n + 1"] unfolding handle_reply_def by (simp add: reply_error_def)
  then show ?thesis
    using exchange_reply [of "encode_attr (3, put_le 4 (2 :: u32))" "sample_query 20 n received m r" ?p 3 ds s wifi_scan 20 34 True
      "?q r" 32] assms sample_put
    by (simp add: ask_scan_def wifi_ask_def sample_query_def add.commute add.left_commute)
qed

lemma sample_same: "same_interface sample_interface sample_interface ''wlan0''"
  by (simp add: same_interface_def identity_keys_def wifi_native_def sample_attribute sample_attrs_def)

lemma wifi_sample_run:
  "\<exists>s'. wifi_read (Got ()) (Got ()) ''wlan0'' 2 sample_io =
     Some (Inr (empty_result\<lparr>wr_before := sample_interface, wr_after := sample_interface\<rparr>), s', [Opens ''netlink''])"
proof -
  let ?r0 = empty_result let ?r1 = "?r0\<lparr>wr_before := sample_interface\<rparr>" let ?r2 = "?r1\<lparr>wr_after := sample_interface\<rparr>"
  let ?s = "sample_io\<lparr>wi_timer := (wi_timer sample_io)\<lparr>wt_clock := replicate 10 (Got 1)\<rparr>\<rparr>"
  have ne: "sample_interface \<noteq> []" using sample_length(1) by auto
  have "ready sample_replies ?s" by (simp add: ready_def sample_io_def sample_replies_def numeral_eq_Suc)
  then obtain s1 where 1: "ask_family (sample_query 0 0 0 0 ?r0) ?s = Some (None, sample_query 20 1 40 1 ?r0, s1)" "ready (tl sample_replies) s1"
    using sample_family by blast
  obtain s2 where 2: "ask_interface (sample_query 20 1 40 1 ?r0) s1 = Some (None, sample_query 20 2 120 2 ?r1, s2)" "ready (drop 2 sample_replies) s2"
    using sample_ask_interface [of 1 "drop 2 sample_replies" s1 40 1 ?r0] 1(2) by (auto simp: sample_replies_def empty_result_def numeral_2_eq_2)
  have c: "check_first ''wlan0'' (sample_query 20 2 120 2 ?r1) s2 = Some (None, sample_query 20 2 120 2 ?r1, s2)"
    using sample_same by (simp add: check_first_def sample_query_def wifi_u32_def sample_attribute sample_attrs_def empty_result_def Let_def)
  obtain s3 where 3: "ask_scan (sample_query 20 2 120 2 ?r1) s2 = Some (None, sample_query 20 3 140 3 ?r1, s3)" "ready (drop 3 sample_replies) s3"
    using sample_ask_scan [of 2 "drop 3 sample_replies" s2 120 2 ?r1] 2(2) by (auto simp: sample_replies_def)
  have d: "ask_station (sample_query 20 3 140 3 ?r1) s3 = Some (None, sample_query 20 3 140 3 ?r1, s3)"
    by (simp add: ask_station_def sample_query_def empty_result_def)
  obtain s4 where 4: "ask_interface (sample_query 20 3 140 3 ?r1) s3 = Some (None, sample_query 20 4 220 4 ?r2, s4)" "ready (drop 4 sample_replies) s4"
    using sample_ask_interface [of 3 "drop 4 sample_replies" s3 140 3 ?r1] 3(2) ne by (auto simp: sample_replies_def)
  obtain s5 where 5: "ask_scan (sample_query 20 4 220 4 ?r2) s4 = Some (None, sample_query 20 5 240 5 ?r2, s5)"
    using sample_ask_scan [of 4 "[]" s4 220 4 ?r2] 4(2) by (auto simp: sample_replies_def)
  have "check_again ''wlan0'' (sample_query 20 4 220 4 ?r2) s4 = Some (None, sample_query 20 4 220 4 ?r2, s4)"
      "check_links (sample_query 20 5 240 5 ?r2) s5 = Some (None, sample_query 20 5 240 5 ?r2, s5)"
    using sample_same by (simp_all add: check_again_def check_links_def sample_query_def empty_result_def)
  then have run: "run_steps (wifi_steps ''wlan0'') (sample_query 0 0 0 0 ?r0) ?s = Some (None, sample_query 20 5 240 5 ?r2, s5)"
    using 1(1) 2(1) 3(1) 4(1) 5 c d by (simp add: wifi_steps_def run_steps_Cons run_steps_Nil)
  have "new_query 1 2 = sample_query 0 0 0 0 ?r0" by (simp add: new_query_def sample_query_def)
  moreover have "wt_clock (wi_timer sample_io) = Got 1 # replicate 10 (Got 1)" by (simp add: sample_io_def numeral_eq_Suc)
  ultimately show ?thesis using run by (simp add: wifi_read_def Let_def sample_query_def)
qed



end
