(* ===== verification/DrmMode.thy ===== *)
theory DrmMode imports LuaApi begin

text \<open>
  \<^verbatim>\<open>native/wtop_linux_drm.h\<close> and \<^verbatim>\<open>native/wtop_linux_drm_lua.h\<close>: the read-only query of
  the configured display mode. The display configuration may change between any two calls;
  the query reads the connector, the encoder and the controller twice.
\<close>

section \<open>The kernel's answers\<close>

record drm_mode =
  dm_clock :: u32
  dm_hdisplay :: u16
  dm_hsync_start :: u16
  dm_hsync_end :: u16
  dm_htotal :: u16
  dm_hskew :: u16
  dm_vdisplay :: u16
  dm_vsync_start :: u16
  dm_vsync_end :: u16
  dm_vtotal :: u16
  dm_vscan :: u16
  dm_vrefresh :: u32
  dm_flags :: u32
  dm_type :: u32
  dm_name :: "byte list"

record drm_crtc =
  dc_crtc_id :: u32
  dc_fb_id :: u32
  dc_mode_valid :: u32
  dc_mode :: drm_mode

record drm_encoder =
  de_encoder_id :: u32
  de_encoder_type :: u32
  de_crtc_id :: u32

record drm_connector =
  dn_encoder_id :: u32
  dn_connector_id :: u32
  dn_connector_type :: u32
  dn_connector_type_id :: u32
  dn_connection :: u32

text \<open>
  A file's status, and the answers of the calls at each moment: the status of the open
  descriptor, the status behind the path, and the three requests, each with what the caller
  put into the argument. The number of modes asked for matters: zero forces a probe.
\<close>

record file_status =
  fs_char :: bool
  fs_dev :: nat
  fs_ino :: nat
  fs_major :: nat
  fs_minor :: nat

record drm_kernel =
  dk_open :: "unit answer"
  dk_fstat :: "nat \<Rightarrow> file_status answer"
  dk_lstat :: "string \<Rightarrow> file_status answer"
  dk_connector :: "nat \<Rightarrow> u32 \<Rightarrow> nat \<Rightarrow> drm_connector answer"
  dk_encoder :: "nat \<Rightarrow> u32 \<Rightarrow> drm_encoder answer"
  dk_crtc :: "nat \<Rightarrow> u32 \<Rightarrow> drm_crtc answer"
  dk_clock :: "(int \<times> int) option"

datatype drm_request = Get_connector u32 nat | Get_encoder u32 | Get_crtc u32

section \<open>Reading the mode\<close>

text \<open>Each step gives the requests it made and its value or its error number.\<close>

type_synonym 'a drm = "drm_request list \<times> (errno + 'a)"

definition drm_bind :: "'a drm \<Rightarrow> ('a \<Rightarrow> 'b drm) \<Rightarrow> 'b drm" where
  "drm_bind m f = (case m of (rs, Inl e) \<Rightarrow> (rs, Inl e) | (rs, Inr v) \<Rightarrow> (case f v of (qs, r) \<Rightarrow> (rs @ qs, r)))"

definition drm_check :: "bool \<Rightarrow> errno \<Rightarrow> unit drm" where
  "drm_check ok e = ([], if ok then Inr () else Inl e)"

definition drm_call :: "drm_request list \<Rightarrow> 'a answer \<Rightarrow> 'a drm" where
  "drm_call rs a = (rs, case a of Got v \<Rightarrow> Inr v | Failed e \<Rightarrow> Inl e)"

definition drm_connector_read :: "drm_kernel \<Rightarrow> nat \<Rightarrow> u32 \<Rightarrow> drm_connector drm" where
  "drm_connector_read k t ident =
     drm_bind (drm_call [Get_connector ident 1] (dk_connector k t ident 1)) (\<lambda>v.
     drm_bind (drm_check (dn_connector_id v = ident \<and> 1 \<le> dn_connection v \<and> dn_connection v \<le> 3) ESTALE) (\<lambda>_.
     ([], Inr v)))"

definition drm_connector_equal :: "drm_connector \<Rightarrow> drm_connector \<Rightarrow> bool" where
  "drm_connector_equal a b \<longleftrightarrow> dn_connector_id a = dn_connector_id b \<and> dn_encoder_id a = dn_encoder_id b
     \<and> dn_connector_type a = dn_connector_type b \<and> dn_connector_type_id a = dn_connector_type_id b
     \<and> dn_connection a = dn_connection b"

definition drm_device :: "drm_kernel \<Rightarrow> nat \<Rightarrow> nat \<Rightarrow> nat \<Rightarrow> unit drm" where
  "drm_device k t device_major device_minor =
     drm_bind (drm_call [] (dk_fstat k t)) (\<lambda>v.
     drm_check (fs_char v \<and> fs_major v = device_major \<and> fs_minor v = device_minor \<and> device_major = 226) ESTALE)"

text \<open>The controller of an encoder, read twice; the framebuffer may differ.\<close>

definition drm_crtc_read :: "drm_kernel \<Rightarrow> u32 \<Rightarrow> drm_mode option drm" where
  "drm_crtc_read k ident =
     (if ident = 0 then ([], Inr None)
      else drm_bind (drm_call [Get_crtc ident] (dk_crtc k 4 ident)) (\<lambda>crtc.
      drm_bind (drm_call [Get_crtc ident] (dk_crtc k 5 ident)) (\<lambda>crtc_after.
      drm_bind (drm_check (dc_crtc_id crtc = ident \<and> dc_crtc_id crtc_after = dc_crtc_id crtc
        \<and> dc_mode_valid crtc \<le> 1 \<and> dc_mode_valid crtc = dc_mode_valid crtc_after
        \<and> dc_mode crtc = dc_mode crtc_after) ESTALE) (\<lambda>_.
      ([], Inr (if dc_mode_valid crtc \<noteq> 0 then Some (dc_mode crtc) else None))))))"

definition drm_encoder_read :: "drm_kernel \<Rightarrow> u32 \<Rightarrow> drm_mode option drm" where
  "drm_encoder_read k ident =
     (if ident = 0 then ([], Inr None)
      else drm_bind (drm_call [Get_encoder ident] (dk_encoder k 3 ident)) (\<lambda>encoder.
      drm_bind (drm_check (de_encoder_id encoder = ident) ESTALE) (\<lambda>_.
      drm_bind (drm_crtc_read k (de_crtc_id encoder)) (\<lambda>mode.
      drm_bind (drm_call [Get_encoder ident] (dk_encoder k 6 ident)) (\<lambda>encoder_after.
      drm_bind (drm_check (de_encoder_id encoder = de_encoder_id encoder_after
        \<and> de_crtc_id encoder = de_crtc_id encoder_after
        \<and> de_encoder_type encoder = de_encoder_type encoder_after) ESTALE) (\<lambda>_.
      ([], Inr mode)))))))"

definition drm_mode_read :: "drm_kernel \<Rightarrow> nat \<Rightarrow> nat \<Rightarrow> u32 \<Rightarrow> drm_mode option drm" where
  "drm_mode_read k device_major device_minor connector =
     drm_bind (drm_check (connector \<noteq> 0) EINVAL) (\<lambda>_.
     drm_bind (drm_device k 1 device_major device_minor) (\<lambda>_.
     drm_bind (drm_connector_read k 2 connector) (\<lambda>before.
     drm_bind (drm_encoder_read k (dn_encoder_id before)) (\<lambda>mode.
     drm_bind (drm_connector_read k 7 connector) (\<lambda>after.
     drm_bind (drm_check (drm_connector_equal before after) ESTALE) (\<lambda>_.
     drm_bind (drm_device k 8 device_major device_minor) (\<lambda>_.
     ([], Inr mode))))))))"

section \<open>The operation of the module\<close>

text \<open>The name must be the canonical one of the card.\<close>

definition drm_card :: "string \<Rightarrow> int \<Rightarrow> (lua_return + nat)" where
  "drm_card name device_minor =
     (if name = [] \<or> NUL \<in> set name then Inl (Bad_argument 1 ''invalid card name'')
      else if \<not> (length name \<le> 20 \<and> take 4 name = ''card'' \<and> length name > 4 \<and> is_digit (name ! 4))
      then Inl (Bad_argument 1 ''expected a DRM card name'')
      else case strtoull (drop 4 name) of (index, rest, overflow) \<Rightarrow>
        if overflow \<or> rest \<noteq> [] \<or> 1048575 < index then Inl (Bad_argument 1 ''invalid DRM card name'')
        else if name \<noteq> ''card'' @ decimal (unat index) then Inl (Bad_argument 1 ''expected a canonical DRM card name'')
        else Inr (unat index))"

definition drm_arguments :: "string \<Rightarrow> int \<Rightarrow> int \<Rightarrow> int \<Rightarrow> (lua_return + nat)" where
  "drm_arguments name device_major device_minor connector =
     (case drm_card name device_minor of Inl b \<Rightarrow> Inl b
      | Inr index \<Rightarrow>
         if device_major \<noteq> 226 then Inl (Bad_argument 2 ''expected DRM device major'')
         else if \<not> (0 \<le> device_minor \<and> device_minor \<le> 1048575 \<and> device_minor = int index)
         then Inl (Bad_argument 3 ''DRM card minor does not match its name'')
         else if \<not> (0 < connector \<and> connector \<le> 4294967295) then Inl (Bad_argument 4 ''invalid DRM connector ID'')
         else Inr index)"

text \<open>The path must still name the same device afterwards.\<close>

definition same_device :: "file_status \<Rightarrow> file_status answer \<Rightarrow> bool" where
  "same_device before after = (case after of Failed _ \<Rightarrow> False
     | Got a \<Rightarrow> fs_char a \<and> fs_dev before = fs_dev a \<and> fs_ino before = fs_ino a
         \<and> fs_major before = fs_major a \<and> fs_minor before = fs_minor a)"

definition drm_query :: "drm_kernel \<Rightarrow> nat \<Rightarrow> u32 \<Rightarrow> drm_mode option drm \<times> fd_event list" where
  "drm_query k index connector =
     (let path = ''/dev/dri/card'' @ decimal index in
      case dk_open k of Failed e \<Rightarrow> (([], Inl e), [])
      | Got _ \<Rightarrow> (case dk_fstat k 0 of Failed e \<Rightarrow> ([], Inl e)
          | Got before \<Rightarrow> (case drm_mode_read k 226 index connector of (rs, r) \<Rightarrow>
              (rs, case r of Inl e \<Rightarrow> Inl e
                 | Inr mode \<Rightarrow> if same_device before (dk_lstat k path) then Inr mode else Inl ESTALE)),
          [Opens path, Closes path]))"

definition drm_status :: "(errno + drm_mode option) \<Rightarrow> string" where
  "drm_status r = (case r of Inr (Some _) \<Rightarrow> ''ok'' | Inr None \<Rightarrow> ''unavailable''
     | Inl e \<Rightarrow> if e = ESTALE then ''gap'' else if e = EACCES \<or> e = EPERM then ''denied''
         else if e = ENOENT \<or> e = 19 \<or> e = 6 \<or> e = ENOTTY \<or> e = EOPNOTSUPP then ''unavailable'' else ''error'')"

definition drm_mode_table :: "drm_mode \<Rightarrow> lua" where
  "drm_mode_table m = mk_tab [(''pixel_width'', LInt (uint (dm_hdisplay m))), (''pixel_height'', LInt (uint (dm_vdisplay m))),
     (''pixel_clock_hz'', LInt (uint (dm_clock m) * 1000)), (''horizontal_total'', LInt (uint (dm_htotal m))),
     (''vertical_total'', LInt (uint (dm_vtotal m))), (''vscan'', LInt (uint (dm_vscan m))),
     (''flags'', LInt (uint (dm_flags m))), (''approx_refresh_hz'', LInt (uint (dm_vrefresh m)))]"

definition drm_observed :: "(int \<times> int) option \<Rightarrow> int" where
  "drm_observed clock = (case clock of None \<Rightarrow> 0
     | Some (s, ns) \<Rightarrow> sint (word_of_int s * 1000000000 + word_of_int ns :: u64))"

definition drm_table :: "int \<Rightarrow> int \<Rightarrow> int \<Rightarrow> (errno + drm_mode option) \<Rightarrow> lua" where
  "drm_table observed device_minor connector r = mk_tab (
     [(''status'', LStr (drm_status r)), (''backend'', LStr ''drm-kms''), (''observed_at_ns'', LInt observed),
      (''device_major'', LInt 226), (''device_minor'', LInt device_minor), (''connector_id'', LInt connector)]
     @ (case r of Inl e \<Rightarrow> if e \<noteq> 0 then [(''errno'', LInt e)] else []
        | Inr None \<Rightarrow> [(''configured'', LBool False)]
        | Inr (Some m) \<Rightarrow> [(''configured'', LBool True), (''mode'', drm_mode_table m)]))"

definition read_drm_mode :: "drm_kernel \<Rightarrow> string \<Rightarrow> int \<Rightarrow> int \<Rightarrow> int
    \<Rightarrow> lua_return \<times> drm_request list \<times> fd_event list" where
  "read_drm_mode k name device_major device_minor connector =
     (case drm_arguments name device_major device_minor connector of Inl b \<Rightarrow> (b, [], [])
      | Inr index \<Rightarrow> (case drm_query k index (word_of_int connector) of ((rs, r), es) \<Rightarrow>
          (Returns [drm_table (drm_observed (dk_clock k)) device_minor connector r], rs, es)))"

section \<open>A reported mode held still\<close>

lemma drm_bind_Inr:
  "drm_bind m f = (rs, Inr w) \<longleftrightarrow> (\<exists>ps v qs. m = (ps, Inr v) \<and> f v = (qs, Inr w) \<and> rs = ps @ qs)"
  by (auto simp: drm_bind_def split: prod.splits sum.splits)

lemma drm_check_Inr: "drm_check ok e = (rs, Inr u) \<longleftrightarrow> ok \<and> rs = []"
  by (auto simp: drm_check_def)

lemma drm_call_Inr: "drm_call rs a = (qs, Inr v) \<longleftrightarrow> a = Got v \<and> qs = rs"
  by (auto simp: drm_call_def split: answer.splits)

lemmas drm_Inr = drm_bind_Inr drm_check_Inr drm_call_Inr

lemma connector_read_Inr:
  "drm_connector_read k t ident = (rs, Inr c) \<Longrightarrow> dk_connector k t ident 1 = Got c \<and> dn_connector_id c = ident"
  by (auto simp: drm_connector_read_def drm_Inr)

lemma crtc_read_Inr:
  assumes "drm_crtc_read k ident = (rs, Inr (Some mode))"
  shows "\<exists>c d. dk_crtc k 4 ident = Got c \<and> dk_crtc k 5 ident = Got d \<and> dc_mode c = mode \<and> dc_mode d = mode
    \<and> dc_crtc_id c = ident \<and> dc_mode_valid c = 1 \<and> dc_mode_valid d = 1"
proof -
  have one: "w \<le> 1 \<Longrightarrow> w \<noteq> 0 \<Longrightarrow> w = 1" for w :: u32
    by (simp add: word_le_nat_alt word_unat_eq_iff)
  have i: "ident \<noteq> 0" using assms by (auto simp: drm_crtc_read_def)
  have "\<exists>c d. dk_crtc k 4 ident = Got c \<and> dk_crtc k 5 ident = Got d \<and> dc_crtc_id c = ident \<and> dc_mode_valid c \<le> 1
      \<and> dc_mode_valid c = dc_mode_valid d \<and> dc_mode c = dc_mode d
      \<and> (if dc_mode_valid c \<noteq> 0 then Some (dc_mode c) else None) = Some mode"
    using assms unfolding drm_crtc_read_def drm_Inr if_not_P [OF i] prod.inject sum.inject by metis
  then show ?thesis using one by (metis option.distinct(1) option.inject)
qed

lemma encoder_read_Inr:
  assumes "drm_encoder_read k ident = (rs, Inr (Some mode))"
  shows "\<exists>e f qs. dk_encoder k 3 ident = Got e \<and> dk_encoder k 6 ident = Got f \<and> de_crtc_id e = de_crtc_id f
    \<and> de_encoder_type e = de_encoder_type f \<and> drm_crtc_read k (de_crtc_id e) = (qs, Inr (Some mode))"
proof (cases "ident = 0")
  case False
  obtain e f qs where "dk_encoder k 3 ident = Got e" "drm_crtc_read k (de_crtc_id e) = (qs, Inr (Some mode))"
      "dk_encoder k 6 ident = Got f" "de_crtc_id e = de_crtc_id f" "de_encoder_type e = de_encoder_type f"
    using assms False unfolding drm_encoder_read_def drm_Inr if_not_P [OF False] by blast
  then show ?thesis by blast
qed (use assms in \<open>simp add: drm_encoder_read_def\<close>)

text \<open>A connector is never asked for zero modes, which could force a probe.\<close>

definition cached :: "drm_request \<Rightarrow> bool" where
  "cached r = (case r of Get_connector _ n \<Rightarrow> n \<noteq> 0 | _ \<Rightarrow> True)"

lemma bind_cached: "list_all cached (fst m) \<Longrightarrow> (\<And>v. list_all cached (fst (f v))) \<Longrightarrow> list_all cached (fst (drm_bind m f))"
  by (cases m; cases "snd m") (auto simp: drm_bind_def split: prod.splits, metis fst_conv)

lemma leaf_cached: "list_all cached (fst (drm_check ok e))" "list_all cached (fst (drm_call [] a))"
    "list_all cached (fst (drm_call [Get_encoder i] b))" "list_all cached (fst (drm_call [Get_crtc i] c))"
    "list_all cached (fst ([], r))"
  by (simp_all add: drm_check_def drm_call_def cached_def)

lemma connector_read_cached: "list_all cached (fst (drm_connector_read k t ident))"
  unfolding drm_connector_read_def by (intro bind_cached leaf_cached) (simp add: drm_call_def cached_def)

lemma device_cached: "list_all cached (fst (drm_device k t ma mi))"
  unfolding drm_device_def by (intro bind_cached leaf_cached)

lemma crtc_read_cached: "list_all cached (fst (drm_crtc_read k ident))"
  unfolding drm_crtc_read_def by (cases "ident = 0") (simp, simp only: if_False, intro bind_cached leaf_cached)

lemma encoder_read_cached: "list_all cached (fst (drm_encoder_read k ident))"
  unfolding drm_encoder_read_def
  by (cases "ident = 0") (simp, simp only: if_False, intro bind_cached leaf_cached crtc_read_cached)

lemma mode_read_cached: "list_all cached (fst (drm_mode_read k ma mi c))"
  unfolding drm_mode_read_def
  by (intro bind_cached leaf_cached device_cached connector_read_cached encoder_read_cached)

text \<open>What it means that a mode was configured during the whole query.\<close>

definition configured_still :: "drm_kernel \<Rightarrow> u32 \<Rightarrow> drm_mode \<Rightarrow> bool" where
  "configured_still k connector mode \<longleftrightarrow>
     (\<exists>n m e f c d. dk_connector k 2 connector 1 = Got n \<and> dk_connector k 7 connector 1 = Got m \<and> drm_connector_equal n m
        \<and> dk_encoder k 3 (dn_encoder_id n) = Got e \<and> dk_encoder k 6 (dn_encoder_id m) = Got f \<and> de_crtc_id e = de_crtc_id f
        \<and> dk_crtc k 4 (de_crtc_id e) = Got c \<and> dk_crtc k 5 (de_crtc_id e) = Got d
        \<and> dc_mode_valid c = 1 \<and> dc_mode_valid d = 1 \<and> dc_mode c = mode \<and> dc_mode d = mode)"

lemma encoder_zero: "drm_encoder_read k 0 = (rs, Inr (Some mode)) \<Longrightarrow> False"
  by (simp add: drm_encoder_read_def)


text \<open>A kernel whose configuration does not change.\<close>

definition sample_mode :: drm_mode where
  "sample_mode = \<lparr>dm_clock = 148500, dm_hdisplay = 1920, dm_hsync_start = 2008, dm_hsync_end = 2052, dm_htotal = 2200,
     dm_hskew = 0, dm_vdisplay = 1080, dm_vsync_start = 1084, dm_vsync_end = 1089, dm_vtotal = 1125, dm_vscan = 0,
     dm_vrefresh = 60, dm_flags = 5, dm_type = 72, dm_name = replicate 32 0\<rparr>"

definition sample_kernel :: drm_kernel where
  "sample_kernel = (let st = \<lparr>fs_char = True, fs_dev = 5, fs_ino = 9, fs_major = 226, fs_minor = 0\<rparr> in
     \<lparr>dk_open = Got (), dk_fstat = (\<lambda>_. Got st), dk_lstat = (\<lambda>_. Got st),
      dk_connector = (\<lambda>_ i _. Got \<lparr>dn_encoder_id = 7, dn_connector_id = i, dn_connector_type = 11, dn_connector_type_id = 1,
        dn_connection = 1\<rparr>),
      dk_encoder = (\<lambda>_ i. Got \<lparr>de_encoder_id = i, de_encoder_type = 2, de_crtc_id = 8\<rparr>),
      dk_crtc = (\<lambda>t i. Got \<lparr>dc_crtc_id = i, dc_fb_id = word_of_nat t, dc_mode_valid = 1, dc_mode = sample_mode\<rparr>),
      dk_clock = Some (1, 2)\<rparr>)"


end
