(* ===== verification/UsbInterface.thy ===== *)
theory UsbInterface imports LuaApi "HOL-Library.Multiset" "HOL-Library.List_Lexorder" "HOL-Library.Char_ord" begin

text \<open>
  \<^verbatim>\<open>native/wtop_linux_usb.h\<close>: the snapshot of a USB interface from its cached attributes
  in sysfs. Every attribute is read twice and the directory is scanned twice; the snapshot
  is given only if nothing changed in between.
\<close>

section \<open>One attribute file\<close>

record usb_stat =
  us_dir :: bool
  us_reg :: bool
  us_dev :: nat
  us_ino :: nat

definition usb_same :: "usb_stat \<Rightarrow> usb_stat \<Rightarrow> bool" where
  "usb_same a b \<longleftrightarrow> us_dir b \<and> us_dev a = us_dev b \<and> us_ino a = us_ino b"

record usb_file =
  uf_before :: "usb_stat answer"
  uf_open :: "unit answer"
  uf_opened :: "usb_stat answer"
  uf_reads :: "nat answer list"
  uf_content :: string
  uf_close :: "unit answer"

text \<open>The loop gives up at the seventeenth interruption.\<close>

fun usb_read_loop :: "nat answer list \<Rightarrow> string \<Rightarrow> nat \<Rightarrow> nat \<Rightarrow> (errno + string) option" where
  "usb_read_loop ans content interrupts 0 = Some (Inr [])"
| "usb_read_loop [] content interrupts (Suc k) = None"
| "usb_read_loop (Failed e # ans) content interrupts (Suc k) =
     (if e \<noteq> EINTR \<or> 16 < interrupts + 1 then Some (Inl e) else usb_read_loop ans content (interrupts + 1) (Suc k))"
| "usb_read_loop (Got c # ans) content interrupts (Suc k) =
     (let n = moved c (Suc k) content in
      if n = 0 then Some (Inr [])
      else map_option (map_sum id ((@) (take n content))) (usb_read_loop ans (drop n content) interrupts (Suc k - n)))"

type_synonym usb_value = "errno + string"

definition usb_close :: "unit answer \<Rightarrow> usb_value \<Rightarrow> usb_value" where
  "usb_close closed v = (case (closed, v) of (Failed e, Inr _) \<Rightarrow> Inl e | _ \<Rightarrow> v)"

definition usb_read :: "nat \<Rightarrow> usb_file \<Rightarrow> (usb_value \<times> fd_event list) option" where
  "usb_read capacity f =
     (case uf_before f of Failed e \<Rightarrow> Some (Inl e, [])
      | Got before \<Rightarrow>
         if \<not> us_reg before then Some (Inl EINVAL, [])
         else (case uf_open f of Failed e \<Rightarrow> Some (Inl e, [])
         | Got _ \<Rightarrow>
            map_option (\<lambda>v. (usb_close (uf_close f) v, [Opens ''attribute'', Closes ''attribute'']))
              (case uf_opened f of Failed e \<Rightarrow> Some (Inl e)
               | Got opened \<Rightarrow>
                  if \<not> us_reg opened \<or> us_dev before \<noteq> us_dev opened \<or> us_ino before \<noteq> us_ino opened then Some (Inl ESTALE)
                  else map_option (\<lambda>r. case r of Inl e \<Rightarrow> Inl e
                      | Inr data \<Rightarrow> if capacity < length data then Inl EFBIG else Inr data)
                    (usb_read_loop (uf_reads f) (uf_content f) 0 (capacity + 1)))))"

definition usb_attribute :: "usb_file \<Rightarrow> (usb_value \<times> fd_event list) option" where
  "usb_attribute f = usb_read 32 f"

definition usb_interface_files :: "string list" where
  "usb_interface_files = [''bInterfaceNumber'', ''bAlternateSetting'', ''bNumEndpoints'',
     ''bInterfaceClass'', ''bInterfaceSubClass'', ''bInterfaceProtocol'']"

definition usb_endpoint_files :: "string list" where
  "usb_endpoint_files = [''bLength'', ''bEndpointAddress'', ''bmAttributes'', ''wMaxPacketSize'', ''bInterval'', ''interval'']"

text \<open>The first reading of several attributes, and the second, which stops at a difference.\<close>

fun usb_attributes :: "(string \<Rightarrow> usb_file) \<Rightarrow> string list \<Rightarrow> (usb_value list \<times> fd_event list) option" where
  "usb_attributes files [] = Some ([], [])"
| "usb_attributes files (n # ns) =
     (case usb_attribute (files n) of None \<Rightarrow> None
      | Some (v, es) \<Rightarrow> map_option (\<lambda>(vs, fs). (v # vs, es @ fs)) (usb_attributes files ns))"

fun usb_compare :: "(string \<Rightarrow> usb_file) \<Rightarrow> string list \<Rightarrow> usb_value list \<Rightarrow> (bool \<times> fd_event list) option" where
  "usb_compare files (n # ns) (w # ws) =
     (case usb_attribute (files n) of None \<Rightarrow> None
      | Some (v, es) \<Rightarrow> if w \<noteq> v then Some (False, es)
          else map_option (\<lambda>(ok, fs). (ok, es @ fs)) (usb_compare files ns ws))"
| "usb_compare files _ _ = Some (True, [])"

section \<open>The endpoints of the directory\<close>

definition usb_hex :: "char \<Rightarrow> nat option" where
  "usb_hex c = (if code CHR ''0'' \<le> code c \<and> code c \<le> code CHR ''9'' then Some (code c - code CHR ''0'')
     else if code CHR ''a'' \<le> code c \<and> code c \<le> code CHR ''f'' then Some (code c - code CHR ''a'' + 10) else None)"

definition usb_name :: "string \<Rightarrow> bool" where
  "usb_name name = (if length name \<noteq> 5 \<or> take 3 name \<noteq> ''ep_'' then False
     else case (usb_hex (name ! 3), usb_hex (name ! 4)) of
       (Some a, Some b) \<Rightarrow> (a * 16 + b) AND 0x70 = 0 \<and> (a * 16 + b) AND 15 \<noteq> 0
     | _ \<Rightarrow> False)"

record usb_roster =
  ur_names :: "string list"
  ur_truncated :: bool
  ur_malformed :: bool

text \<open>A directory: the entries \<open>readdir\<close> gives (or an error) until its end.\<close>

record usb_dir =
  ud_open :: "unit answer"
  ud_stream :: "unit answer"
  ud_entries :: "string answer list"
  ud_close :: "unit answer"

fun scan_loop :: "string answer list \<Rightarrow> nat \<Rightarrow> usb_roster \<Rightarrow> errno option \<times> usb_roster" where
  "scan_loop [] scanned r = (None, r)"
| "scan_loop (Failed e # es) scanned r = (Some e, r)"
| "scan_loop (Got name # es) scanned r =
     (if name = ''.'' \<or> name = ''..'' then scan_loop es scanned r
      else if 128 < scanned + 1 then (None, r\<lparr>ur_truncated := True\<rparr>)
      else if take 3 name \<noteq> ''ep_'' then scan_loop es (scanned + 1) r
      else if \<not> usb_name name then scan_loop es (scanned + 1) (r\<lparr>ur_malformed := True\<rparr>)
      else if length (ur_names r) = 30 then (None, r\<lparr>ur_truncated := True\<rparr>)
      else scan_loop es (scanned + 1) (r\<lparr>ur_names := ur_names r @ [name]\<rparr>))"

definition usb_scan :: "usb_dir \<Rightarrow> (errno + usb_roster) \<times> fd_event list" where
  "usb_scan d =
     (case ud_open d of Failed e \<Rightarrow> (Inl e, [])
      | Got _ \<Rightarrow> (case ud_stream d of Failed e \<Rightarrow> (Inl e, [Opens ''scan'', Closes ''scan''])
         | Got _ \<Rightarrow> (case scan_loop (ud_entries d) 0 \<lparr>ur_names = [], ur_truncated = False, ur_malformed = False\<rparr> of
             (error, r) \<Rightarrow>
               (case (error, ud_close d) of (Some e, _) \<Rightarrow> Inl e | (None, Failed e) \<Rightarrow> Inl e
                | (None, Got _) \<Rightarrow> Inr (r\<lparr>ur_names := sort (ur_names r)\<rparr>), [Opens ''scan'', Closes ''scan'']))))"

section \<open>The snapshot\<close>

record usb_node =
  un_identity :: "usb_stat answer"
  un_open :: "unit answer"
  un_opened :: "usb_stat answer"
  un_again :: "usb_stat answer"
  un_files :: "nat \<Rightarrow> string \<Rightarrow> usb_file"

record usb_env =
  ux_open :: "unit answer"
  ux_identity :: "usb_stat answer"
  ux_files :: "nat \<Rightarrow> string \<Rightarrow> usb_file"
  ux_target :: "string option"
  ux_driver :: "string option"
  ux_scan :: "nat \<Rightarrow> usb_dir"
  ux_node :: "string \<Rightarrow> usb_node"
  ux_final :: "usb_stat answer"

record usb_endpoint =
  up_name :: string
  up_known :: bool
  up_error :: "errno option"
  up_values :: "usb_value list"
  up_held :: bool

text \<open>The identity of an endpoint directory, its error and whether its descriptor is held.\<close>

definition usb_endpoint_open :: "usb_node \<Rightarrow> bool \<times> errno option \<times> bool" where
  "usb_endpoint_open n =
     (case un_identity n of Failed e \<Rightarrow> (False, Some e, False)
      | Got i \<Rightarrow>
         if \<not> us_dir i then (False, Some EINVAL, False)
         else (case un_open n of Failed e \<Rightarrow> (True, Some e, False)
         | Got _ \<Rightarrow> (case un_opened n of Failed e \<Rightarrow> (True, Some e, True)
            | Got c \<Rightarrow> (True, if usb_same i c then None else Some ESTALE, True))))"

definition opened_event :: "string \<Rightarrow> bool \<Rightarrow> fd_event list" where
  "opened_event name h = (if h then [Opens name] else [])"

fun usb_first_pass :: "(string \<Rightarrow> usb_node) \<Rightarrow> string list \<Rightarrow> (errno option \<times> usb_endpoint list \<times> fd_event list) option" where
  "usb_first_pass node [] = Some (None, [], [])"
| "usb_first_pass node (name # ns) =
     (case usb_endpoint_open (node name) of (known, error, h) \<Rightarrow>
        let ep = \<lparr>up_name = name, up_known = known, up_error = error, up_values = [], up_held = h\<rparr> in
        if error = Some ENOENT \<or> error = Some ESTALE then Some (Some ESTALE, [ep], opened_event name h)
        else case (case error of Some e \<Rightarrow> Some (replicate 6 (Inl e), [])
                   | None \<Rightarrow> usb_attributes (un_files (node name) 1) usb_endpoint_files) of None \<Rightarrow> None
        | Some (vs, es) \<Rightarrow>
            map_option (\<lambda>(e, eps, fs). (e, ep\<lparr>up_values := vs\<rparr> # eps, opened_event name h @ es @ fs)) (usb_first_pass node ns))"

definition usb_unchanged :: "usb_node \<Rightarrow> bool" where
  "usb_unchanged n = (case (un_identity n, un_again n) of (Got i, Got c) \<Rightarrow> usb_same i c | _ \<Rightarrow> False)"

fun usb_second_pass :: "(string \<Rightarrow> usb_node) \<Rightarrow> usb_endpoint list \<Rightarrow> (bool \<times> fd_event list) option" where
  "usb_second_pass node [] = Some (True, [])"
| "usb_second_pass node (ep # eps) =
     (if up_known ep \<and> \<not> usb_unchanged (node (up_name ep)) then Some (False, [])
      else if up_error ep \<noteq> None then usb_second_pass node eps
      else case usb_compare (un_files (node (up_name ep)) 2) usb_endpoint_files (up_values ep) of None \<Rightarrow> None
      | Some (False, es) \<Rightarrow> Some (False, es)
      | Some (True, es) \<Rightarrow> map_option (\<lambda>(ok, fs). (ok, es @ fs)) (usb_second_pass node eps))"

record usb_snapshot =
  uk_fields :: "usb_value list"
  uk_text :: usb_value
  uk_roster :: usb_roster
  uk_endpoints :: "usb_endpoint list"

definition close_all :: "usb_endpoint list \<Rightarrow> fd_event list" where
  "close_all eps = concat (map (\<lambda>ep. if up_held ep then [Closes (up_name ep)] else []) eps)"

definition usb_recheck :: "usb_env \<Rightarrow> usb_stat \<Rightarrow> usb_value list \<Rightarrow> usb_roster \<Rightarrow> usb_endpoint list
    \<Rightarrow> (errno option \<times> fd_event list) option" where
  "usb_recheck x identity attrs roster eps =
     (case usb_scan (ux_scan x 2) of
        (Inl e, es) \<Rightarrow> Some (Some e, es)
      | (Inr again, es) \<Rightarrow>
          if roster \<noteq> again then Some (Some ESTALE, es)
          else case usb_compare (ux_files x 2) usb_interface_files attrs of None \<Rightarrow> None
          | Some (False, fs) \<Rightarrow> Some (Some ESTALE, es @ fs)
          | Some (True, fs) \<Rightarrow>
              (case usb_second_pass (ux_node x) eps of None \<Rightarrow> None
               | Some (False, gs) \<Rightarrow> Some (Some ESTALE, es @ fs @ gs)
               | Some (True, gs) \<Rightarrow>
                   Some (case ux_final x of Got c \<Rightarrow> if usb_same identity c then None else Some ESTALE | Failed _ \<Rightarrow> Some ESTALE,
                     es @ fs @ gs)))"

definition usb_collect :: "usb_env \<Rightarrow> usb_stat \<Rightarrow> nat \<Rightarrow> ((errno + usb_snapshot) \<times> fd_event list) option" where
  "usb_collect x identity limit =
     (case usb_attributes (ux_files x 1) usb_interface_files of None \<Rightarrow> None
      | Some (attrs, es1) \<Rightarrow> (case usb_read 128 (ux_files x 1 ''interface'') of None \<Rightarrow> None
      | Some (text, es2) \<Rightarrow> (case usb_scan (ux_scan x 1) of
          (Inl e, es3) \<Rightarrow> Some (Inl e, es1 @ es2 @ es3)
        | (Inr roster, es3) \<Rightarrow> (case usb_first_pass (ux_node x) (take limit (ur_names roster)) of None \<Rightarrow> None
           | Some (Some e, eps, es4) \<Rightarrow> Some (Inl e, es1 @ es2 @ es3 @ es4 @ close_all eps)
           | Some (None, eps, es4) \<Rightarrow>
               map_option (\<lambda>(e, es5). (case e of Some e \<Rightarrow> Inl e
                   | None \<Rightarrow> Inr \<lparr>uk_fields = attrs, uk_text = text, uk_roster = roster, uk_endpoints = eps\<rparr>,
                   es1 @ es2 @ es3 @ es4 @ es5 @ close_all eps))
                 (usb_recheck x identity attrs roster eps)))))"

definition usb_interface :: "usb_env \<Rightarrow> string \<Rightarrow> nat \<Rightarrow> ((errno + usb_snapshot) \<times> fd_event list) option" where
  "usb_interface x path limit =
     (case ux_open x of Failed e \<Rightarrow> Some (Inl e, [])
      | Got _ \<Rightarrow> (case ux_identity x of Failed e \<Rightarrow> Some (Inl e, [Opens path, Closes path])
         | Got identity \<Rightarrow> map_option (\<lambda>(r, es). (r, Opens path # es @ [Closes path])) (usb_collect x identity limit)))"

section \<open>The operation of the module\<close>

definition usb_failure :: "(errno \<Rightarrow> string) \<Rightarrow> errno \<Rightarrow> lua_return" where
  "usb_failure strerror e = Returns [LNil, LStr (''cached USB interface: '' @ strerror e), LInt e,
     if e = ESTALE then LStr ''changed'' else LNil]"

definition usb_fields :: "usb_value list \<Rightarrow> string list \<Rightarrow> (string \<times> lua) list" where
  "usb_fields vs names = concat (map (\<lambda>(n, v). case v of Inr d \<Rightarrow> [(n, LStr d)] | Inl _ \<Rightarrow> []) (zip names vs))
     @ [(''errors'', mk_tab (concat (map (\<lambda>(n, v). case v of Inl e \<Rightarrow> [(n, LInt e)] | Inr _ \<Rightarrow> []) (zip names vs))))]"

definition usb_link :: "string \<Rightarrow> string option \<Rightarrow> (string \<times> lua) list" where
  "usb_link k target = (case target of Some t \<Rightarrow> if length t < 4096 then [(k, LStr t)] else [] | None \<Rightarrow> [])"

definition usb_table :: "usb_env \<Rightarrow> usb_snapshot \<Rightarrow> lua" where
  "usb_table x s =
     (let r = uk_roster s; kept = length (uk_endpoints s) in
      mk_tab ([(''fields'', mk_tab (usb_fields (uk_fields s) usb_interface_files))]
       @ (case uk_text s of Inr d \<Rightarrow> [(''interface'', LStr d)] | Inl _ \<Rightarrow> [])
       @ usb_link ''source_target'' (ux_target x) @ usb_link ''driver_target'' (ux_driver x)
       @ [(''guarded'', LBool True), (''truncated'', LBool (ur_truncated r \<or> kept < length (ur_names r))),
          (''malformed_entries'', LBool (ur_malformed r)), (''total_known'', LBool (\<not> ur_truncated r \<and> \<not> ur_malformed r)),
          (''total'', LInt (int (length (ur_names r)))),
          (''endpoints'', mk_array (map (\<lambda>ep. mk_tab (usb_fields (up_values ep) usb_endpoint_files
              @ [(''name'', LStr (up_name ep))])) (uk_endpoints s)))]))"

definition read_usb_interface :: "(errno \<Rightarrow> string) \<Rightarrow> usb_env \<Rightarrow> string \<Rightarrow> int \<Rightarrow> (lua_return \<times> fd_event list) option" where
  "read_usb_interface strerror x path limit =
     (if \<not> (path \<noteq> [] \<and> length path < 4096 \<and> hd path = CHR ''/'' \<and> NUL \<notin> set path)
      then Some (Bad_argument 1 ''absolute NUL-free path required'', [])
      else if \<not> (0 \<le> limit \<and> limit \<le> 30) then Some (Bad_argument 2 ''limit must be in 0..30'', [])
      else map_option (\<lambda>(r, es). (case r of Inl e \<Rightarrow> usb_failure strerror e | Inr s \<Rightarrow> Returns [usb_table x s], es))
        (usb_interface x path (nat limit)))"

section \<open>Descriptors\<close>

lemma mset_hold_cong: "mset fds = mset gds \<Longrightarrow> mset (hold fds es) = mset (hold gds es)"
  by (induction fds es arbitrary: gds rule: hold.induct) auto

lemma mset_hold_closes: "mset (hold fds (map Closes ns)) = mset fds - mset ns"
  by (induction ns arbitrary: fds) auto

lemma usb_read_held: "usb_read capacity f = Some (v, es) \<Longrightarrow> hold fds es = fds"
  by (auto simp: usb_read_def split: answer.splits if_splits)

lemma usb_attribute_held: "usb_attribute f = Some (v, es) \<Longrightarrow> hold fds es = fds"
  by (simp add: usb_attribute_def usb_read_held)

lemma usb_attributes_held: "usb_attributes files ns = Some (vs, es) \<Longrightarrow> hold fds es = fds"
proof (induction ns arbitrary: vs es)
  case (Cons n ns)
  then obtain v es1 ws es2 where "usb_attribute (files n) = Some (v, es1)" "usb_attributes files ns = Some (ws, es2)"
      "es = es1 @ es2" by (auto split: option.splits)
  then show ?case using Cons.IH usb_attribute_held by simp
qed simp

lemma usb_compare_held: "usb_compare files ns ws = Some (ok, es) \<Longrightarrow> hold fds es = fds"
proof (induction files ns ws arbitrary: ok es rule: usb_compare.induct)
  case (1 files n ns w ws)
  obtain v es1 where a: "usb_attribute (files n) = Some (v, es1)"
    using "1.prems" by (cases "usb_attribute (files n)") auto
  show ?case
  proof (cases "w = v")
    case True
    then obtain es2 where "usb_compare files ns ws = Some (ok, es2)" "es = es1 @ es2" using "1.prems" a by auto
    then show ?thesis using "1.IH" [OF a refl] True usb_attribute_held [OF a] by simp
  qed (use "1.prems" a usb_attribute_held [OF a] in auto)
qed auto

lemma usb_scan_held: "usb_scan d = (r, es) \<Longrightarrow> hold fds es = fds"
  by (auto simp: usb_scan_def split: answer.splits prod.splits)

lemma usb_second_held: "usb_second_pass node eps = Some (ok, es) \<Longrightarrow> hold fds es = fds"
proof (induction eps arbitrary: ok es)
  case (Cons ep eps)
  show ?case
  proof (cases "up_known ep \<and> \<not> usb_unchanged (node (up_name ep)) \<or> up_error ep \<noteq> None")
    case True
    then show ?thesis using Cons by (auto split: if_splits)
  next
    case False
    then obtain b es1 where c: "usb_compare (un_files (node (up_name ep)) 2) usb_endpoint_files (up_values ep) = Some (b, es1)"
      using Cons.prems by (auto split: option.splits)
    show ?thesis using Cons False c usb_compare_held [OF c] by (cases b) auto
  qed
qed simp

definition held_names :: "usb_endpoint list \<Rightarrow> string list" where
  "held_names eps = concat (map (\<lambda>ep. if up_held ep then [up_name ep] else []) eps)"

lemma close_all_held: "close_all eps = map Closes (held_names eps)"
  by (induction eps) (auto simp: close_all_def held_names_def)

lemma opened_event_held: "mset (hold fds (opened_event name h)) = mset fds + (if h then {#name#} else {#})"
  by (simp add: opened_event_def)

lemma first_pass_cases:
  assumes "usb_first_pass node (name # ns) = Some (e, eps, es)" "usb_endpoint_open (node name) = (known, error, h)"
  obtains (Changed) "e = Some ESTALE" "es = opened_event name h" "error \<noteq> None" "error = Some ENOENT \<or> error = Some ESTALE"
      "eps = [\<lparr>up_name = name, up_known = known, up_error = error, up_values = [], up_held = h\<rparr>]"
    | (Read) vs es1 eps' es2 where "error \<noteq> Some ENOENT" "error \<noteq> Some ESTALE"
      "(case error of Some e \<Rightarrow> Some (replicate 6 (Inl e), []) | None \<Rightarrow> usb_attributes (un_files (node name) 1) usb_endpoint_files) = Some (vs, es1)"
      "usb_first_pass node ns = Some (e, eps', es2)" "es = opened_event name h @ es1 @ es2"
      "eps = \<lparr>up_name = name, up_known = known, up_error = error, up_values = vs, up_held = h\<rparr> # eps'"
proof (cases "error = Some ENOENT \<or> error = Some ESTALE")
  case True
  then show thesis using assms by (intro Changed) auto
next
  case False
  let ?r = "case error of Some e \<Rightarrow> Some (replicate 6 (Inl e), []) | None \<Rightarrow> usb_attributes (un_files (node name) 1) usb_endpoint_files"
  obtain vs es1 where r: "?r = Some (vs, es1)" using assms False by (cases ?r) (auto simp: Let_def)
  obtain q where q: "usb_first_pass node ns = Some q" using assms False r by (auto simp: Let_def)
  obtain e' eps' es2 where q': "q = (e', eps', es2)" by (cases q)
  show thesis using assms False r q q' by (intro Read [OF _ _ r, of eps' es2]) (auto simp: Let_def)
qed

lemma usb_first_held:
  "usb_first_pass node ns = Some (e, eps, es) \<Longrightarrow> mset (hold fds es) = mset fds + mset (held_names eps)"
proof (induction ns arbitrary: e eps es fds)
  case (Cons name ns)
  obtain known error h where o: "usb_endpoint_open (node name) = (known, error, h)" by (cases "usb_endpoint_open (node name)")
  from Cons.prems o show ?case
  proof (cases rule: first_pass_cases)
    case Changed
    then show ?thesis by (simp add: opened_event_held held_names_def)
  next
    case (Read vs es1 eps' es2)
    have "hold fds es1 = fds" for fds using Read(3) usb_attributes_held by (cases error) auto
    then have "mset (hold fds es) = mset (hold fds (opened_event name h)) + mset (held_names eps')"
      using Cons.IH [OF Read(4)] Read(5) by simp
    then show ?thesis using Read(6) by (simp add: opened_event_held held_names_def)
  qed
qed (simp add: held_names_def)

lemma usb_recheck_held: "usb_recheck x identity attrs roster eps = Some (e, es) \<Longrightarrow> hold fds es = fds"
  by (auto simp: usb_recheck_def usb_scan_held usb_compare_held usb_second_held
      split: prod.splits sum.splits if_splits option.splits bool.splits)

text \<open>The stages of the collection.\<close>

lemma usb_collect_cases:
  assumes "usb_collect x identity limit = Some (r, es)"
  obtains attrs es1 label es2 es3 where
    "usb_attributes (ux_files x 1) usb_interface_files = Some (attrs, es1)"
    "usb_read 128 (ux_files x 1 ''interface'') = Some (label, es2)"
    "\<exists>e. usb_scan (ux_scan x 1) = (Inl e, es3) \<and> r = Inl e \<and> es = es1 @ es2 @ es3
     \<or> (\<exists>roster eps es4. usb_scan (ux_scan x 1) = (Inr roster, es3)
          \<and> usb_first_pass (ux_node x) (take limit (ur_names roster)) = Some (Some e, eps, es4)
          \<and> r = Inl e \<and> es = es1 @ es2 @ es3 @ es4 @ close_all eps)
     \<or> (\<exists>roster eps es4 e es5. usb_scan (ux_scan x 1) = (Inr roster, es3)
          \<and> usb_first_pass (ux_node x) (take limit (ur_names roster)) = Some (None, eps, es4)
          \<and> usb_recheck x identity attrs roster eps = Some (e, es5)
          \<and> r = (case e of Some e \<Rightarrow> Inl e | None \<Rightarrow> Inr \<lparr>uk_fields = attrs, uk_text = label, uk_roster = roster, uk_endpoints = eps\<rparr>)
          \<and> es = es1 @ es2 @ es3 @ es4 @ es5 @ close_all eps)"
proof -
  obtain attrs es1 where a: "usb_attributes (ux_files x 1) usb_interface_files = Some (attrs, es1)"
    using assms by (auto simp: usb_collect_def split: option.splits)
  obtain label es2 where t: "usb_read 128 (ux_files x 1 ''interface'') = Some (label, es2)"
    using assms a by (auto simp: usb_collect_def split: option.splits)
  obtain s es3 where s: "usb_scan (ux_scan x 1) = (s, es3)" by (cases "usb_scan (ux_scan x 1)")
  show thesis
  proof (cases s)
    case (Inl e)
    then show thesis using assms a t s by (intro that [OF a t, of es3]) (auto simp: usb_collect_def)
  next
    case (Inr roster)
    obtain e eps es4 where f: "usb_first_pass (ux_node x) (take limit (ur_names roster)) = Some (e, eps, es4)"
      using assms a t s Inr by (auto simp: usb_collect_def split: option.splits)
    show thesis
    proof (cases e)
      case None
      then show thesis using assms a t s Inr f by (intro that [OF a t, of es3]) (auto simp: usb_collect_def)
    next
      case (Some e')
      then show thesis using assms a t s Inr f by (intro that [OF a t, of es3]) (auto simp: usb_collect_def)
    qed
  qed
qed

lemma usb_collect_held:
  assumes "usb_collect x identity limit = Some (r, es)"
  shows "mset (hold fds es) = mset fds"
  using assms
proof (cases rule: usb_collect_cases)
  case (1 attrs es1 label es2 es3)
  have h: "hold fds es1 = fds" "hold fds es2 = fds" "hold fds es3 = fds" for fds
    using usb_attributes_held [OF 1(1)] usb_read_held [OF 1(2)] 1(3) usb_scan_held by auto
  have f: "mset (hold (hold fds es4) (close_all eps)) = mset fds"
    if "usb_first_pass (ux_node x) ns = Some (e, eps, es4)" for ns e eps es4
    using usb_first_held [OF that, of fds] by (simp add: close_all_held mset_hold_closes)
  show ?thesis using 1(3) h f usb_recheck_held by auto
qed

section \<open>A snapshot held still\<close>

lemma usb_compare_same:
  "length ws = length ns \<Longrightarrow> usb_compare files ns ws = Some (True, es) \<Longrightarrow> usb_attributes files ns = Some (ws, es)"
proof (induction files ns ws arbitrary: es rule: usb_compare.induct)
  case (1 files n ns w ws)
  obtain v es1 where a: "usb_attribute (files n) = Some (v, es1)"
    using "1.prems" by (cases "usb_attribute (files n)") auto
  show ?case using 1 a by (cases "w = v") auto
qed auto

lemma usb_attributes_length: "usb_attributes files ns = Some (vs, es) \<Longrightarrow> length vs = length ns"
  by (induction ns arbitrary: vs es) (auto split: option.splits)

text \<open>An endpoint read twice with the same result: its identity and its attributes.\<close>

definition endpoint_steady :: "(string \<Rightarrow> usb_node) \<Rightarrow> usb_endpoint \<Rightarrow> bool" where
  "endpoint_steady node ep \<longleftrightarrow> (up_known ep \<longrightarrow> usb_unchanged (node (up_name ep))) \<and>
     (up_error ep = None \<longrightarrow> up_known ep \<and>
        (\<exists>es fs. usb_attributes (un_files (node (up_name ep)) 1) usb_endpoint_files = Some (up_values ep, es)
          \<and> usb_attributes (un_files (node (up_name ep)) 2) usb_endpoint_files = Some (up_values ep, fs)))"

definition endpoint_read :: "(string \<Rightarrow> usb_node) \<Rightarrow> usb_endpoint \<Rightarrow> bool" where
  "endpoint_read node ep \<longleftrightarrow> (up_error ep = None \<longrightarrow> up_known ep
     \<and> (\<exists>es. usb_attributes (un_files (node (up_name ep)) 1) usb_endpoint_files = Some (up_values ep, es)))"

lemma first_pass_read:
  "usb_first_pass node ns = Some (None, eps, es) \<Longrightarrow> list_all (endpoint_read node) eps \<and> map up_name eps = ns"
proof (induction ns arbitrary: eps es)
  case (Cons name ns)
  obtain known error h where o: "usb_endpoint_open (node name) = (known, error, h)" by (cases "usb_endpoint_open (node name)")
  from Cons.prems o show ?case
  proof (cases rule: first_pass_cases)
    case (Read vs es1 eps' es2)
    have "error = None \<Longrightarrow> known" using o
      by (auto simp: usb_endpoint_open_def split: answer.splits if_splits)
    then show ?thesis using Read Cons.IH by (auto simp: endpoint_read_def)
  qed simp
qed simp

lemma second_pass_steady:
  "usb_second_pass node eps = Some (True, es) \<Longrightarrow> list_all (endpoint_read node) eps \<Longrightarrow> list_all (endpoint_steady node) eps"
proof (induction eps arbitrary: es)
  case (Cons ep eps)
  have same: "up_known ep \<longrightarrow> usb_unchanged (node (up_name ep))" using Cons.prems(1) by (auto split: if_splits)
  show ?case
  proof (cases "up_error ep")
    case (Some e)
    then show ?thesis using Cons same by (auto simp: endpoint_steady_def split: if_splits)
  next
    case None
    then obtain b es1 where c: "usb_compare (un_files (node (up_name ep)) 2) usb_endpoint_files (up_values ep) = Some (b, es1)"
      using Cons.prems same by (auto split: option.splits if_splits)
    then have b: b using Cons.prems(1) None same by (cases b) (auto split: if_splits)
    obtain fs where fs: "usb_attributes (un_files (node (up_name ep)) 1) usb_endpoint_files = Some (up_values ep, fs)" "up_known ep"
      using Cons.prems(2) None by (auto simp: endpoint_read_def)
    have "usb_attributes (un_files (node (up_name ep)) 2) usb_endpoint_files = Some (up_values ep, es1)"
      using usb_compare_same [OF usb_attributes_length [OF fs(1)]] c b by simp
    then show ?thesis using Cons None same fs c b by (auto simp: endpoint_steady_def split: if_splits)
  qed
qed simp

definition snapshot_steady :: "usb_env \<Rightarrow> nat \<Rightarrow> usb_snapshot \<Rightarrow> bool" where
  "snapshot_steady x limit s \<longleftrightarrow>
     (\<exists>es fs. usb_scan (ux_scan x 1) = (Inr (uk_roster s), es) \<and> usb_scan (ux_scan x 2) = (Inr (uk_roster s), fs))
     \<and> (\<exists>es fs. usb_attributes (ux_files x 1) usb_interface_files = Some (uk_fields s, es)
          \<and> usb_attributes (ux_files x 2) usb_interface_files = Some (uk_fields s, fs))
     \<and> map up_name (uk_endpoints s) = take limit (ur_names (uk_roster s))
     \<and> list_all (endpoint_steady (ux_node x)) (uk_endpoints s)
     \<and> (\<exists>i c. ux_identity x = Got i \<and> ux_final x = Got c \<and> usb_same i c)"

text \<open>
  C27. A USB snapshot is given only when it held still: both scans found the same endpoints,
  both readings of the interface's and of every readable endpoint's attributes gave the same
  values, every endpoint directory and the interface directory are the same ones as before,
  and the endpoints reported are the first ones of the sorted roster. On every path all
  descriptors are closed.
\<close>

theorem usb_snapshot_steady:
  assumes "usb_interface x path limit = Some (r, es)"
  shows "held es = [] \<and> (\<forall>s. r = Inr s \<longrightarrow> snapshot_steady x limit s)"
proof (cases "\<exists>i. ux_open x = Got () \<and> ux_identity x = Got i")
  case False
  then show ?thesis using assms by (auto simp: usb_interface_def split: answer.splits)
next
  case True
  then obtain i fs where o: "ux_open x = Got ()" "ux_identity x = Got i"
    and c: "usb_collect x i limit = Some (r, fs)" "es = Opens path # fs @ [Closes path]"
    using assms by (auto simp: usb_interface_def)
  have "mset (hold [path] fs) = {#path#}" using usb_collect_held [OF c(1), of "[path]"] by simp
  then have "hold [path] fs = [path]" by (metis mset_single_iff)
  then have h: "held es = []" using c(2) by simp
  have "snapshot_steady x limit s" if s: "r = Inr s" for s
    using c(1)
  proof (cases rule: usb_collect_cases)
    case (1 attrs es1 label es2 es3)
    then obtain roster eps es4 es5 where 2: "usb_scan (ux_scan x 1) = (Inr roster, es3)"
        "usb_first_pass (ux_node x) (take limit (ur_names roster)) = Some (None, eps, es4)"
        "usb_recheck x i attrs roster eps = Some (None, es5)"
        "s = \<lparr>uk_fields = attrs, uk_text = label, uk_roster = roster, uk_endpoints = eps\<rparr>"
      using s by (auto split: option.splits)
    obtain gs hs ks where 3: "usb_scan (ux_scan x 2) = (Inr roster, gs)"
        "usb_compare (ux_files x 2) usb_interface_files attrs = Some (True, hs)"
        "usb_second_pass (ux_node x) eps = Some (True, ks)" "\<exists>c. ux_final x = Got c \<and> usb_same i c"
      using 2(3) by (auto simp: usb_recheck_def split: prod.splits sum.splits if_splits option.splits bool.splits answer.splits)
    have "usb_attributes (ux_files x 2) usb_interface_files = Some (attrs, hs)"
      using usb_compare_same [OF usb_attributes_length [OF 1(1)] 3(2)] .
    then show ?thesis unfolding snapshot_steady_def
      using 1(1) 2 3 o(2) first_pass_read [OF 2(2)] second_pass_steady [OF 3(3)] by auto
  qed
  then show ?thesis using h by blast
qed

text \<open>An interface with one endpoint, whose attributes all read \<open>01\<close>.\<close>

lemma usb_read_loop_step:
  "0 < room \<Longrightarrow> usb_read_loop (Got c # ans) content n room = (let m = moved c room content in
      if m = 0 then Some (Inr [])
      else map_option (map_sum id ((@) (take m content))) (usb_read_loop ans (drop m content) n (room - m)))"
  by (cases room) auto

definition usb_sample_stat :: "bool \<Rightarrow> usb_stat" where
  "usb_sample_stat dir = \<lparr>us_dir = dir, us_reg = \<not> dir, us_dev = 5, us_ino = 9\<rparr>"

definition usb_sample_file :: usb_file where
  "usb_sample_file = \<lparr>uf_before = Got (usb_sample_stat False), uf_open = Got (), uf_opened = Got (usb_sample_stat False),
     uf_reads = [Got 2, Got 0], uf_content = ''01'', uf_close = Got ()\<rparr>"

definition usb_sample_node :: usb_node where
  "usb_sample_node = \<lparr>un_identity = Got (usb_sample_stat True), un_open = Got (), un_opened = Got (usb_sample_stat True),
     un_again = Got (usb_sample_stat True), un_files = (\<lambda>_ _. usb_sample_file)\<rparr>"

definition usb_sample_dir :: usb_dir where
  "usb_sample_dir = \<lparr>ud_open = Got (), ud_stream = Got (), ud_entries = [Got ''.'', Got ''ep_81'', Got ''driver''], ud_close = Got ()\<rparr>"

definition usb_sample :: usb_env where
  "usb_sample = \<lparr>ux_open = Got (), ux_identity = Got (usb_sample_stat True), ux_files = (\<lambda>_ _. usb_sample_file),
     ux_target = Some ''t'', ux_driver = None, ux_scan = (\<lambda>_. usb_sample_dir), ux_node = (\<lambda>_. usb_sample_node),
     ux_final = Got (usb_sample_stat True)\<rparr>"

definition usb_sample_snapshot :: usb_snapshot where
  "usb_sample_snapshot = \<lparr>uk_fields = replicate 6 (Inr ''01''), uk_text = Inr ''01'',
     uk_roster = \<lparr>ur_names = [''ep_81''], ur_truncated = False, ur_malformed = False\<rparr>,
     uk_endpoints = [\<lparr>up_name = ''ep_81'', up_known = True, up_error = None, up_values = replicate 6 (Inr ''01''), up_held = True\<rparr>]\<rparr>"

lemma usb_sample_read: "2 \<le> capacity \<Longrightarrow> usb_read capacity usb_sample_file = Some (Inr ''01'', [Opens ''attribute'', Closes ''attribute''])"
  by (simp add: usb_read_def usb_sample_file_def usb_sample_stat_def usb_read_loop_step moved_def usb_close_def)

lemma usb_sample_scan: "usb_scan usb_sample_dir = (Inr (uk_roster usb_sample_snapshot), [Opens ''scan'', Closes ''scan''])"
proof -
  have "usb_name ''ep_81''" by (simp add: usb_name_def usb_hex_def code_def)
  then show ?thesis by (simp add: usb_scan_def usb_sample_dir_def usb_sample_snapshot_def)
qed

lemma usb_sample_run: "\<exists>es. usb_interface usb_sample ''/i'' 30 = Some (Inr usb_sample_snapshot, es)"
  by (simp add: usb_interface_def usb_collect_def usb_recheck_def usb_sample_def usb_sample_read usb_sample_scan
      usb_attribute_def usb_interface_files_def usb_endpoint_files_def usb_endpoint_open_def usb_sample_node_def
      usb_sample_stat_def usb_same_def usb_unchanged_def usb_sample_snapshot_def numeral_eq_Suc)

lemma usb_snapshot_steady_witness:
  "\<exists>es. usb_interface usb_sample ''/i'' 30 = Some (Inr usb_sample_snapshot, es) \<and> held es = []
     \<and> snapshot_steady usb_sample 30 usb_sample_snapshot"
proof -
  obtain es where run: "usb_interface usb_sample ''/i'' 30 = Some (Inr usb_sample_snapshot, es)" using usb_sample_run by blast
  show ?thesis using run usb_snapshot_steady [OF run] by blast
qed

end
